(* ===== verification/Prelude.thy ===== *)
theory Prelude
  imports Main "HOL-Library.AList" "HOL-Library.Multiset"
begin

text \<open>
  Shared vocabulary of the development: the result type used for every function of the
  program that can raise, Python's string splitting and joining, first-index search,
  dictionaries as association lists that keep insertion order, and the lemma collections
  the component theories extend.
\<close>

named_theorems task_simps \<open>codecs and predicates of the task model\<close>
named_theorems dict_simps \<open>look-up laws of ordered dictionaries\<close>
named_theorems queue_simps \<open>message accounting of the queues\<close>


section \<open>Errors as values\<close>

text \<open>
  Exceptions are identified by class only; their messages are dropped. \<open>RollbackRequired\<close>,
  \<open>ServiceFault\<close> and the other application classes are listed by the name they have in
  the program.
\<close>

datatype py_error =
    ValueError
  | TypeError
  | KeyError
  | IndexError
  | AttributeError
  | TimeoutError
  | FileNotFoundError
  | RuntimeError
  | ValidationError
  | RollbackRequired
  | CircuitOpenError
  | ServiceFault
  | LookupError
  | SQLCompilationError
  | ConfigurationValidationError
  | OSError
  | OverflowError
  | TryAgainLater
  | UnboundLocalError
  | ColumnNotFoundError
  | NotImplementedError
  | MissingColumns
  | ImportError
  | RecursionError
  | CalledProcessError

type_synonym 'a res = "py_error + 'a"

abbreviation Err :: "py_error \<Rightarrow> 'a res" where
  "Err e \<equiv> Inl e"

abbreviation Ok :: "'a \<Rightarrow> 'a res" where
  "Ok x \<equiv> Inr x"

definition res_bind :: "'a res \<Rightarrow> ('a \<Rightarrow> 'b res) \<Rightarrow> 'b res" where
  "res_bind m f = (case m of Inl e \<Rightarrow> Inl e | Inr x \<Rightarrow> f x)"

lemma res_bind_simps [simp]:
  "res_bind (Inl e) f = Inl e"
  "res_bind (Inr x) f = f x"
  by (simp_all add: res_bind_def)

lemma res_bind_assoc [simp]: "res_bind (res_bind m f) g = res_bind m (\<lambda>x. res_bind (f x) g)"
  by (cases m) simp_all

lemma res_bind_Ok_iff:
  "res_bind m f = Inr y \<longleftrightarrow> (\<exists>x. m = Inr x \<and> f x = Inr y)"
  by (cases m) auto

lemma res_bind_Err_iff:
  "res_bind m f = Inl e \<longleftrightarrow> m = Inl e \<or> (\<exists>x. m = Inr x \<and> f x = Inl e)"
  by (cases m) auto

text \<open>A comprehension whose body can raise: the first error ends it.\<close>

fun res_map :: "('a \<Rightarrow> 'b res) \<Rightarrow> 'a list \<Rightarrow> 'b list res" where
  "res_map f [] = Ok []"
| "res_map f (x # xs) = res_bind (f x) (\<lambda>y. res_bind (res_map f xs) (\<lambda>ys. Ok (y # ys)))"

lemma res_map_inv: "(\<And>x. f (g x) = Ok x) \<Longrightarrow> res_map f (map g xs) = Ok xs"
  by (induction xs) auto

lemma res_map_length: "res_map f xs = Ok ys \<Longrightarrow> length ys = length xs"
  by (induction xs arbitrary: ys) (auto simp: res_bind_Ok_iff)

lemma res_map_nth: "res_map f xs = Ok ys \<Longrightarrow> i < length xs \<Longrightarrow> f (xs ! i) = Ok (ys ! i)"
  by (induction xs arbitrary: ys i) (auto simp: res_bind_Ok_iff nth_Cons split: nat.split)


section \<open>Strings\<close>

text \<open>\<open>s.split(c)\<close> for a one-character separator: never the empty list.\<close>

fun py_split :: "char \<Rightarrow> string \<Rightarrow> string list" where
  "py_split c [] = [[]]"
| "py_split c (x # xs) =
     (if x = c then [] # py_split c xs
      else (case py_split c xs of [] \<Rightarrow> [[x]] | w # ws \<Rightarrow> (x # w) # ws))"

text \<open>\<open>sep.join(ws)\<close>.\<close>

fun py_join :: "string \<Rightarrow> string list \<Rightarrow> string" where
  "py_join sep [] = []"
| "py_join sep [w] = w"
| "py_join sep (w # v # ws) = w @ sep @ py_join sep (v # ws)"

lemma py_split_not_Nil [simp]: "py_split c s \<noteq> []"
  by (induction s) (auto split: list.splits)

lemma py_split_Cons_cases:
  obtains w ws where "py_split c s = w # ws"
  by (cases "py_split c s") auto

lemma py_split_free [simp]: "c \<notin> set w \<Longrightarrow> py_split c w = [w]"
  by (induction w) auto

lemma py_split_append [simp]:
  "c \<notin> set w \<Longrightarrow> py_split c (w @ c # s) = w # py_split c s"
  by (induction w) auto

lemma py_split_join:
  assumes "ws \<noteq> []" "\<forall>w\<in>set ws. c \<notin> set w"
  shows "py_split c (py_join [c] ws) = ws"
  using assms by (induction "[c]" ws rule: py_join.induct) auto

lemma py_join_Cons: "ws \<noteq> [] \<Longrightarrow> py_join sep (w # ws) = w @ sep @ py_join sep ws"
  by (cases ws) auto

lemma py_join_Cons_char: "py_join sep ((x # w) # ws) = x # py_join sep (w # ws)"
  by (cases ws) auto

lemma py_join_split: "py_join [c] (py_split c s) = s"
proof (induction s)
  case (Cons x s)
  obtain w ws where "py_split c s = w # ws" by (rule py_split_Cons_cases)
  then show ?case using Cons
    by (auto simp: py_join_Cons py_join_Cons_char)
qed simp

lemma py_split_parts_free: "w \<in> set (py_split c s) \<Longrightarrow> c \<notin> set w"
proof (induction s arbitrary: w)
  case (Cons x s)
  obtain v vs where "py_split c s = v # vs" by (rule py_split_Cons_cases)
  then show ?case using Cons by (auto split: if_splits)
qed simp


section \<open>Lists\<close>

text \<open>\<open>xs.index(x)\<close>: the first position, \<open>None\<close> where Python raises.\<close>

fun py_index :: "'a list \<Rightarrow> 'a \<Rightarrow> nat option" where
  "py_index [] a = None"
| "py_index (x # xs) a = (if x = a then Some 0 else map_option Suc (py_index xs a))"

lemma py_index_None_iff [simp]: "py_index xs a = None \<longleftrightarrow> a \<notin> set xs"
  by (induction xs) auto

lemma py_index_SomeD:
  "py_index xs a = Some i \<Longrightarrow> i < length xs \<and> xs ! i = a \<and> a \<notin> set (take i xs)"
  by (induction xs arbitrary: i) (auto split: if_splits)

lemma py_index_Some_iff:
  "py_index xs a = Some i \<longleftrightarrow> i < length xs \<and> xs ! i = a \<and> a \<notin> set (take i xs)"
proof
  assume "i < length xs \<and> xs ! i = a \<and> a \<notin> set (take i xs)"
  then show "py_index xs a = Some i"
  proof (induction xs arbitrary: i)
    case (Cons x xs)
    then show ?case by (cases i) auto
  qed simp
qed (rule py_index_SomeD)

lemma py_index_in: "a \<in> set xs \<Longrightarrow> \<exists>i. py_index xs a = Some i"
  by (cases "py_index xs a") auto

lemma py_index_distinct:
  "distinct xs \<Longrightarrow> i < length xs \<Longrightarrow> py_index xs (xs ! i) = Some i"
  by (auto simp: py_index_Some_iff in_set_conv_nth distinct_conv_nth)


section \<open>Ordered dictionaries\<close>

text \<open>
  A Python dict, when its order matters, is an association list with distinct keys:
  \<open>AList.update\<close> overwrites in place or appends, which is the order \<open>d[k] = v\<close> keeps.
\<close>

type_synonym ('k, 'v) dict = "('k \<times> 'v) list"

abbreviation dict_ok :: "('k, 'v) dict \<Rightarrow> bool" where
  "dict_ok d \<equiv> distinct (map fst d)"

abbreviation dict_get :: "('k, 'v) dict \<Rightarrow> 'k \<Rightarrow> 'v option" where
  "dict_get d k \<equiv> map_of d k"

abbreviation dict_put :: "'k \<Rightarrow> 'v \<Rightarrow> ('k, 'v) dict \<Rightarrow> ('k, 'v) dict" where
  "dict_put k v d \<equiv> AList.update k v d"

abbreviation dict_del :: "'k \<Rightarrow> ('k, 'v) dict \<Rightarrow> ('k, 'v) dict" where
  "dict_del k d \<equiv> AList.delete k d"

lemma dict_get_put [dict_simps]:
  "dict_get (dict_put k v d) k' = (if k' = k then Some v else dict_get d k')"
  by (simp add: update_conv')

lemma dict_get_del [dict_simps]:
  "dict_get (dict_del k d) k' = (if k' = k then None else dict_get d k')"
  by (simp add: delete_conv')

lemma dict_ok_put [simp, intro]: "dict_ok d \<Longrightarrow> dict_ok (dict_put k v d)"
  by (rule distinct_update)

lemma dict_ok_del [simp, intro]: "dict_ok d \<Longrightarrow> dict_ok (dict_del k d)"
  by (rule distinct_delete)

lemma dict_keys_put [dict_simps]: "fst ` set (dict_put k v d) = insert k (fst ` set d)"
  by (metis dom_map_of_conv_image_fst dom_fun_upd option.distinct(1) update_conv')

lemma dict_keys_del [dict_simps]: "fst ` set (dict_del k d) = fst ` set d - {k}"
proof -
  have "set (map fst (dict_del k d)) = set (map fst d) - {k}" by (simp add: delete_keys)
  then show ?thesis by simp
qed

lemma mset_dict_del:
  assumes "dict_ok d" "dict_get d k = Some v"
  shows "mset (map f d) = add_mset (f (k, v)) (mset (map f (dict_del k d)))"
  using assms
proof (induction d)
  case (Cons e d)
  obtain k' v' where [simp]: "e = (k', v')" by fastforce
  show ?case
  proof (cases "k' = k")
    case True
    then have "dict_del k d = d" using Cons.prems by (auto intro: delete_idem)
    then show ?thesis using True Cons.prems by simp
  next
    case False
    then show ?thesis using Cons by simp
  qed
qed simp

lemma mset_dict_put:
  assumes "k \<notin> fst ` set d"
  shows "mset (map f (dict_put k v d)) = add_mset (f (k, v)) (mset (map f d))"
  using assms by (induction d) auto

text \<open>\<open>s.upper()\<close> and \<open>s.lower()\<close> on ASCII letters.\<close>

definition char_lower :: "char \<Rightarrow> char" where
  "char_lower c = (let n = (of_char c :: nat) in if 65 \<le> n \<and> n \<le> 90 then char_of (n + 32) else c)"

definition char_upper :: "char \<Rightarrow> char" where
  "char_upper c = (let n = (of_char c :: nat) in if 97 \<le> n \<and> n \<le> 122 then char_of (n - 32) else c)"

abbreviation str_lower :: "string \<Rightarrow> string" where
  "str_lower \<equiv> map char_lower"

abbreviation str_upper :: "string \<Rightarrow> string" where
  "str_upper \<equiv> map char_upper"

text \<open>\<open>str(n)\<close> of a natural number and of an integer.\<close>

fun show_nat :: "nat \<Rightarrow> string" where
  "show_nat n = (if n < 10 then [char_of (48 + n)] else show_nat (n div 10) @ [char_of (48 + n mod 10)])"

declare show_nat.simps [simp del]

definition show_int :: "int \<Rightarrow> string" where
  "show_int i = (if i < 0 then CHR ''-'' # show_nat (nat (- i)) else show_nat (nat i))"

definition is_digit :: "char \<Rightarrow> bool" where
  "is_digit c \<longleftrightarrow> 48 \<le> (of_char c :: nat) \<and> (of_char c :: nat) \<le> 57"

definition digit_val :: "char \<Rightarrow> nat" where
  "digit_val c = of_char c - 48"

text \<open>\<open>int(s)\<close> for a string of decimal digits.\<close>

definition read_nat :: "string \<Rightarrow> nat option" where
  "read_nat s = (if s \<noteq> [] \<and> list_all is_digit s
     then Some (foldl (\<lambda>n c. 10 * n + digit_val c) 0 s) else None)"

lemma digit_char:
  assumes "n < 10"
  shows "is_digit (char_of (48 + n))" "digit_val (char_of (48 + n)) = n"
  using assms by (simp_all add: is_digit_def digit_val_def of_char_of)

lemma show_nat_ne [simp]: "show_nat n \<noteq> []"
  by (subst show_nat.simps) simp

lemma show_nat_digits: "list_all is_digit (show_nat n)"
proof (induction n rule: show_nat.induct)
  case (1 n)
  then show ?case by (subst show_nat.simps) (auto simp: digit_char)
qed

lemma show_nat_value: "foldl (\<lambda>n c. 10 * n + digit_val c) 0 (show_nat n) = n"
proof (induction n rule: show_nat.induct)
  case (1 n)
  then show ?case by (subst show_nat.simps) (auto simp: digit_char)
qed

lemma read_show_nat [simp]: "read_nat (show_nat n) = Some n"
  by (simp add: read_nat_def show_nat_digits show_nat_value)

lemma show_nat_inj: "show_nat m = show_nat n \<longleftrightarrow> m = n"
  by (metis option.inject read_show_nat)

lemma not_digit_in_show: "\<not> is_digit c \<Longrightarrow> c \<notin> set (show_nat n)"
  using show_nat_digits [of n] by (auto simp: list_all_iff)

end
