(* ===== verification/TaskModel.thy ===== *)
theory TaskModel
  imports Prelude
begin

text \<open>
  The task vocabulary of the ingestion orchestrator
  (\<open>apps/ingestion/src/core/models/task/status.py\<close>, \<open>enums.py\<close>, \<open>base.py\<close>): execution
  statuses, file signals, task identities and the colon-delimited cache keys that carry a
  task's whole routing state.
\<close>


section \<open>Execution status\<close>

datatype exec_status =
    PENDING | PROVISIONED | WAITING | DISPATCHED
  | RUNNING
  | SUCCESS | FAILED | CANCELLED | EXPIRED
  | DEFERRED | BLOCKED | RETRY
  | UNKNOWN

definition all_statuses :: "exec_status list" where
  "all_statuses = [PENDING, PROVISIONED, WAITING, DISPATCHED, RUNNING, SUCCESS, FAILED,
     CANCELLED, EXPIRED, DEFERRED, BLOCKED, RETRY, UNKNOWN]"

fun status_value :: "exec_status \<Rightarrow> string" where
  "status_value PENDING = ''PENDING''"
| "status_value PROVISIONED = ''PROVISIONED''"
| "status_value WAITING = ''WAITING''"
| "status_value DISPATCHED = ''DISPATCHED''"
| "status_value RUNNING = ''RUNNING''"
| "status_value SUCCESS = ''SUCCESS''"
| "status_value FAILED = ''FAILED''"
| "status_value CANCELLED = ''CANCELLED''"
| "status_value EXPIRED = ''EXPIRED''"
| "status_value DEFERRED = ''DEFERRED''"
| "status_value BLOCKED = ''BLOCKED''"
| "status_value RETRY = ''RETRY''"
| "status_value UNKNOWN = ''UNKNOWN''"

text \<open>\<open>ExecutionStatus(v)\<close>: the member with that value, \<open>ValueError\<close> otherwise.\<close>

definition status_of :: "string \<Rightarrow> exec_status res" where
  "status_of v = (case find (\<lambda>s. status_value s = v) all_statuses of
     None \<Rightarrow> Err ValueError | Some s \<Rightarrow> Ok s)"

definition terminal_statuses :: "exec_status set" where
  "terminal_statuses = {SUCCESS, FAILED, CANCELLED, EXPIRED}"

definition active_statuses :: "exec_status set" where
  "active_statuses = {PENDING, PROVISIONED, WAITING, RUNNING, DISPATCHED}"

definition dispatched_statuses :: "exec_status set" where
  "dispatched_statuses = {DISPATCHED, RUNNING}"

definition is_terminal :: "exec_status \<Rightarrow> bool" where
  "is_terminal s \<longleftrightarrow> s \<in> terminal_statuses"

definition is_failure :: "exec_status \<Rightarrow> bool" where
  "is_failure s \<longleftrightarrow> s \<in> {FAILED, CANCELLED, EXPIRED}"

definition is_success :: "exec_status \<Rightarrow> bool" where
  "is_success s \<longleftrightarrow> s = SUCCESS"

lemma all_statuses_complete [simp]: "s \<in> set all_statuses"
  by (cases s) (simp_all add: all_statuses_def)

lemma status_of_value [simp, task_simps]: "status_of (status_value s) = Ok s"
  by (cases s) (simp_all add: status_of_def all_statuses_def)

lemma status_of_OkD: "status_of v = Ok s \<Longrightarrow> status_value s = v"
  by (auto simp: status_of_def find_Some_iff split: option.splits)

lemma status_of_Ok_iff: "status_of v = Ok s \<longleftrightarrow> v = status_value s"
  using status_of_OkD by auto

lemma status_value_no_colon [simp]: "CHR '':'' \<notin> set (status_value s)"
  by (cases s) simp_all

lemma status_value_nonempty [simp]: "status_value s \<noteq> []"
  by (cases s) simp_all

lemma terminal_iff_failure_or_success [task_simps]:
  "is_terminal s \<longleftrightarrow> is_failure s \<or> is_success s"
  by (auto simp: is_terminal_def is_failure_def is_success_def terminal_statuses_def)

lemma active_not_terminal [task_simps]: "s \<in> active_statuses \<Longrightarrow> \<not> is_terminal s"
  by (auto simp: active_statuses_def is_terminal_def terminal_statuses_def)

lemma dispatched_active: "dispatched_statuses \<subseteq> active_statuses"
  by (auto simp: active_statuses_def dispatched_statuses_def)

lemma is_terminal_simps [simp]:
  "is_terminal SUCCESS" "is_terminal FAILED" "is_terminal CANCELLED" "is_terminal EXPIRED"
  "\<not> is_terminal PENDING" "\<not> is_terminal PROVISIONED" "\<not> is_terminal WAITING"
  "\<not> is_terminal DISPATCHED" "\<not> is_terminal RUNNING" "\<not> is_terminal DEFERRED"
  "\<not> is_terminal BLOCKED" "\<not> is_terminal RETRY" "\<not> is_terminal UNKNOWN"
  by (simp_all add: is_terminal_def terminal_statuses_def)


section \<open>Signals\<close>

datatype task_signal = SYNC | DONE | FAIL | SIG_RETRY | SIG_EXPIRED

fun signal_value :: "task_signal \<Rightarrow> string" where
  "signal_value SYNC = ''sync''"
| "signal_value DONE = ''done''"
| "signal_value FAIL = ''fail''"
| "signal_value SIG_RETRY = ''retry''"
| "signal_value SIG_EXPIRED = ''expired''"

definition all_signals :: "task_signal list" where
  "all_signals = [SYNC, DONE, FAIL, SIG_RETRY, SIG_EXPIRED]"

definition supported_signal_extensions :: "string list" where
  "supported_signal_extensions = map (\<lambda>s. CHR ''.'' # signal_value s) all_signals"

definition signal_of :: "string \<Rightarrow> task_signal res" where
  "signal_of v = (case find (\<lambda>s. signal_value s = v) all_signals of
     None \<Rightarrow> Err ValueError | Some s \<Rightarrow> Ok s)"

lemma signal_of_value [simp, task_simps]: "signal_of (signal_value s) = Ok s"
  by (cases s) (simp_all add: signal_of_def all_signals_def)


section \<open>Identity and routing handle\<close>

record task_identity =
  job_id :: string
  dataset_id :: string
  partition_date :: string
  run_id :: string

definition mk_identity :: "string \<Rightarrow> string \<Rightarrow> string \<Rightarrow> string \<Rightarrow> task_identity" where
  "mk_identity j d p r = \<lparr>job_id = j, dataset_id = d, partition_date = p, run_id = r\<rparr>"

definition from_signal_stem :: "string \<Rightarrow> task_identity res" where
  "from_signal_stem stem = (let parts = py_split CHR '':'' stem in
     if length parts \<noteq> 4 then Err ValueError
     else Ok (mk_identity (parts ! 0) (parts ! 1) (parts ! 2) (parts ! 3)))"

definition identity_key :: "task_identity \<Rightarrow> string" where
  "identity_key i = job_id i @ '':'' @ dataset_id i @ '':'' @ partition_date i"

text \<open>The stem \<open>ExecutionContext.get_signal_name\<close> gives a run's signal files.\<close>

definition signal_stem :: "task_identity \<Rightarrow> string" where
  "signal_stem i = py_join '':'' [job_id i, dataset_id i, partition_date i, run_id i]"

definition CACHE_TASK_NAMESPACE :: string where
  "CACHE_TASK_NAMESPACE = ''task''"

record task_ref =
  identity :: task_identity
  ref_status :: exec_status
  ref_step_id :: string
  ref_namespace :: string

definition mk_ref :: "string \<Rightarrow> exec_status \<Rightarrow> string \<Rightarrow> task_identity \<Rightarrow> task_ref" where
  "mk_ref ns s st i = \<lparr>identity = i, ref_status = s, ref_step_id = st, ref_namespace = ns\<rparr>"

definition from_key :: "string \<Rightarrow> task_ref res" where
  "from_key key = (let parts = py_split CHR '':'' key in
     if length parts \<noteq> 7 then Err ValueError
     else res_bind (status_of (parts ! 1)) (\<lambda>status.
       Ok (mk_ref (parts ! 0) status (parts ! 2)
            (mk_identity (parts ! 3) (parts ! 4) (parts ! 5) (parts ! 6)))))"

text \<open>\<open>a or b\<close> for an optional string: an absent and an empty override fall through alike.\<close>

definition str_or :: "string option \<Rightarrow> string \<Rightarrow> string" where
  "str_or o_s d = (case o_s of None \<Rightarrow> d | Some s \<Rightarrow> if s = [] then d else s)"

definition build :: "task_ref \<Rightarrow> string option \<Rightarrow> string option \<Rightarrow> string" where
  "build r status step = py_join '':''
     [ref_namespace r, str_or status (status_value (ref_status r)), str_or step (ref_step_id r),
      job_id (identity r), dataset_id (identity r), partition_date (identity r),
      run_id (identity r)]"

definition with_updates :: "task_ref \<Rightarrow> exec_status option \<Rightarrow> string option \<Rightarrow> task_ref" where
  "with_updates r status step = r\<lparr>
     ref_status := (case status of Some s \<Rightarrow> s | None \<Rightarrow> ref_status r),
     ref_step_id := (case step of Some s \<Rightarrow> s | None \<Rightarrow> ref_step_id r)\<rparr>"

text \<open>Fields that can be carried in a colon-delimited key.\<close>

abbreviation colon_free :: "string \<Rightarrow> bool" where
  "colon_free s \<equiv> CHR '':'' \<notin> set s"

definition identity_ok :: "task_identity \<Rightarrow> bool" where
  "identity_ok i \<longleftrightarrow> colon_free (job_id i) \<and> colon_free (dataset_id i)
     \<and> colon_free (partition_date i) \<and> colon_free (run_id i)"

definition ref_ok :: "task_ref \<Rightarrow> bool" where
  "ref_ok r \<longleftrightarrow> identity_ok (identity r) \<and> colon_free (ref_step_id r)
     \<and> colon_free (ref_namespace r)"

lemma str_or_simps [simp]:
  "str_or None d = d" "str_or (Some []) d = d" "s \<noteq> [] \<Longrightarrow> str_or (Some s) d = s"
  by (simp_all add: str_or_def)

lemma identity_eta: "mk_identity (job_id i) (dataset_id i) (partition_date i) (run_id i) = i"
  by (simp add: mk_identity_def)

lemma ref_eta:
  "mk_ref (ref_namespace r) (ref_status r) (ref_step_id r) (identity r) = r"
  by (simp add: mk_ref_def)

lemma with_updates_simps [simp, task_simps]:
  "identity (with_updates r s t) = identity r"
  "ref_namespace (with_updates r s t) = ref_namespace r"
  "ref_status (with_updates r (Some st) t) = st"
  "ref_status (with_updates r None t) = ref_status r"
  "ref_step_id (with_updates r s (Some sp)) = sp"
  "ref_step_id (with_updates r s None) = ref_step_id r"
  by (simp_all add: with_updates_def)

lemma with_updates_ok:
  "ref_ok r \<Longrightarrow> (\<And>s. step = Some s \<Longrightarrow> colon_free s) \<Longrightarrow> ref_ok (with_updates r st step)"
  by (cases step) (auto simp: ref_ok_def)

lemma build_with_updates:
  assumes "step = Some [] \<Longrightarrow> ref_step_id r = []"
  shows "build (with_updates r s step) None None = build r (map_option status_value s) step"
  using assms by (cases s; cases step) (auto simp: build_def str_or_def)

abbreviation ref_parts :: "task_ref \<Rightarrow> string list" where
  "ref_parts r \<equiv> [ref_namespace r, status_value (ref_status r), ref_step_id r,
     job_id (identity r), dataset_id (identity r), partition_date (identity r),
     run_id (identity r)]"

lemma build_plain: "build r None None = py_join '':'' (ref_parts r)"
  by (simp add: build_def)

lemma from_key_build:
  assumes "ref_ok r"
  shows "from_key (build r None None) = Ok r"
proof -
  have "py_split CHR '':'' (build r None None) = ref_parts r"
    unfolding build_plain using assms
    by (intro py_split_join) (auto simp: ref_ok_def identity_ok_def)
  then show ?thesis by (simp add: from_key_def identity_eta ref_eta)
qed

lemma list7: "length xs = 7 \<Longrightarrow> xs = [xs ! 0, xs ! 1, xs ! 2, xs ! 3, xs ! 4, xs ! 5, xs ! 6]"
  by (auto simp: numeral_eq_Suc length_Suc_conv)

text \<open>Seven parts, the second of them a status value: the shape of every key that parses.\<close>

lemma from_key_parts:
  assumes "from_key k = Ok r"
  shows "py_split CHR '':'' k = ref_parts r"
proof -
  let ?p = "py_split CHR '':'' k"
  have len: "length ?p = 7" using assms by (auto simp: from_key_def Let_def split: if_splits)
  obtain s where s: "status_of (?p ! 1) = Ok s"
    and r: "r = mk_ref (?p ! 0) s (?p ! 2) (mk_identity (?p ! 3) (?p ! 4) (?p ! 5) (?p ! 6))"
    using assms len by (auto simp: from_key_def Let_def res_bind_Ok_iff)
  have "status_value s = ?p ! 1" using s by (rule status_of_OkD)
  then have "ref_parts r = [?p ! 0, ?p ! 1, ?p ! 2, ?p ! 3, ?p ! 4, ?p ! 5, ?p ! 6]"
    by (simp add: r mk_ref_def mk_identity_def)
  then show ?thesis using list7 [OF len] by simp
qed

lemma from_key_OkD:
  assumes "from_key k = Ok r"
  shows "ref_ok r" and "build r None None = k"
proof -
  note parts = from_key_parts [OF assms]
  have "colon_free w" if "w \<in> set (py_split CHR '':'' k)" for w
    using that by (rule py_split_parts_free)
  then show "ref_ok r" unfolding parts by (simp add: ref_ok_def identity_ok_def)
  show "build r None None = k"
    unfolding build_plain parts [symmetric] by (rule py_join_split)
qed

lemma from_key_build_override:
  assumes "ref_ok r" "sp \<noteq> []" "colon_free sp"
  shows "from_key (build r (Some (status_value st)) (Some sp)) = Ok (with_updates r (Some st) (Some sp))"
  using from_key_build [OF with_updates_ok, of r "Some sp" "Some st"]
    build_with_updates [of "Some sp" r "Some st"] assms by simp

lemma build_inj:
  assumes "ref_ok r" "ref_ok r'" "build r None None = build r' None None"
  shows "r = r'"
  by (metis assms from_key_build sum.inject(2))

text \<open>
  C36. Task references and cache keys are in bijection: a reference whose fields hold no
  colon is read back exactly from the key \<open>build\<close> gives it, and every key that
  \<open>from_key\<close> accepts is the key of the reference it returns, whose fields are
  colon-free. Overriding status and step in \<open>build\<close> gives the key of the reference updated
  by \<open>with_updates\<close>.
\<close>

theorem task_ref_key_roundtrip:
  "(ref_ok r \<longrightarrow> from_key (build r None None) = Ok r) \<and>
   (from_key k = Ok r' \<longrightarrow> ref_ok r' \<and> build r' None None = k) \<and>
   (ref_ok r \<and> sp \<noteq> [] \<and> colon_free sp \<longrightarrow>
      from_key (build r (Some (status_value st)) (Some sp)) = Ok (with_updates r (Some st) (Some sp)))"
proof (intro conjI impI)
  show "ref_ok r \<Longrightarrow> from_key (build r None None) = Ok r" by (rule from_key_build)
  show "from_key k = Ok r' \<Longrightarrow> ref_ok r'" by (rule from_key_OkD)
  show "from_key k = Ok r' \<Longrightarrow> build r' None None = k" by (rule from_key_OkD)
  show "ref_ok r \<and> sp \<noteq> [] \<and> colon_free sp \<Longrightarrow>
    from_key (build r (Some (status_value st)) (Some sp)) = Ok (with_updates r (Some st) (Some sp))"
    by (elim conjE) (rule from_key_build_override)
qed

definition sample_ref :: task_ref where
  "sample_ref = mk_ref ''task'' RUNNING ''extract'' (mk_identity ''j1'' ''ds'' ''2024-01-01'' ''r7'')"

lemma sample_ref_ok [simp]: "ref_ok sample_ref"
  by (simp add: sample_ref_def ref_ok_def identity_ok_def mk_ref_def mk_identity_def)

theorem task_ref_key_roundtrip_witness:
  "from_key (build sample_ref None None) = Ok sample_ref \<and>
   from_key (build sample_ref (Some ''FAILED'') (Some ''write'')) =
     Ok (with_updates sample_ref (Some FAILED) (Some ''write''))"
  using task_ref_key_roundtrip [of sample_ref "''k''" sample_ref "''write''" FAILED] by simp

lemma from_signal_stem_stem:
  assumes "identity_ok i"
  shows "from_signal_stem (signal_stem i) = Ok i"
proof -
  have "py_split CHR '':'' (signal_stem i) = [job_id i, dataset_id i, partition_date i, run_id i]"
    unfolding signal_stem_def using assms by (intro py_split_join) (auto simp: identity_ok_def)
  then show ?thesis by (simp add: from_signal_stem_def identity_eta)
qed

end
