(* ===== verification/Pipeline.thy ===== *)
theory Pipeline
  imports TaskModel
begin

text \<open>
  Stages and steps (\<open>core/stages/types.py\<close>, \<open>core/contexts/step.py\<close>) and the task context
  that orders a dataset's steps and cuts them to the run's boundaries
  (\<open>core/contexts/task.py\<close>).
\<close>


section \<open>Stages\<close>

datatype stage = START | EXTRACT | TRANSFORM | WRITE | PUBLISH | ARCHIVE

fun stage_value :: "stage \<Rightarrow> string" where
  "stage_value START = ''start''"
| "stage_value EXTRACT = ''extract''"
| "stage_value TRANSFORM = ''transform''"
| "stage_value WRITE = ''write''"
| "stage_value PUBLISH = ''publish''"
| "stage_value ARCHIVE = ''archive''"

definition STAGE_ORDER :: "string list" where
  "STAGE_ORDER = [''start'', ''extract'', ''transform'', ''write'', ''publish'', ''archive'']"

definition NO_MORE_STAGES :: string where
  "NO_MORE_STAGES = ''FINISH''"

definition ALL_STAGES :: "stage list" where
  "ALL_STAGES = [START, EXTRACT, TRANSFORM, WRITE, PUBLISH, ARCHIVE]"

fun stage_token :: "stage \<Rightarrow> string" where
  "stage_token START = ''STA''"
| "stage_token EXTRACT = ''EXT''"
| "stage_token TRANSFORM = ''TFR''"
| "stage_token WRITE = ''WRT''"
| "stage_token PUBLISH = ''PUB''"
| "stage_token ARCHIVE = ''ARC''"

definition stage_from_string :: "string \<Rightarrow> stage res" where
  "stage_from_string v = (case find (\<lambda>s. stage_value s = str_lower v) ALL_STAGES of
     None \<Rightarrow> Err ValueError | Some s \<Rightarrow> Ok s)"

text \<open>\<open>order_map[s.value]\<close>: the position of the stage's value in \<open>STAGE_ORDER\<close>.\<close>

definition order_rank :: "stage \<Rightarrow> nat" where
  "order_rank s = (case py_index STAGE_ORDER (stage_value s) of None \<Rightarrow> 0 | Some i \<Rightarrow> i)"

definition stages_ordered :: "stage list" where
  "stages_ordered = sort_key order_rank ALL_STAGES"

definition stage_index :: "stage \<Rightarrow> nat" where
  "stage_index s = (case py_index stages_ordered s of None \<Rightarrow> 0 | Some i \<Rightarrow> i)"

definition stage_next :: "stage \<Rightarrow> stage option" where
  "stage_next s = (let idx = stage_index s in
     if idx + 1 < length stages_ordered then Some (stages_ordered ! (idx + 1)) else None)"

definition stage_prev :: "stage \<Rightarrow> stage option" where
  "stage_prev s = (let idx = stage_index s in
     if idx > 0 then Some (stages_ordered ! (idx - 1)) else None)"

definition stage_first :: stage where
  "stage_first = hd stages_ordered"

definition stage_last :: stage where
  "stage_last = last stages_ordered"

lemma stages_ordered_eq [simp]: "stages_ordered = ALL_STAGES"
  by (simp add: stages_ordered_def ALL_STAGES_def order_rank_def STAGE_ORDER_def)

lemma stage_index_simps [simp]:
  "stage_index START = 0" "stage_index EXTRACT = 1" "stage_index TRANSFORM = 2"
  "stage_index WRITE = 3" "stage_index PUBLISH = 4" "stage_index ARCHIVE = 5"
  by (simp_all add: stage_index_def ALL_STAGES_def)

lemma stage_index_inj: "stage_index s = stage_index t \<longleftrightarrow> s = t"
  by (cases s; cases t) simp_all

text \<open>Stages are ordered by their position in the execution order.\<close>

instantiation stage :: linorder
begin

definition less_eq_stage :: "stage \<Rightarrow> stage \<Rightarrow> bool" where
  "less_eq_stage s t \<longleftrightarrow> stage_index s \<le> stage_index t"

definition less_stage :: "stage \<Rightarrow> stage \<Rightarrow> bool" where
  "less_stage s t \<longleftrightarrow> stage_index s < stage_index t"

instance
  by standard (auto simp: less_eq_stage_def less_stage_def stage_index_inj)

end

lemma stage_next_prev: "stage_next s = Some t \<longleftrightarrow> stage_prev t = Some s"
  by (cases s; cases t) (simp_all add: stage_next_def stage_prev_def ALL_STAGES_def numeral_eq_Suc)

lemma stage_next_greater: "stage_next s = Some t \<Longrightarrow> s < t"
  by (cases s; cases t)
    (simp_all add: stage_next_def ALL_STAGES_def numeral_eq_Suc less_stage_def)

lemma stage_from_string_value [simp]: "stage_from_string (stage_value s) = Ok s"
  by (cases s; hypsubst; code_simp)

lemma stage_from_string_upper [simp]: "stage_from_string (str_upper (stage_value s)) = Ok s"
  by (cases s; hypsubst; code_simp)

lemma stage_token_inj: "stage_token s = stage_token t \<longleftrightarrow> s = t"
  by (cases s; cases t) simp_all


section \<open>Steps and the task context\<close>

text \<open>
  A step's configuration is identified by the stage whose config class it belongs to; what it
  holds is read by the stage bodies only.
\<close>

record step_context =
  step_id :: string
  step_stage :: string
  step_config :: "stage option"

record task_context =
  steps :: "step_context list"
  ctx_identity :: task_identity
  from_step :: string
  to_step :: string

definition start_step :: step_context where
  "start_step = \<lparr>step_id = ''start'', step_stage = ''start'', step_config = None\<rparr>"

definition get_step :: "task_context \<Rightarrow> string \<Rightarrow> step_context res" where
  "get_step c sid =
     (if sid = ''start'' then Ok start_step
      else (case find (\<lambda>s. step_id s = sid) (steps c) of
        None \<Rightarrow> Err ValueError | Some s \<Rightarrow> Ok s))"

definition all_step_ids :: "task_context \<Rightarrow> string list" where
  "all_step_ids c = ''start'' # map step_id (steps c)"

text \<open>The inclusive start and the exclusive end position of a boundary.\<close>

definition start_idx_of :: "string list \<Rightarrow> string \<Rightarrow> nat" where
  "start_idx_of all_ids b =
     (if b \<noteq> [] \<and> b \<in> set all_ids then the (py_index all_ids b) else 0)"

definition end_idx_of :: "string list \<Rightarrow> string \<Rightarrow> nat" where
  "end_idx_of all_ids b =
     (if b \<noteq> [] \<and> b \<in> set all_ids then the (py_index all_ids b) + 1 else length all_ids)"

definition get_step_ids :: "task_context \<Rightarrow> string option \<Rightarrow> string option \<Rightarrow> string list" where
  "get_step_ids c f t =
    (let all_ids = all_step_ids c;
         start_boundary = (case f of Some x \<Rightarrow> x | None \<Rightarrow> from_step c);
         stop_boundary = (case t of Some x \<Rightarrow> x | None \<Rightarrow> to_step c);
         start_idx = start_idx_of all_ids start_boundary;
         end_idx = end_idx_of all_ids stop_boundary
     in if start_idx \<ge> end_idx then [] else drop start_idx (take end_idx all_ids))"

abbreviation active_ids :: "task_context \<Rightarrow> string list" where
  "active_ids c \<equiv> get_step_ids c None None"

definition post_init :: "task_context \<Rightarrow> task_context res" where
  "post_init c0 =
    (let all_ids = active_ids c0;
         c1 = (if from_step c0 = [] then c0\<lparr>from_step := ''start''\<rparr> else c0)
     in if to_step c1 = [] \<and> all_ids = [] then Err IndexError
        else let c2 = (if to_step c1 = [] then c1\<lparr>to_step := last all_ids\<rparr> else c1)
     in if from_step c2 \<notin> set all_ids then Err ValueError
        else if to_step c2 \<notin> set all_ids then Err ValueError
        else if the (py_index all_ids (from_step c2)) > the (py_index all_ids (to_step c2))
             then Err ValueError
        else Ok c2)"

definition get_next_step_id :: "task_context \<Rightarrow> string \<Rightarrow> string option" where
  "get_next_step_id c cur =
    (let act = active_ids c in
     case py_index act cur of
       None \<Rightarrow> None
     | Some idx \<Rightarrow> if idx + 1 < length act then Some (act ! (idx + 1)) else None)"

definition resolve_stage :: "task_context \<Rightarrow> string \<Rightarrow> string res" where
  "resolve_stage c sid =
     (if sid = ''start'' then Ok (stage_value START)
      else res_bind (get_step c sid) (\<lambda>s. Ok (step_stage s)))"

text \<open>Well-formed contexts: step ids are pairwise distinct and none is called \<open>start\<close>.\<close>

definition ids_distinct :: "task_context \<Rightarrow> bool" where
  "ids_distinct c \<longleftrightarrow> distinct (all_step_ids c)"

text \<open>What \<open>__post_init__\<close> accepts.\<close>

definition ctx_ok :: "task_context \<Rightarrow> bool" where
  "ctx_ok c \<longleftrightarrow> from_step c \<noteq> [] \<and> to_step c \<noteq> [] \<and>
     (\<exists>i j. py_index (all_step_ids c) (from_step c) = Some i \<and>
            py_index (all_step_ids c) (to_step c) = Some j \<and> i \<le> j)"

lemma get_step_ids_subset: "set (get_step_ids c f t) \<subseteq> set (all_step_ids c)"
  by (auto simp: get_step_ids_def Let_def dest: in_set_dropD in_set_takeD)

lemma get_step_ids_distinct: "ids_distinct c \<Longrightarrow> distinct (get_step_ids c f t)"
  by (simp add: get_step_ids_def Let_def ids_distinct_def)

lemma active_ids_slice:
  assumes "py_index (all_step_ids c) (from_step c) = Some i" "from_step c \<noteq> []"
    and "py_index (all_step_ids c) (to_step c) = Some j" "to_step c \<noteq> []"
  shows "active_ids c = (if i \<le> j then drop i (take (Suc j) (all_step_ids c)) else [])"
proof -
  have "from_step c \<in> set (all_step_ids c)" "to_step c \<in> set (all_step_ids c)"
    using assms by (metis nth_mem py_index_SomeD)+
  then show ?thesis using assms
    by (auto simp: get_step_ids_def Let_def start_idx_of_def end_idx_of_def)
qed

lemma all_step_ids_ne [simp]: "all_step_ids c \<noteq> []"
  by (simp add: all_step_ids_def)

lemma start_idx_less: "xs \<noteq> [] \<Longrightarrow> start_idx_of xs b < length xs"
  by (auto simp: start_idx_of_def dest!: py_index_in dest: py_index_SomeD)

lemma end_idx_le: "end_idx_of xs b \<le> length xs"
  by (auto simp: end_idx_of_def Suc_le_eq dest!: py_index_in dest: py_index_SomeD)

lemma length_active_ids: "length (active_ids c) \<le> Suc (length (steps c))"
  using end_idx_le [of "all_step_ids c" "to_step c"]
  by (auto simp: get_step_ids_def Let_def all_step_ids_def)

lemma ctx_ok_slice:
  assumes "ctx_ok c"
  obtains i j where "i \<le> j" "j < length (all_step_ids c)"
    "active_ids c = drop i (take (Suc j) (all_step_ids c))"
    "all_step_ids c ! i = from_step c" "all_step_ids c ! j = to_step c"
proof -
  obtain i j where i: "py_index (all_step_ids c) (from_step c) = Some i"
    and j: "py_index (all_step_ids c) (to_step c) = Some j" and ij: "i \<le> j"
    using assms by (auto simp: ctx_ok_def)
  show thesis
  proof (rule that [of i j])
    show "active_ids c = drop i (take (Suc j) (all_step_ids c))"
      using active_ids_slice [OF i _ j] ij assms by (simp add: ctx_ok_def)
  qed (use i j ij in \<open>auto dest: py_index_SomeD\<close>)
qed

lemma ctx_ok_ends:
  assumes "ctx_ok c"
  shows "active_ids c \<noteq> []" "hd (active_ids c) = from_step c" "last (active_ids c) = to_step c"
proof -
  obtain i j where s: "i \<le> j" "j < length (all_step_ids c)"
    "active_ids c = drop i (take (Suc j) (all_step_ids c))"
    "all_step_ids c ! i = from_step c" "all_step_ids c ! j = to_step c"
    using assms by (rule ctx_ok_slice)
  show "active_ids c \<noteq> []" using s by simp
  show "hd (active_ids c) = from_step c" using s by (simp add: hd_drop_conv_nth)
  show "last (active_ids c) = to_step c" using s by (simp add: last_conv_nth)
qed

text \<open>
  What \<open>__post_init__\<close> computes: the boundaries with their defaults filled in, or an error
  when one of them is no step or when they are reversed. The final order check never fires:
  reversed boundaries already fail the membership test, because the ids it tests against are
  the ones cut to the boundaries.
\<close>

definition default_bounds :: "task_context \<Rightarrow> task_context" where
  "default_bounds c = c\<lparr>
     from_step := (if from_step c = [] then ''start'' else from_step c),
     to_step := (if to_step c = [] then last (all_step_ids c) else to_step c)\<rparr>"

lemma default_bounds_simps [simp]:
  "all_step_ids (default_bounds c) = all_step_ids c"
  "steps (default_bounds c) = steps c"
  by (simp_all add: default_bounds_def all_step_ids_def)

lemma py_index_last: "distinct xs \<Longrightarrow> xs \<noteq> [] \<Longrightarrow> py_index xs (last xs) = Some (length xs - 1)"
  using py_index_distinct [of xs "length xs - 1"] by (simp add: last_conv_nth)

lemma default_bounds_active:
  assumes "ids_distinct c" "[] \<notin> set (all_step_ids c)"
  shows "active_ids (default_bounds c) = active_ids c"
proof -
  let ?a = "all_step_ids c"
  have "py_index ?a (last ?a) = Some (length ?a - 1)"
    using assms by (intro py_index_last) (simp_all add: ids_distinct_def)
  moreover have "last ?a \<in> set ?a" "last ?a \<noteq> []"
    using assms by (metis all_step_ids_ne last_in_set)+
  moreover have "length ?a > 0" by simp
  ultimately have e: "end_idx_of ?a (last ?a) = end_idx_of ?a []"
    by (simp add: end_idx_of_def)
  have f: "start_idx_of ?a ''start'' = start_idx_of ?a []"
    by (simp add: start_idx_of_def all_step_ids_def)
  show ?thesis
    unfolding get_step_ids_def Let_def default_bounds_simps
    by (auto simp: default_bounds_def e f)
qed

lemma default_bounds_nonempty:
  assumes "[] \<notin> set (all_step_ids c)"
  shows "from_step (default_bounds c) \<noteq> []" "to_step (default_bounds c) \<noteq> []"
proof -
  have "last (all_step_ids c) \<in> set (all_step_ids c)"
    by (intro last_in_set) (simp add: all_step_ids_def)
  then show "from_step (default_bounds c) \<noteq> []" "to_step (default_bounds c) \<noteq> []"
    using assms by (auto simp: default_bounds_def simp del: last_in_set)
qed

lemma active_ids_open_end:
  assumes "to_step c = []"
  shows "active_ids c \<noteq> [] \<and> last (active_ids c) = last (all_step_ids c)"
proof -
  have "end_idx_of (all_step_ids c) (to_step c) = length (all_step_ids c)"
    using assms by (simp add: end_idx_of_def)
  then show ?thesis using start_idx_less [of "all_step_ids c" "from_step c"]
    by (simp add: get_step_ids_def Let_def)
qed

lemma post_init_checks:
  assumes "ids_distinct c" "[] \<notin> set (all_step_ids c)"
  shows "post_init c =
    (let d = default_bounds c; act = active_ids d in
     if from_step d \<notin> set act \<or> to_step d \<notin> set act \<or>
        the (py_index act (from_step d)) > the (py_index act (to_step d))
     then Err ValueError else Ok d)"
proof (cases "to_step c = []")
  case True
  have c2: "(if from_step c = [] then c\<lparr>from_step := ''start''\<rparr> else c)\<lparr>to_step := last (active_ids c)\<rparr>
      = default_bounds c"
    using active_ids_open_end [OF True] by (simp add: default_bounds_def True)
  have tc: "to_step (if from_step c = [] then c\<lparr>from_step := ''start''\<rparr> else c) = []"
    using True by simp
  show ?thesis
    unfolding post_init_def Let_def tc default_bounds_active [OF assms]
    using active_ids_open_end [OF True] c2 by simp
next
  case False
  have c2: "(if from_step c = [] then c\<lparr>from_step := ''start''\<rparr> else c) = default_bounds c"
    using False by (simp add: default_bounds_def)
  have tc: "to_step (default_bounds c) \<noteq> []" by (rule default_bounds_nonempty [OF assms(2)])
  show ?thesis
    unfolding post_init_def Let_def c2 default_bounds_active [OF assms] using tc by simp
qed

lemma post_init_iff_ctx_ok:
  assumes "ids_distinct c" "[] \<notin> set (all_step_ids c)"
  shows "post_init c =
    (if ctx_ok (default_bounds c) then Ok (default_bounds c) else Err ValueError)"
proof (cases "ctx_ok (default_bounds c)")
  case True
  let ?a = "active_ids (default_bounds c)"
  note e = ctx_ok_ends [OF True]
  have "from_step (default_bounds c) \<in> set ?a" "to_step (default_bounds c) \<in> set ?a"
    using e by (metis hd_in_set, metis last_in_set)
  moreover have "py_index ?a (from_step (default_bounds c)) = Some 0"
    using e by (cases ?a) auto
  ultimately show ?thesis using True
    unfolding post_init_checks [OF assms] by (simp add: Let_def)
next
  case False
  let ?d = "default_bounds c"
  have "from_step ?d \<notin> set (active_ids ?d) \<or> to_step ?d \<notin> set (active_ids ?d)"
  proof (rule ccontr)
    assume "\<not> ?thesis"
    then have in_all: "from_step ?d \<in> set (all_step_ids ?d)" "to_step ?d \<in> set (all_step_ids ?d)"
      and ne: "active_ids ?d \<noteq> []"
      using get_step_ids_subset by fastforce+
    obtain i j where ij: "py_index (all_step_ids ?d) (from_step ?d) = Some i"
      "py_index (all_step_ids ?d) (to_step ?d) = Some j"
      using in_all py_index_in by metis
    have "\<not> i \<le> j" using False ij default_bounds_nonempty [OF assms(2)] by (auto simp: ctx_ok_def)
    then show False
      using active_ids_slice [OF ij(1) _ ij(2)] default_bounds_nonempty [OF assms(2)] ne by simp
  qed
  then show ?thesis using False unfolding post_init_checks [OF assms] by (auto simp: Let_def)
qed

text \<open>Walking the plan: the steps visited by following \<open>get_next_step_id\<close>.\<close>

fun walk :: "task_context \<Rightarrow> nat \<Rightarrow> string \<Rightarrow> string list" where
  "walk c 0 sid = [sid]"
| "walk c (Suc n) sid = sid # (case get_next_step_id c sid of None \<Rightarrow> [] | Some t \<Rightarrow> walk c n t)"

lemma next_of_nth:
  assumes "distinct (active_ids c)" "k < length (active_ids c)"
  shows "get_next_step_id c (active_ids c ! k) =
    (if Suc k < length (active_ids c) then Some (active_ids c ! Suc k) else None)"
  using py_index_distinct [OF assms] by (simp add: get_next_step_id_def Let_def)

lemma walk_from:
  assumes "distinct (active_ids c)"
  shows "k < length (active_ids c) \<Longrightarrow> length (active_ids c) - k \<le> Suc n \<Longrightarrow>
    walk c n (active_ids c ! k) = drop k (active_ids c)"
proof (induction n arbitrary: k)
  case 0
  then show ?case by (simp add: Cons_nth_drop_Suc [symmetric])
next
  case (Suc n)
  then show ?case
    by (auto simp: next_of_nth [OF assms] Cons_nth_drop_Suc [symmetric])
qed

text \<open>
  C33. A context whose step ids are distinct and non-empty is accepted by \<open>__post_init__\<close>
  exactly when both boundaries (after defaulting) are steps in the right order; the accepted
  context then plans a non-empty run from \<open>from_step\<close> to \<open>to_step\<close>, and following
  \<open>get_next_step_id\<close> from \<open>from_step\<close> visits exactly the planned steps in order, stopping at
  \<open>to_step\<close>. Steps outside the plan have no next step.
\<close>

theorem post_init_plans_the_run:
  assumes "ids_distinct c" "[] \<notin> set (all_step_ids c)"
  shows "post_init c =
      (if ctx_ok (default_bounds c) then Ok (default_bounds c) else Err ValueError)
    \<and> (\<forall>d. post_init c = Ok d \<longrightarrow>
         walk d (length (steps d)) (from_step d) = active_ids d
         \<and> hd (active_ids d) = from_step d \<and> last (active_ids d) = to_step d
         \<and> get_next_step_id d (to_step d) = None
         \<and> (\<forall>sid. sid \<notin> set (active_ids d) \<longrightarrow> get_next_step_id d sid = None))"
proof (intro conjI allI impI)
  show eq: "post_init c = (if ctx_ok (default_bounds c) then Ok (default_bounds c) else Err ValueError)"
    by (rule post_init_iff_ctx_ok [OF assms])
  fix d assume "post_init c = Ok d"
  then have d: "d = default_bounds c" and ok: "ctx_ok d"
    by (auto simp: eq split: if_splits)
  have dist: "distinct (active_ids d)"
    by (rule get_step_ids_distinct) (use assms in \<open>simp add: d ids_distinct_def\<close>)
  note e = ctx_ok_ends [OF ok]
  have len: "length (active_ids d) \<le> Suc (length (steps d))"
    by (rule length_active_ids)
  show "walk d (length (steps d)) (from_step d) = active_ids d"
    using walk_from [OF dist, of 0 "length (steps d)"] e len by (simp add: hd_conv_nth)
  show "hd (active_ids d) = from_step d" "last (active_ids d) = to_step d" by (fact e)+
  show "get_next_step_id d (to_step d) = None"
    using next_of_nth [OF dist, of "length (active_ids d) - 1"] e by (simp add: last_conv_nth)
  show "get_next_step_id d sid = None" if "sid \<notin> set (active_ids d)" for sid
  proof -
    have "py_index (active_ids d) sid = None" using that by simp
    then show ?thesis by (simp only: get_next_step_id_def Let_def option.case)
  qed
qed

definition sample_ctx :: task_context where
  "sample_ctx = \<lparr>steps = map (\<lambda>s. \<lparr>step_id = s, step_stage = s, step_config = None\<rparr>)
     [''extract'', ''normalize'', ''write'', ''publish''],
     ctx_identity = mk_identity ''j'' ''d'' ''2024-01-01'' ''r'', from_step = ''extract'', to_step = []\<rparr>"

theorem post_init_plans_the_run_witness:
  "post_init sample_ctx = Ok (default_bounds sample_ctx) \<and>
   walk (default_bounds sample_ctx) 4 ''extract'' = active_ids (default_bounds sample_ctx) \<and>
   get_next_step_id (default_bounds sample_ctx) ''publish'' = None"
proof -
  have h: "ids_distinct sample_ctx" "[] \<notin> set (all_step_ids sample_ctx)"
    by (simp_all add: sample_ctx_def ids_distinct_def all_step_ids_def)
  have ok: "ctx_ok (default_bounds sample_ctx)"
    by (simp add: sample_ctx_def default_bounds_def ctx_ok_def all_step_ids_def)
  have s: "length (steps (default_bounds sample_ctx)) = 4"
    "from_step (default_bounds sample_ctx) = ''extract''"
    "to_step (default_bounds sample_ctx) = ''publish''"
    by (simp_all add: sample_ctx_def default_bounds_def all_step_ids_def)
  from post_init_plans_the_run [OF h] ok
  have "post_init sample_ctx = Ok (default_bounds sample_ctx)" by simp
  moreover from this post_init_plans_the_run [OF h]
  have "walk (default_bounds sample_ctx) 4 ''extract'' = active_ids (default_bounds sample_ctx)"
    "get_next_step_id (default_bounds sample_ctx) ''publish'' = None"
    by (metis s)+
  ultimately show ?thesis by simp
qed

end
