(* ===== verification/DictUtils.thy ===== *)
theory DictUtils
  imports Prelude
begin

text \<open>
  Nested configuration values and the case-sensitive \<open>deep_merge\<close> of \<open>libs/utils/dict.py\<close>; the other dictionary utilities
  are in theory Documents.
\<close>

text \<open>
  A value of a JSON-like document. Dict keys are strings and dicts keep their insertion
  order; \<open>VObj\<close> carries a value the utilities never look into (a struct, a float).
\<close>

datatype 'p pyval =
    VNone
  | VBool bool
  | VInt int
  | VStr string
  | VList "'p pyval list"
  | VDict "(string \<times> 'p pyval) list"
  | VObj 'p

type_synonym 'p pydict = "(string \<times> 'p pyval) list"

fun is_dict :: "'p pyval \<Rightarrow> bool" where
  "is_dict (VDict d) = True"
| "is_dict _ = False"


section \<open>Deep merge\<close>

function deep_merge :: "'p pydict \<Rightarrow> 'p pydict \<Rightarrow> 'p pydict" where
  "deep_merge result [] = result"
| "deep_merge result ((key, v) # updates) =
     deep_merge
       (dict_put key
         (case (dict_get result key, v) of
            (Some (VDict b), VDict u) \<Rightarrow> VDict (deep_merge b u)
          | _ \<Rightarrow> v)
         result)
       updates"
  by pat_completeness auto
termination
  by (relation "measure (\<lambda>(_, u). size (VDict u))") auto

declare deep_merge.simps(2) [simp del]

text \<open>
  The specification: which value a key of the merge has. Dicts present on both sides are
  merged, any other value of the updates wins, and keys the updates lack keep their value.
\<close>

definition merge_value :: "'p pyval option \<Rightarrow> 'p pyval option \<Rightarrow> 'p pyval option" where
  "merge_value b u = (case u of
     None \<Rightarrow> b
   | Some (VDict du) \<Rightarrow> (case b of Some (VDict db) \<Rightarrow> Some (VDict (deep_merge db du)) | _ \<Rightarrow> u)
   | _ \<Rightarrow> u)"

lemma deep_merge_Cons:
  "deep_merge result ((key, v) # updates) =
     deep_merge (dict_put key (the (merge_value (dict_get result key) (Some v))) result) updates"
  by (cases v; cases "dict_get result key")
    (auto simp: merge_value_def deep_merge.simps(2) split: pyval.splits)

lemma deep_merge_keys: "fst ` set (deep_merge b u) = fst ` set b \<union> fst ` set u"
proof (induction u arbitrary: b)
  case (Cons kv u)
  then show ?case by (cases kv) (auto simp: deep_merge_Cons dict_keys_put)
qed simp

lemma deep_merge_ok [intro]: "dict_ok b \<Longrightarrow> dict_ok (deep_merge b u)"
proof (induction u arbitrary: b)
  case (Cons kv u)
  then show ?case by (cases kv) (auto simp: deep_merge_Cons)
qed simp

lemma deep_merge_get:
  "dict_ok u \<Longrightarrow> dict_get (deep_merge b u) k = merge_value (dict_get b k) (dict_get u k)"
proof (induction u arbitrary: b)
  case Nil
  then show ?case by (simp add: merge_value_def)
next
  case (Cons kv u)
  obtain k' v where kv: "kv = (k', v)" by (cases kv)
  have nin: "dict_get u k' = None" using Cons.prems kv by (simp add: map_of_eq_None_iff)
  have "merge_value (Some (the (merge_value (dict_get b k') (Some v)))) None =
    merge_value (dict_get b k') (Some v)"
    by (auto simp: merge_value_def split: option.splits pyval.splits)
  then show ?case using Cons kv nin
    by (auto simp: deep_merge_Cons dict_simps)
qed

text \<open>Keys keep their position: the base's keys in their order, then the new ones.\<close>

lemma map_fst_put:
  "map fst (dict_put k v d) = (if k \<in> fst ` set d then map fst d else map fst d @ [k])"
  by (induction d) auto

lemma deep_merge_key_order:
  "dict_ok u \<Longrightarrow> map fst (deep_merge b u) = map fst b @ filter (\<lambda>k. k \<notin> fst ` set b) (map fst u)"
proof (induction u arbitrary: b)
  case (Cons kv u)
  obtain k v where kv: "kv = (k, v)" by (cases kv)
  have "filter (\<lambda>x. x \<noteq> k \<and> x \<notin> fst ` set b) (map fst u) = filter (\<lambda>x. x \<notin> fst ` set b) (map fst u)"
    using Cons.prems kv by (intro filter_cong) auto
  then show ?case using Cons kv
    by (auto simp: deep_merge_Cons map_fst_put dict_keys_put insert_absorb)
qed simp

text \<open>Documents whose dicts have distinct keys at every level.\<close>

fun val_ok :: "'p pyval \<Rightarrow> bool" where
  "val_ok (VList vs) = (\<forall>v\<in>set vs. val_ok v)"
| "val_ok (VDict d) = (distinct (map fst d) \<and> (\<forall>kv\<in>set d. val_ok (snd kv)))"
| "val_ok _ = True"

abbreviation doc_ok :: "'p pydict \<Rightarrow> bool" where
  "doc_ok d \<equiv> val_ok (VDict d)"

lemma doc_ok_get: "doc_ok d \<Longrightarrow> dict_get d k = Some v \<Longrightarrow> val_ok v"
  by (auto dest!: map_of_SomeD)

lemma dict_eqI:
  assumes "map fst a = map fst b" "dict_ok a" "\<And>k. dict_get a k = dict_get b k"
  shows "a = b"
proof (rule nth_equalityI)
  show len: "length a = length b" using assms(1) by (metis length_map)
  fix i assume i: "i < length a"
  have f: "fst (a ! i) = fst (b ! i)" using assms(1) i len by (metis nth_map)
  have "dict_get a (fst (a ! i)) = Some (snd (a ! i))"
    using assms(2) i by (simp add: map_of_eq_Some_iff)
  moreover have "dict_get b (fst (b ! i)) = Some (snd (b ! i))"
    using assms(1,2) i len by (simp add: map_of_eq_Some_iff)
  ultimately show "a ! i = b ! i" using f assms(3) by (metis option.sel prod.collapse)
qed

lemma size_sub_dict: "(k, VDict du) \<in> set u \<Longrightarrow> size (VDict du) < size (VDict u)"
  by (induction u) auto

lemma size_get_dict: "dict_get u k = Some (VDict du) \<Longrightarrow> size (VDict du) < size (VDict u)"
  by (rule size_sub_dict) (rule map_of_SomeD)

lemma merge_value_keeps: "merge_value b None = b"
  by (simp add: merge_value_def)

lemma deep_merge_absorb:
  "doc_ok u \<Longrightarrow> doc_ok b \<Longrightarrow>
   deep_merge (deep_merge b u) u = deep_merge b u \<and> deep_merge u u = u"
proof (induction "size (VDict u)" arbitrary: b u rule: less_induct)
  case less
  have oku: "dict_ok u" and okb: "dict_ok b" using less.prems by simp_all
  have sub: "deep_merge (deep_merge db du) du = deep_merge db du \<and> deep_merge du du = du"
    if "dict_get u k = Some (VDict du)" "doc_ok db" for k du db
    using less.hyps [OF size_get_dict [OF that(1)]] that doc_ok_get [OF less.prems(1) that(1)] by blast
  have step: "merge_value (merge_value (dict_get b k) (dict_get u k)) (dict_get u k)
      = merge_value (dict_get b k) (dict_get u k)"
    and self: "merge_value (dict_get u k) (dict_get u k) = dict_get u k" for k
    using sub [of k] doc_ok_get [OF less.prems(2), of k] doc_ok_get [OF less.prems(1), of k]
    by (auto simp: merge_value_def split: option.splits pyval.splits)
  have "deep_merge (deep_merge b u) u = deep_merge b u"
  proof (rule dict_eqI)
    show "map fst (deep_merge (deep_merge b u) u) = map fst (deep_merge b u)"
      unfolding deep_merge_key_order [OF oku, of "deep_merge b u"]
      by (auto simp: deep_merge_keys filter_empty_conv)
  qed (use oku okb step in \<open>simp_all add: deep_merge_get deep_merge_ok\<close>)
  moreover have "deep_merge u u = u"
  proof (rule dict_eqI)
    show "map fst (deep_merge u u) = map fst u"
      unfolding deep_merge_key_order [OF oku] by (auto simp: filter_empty_conv)
  qed (use oku self in \<open>simp_all add: deep_merge_get deep_merge_ok\<close>)
  ultimately show ?case ..
qed

text \<open>A document keeps distinct keys at every level.\<close>

lemma doc_ok_iff: "doc_ok d \<longleftrightarrow> dict_ok d \<and> (\<forall>k v. dict_get d k = Some v \<longrightarrow> val_ok v)"
  by (fastforce dest: map_of_SomeD simp: map_of_eq_Some_iff)

lemma deep_merge_doc_ok: "doc_ok b \<Longrightarrow> doc_ok u \<Longrightarrow> doc_ok (deep_merge b u)"
proof (induction "size (VDict u)" arbitrary: b u rule: less_induct)
  case less
  have "val_ok v" if g: "dict_get (deep_merge b u) k = Some v" for k v
  proof -
    have "merge_value (dict_get b k) (dict_get u k) = Some v"
      using g less.prems by (simp add: deep_merge_get)
    moreover have "doc_ok (deep_merge db du)"
      if "dict_get u k = Some (VDict du)" "dict_get b k = Some (VDict db)" for db du
      using less.hyps [OF size_get_dict [OF that(1)]]
        doc_ok_get [OF less.prems(1) that(2)] doc_ok_get [OF less.prems(2) that(1)] by blast
    ultimately show ?thesis
      using doc_ok_get [OF less.prems(1), of k] doc_ok_get [OF less.prems(2), of k]
      by (auto simp: merge_value_def split: option.splits pyval.splits)
  qed
  then show ?case unfolding doc_ok_iff using less.prems by (auto intro: deep_merge_ok)
qed

text \<open>
  \<open>deep_merge\<close> computes the right-biased recursive merge: for documents with distinct keys
  each key of the result has the value \<open>merge_value\<close> prescribes (both dicts: merged; otherwise
  the update; keys without an update are kept), the keys keep the base's order with new keys
  appended in the updates' order, the result has distinct keys at every level, and applying
  the same updates again changes nothing.
\<close>

theorem deep_merge_correct:
  assumes "doc_ok b" "doc_ok u"
  shows "dict_get (deep_merge b u) k = merge_value (dict_get b k) (dict_get u k) \<and>
    map fst (deep_merge b u) = map fst b @ filter (\<lambda>x. x \<notin> set (map fst b)) (map fst u) \<and>
    doc_ok (deep_merge b u) \<and>
    deep_merge (deep_merge b u) u = deep_merge b u"
proof (intro conjI)
  have ok: "dict_ok u" using assms by simp
  show "dict_get (deep_merge b u) k = merge_value (dict_get b k) (dict_get u k)"
    by (rule deep_merge_get [OF ok])
  show "map fst (deep_merge b u) = map fst b @ filter (\<lambda>x. x \<notin> set (map fst b)) (map fst u)"
    using deep_merge_key_order [OF ok, of b] by simp
  show "doc_ok (deep_merge b u)" by (rule deep_merge_doc_ok [OF assms])
  show "deep_merge (deep_merge b u) u = deep_merge b u"
    using deep_merge_absorb [OF assms(2,1)] ..
qed

theorem deep_merge_correct_witness:
  "dict_get (deep_merge [(''a'', VDict [(''x'', VInt 1)]), (''b'', VInt (2::int))]
       [(''a'', VDict [(''y'', VInt 3)]), (''c'', VNone)]) ''a''
     = Some (VDict [(''x'', VInt 1), (''y'', VInt 3 :: nat pyval)])"
  using deep_merge_correct [of "[(''a'', VDict [(''x'', VInt 1)]), (''b'', VInt 2)] :: nat pydict"
    "[(''a'', VDict [(''y'', VInt 3)]), (''c'', VNone)]" "''a''"]
  by (simp add: merge_value_def deep_merge.simps)

end
