(* ===== verification/Manifest.thy ===== *)
theory Manifest
  imports Pipeline DictUtils
begin

text \<open>
  The task manifest (\<open>core/models/task/manifest.py\<close>), its payloads (\<open>core/stages/*/enums.py\<close>)
  and the checkpointing operations of the stage base class (\<open>core/stages/contracts/stage.py\<close>).

  The manifest's JSON document is modelled field by field: \<open>manifest_to_builtins\<close> and
  \<open>manifest_decode\<close> spell out what the struct declaration prescribes (required fields,
  defaults, field types; unknown fields are ignored). Payload elements are kept as values of
  the payload type, because no code here looks into their encoding.
\<close>


section \<open>Payloads\<close>

record partition_extracted =
  pe_partition_date :: string
  pe_row_processed :: int
  pe_file_count :: int
  pe_checkpoint_start :: string
  pe_checkpoint_end :: string
  pe_checkpoint_type :: string
  pe_resource :: "string option"

record partition_transformed =
  pt_partition_date :: string
  pt_rows_in :: int
  pt_rows_out :: int
  pt_resource :: "string option"
  pt_status :: string

record partition_staged =
  ps_partition_date :: string
  ps_rows_processed :: int

datatype payload =
    StartPayload (payload_step: string) (commit_hash: string)
  | ExtractPayload (payload_step: string) (extract_rows: int)
      (extract_partitions: "(string \<times> partition_extracted) list")
  | TransformPayload (payload_step: string) (transform_rows: int)
      (transform_partitions: "(string \<times> partition_transformed) list")
  | WritePayload (payload_step: string) (staging_artifact: string) (write_rows: int)
      (write_destination: string) (write_partitions: "partition_staged list")
  | PublishPayload (payload_step: string) (final_path: string) (publish_rows: int)
  | ArchivePayload (payload_step: string) (archive_path: "string option")
      (retention_expiry: "string option")

record error_info =
  err_step_id :: string
  err_stage :: string
  err_type :: string
  err_message :: string
  err_traceback :: "string option"
  err_timestamp :: string

record task_manifest =
  m_job_id :: string
  m_run_id :: string
  m_dataset_id :: string
  m_status :: exec_status
  m_current_step_id :: string
  m_retry_count :: int
  m_is_empty_result_set :: bool
  m_remarks :: "string option"
  m_rollback_stack :: "string list"
  m_payloads :: "payload list"
  m_error :: "error_info option"

type_synonym doc = "payload pydict"


section \<open>The manifest as a document\<close>

definition opt_str :: "string option \<Rightarrow> payload pyval" where
  "opt_str o_s = (case o_s of None \<Rightarrow> VNone | Some s \<Rightarrow> VStr s)"

definition error_to_builtins :: "error_info \<Rightarrow> doc" where
  "error_to_builtins e =
    [(''step_id'', VStr (err_step_id e)), (''stage'', VStr (err_stage e)),
     (''error_type'', VStr (err_type e)), (''message'', VStr (err_message e)),
     (''traceback'', opt_str (err_traceback e)), (''timestamp'', VStr (err_timestamp e))]"

definition manifest_to_builtins :: "task_manifest \<Rightarrow> doc" where
  "manifest_to_builtins m =
    [(''job_id'', VStr (m_job_id m)), (''run_id'', VStr (m_run_id m)),
     (''dataset_id'', VStr (m_dataset_id m)), (''status'', VStr (status_value (m_status m))),
     (''current_step_id'', VStr (m_current_step_id m)),
     (''retry_count'', VInt (m_retry_count m)),
     (''is_empty_result_set'', VBool (m_is_empty_result_set m)),
     (''remarks'', opt_str (m_remarks m)),
     (''rollback_stack'', VList (map VStr (m_rollback_stack m))),
     (''payloads'', VList (map VObj (m_payloads m))),
     (''error'', case m_error m of None \<Rightarrow> VNone | Some e \<Rightarrow> VDict (error_to_builtins e))]"

text \<open>Typed field access: a missing required field and a wrong type are both validation errors.\<close>

fun as_str :: "payload pyval \<Rightarrow> string res" where
  "as_str (VStr s) = Ok s"
| "as_str _ = Err ValidationError"

fun as_opt_str :: "payload pyval \<Rightarrow> string option res" where
  "as_opt_str (VStr s) = Ok (Some s)"
| "as_opt_str VNone = Ok None"
| "as_opt_str _ = Err ValidationError"

fun as_int :: "payload pyval \<Rightarrow> int res" where
  "as_int (VInt n) = Ok n"
| "as_int _ = Err ValidationError"

fun as_bool :: "payload pyval \<Rightarrow> bool res" where
  "as_bool (VBool b) = Ok b"
| "as_bool _ = Err ValidationError"

fun as_payload :: "payload pyval \<Rightarrow> payload res" where
  "as_payload (VObj p) = Ok p"
| "as_payload _ = Err ValidationError"

fun as_list :: "(payload pyval \<Rightarrow> 'a res) \<Rightarrow> payload pyval \<Rightarrow> 'a list res" where
  "as_list f (VList vs) = res_map f vs"
| "as_list f _ = Err ValidationError"

definition as_status :: "payload pyval \<Rightarrow> exec_status res" where
  "as_status v = res_bind (as_str v) (\<lambda>s. case status_of s of Inl e \<Rightarrow> Err ValidationError | Inr st \<Rightarrow> Ok st)"

definition required :: "doc \<Rightarrow> string \<Rightarrow> (payload pyval \<Rightarrow> 'a res) \<Rightarrow> 'a res" where
  "required d k f = (case dict_get d k of None \<Rightarrow> Err ValidationError | Some v \<Rightarrow> f v)"

definition optional :: "doc \<Rightarrow> string \<Rightarrow> (payload pyval \<Rightarrow> 'a res) \<Rightarrow> 'a \<Rightarrow> 'a res" where
  "optional d k f dflt = (case dict_get d k of None \<Rightarrow> Ok dflt | Some v \<Rightarrow> f v)"

text \<open>\<open>ErrorInfo\<close>: four required fields; the timestamp defaults to the current time.\<close>

definition error_decode :: "string \<Rightarrow> doc \<Rightarrow> error_info res" where
  "error_decode now d =
    res_bind (required d ''step_id'' as_str) (\<lambda>sid.
    res_bind (required d ''stage'' as_str) (\<lambda>stg.
    res_bind (required d ''error_type'' as_str) (\<lambda>ty.
    res_bind (required d ''message'' as_str) (\<lambda>msg.
    res_bind (optional d ''traceback'' as_opt_str None) (\<lambda>tb.
    res_bind (optional d ''timestamp'' as_str now) (\<lambda>ts.
    Ok \<lparr>err_step_id = sid, err_stage = stg, err_type = ty, err_message = msg,
        err_traceback = tb, err_timestamp = ts\<rparr>))))))"

fun as_error :: "string \<Rightarrow> payload pyval \<Rightarrow> error_info option res" where
  "as_error now VNone = Ok None"
| "as_error now (VDict d) = res_bind (error_decode now d) (\<lambda>e. Ok (Some e))"
| "as_error now _ = Err ValidationError"

definition manifest_decode :: "string \<Rightarrow> doc \<Rightarrow> task_manifest res" where
  "manifest_decode now d =
    res_bind (required d ''job_id'' as_str) (\<lambda>j.
    res_bind (required d ''run_id'' as_str) (\<lambda>r.
    res_bind (required d ''dataset_id'' as_str) (\<lambda>ds.
    res_bind (required d ''status'' as_status) (\<lambda>st.
    res_bind (required d ''current_step_id'' as_str) (\<lambda>cur.
    res_bind (optional d ''retry_count'' as_int 0) (\<lambda>rc.
    res_bind (optional d ''is_empty_result_set'' as_bool False) (\<lambda>em.
    res_bind (optional d ''remarks'' as_opt_str None) (\<lambda>rem.
    res_bind (optional d ''rollback_stack'' (as_list as_str) []) (\<lambda>rb.
    res_bind (optional d ''payloads'' (as_list as_payload) []) (\<lambda>ps.
    res_bind (optional d ''error'' (as_error now) None) (\<lambda>er.
    Ok \<lparr>m_job_id = j, m_run_id = r, m_dataset_id = ds, m_status = st, m_current_step_id = cur,
        m_retry_count = rc, m_is_empty_result_set = em, m_remarks = rem, m_rollback_stack = rb,
        m_payloads = ps, m_error = er\<rparr>)))))))))))"

lemma decode_simps [simp]:
  "as_status (VStr (status_value s)) = Ok s"
  "as_opt_str (opt_str x) = Ok x"
  "res_map as_str (map VStr ss) = Ok ss"
  "res_map as_payload (map VObj ps) = Ok ps"
  by (simp_all add: as_status_def opt_str_def res_map_inv split: option.splits)

lemma error_decode_builtins [simp]: "error_decode now (error_to_builtins e) = Ok e"
  by (simp add: error_decode_def error_to_builtins_def required_def optional_def)

lemma manifest_decode_builtins [simp]: "manifest_decode now (manifest_to_builtins m) = Ok m"
  by (cases "m_error m") (simp_all add: manifest_decode_def manifest_to_builtins_def required_def optional_def)


section \<open>Workspace and manifest file\<close>

text \<open>
  A task's run directory: its category folder, its manifest file and its marker files. A
  relocation moves the whole directory, so the file and the markers stay attached to it.
\<close>

datatype manifest_file = NoFile | Corrupt | Doc doc

record workspace =
  ws_identity :: task_identity
  ws_category :: string
  ws_file :: manifest_file
  ws_markers :: "string set"

definition mk_workspace :: "task_identity \<Rightarrow> string \<Rightarrow> manifest_file \<Rightarrow> workspace" where
  "mk_workspace i category f =
     \<lparr>ws_identity = i, ws_category = str_upper category, ws_file = f, ws_markers = {}\<rparr>"

definition ws_path :: "workspace \<Rightarrow> string list" where
  "ws_path w = [ws_category w, identity_key (ws_identity w), run_id (ws_identity w)]"

definition relocate :: "workspace \<Rightarrow> string \<Rightarrow> workspace" where
  "relocate w new_category = w\<lparr>ws_category := new_category\<rparr>"

definition create_marker :: "workspace \<Rightarrow> string \<Rightarrow> workspace" where
  "create_marker w name = w\<lparr>ws_markers := insert name (ws_markers w)\<rparr>"

definition remove_marker :: "workspace \<Rightarrow> string \<Rightarrow> workspace" where
  "remove_marker w name = w\<lparr>ws_markers := ws_markers w - {name}\<rparr>"

definition skeleton :: "workspace \<Rightarrow> task_manifest" where
  "skeleton w = \<lparr>m_job_id = job_id (ws_identity w), m_run_id = run_id (ws_identity w),
     m_dataset_id = dataset_id (ws_identity w), m_status = UNKNOWN,
     m_current_step_id = ''start'', m_retry_count = 0, m_is_empty_result_set = False,
     m_remarks = None, m_rollback_stack = [], m_payloads = [], m_error = None\<rparr>"

text \<open>
  \<open>load(workspace)\<close>: a missing file gives the skeleton, a corrupt or invalid one also moves
  the directory to \<open>FAILED\<close>. The second result is the workspace after the call.
\<close>

definition load_manifest :: "string \<Rightarrow> workspace \<Rightarrow> task_manifest \<times> workspace" where
  "load_manifest now w = (case ws_file w of
     NoFile \<Rightarrow> (skeleton w, w)
   | Corrupt \<Rightarrow> (skeleton w, relocate w ''FAILED'')
   | Doc d \<Rightarrow> (case manifest_decode now d of
       Inr m \<Rightarrow> (m, w)
     | Inl _ \<Rightarrow> (skeleton w, relocate w ''FAILED'')))"

text \<open>\<open>load(folder_path=...)\<close>: without a workspace the same conditions raise.\<close>

definition load_manifest_path :: "string \<Rightarrow> manifest_file \<Rightarrow> task_manifest res" where
  "load_manifest_path now f = (case f of
     NoFile \<Rightarrow> Err FileNotFoundError
   | Corrupt \<Rightarrow> Err ValidationError
   | Doc d \<Rightarrow> manifest_decode now d)"

definition save_manifest :: "task_manifest \<Rightarrow> workspace \<Rightarrow> workspace" where
  "save_manifest m w = w\<lparr>ws_file := Doc (manifest_to_builtins m)\<rparr>"

text \<open>Read, merge, write: a merged document that does not decode raises before the write.\<close>

definition update_manifest :: "string \<Rightarrow> workspace \<Rightarrow> doc \<Rightarrow> task_manifest res \<times> workspace" where
  "update_manifest now w ups =
    (let (m, w1) = load_manifest now w;
         merged = deep_merge (manifest_to_builtins m) ups
     in case manifest_decode now merged of
          Inl e \<Rightarrow> (Inl e, w1)
        | Inr m' \<Rightarrow> (Inr m', save_manifest m' w1))"

lemma relocate_simps [simp]:
  "ws_file (relocate w c) = ws_file w" "ws_identity (relocate w c) = ws_identity w"
  "ws_markers (relocate w c) = ws_markers w" "ws_category (relocate w c) = c"
  by (simp_all add: relocate_def)

lemma save_manifest_simps [simp]:
  "ws_file (save_manifest m w) = Doc (manifest_to_builtins m)"
  "ws_identity (save_manifest m w) = ws_identity w" "ws_markers (save_manifest m w) = ws_markers w"
  "ws_category (save_manifest m w) = ws_category w"
  by (simp_all add: save_manifest_def)

lemma marker_simps [simp]:
  "ws_file (create_marker w n) = ws_file w" "ws_file (remove_marker w n) = ws_file w"
  "ws_identity (create_marker w n) = ws_identity w" "ws_identity (remove_marker w n) = ws_identity w"
  "ws_category (create_marker w n) = ws_category w" "ws_category (remove_marker w n) = ws_category w"
  "ws_markers (create_marker w n) = insert n (ws_markers w)"
  "ws_markers (remove_marker w n) = ws_markers w - {n}"
  by (simp_all add: create_marker_def remove_marker_def)

text \<open>The workspace holds a readable manifest.\<close>

definition holds :: "workspace \<Rightarrow> task_manifest \<Rightarrow> bool" where
  "holds w m \<longleftrightarrow> ws_file w = Doc (manifest_to_builtins m)"

lemma holds_save [simp]: "holds (save_manifest m w) m"
  by (simp add: holds_def)

lemma load_holds: "holds w m \<Longrightarrow> load_manifest now w = (m, w)"
  by (simp add: holds_def load_manifest_def)

lemma load_save [simp]: "load_manifest now (save_manifest m w) = (m, save_manifest m w)"
  by (rule load_holds) simp

lemma holds_marker [simp]:
  "holds (create_marker w n) m = holds w m" "holds (remove_marker w n) m = holds w m"
  by (simp_all add: holds_def)

lemma update_holds:
  assumes "holds w m"
    and "manifest_decode now (deep_merge (manifest_to_builtins m) ups) = Ok m'"
  shows "update_manifest now w ups = (Ok m', save_manifest m' w)"
  using assms by (simp add: update_manifest_def load_holds)

lemma update_rejects:
  assumes "holds w m"
    and "manifest_decode now (deep_merge (manifest_to_builtins m) ups) = Err e"
  shows "update_manifest now w ups = (Err e, w)"
  using assms by (simp add: update_manifest_def load_holds)

text \<open>
  The updates the program writes: status, current step, rollback stack, retry count and
  payloads replace their field; a new error document is merged into the recorded one.
\<close>

lemma builtins_get [simp]:
  "dict_get (manifest_to_builtins m) ''status'' = Some (VStr (status_value (m_status m)))"
  "dict_get (manifest_to_builtins m) ''error'' =
     Some (case m_error m of None \<Rightarrow> VNone | Some e \<Rightarrow> VDict (error_to_builtins e))"
  by (simp_all add: manifest_to_builtins_def)

text \<open>Decoding a merge field by field: each field is read from the merged value of its key.\<close>

lemma required_merge:
  "dict_ok u \<Longrightarrow> required (deep_merge b u) k f =
     (case merge_value (dict_get b k) (dict_get u k) of None \<Rightarrow> Err ValidationError | Some v \<Rightarrow> f v)"
  by (simp add: required_def deep_merge_get)

lemma optional_merge:
  "dict_ok u \<Longrightarrow> optional (deep_merge b u) k f d =
     (case merge_value (dict_get b k) (dict_get u k) of None \<Rightarrow> Ok d | Some v \<Rightarrow> f v)"
  by (simp add: optional_def deep_merge_get)

lemma merge_value_simps [simp]:
  "merge_value b None = b"
  "merge_value b (Some VNone) = Some VNone" "merge_value b (Some (VBool x)) = Some (VBool x)"
  "merge_value b (Some (VInt n)) = Some (VInt n)" "merge_value b (Some (VStr s)) = Some (VStr s)"
  "merge_value b (Some (VList l)) = Some (VList l)" "merge_value b (Some (VObj p)) = Some (VObj p)"
  "merge_value None (Some v) = Some v" "merge_value (Some VNone) (Some v) = Some v"
  "merge_value (Some (VDict db)) (Some (VDict du)) = Some (VDict (deep_merge db du))"
  by (cases v; simp add: merge_value_def)+

lemmas decode_merge = manifest_decode_def required_merge optional_merge

lemma as_error_none [simp]:
  "as_error now (case e of None \<Rightarrow> VNone | Some x \<Rightarrow> VDict (error_to_builtins x)) = Ok e"
  by (cases e) simp_all

definition field_updates ::
  "exec_status option \<Rightarrow> string option \<Rightarrow> int option \<Rightarrow> string list option \<Rightarrow> payload list option \<Rightarrow> doc"
where
  "field_updates st cur rc rb ps =
     (case st of None \<Rightarrow> [] | Some s \<Rightarrow> [(''status'', VStr (status_value s))]) @
     (case cur of None \<Rightarrow> [] | Some c \<Rightarrow> [(''current_step_id'', VStr c)]) @
     (case rc of None \<Rightarrow> [] | Some n \<Rightarrow> [(''retry_count'', VInt n)]) @
     (case rb of None \<Rightarrow> [] | Some r \<Rightarrow> [(''rollback_stack'', VList (map VStr r))]) @
     (case ps of None \<Rightarrow> [] | Some p \<Rightarrow> [(''payloads'', VList (map VObj p))])"

definition apply_fields ::
  "exec_status option \<Rightarrow> string option \<Rightarrow> int option \<Rightarrow> string list option \<Rightarrow> payload list option \<Rightarrow>
   task_manifest \<Rightarrow> task_manifest"
where
  "apply_fields st cur rc rb ps m = m\<lparr>
     m_status := (case st of None \<Rightarrow> m_status m | Some s \<Rightarrow> s),
     m_current_step_id := (case cur of None \<Rightarrow> m_current_step_id m | Some c \<Rightarrow> c),
     m_retry_count := (case rc of None \<Rightarrow> m_retry_count m | Some n \<Rightarrow> n),
     m_rollback_stack := (case rb of None \<Rightarrow> m_rollback_stack m | Some r \<Rightarrow> r),
     m_payloads := (case ps of None \<Rightarrow> m_payloads m | Some p \<Rightarrow> p)\<rparr>"

lemma update_fields:
  "manifest_decode now (deep_merge (manifest_to_builtins m) (field_updates st cur rc rb ps)) =
     Ok (apply_fields st cur rc rb ps m)"
proof -
  have ok: "dict_ok (field_updates st cur rc rb ps)"
    by (cases st; cases cur; cases rc; cases rb; cases ps) (simp_all add: field_updates_def)
  have g: "dict_get (field_updates st cur rc rb ps) ''job_id'' = None"
    "dict_get (field_updates st cur rc rb ps) ''run_id'' = None"
    "dict_get (field_updates st cur rc rb ps) ''dataset_id'' = None"
    "dict_get (field_updates st cur rc rb ps) ''is_empty_result_set'' = None"
    "dict_get (field_updates st cur rc rb ps) ''remarks'' = None"
    "dict_get (field_updates st cur rc rb ps) ''error'' = None"
    "dict_get (field_updates st cur rc rb ps) ''status'' = map_option (VStr o status_value) st"
    "dict_get (field_updates st cur rc rb ps) ''current_step_id'' = map_option VStr cur"
    "dict_get (field_updates st cur rc rb ps) ''retry_count'' = map_option VInt rc"
    "dict_get (field_updates st cur rc rb ps) ''rollback_stack'' = map_option (VList o map VStr) rb"
    "dict_get (field_updates st cur rc rb ps) ''payloads'' = map_option (VList o map VObj) ps"
    by (simp_all add: field_updates_def split: option.splits)
  show ?thesis
    unfolding manifest_decode_def required_merge [OF ok] optional_merge [OF ok] g
    by (cases st; cases cur; cases rc; cases rb; cases ps)
      (simp_all add: manifest_to_builtins_def apply_fields_def)
qed

definition merged_error :: "task_manifest \<Rightarrow> doc \<Rightarrow> doc" where
  "merged_error m d = (case m_error m of None \<Rightarrow> d | Some e \<Rightarrow> deep_merge (error_to_builtins e) d)"

definition error_updates :: "exec_status \<Rightarrow> doc \<Rightarrow> doc \<Rightarrow> doc" where
  "error_updates st extra d = (''status'', VStr (status_value st)) # extra @ [(''error'', VDict d)]"

text \<open>Keys the manifest declares no field for are dropped by the decoder.\<close>

lemma update_error:
  assumes "extra = [] \<or> extra = [(''blocked_by'', v)]"
  shows "manifest_decode now (deep_merge (manifest_to_builtins m) (error_updates st extra d)) =
    res_bind (error_decode now (merged_error m d))
      (\<lambda>e. Ok (m\<lparr>m_status := st, m_error := Some e\<rparr>))"
proof -
  have ok: "dict_ok (error_updates st extra d)"
    using assms by (auto simp: error_updates_def)
  have g: "dict_get (error_updates st extra d) k =
      (if k = ''status'' then Some (VStr (status_value st))
       else if k = ''error'' then Some (VDict d) else dict_get extra k)" for k
    using assms by (auto simp: error_updates_def)
  have x: "dict_get extra k = None" if "k \<noteq> ''blocked_by''" for k
    using assms that by auto
  show ?thesis
    unfolding manifest_decode_def required_merge [OF ok] optional_merge [OF ok] g
    using x by (cases m; cases "m_error m")
      (simp_all add: manifest_to_builtins_def merged_error_def)
qed

lemma error_decode_incomplete:
  "dict_get d ''step_id'' = None \<Longrightarrow> error_decode now d = Err ValidationError"
  by (simp add: error_decode_def required_def)

lemma update_error_complete:
  assumes "holds w m" "extra = [] \<or> extra = [(''blocked_by'', v)]"
    and "error_decode now (merged_error m d) = Ok e"
  shows "update_manifest now w (error_updates st extra d) =
    (Ok (m\<lparr>m_status := st, m_error := Some e\<rparr>),
     save_manifest (m\<lparr>m_status := st, m_error := Some e\<rparr>) w)"
  using assms by (intro update_holds [OF assms(1)]) (simp add: update_error)

lemma update_error_incomplete:
  assumes "holds w m" "extra = [] \<or> extra = [(''blocked_by'', v)]"
    and "m_error m = None" "dict_get d ''step_id'' = None"
  shows "update_manifest now w (error_updates st extra d) = (Err ValidationError, w)"
  using assms
  by (intro update_rejects [OF assms(1)])
    (simp add: update_error merged_error_def error_decode_incomplete)


section \<open>Manifest view\<close>

text \<open>\<open>list(dict.fromkeys(xs))\<close>: first occurrences, in order.\<close>

definition fromkeys :: "'a list \<Rightarrow> 'a list" where
  "fromkeys xs = fold (\<lambda>x acc. if x \<in> set acc then acc else acc @ [x]) xs []"

lemma fromkeys_snoc:
  "fromkeys (xs @ [x]) = (if x \<in> set (fromkeys xs) then fromkeys xs else fromkeys xs @ [x])"
  by (simp add: fromkeys_def)

lemma set_fromkeys [simp]: "set (fromkeys xs) = set xs"
  by (induction xs rule: rev_induct) (auto simp: fromkeys_snoc, simp add: fromkeys_def)

lemma distinct_fromkeys [simp]: "distinct (fromkeys xs)"
  by (induction xs rule: rev_induct) (auto simp: fromkeys_snoc, simp add: fromkeys_def)

lemma fromkeys_Nil [simp]: "fromkeys [] = []"
  by (simp add: fromkeys_def)

definition completed_step_ids :: "task_manifest \<Rightarrow> string list" where
  "completed_step_ids m =
     fromkeys (map payload_step (filter (\<lambda>p. payload_step p \<noteq> []) (m_payloads m)))"

definition get_upstream_step_id :: "task_manifest \<Rightarrow> string \<Rightarrow> string option" where
  "get_upstream_step_id m sid =
    (let completed = completed_step_ids m in
     if completed = [] then None
     else if sid \<in> set completed then
       (let curr_idx = the (py_index completed sid) in
        if curr_idx > 0 then Some (completed ! (curr_idx - 1)) else None)
     else Some (last completed))"

definition get_payload_for_step :: "task_manifest \<Rightarrow> string \<Rightarrow> payload option" where
  "get_payload_for_step m sid = find (\<lambda>p. payload_step p = sid) (rev (m_payloads m))"

record partition_info =
  pi_source :: "string option"
  pi_file_count :: int
  pi_row_count :: int

text \<open>
  \<open>extract_from_payload\<close>: \<open>partitions\<close> is a dict of extracted partitions for an extract
  payload; a transformed partition has no \<open>file_count\<close> and a write payload's \<open>partitions\<close> is
  a list, so both raise; the other payloads have no such attribute.
\<close>

fun extract_from_payload ::
  "payload \<Rightarrow> (string, partition_info) dict \<Rightarrow> (string, partition_info) dict res"
where
  "extract_from_payload (ExtractPayload sid n parts) pm =
     Ok (fold (\<lambda>(d, p). dict_put d \<lparr>pi_source = pe_resource p, pi_file_count = pe_file_count p,
           pi_row_count = pe_row_processed p\<rparr>) parts pm)"
| "extract_from_payload (TransformPayload sid n parts) pm =
     (if parts = [] then Ok pm else Err AttributeError)"
| "extract_from_payload (WritePayload sid a n dest parts) pm = Err AttributeError"
| "extract_from_payload _ pm = Ok pm"

text \<open>
  \<open>stage_attr\<close> stands for \<open>getattr(p, 'stage', None)\<close>: whether the struct library exposes its
  tag field as an attribute is not decided by this code.
\<close>

fun scan_extract_payloads ::
  "(payload \<Rightarrow> string option) \<Rightarrow> payload list \<Rightarrow> (string, partition_info) dict \<Rightarrow>
   (string, partition_info) dict res"
where
  "scan_extract_payloads stage_attr [] pm = Ok pm"
| "scan_extract_payloads stage_attr (p # ps) pm =
     (if stage_attr p = Some ''extract''
      then res_bind (extract_from_payload p pm) (scan_extract_payloads stage_attr ps)
      else scan_extract_payloads stage_attr ps pm)"

definition get_partition_metadata_map ::
  "(payload \<Rightarrow> string option) \<Rightarrow> task_manifest \<Rightarrow> string option \<Rightarrow> (string, partition_info) dict res"
where
  "get_partition_metadata_map stage_attr m sid_opt =
    (case sid_opt of
       Some (c # cs) \<Rightarrow>
         (case get_payload_for_step m (c # cs) of None \<Rightarrow> Ok [] | Some p \<Rightarrow> extract_from_payload p [])
     | _ \<Rightarrow> scan_extract_payloads stage_attr (m_payloads m) [])"


section \<open>Stage checkpoints\<close>

text \<open>\<open>validate_row_count\<close>: the updated manifest is the caller's in-memory object.\<close>

definition validate_row_count ::
  "string \<Rightarrow> task_manifest \<Rightarrow> int \<Rightarrow> string option \<Rightarrow> (bool \<times> task_manifest) res"
where
  "validate_row_count sid m row_count dep =
    (if row_count > 0 then Ok (False, m)
     else let target = str_or dep sid;
              rollback_count = count_list (m_rollback_stack m) target
          in if rollback_count = 0 then Err RollbackRequired
             else Ok (True, m\<lparr>m_is_empty_result_set := True\<rparr>))"

text \<open>The \<open>next_step_id\<close> of the stage context is empty at the end of the run.\<close>

definition next_step :: "string \<Rightarrow> string" where
  "next_step next_id = (if next_id = [] then NO_MORE_STAGES else next_id)"

text \<open>\<open>config_class = None\<close> accepts any configuration.\<close>

definition bind_config :: "stage option \<Rightarrow> step_context \<Rightarrow> stage res" where
  "bind_config config_class step = (case step_config step of
     None \<Rightarrow> Err RuntimeError
   | Some c \<Rightarrow> (case config_class of
       None \<Rightarrow> Ok c
     | Some k \<Rightarrow> if c \<noteq> k then Err TypeError else Ok c))"

definition save_stage_error ::
  "string \<Rightarrow> workspace \<Rightarrow> step_context \<Rightarrow> string \<Rightarrow> string \<Rightarrow> string \<Rightarrow> unit res \<times> workspace"
where
  "save_stage_error now w step error_type message tb =
    (let err = \<lparr>err_step_id = step_id step, err_stage = step_stage step, err_type = error_type,
                 err_message = message, err_traceback = Some tb, err_timestamp = now\<rparr>;
         (r, w1) = update_manifest now w (error_updates FAILED [] (error_to_builtins err))
     in (res_bind r (\<lambda>_. Ok ()), w1))"

definition save_stage_outcome ::
  "string \<Rightarrow> workspace \<Rightarrow> task_manifest \<Rightarrow> payload option \<Rightarrow> unit res \<times> workspace"
where
  "save_stage_outcome now w m p_opt = (case p_opt of
     None \<Rightarrow> (Err ValueError, w)
   | Some p \<Rightarrow>
      (let updated_payloads = m_payloads m @ [p];
           (r, w1) = update_manifest now w [(''payloads'', VList (map VObj updated_payloads))]
       in case r of
            Inl e \<Rightarrow> (Inl e, w1)
          | Inr _ \<Rightarrow> (Ok (), snd (load_manifest now w1))))"

lemma completed_snoc:
  "payload_step p \<noteq> [] \<Longrightarrow>
   completed_step_ids (m\<lparr>m_payloads := m_payloads m @ [p]\<rparr>) =
     (if payload_step p \<in> set (completed_step_ids m) then completed_step_ids m
      else completed_step_ids m @ [payload_step p])"
  by (simp add: completed_step_ids_def fromkeys_snoc)

lemma completed_distinct [simp]: "distinct (completed_step_ids m)"
  by (simp add: completed_step_ids_def)

lemma save_stage_outcome_holds:
  assumes "holds w disk"
  shows "save_stage_outcome now w m (Some p) =
    (Ok (), save_manifest (disk\<lparr>m_payloads := m_payloads m @ [p]\<rparr>) w)"
proof -
  have "manifest_decode now (deep_merge (manifest_to_builtins disk)
      (field_updates None None None None (Some (m_payloads m @ [p])))) =
    Ok (disk\<lparr>m_payloads := m_payloads m @ [p]\<rparr>)"
    unfolding update_fields by (simp add: apply_fields_def)
  then have "update_manifest now w [(''payloads'', VList (map VObj (m_payloads m @ [p])))] =
    (Ok (disk\<lparr>m_payloads := m_payloads m @ [p]\<rparr>),
     save_manifest (disk\<lparr>m_payloads := m_payloads m @ [p]\<rparr>) w)"
    by (intro update_holds [OF assms]) (simp add: field_updates_def)
  then show ?thesis
    by (simp add: save_stage_outcome_def load_holds)
qed

lemma find_rev_snoc [simp]: "find P (rev (xs @ [x])) = (if P x then Some x else find P (rev xs))"
  by simp

text \<open>
  C30. A successful checkpoint is durable and readable: after \<open>save_stage_outcome\<close> the manifest
  on disk decodes again, its payloads are the in-memory payloads followed by the new one, the
  step counts as completed exactly once, and looking the step up returns the new payload. Only
  the payloads are written: every other field, the \<open>is_empty_result_set\<close> flag that
  \<open>validate_row_count\<close> sets on the in-memory manifest included, keeps its value on disk.
\<close>

theorem checkpoint_records_payload:
  assumes "holds w disk" "payload_step p \<noteq> []"
  shows "\<exists>m' w'. save_stage_outcome now w m (Some p) = (Ok (), w') \<and>
    load_manifest now w' = (m', w') \<and>
    m' = disk\<lparr>m_payloads := m_payloads m @ [p]\<rparr> \<and>
    completed_step_ids m' =
      (if payload_step p \<in> set (completed_step_ids m) then completed_step_ids m
       else completed_step_ids m @ [payload_step p]) \<and>
    distinct (completed_step_ids m') \<and>
    get_payload_for_step m' (payload_step p) = Some p \<and>
    m_is_empty_result_set m' = m_is_empty_result_set disk"
proof -
  let ?m' = "disk\<lparr>m_payloads := m_payloads m @ [p]\<rparr>"
  have "completed_step_ids ?m' = completed_step_ids (m\<lparr>m_payloads := m_payloads m @ [p]\<rparr>)"
    by (simp add: completed_step_ids_def)
  then show ?thesis
    using save_stage_outcome_holds [OF assms(1), of now m p] completed_snoc [OF assms(2), of m]
    by (intro exI [of _ ?m'] exI [of _ "save_manifest ?m' w"])
      (simp add: get_payload_for_step_def)
qed

definition sample_manifest :: task_manifest where
  "sample_manifest = \<lparr>m_job_id = ''j1'', m_run_id = ''r7'', m_dataset_id = ''ds'', m_status = RUNNING,
     m_current_step_id = ''extract'', m_retry_count = 0, m_is_empty_result_set = False,
     m_remarks = None, m_rollback_stack = [], m_payloads = [StartPayload ''start'' ''abc''],
     m_error = None\<rparr>"

definition sample_ws :: workspace where
  "sample_ws = mk_workspace (identity sample_ref) ''active'' (Doc (manifest_to_builtins sample_manifest))"

lemma sample_ws_holds [simp]: "holds sample_ws sample_manifest"
  by (simp add: holds_def sample_ws_def mk_workspace_def)

theorem checkpoint_records_payload_witness:
  "\<exists>m' w'. save_stage_outcome ''now'' sample_ws (sample_manifest\<lparr>m_is_empty_result_set := True\<rparr>)
      (Some (ExtractPayload ''extract'' 0 [])) = (Ok (), w') \<and>
    load_manifest ''now'' w' = (m', w') \<and>
    completed_step_ids m' = [''start'', ''extract''] \<and>
    \<not> m_is_empty_result_set m'"
proof -
  have c: "completed_step_ids (sample_manifest\<lparr>m_is_empty_result_set := True\<rparr>) = [''start'']"
    by (simp add: completed_step_ids_def sample_manifest_def fromkeys_def)
  have e: "\<not> m_is_empty_result_set sample_manifest" by (simp add: sample_manifest_def)
  from checkpoint_records_payload [OF sample_ws_holds, of "ExtractPayload ''extract'' 0 []" "''now''"
      "sample_manifest\<lparr>m_is_empty_result_set := True\<rparr>"]
  show ?thesis unfolding c using e by auto
qed

end
