(* ===== verification/StateHub.thy ===== *)
theory StateHub
  imports Manifest
begin

text \<open>
  The orchestrator's view of task state (\<open>core/orchestrator/common/state\<close>): records and updates
  (\<open>models.py\<close>), the in-memory store (\<open>store.py\<close>), the spill-over stream (\<open>sink.py\<close>), the parser
  that turns a manifest into an update (\<open>source.py\<close>) and the hub that routes between them
  (\<open>hub.py\<close>). Timestamps are integers; parsing and formatting them is left out.
\<close>


section \<open>Records and updates\<close>

record task_record =
  tr_job_id :: string
  tr_run_id :: string
  tr_dataset_id :: string
  tr_scheduled_at :: int
  tr_status :: "string option"
  tr_partition_date :: "string option"
  tr_start :: "int option"
  tr_end :: "int option"
  tr_last_updated :: "int option"
  tr_current_step :: "string option"
  tr_is_scheduled :: int
  tr_errors :: "error_info option"
  tr_retry_attempts :: int
  tr_expiration :: "int option"
  tr_is_snapshot :: bool

record task_update =
  tu_job_id :: string
  tu_dataset_id :: string
  tu_partition_date :: string
  tu_status :: string
  tu_last_updated :: "int option"
  tu_scheduled_at :: "int option"
  tu_start :: "int option"
  tu_end :: "int option"
  tu_current_step :: "string option"
  tu_progress :: "string option"
  tu_is_scheduled :: int
  tu_errors :: "error_info option"
  tu_retry_attempts :: int
  tu_final_row_count :: "int option"
  tu_final_manifest :: "task_manifest option"
  tu_remarks :: "string option"

text \<open>\<open>TaskRecord.__post_init__\<close> and \<open>TaskUpdate.__post_init__\<close>.\<close>

definition record_post_init :: "task_record \<Rightarrow> task_record res" where
  "record_post_init r =
    (if tr_job_id r = [] \<or> tr_dataset_id r = [] then Err ValueError
     else Ok (r\<lparr>tr_current_step := map_option str_upper (tr_current_step r),
               tr_status := map_option str_upper (tr_status r)\<rparr>))"

definition update_post_init :: "task_update \<Rightarrow> task_update" where
  "update_post_init u = u\<lparr>tu_current_step := map_option str_upper (tu_current_step u)\<rparr>"

definition is_triggered :: "task_record \<Rightarrow> bool" where
  "is_triggered r \<longleftrightarrow> tr_status r \<notin> {Some (status_value PENDING), Some (status_value UNKNOWN)}"

text \<open>\<open>status and ExecutionStatus(status).is_terminal\<close>: an unknown status value raises.\<close>

definition status_terminal :: "string option \<Rightarrow> bool res" where
  "status_terminal o_s = (case o_s of
     None \<Rightarrow> Ok False
   | Some s \<Rightarrow> if s = [] then Ok False else res_bind (status_of s) (\<lambda>st. Ok (is_terminal st)))"

definition apply_update :: "task_record \<Rightarrow> task_update \<Rightarrow> (bool \<times> task_record) res" where
  "apply_update r u =
    res_bind (status_terminal (tr_status r)) (\<lambda>terminal.
    res_bind (if terminal then res_bind (status_of (tu_status u)) (\<lambda>st. Ok (\<not> is_terminal st)) else Ok False)
      (\<lambda>blocked.
    if blocked then Ok (False, r)
    else Ok (True, r\<lparr>
      tr_status := Some (tu_status u),
      tr_last_updated := (case tu_last_updated u of None \<Rightarrow> tr_last_updated r | Some t \<Rightarrow> Some t),
      tr_start := (case tu_start u of None \<Rightarrow> tr_start r | Some t \<Rightarrow> Some t),
      tr_end := (case tu_end u of None \<Rightarrow> tr_end r | Some t \<Rightarrow> Some t),
      tr_current_step := (case tu_current_step u of None \<Rightarrow> tr_current_step r | Some s \<Rightarrow> Some s),
      tr_errors := (case tu_errors u of None \<Rightarrow> tr_errors r | Some e \<Rightarrow> Some e),
      tr_retry_attempts := (if tu_retry_attempts u \<noteq> 0 then tu_retry_attempts u else tr_retry_attempts r)\<rparr>)))"


section \<open>The store\<close>

type_synonym store = "(string, task_record) dict"

definition store_get :: "store \<Rightarrow> string \<Rightarrow> task_record option" where
  "store_get s rid = dict_get s rid"

definition new_record :: "int \<Rightarrow> task_identity \<Rightarrow> task_record" where
  "new_record now i = \<lparr>tr_job_id = job_id i, tr_run_id = run_id i, tr_dataset_id = dataset_id i,
     tr_scheduled_at = now, tr_status = None, tr_partition_date = Some (partition_date i),
     tr_start = None, tr_end = None, tr_last_updated = None, tr_current_step = None,
     tr_is_scheduled = 0, tr_errors = None, tr_retry_attempts = 0, tr_expiration = None,
     tr_is_snapshot = False\<rparr>"

definition store_add :: "int \<Rightarrow> store \<Rightarrow> task_identity \<Rightarrow> (task_record \<times> store) res" where
  "store_add now s i = (case dict_get s (run_id i) of
     Some r \<Rightarrow> Ok (r, s)
   | None \<Rightarrow> res_bind (record_post_init (new_record now i))
       (\<lambda>r. Ok (r, dict_put (run_id i) r s)))"

definition store_update :: "store \<Rightarrow> string \<Rightarrow> task_update \<Rightarrow> (bool \<times> store) res" where
  "store_update s rid u = (case dict_get s rid of
     None \<Rightarrow> Ok (False, s)
   | Some r \<Rightarrow> res_bind (apply_update r u) (\<lambda>(changed, r'). Ok (changed, dict_put rid r' s)))"

text \<open>One record of \<open>upsert\<close>; the first record whose status is unknown stops the loop.\<close>

definition upsert_one :: "store \<Rightarrow> string \<Rightarrow> task_record \<Rightarrow> store res" where
  "upsert_one s rid db = (case dict_get s rid of
     None \<Rightarrow> Ok (dict_put rid db s)
   | Some local \<Rightarrow> res_bind (status_terminal (tr_status local)) (\<lambda>terminal.
       if terminal then Ok s
       else (case (tr_last_updated db, tr_last_updated local) of
               (None, _) \<Rightarrow> Ok (dict_put rid db s)
             | (Some d, Some l) \<Rightarrow> if d \<ge> l then Ok (dict_put rid db s) else Ok s
             | (Some d, None) \<Rightarrow> Ok s)))"

fun store_upsert :: "store \<Rightarrow> (string \<times> task_record) list \<Rightarrow> unit res \<times> store" where
  "store_upsert s [] = (Ok (), s)"
| "store_upsert s ((rid, db) # rest) = (case upsert_one s rid db of
     Inl e \<Rightarrow> (Inl e, s)
   | Inr s' \<Rightarrow> store_upsert s' rest)"

definition store_remove :: "store \<Rightarrow> string \<Rightarrow> store" where
  "store_remove s rid = dict_del rid s"

text \<open>The run has a record whose status is terminal.\<close>

definition finished :: "store \<Rightarrow> string \<Rightarrow> bool" where
  "finished s rid \<longleftrightarrow> (\<exists>r st. dict_get s rid = Some r \<and> tr_status r = Some (status_value st) \<and> is_terminal st)"

lemma status_terminal_value [simp]: "status_terminal (Some (status_value st)) = Ok (is_terminal st)"
  by (simp add: status_terminal_def)

lemma apply_update_terminal:
  assumes "tr_status r = Some (status_value st)" "is_terminal st" "apply_update r u = Ok (b, r')"
  shows "\<exists>st'. tr_status r' = Some (status_value st') \<and> is_terminal st'"
  using assms by (auto simp: apply_update_def res_bind_Ok_iff status_of_Ok_iff split: if_splits)

lemma update_keeps_finished:
  assumes "finished s rid" "store_update s rid' u = Ok (b, s')"
  shows "finished s' rid"
proof (cases "rid' = rid")
  case True
  obtain r st where r: "dict_get s rid = Some r" "tr_status r = Some (status_value st)" "is_terminal st"
    using assms(1) by (auto simp: finished_def)
  obtain r' where "apply_update r u = Ok (b, r')" "s' = dict_put rid r' s"
    using assms(2) r True by (auto simp: store_update_def res_bind_Ok_iff)
  then show ?thesis using apply_update_terminal [OF r(2,3)] by (auto simp: finished_def dict_simps)
next
  case False
  then show ?thesis using assms
    by (auto simp: finished_def store_update_def res_bind_Ok_iff dict_simps split: option.splits)
qed

lemma add_keeps_finished:
  "finished s rid \<Longrightarrow> store_add now s i = Ok (r, s') \<Longrightarrow> finished s' rid"
  by (auto simp: finished_def store_add_def res_bind_Ok_iff dict_simps split: option.splits)

lemma upsert_one_keeps_finished:
  assumes "finished s rid" "upsert_one s rid' db = Ok s'"
  shows "finished s' rid"
proof (cases "rid' = rid")
  case True
  then show ?thesis using assms by (auto simp: finished_def upsert_one_def)
next
  case False
  then show ?thesis using assms
    by (auto simp: finished_def upsert_one_def res_bind_Ok_iff dict_simps split: option.splits if_splits)
qed

lemma upsert_keeps_finished: "finished s rid \<Longrightarrow> finished (snd (store_upsert s rs)) rid"
proof (induction s rs rule: store_upsert.induct)
  case (2 s rid' db rest)
  then show ?case by (auto split: sum.splits dest: upsert_one_keeps_finished)
qed simp


section \<open>The sink\<close>

text \<open>
  The stream file, the batches rotated into the staging directory, and the archive. The result
  of converting and loading a batch is the oracle argument of \<open>flush_to_db\<close>.
\<close>

record sink =
  sk_stream :: "task_update list"
  sk_staged :: "task_update list list"
  sk_archive :: "task_update list list"

definition sink_append :: "sink \<Rightarrow> task_update \<Rightarrow> sink" where
  "sink_append k u = k\<lparr>sk_stream := sk_stream k @ [u]\<rparr>"

definition rotate_and_stage :: "sink \<Rightarrow> task_update list option \<times> sink" where
  "rotate_and_stage k =
    (if sk_stream k = [] then (None, k)
     else (Some (sk_stream k), k\<lparr>sk_stream := [], sk_staged := sk_staged k @ [sk_stream k]\<rparr>))"

definition flush_to_db :: "(task_update list \<Rightarrow> bool) \<Rightarrow> sink \<Rightarrow> sink" where
  "flush_to_db load_ok k = (case rotate_and_stage k of
     (None, k1) \<Rightarrow> k1
   | (Some batch, k1) \<Rightarrow>
       if load_ok batch
       then k1\<lparr>sk_staged := butlast (sk_staged k1), sk_archive := sk_archive k1 @ [batch]\<rparr>
       else k1)"

definition sink_contents :: "sink \<Rightarrow> task_update multiset" where
  "sink_contents k = mset (concat (sk_archive k)) + mset (concat (sk_staged k)) + mset (sk_stream k)"

lemma append_contents: "sink_contents (sink_append k u) = add_mset u (sink_contents k)"
  by (simp add: sink_contents_def sink_append_def)

lemma flush_contents: "sink_contents (flush_to_db ok k) = sink_contents k"
  by (simp add: flush_to_db_def rotate_and_stage_def sink_contents_def split: if_splits)

lemma flush_staged:
  "sk_staged (flush_to_db ok k) =
     (if sk_stream k = [] \<or> ok (sk_stream k) then sk_staged k else sk_staged k @ [sk_stream k])"
  by (simp add: flush_to_db_def rotate_and_stage_def)


section \<open>From a manifest to an update\<close>

record sync_metadata =
  sm_status :: "string option"
  sm_remarks :: "string option"
  sm_blocked_by :: "string option"

definition no_metadata :: sync_metadata where
  "no_metadata = \<lparr>sm_status = None, sm_remarks = None, sm_blocked_by = None\<rparr>"

text \<open>\<open>ts\<close> is the formatted current time.\<close>

definition build_remarks :: "string \<Rightarrow> task_manifest \<Rightarrow> string \<Rightarrow> sync_metadata \<Rightarrow> string option" where
  "build_remarks ts m status md =
    (let r0 = (case sm_remarks md of Some (c # cs) \<Rightarrow> Some (c # cs) | _ \<Rightarrow> None);
         r1 = (if status = status_value RETRY
               then Some (''Transient error, retrying (attempt '' @ show_int (m_retry_count m) @ '') at '' @ ts)
               else r0);
         r2 = (if status = status_value BLOCKED
               then (let b = (case sm_blocked_by md of Some (c # cs) \<Rightarrow> Some (''Task blocked by '' @ [CHR 0x27] @ (c # cs) @ [CHR 0x27]) | _ \<Rightarrow> r1);
                         e = (case m_error m of Some i \<Rightarrow> if err_message i \<noteq> [] then Some (err_message i) else b | None \<Rightarrow> b)
                     in (case e of None \<Rightarrow> Some ''Task blocked by unknown service'' | Some x \<Rightarrow> Some x))
               else r1)
     in if status = status_value FAILED
        then (case m_error m of Some i \<Rightarrow> Some (err_message i) | None \<Rightarrow> r2)
        else r2)"

definition step_index :: "task_manifest \<Rightarrow> string list \<Rightarrow> string \<Rightarrow> nat" where
  "step_index m act status =
    (let total = length act;
         completed_count = length (filter (\<lambda>sid. sid \<in> set (completed_step_ids m)) act)
     in if status = status_value SUCCESS then total
        else case py_index act (m_current_step_id m) of
               Some i \<Rightarrow> i + 1
             | None \<Rightarrow> min (completed_count + 1) total)"

definition calculate_step_progress ::
  "task_manifest \<Rightarrow> task_context option \<Rightarrow> string \<Rightarrow> string option \<times> string"
where
  "calculate_step_progress m c_opt status =
    (let cur = m_current_step_id m in
     case c_opt of
       None \<Rightarrow> (None, cur)
     | Some c \<Rightarrow>
        if steps c = [] then (None, cur)
        else let act = active_ids c in
        if act = [] then (None, cur)
        else
          (Some (''Step '' @ show_nat (step_index m act status) @ '' of '' @ show_nat (length act)),
           if from_step c \<noteq> ''start'' \<or> to_step c \<noteq> []
           then cur @ '' ['' @ from_step c @ ''..'' @
                (if to_step c \<noteq> [] then to_step c else ''end'') @ '']'' else cur))"

text \<open>Start and end times are attributes of the payloads, read by the given functions.\<close>

definition extract_timestamps ::
  "(payload \<Rightarrow> int) \<Rightarrow> (payload \<Rightarrow> int) \<Rightarrow> task_manifest \<Rightarrow> int option \<times> int option"
where
  "extract_timestamps start_of end_of m =
    (if m_payloads m = [] then (None, None)
     else (Some (start_of (hd (m_payloads m))),
           if m_status m \<in> {SUCCESS, FAILED, CANCELLED} then Some (end_of (last (m_payloads m))) else None))"

fun final_rows :: "int option \<Rightarrow> payload list \<Rightarrow> int option" where
  "final_rows acc [] = acc"
| "final_rows acc (PublishPayload s f n # ps) = final_rows (Some n) ps"
| "final_rows acc (WritePayload s a n d p # ps) =
     final_rows (if acc = None then Some n else acc) ps"
| "final_rows acc (p # ps) = final_rows acc ps"

definition extract_row_counts :: "task_manifest \<Rightarrow> int option" where
  "extract_row_counts m = final_rows None (m_payloads m)"

definition parse_update ::
  "int \<Rightarrow> string \<Rightarrow> (payload \<Rightarrow> int) \<Rightarrow> (payload \<Rightarrow> int) \<Rightarrow> store \<Rightarrow> task_manifest \<Rightarrow>
   task_context \<Rightarrow> bool \<Rightarrow> sync_metadata \<Rightarrow> task_update res"
where
  "parse_update now ts start_of end_of s m c deep md =
    (let status = (case sm_status md of Some x \<Rightarrow> x | None \<Rightarrow> status_value (m_status m));
         (progress, cur) = calculate_step_progress m (Some c) status;
         (st, en) = extract_timestamps start_of end_of m
     in case store_get s (m_run_id m) of
          None \<Rightarrow> Err ValueError
        | Some r \<Rightarrow> Ok (update_post_init
            \<lparr>tu_job_id = m_job_id m, tu_dataset_id = m_dataset_id m,
             tu_partition_date = partition_date (ctx_identity c), tu_status = status,
             tu_last_updated = Some now, tu_scheduled_at = Some (tr_scheduled_at r),
             tu_start = st, tu_end = en, tu_current_step = Some cur, tu_progress = progress,
             tu_is_scheduled = tr_is_scheduled r, tu_errors = m_error m,
             tu_retry_attempts = m_retry_count m, tu_final_row_count = extract_row_counts m,
             tu_final_manifest = (if deep then Some m else None),
             tu_remarks = build_remarks ts m status md\<rparr>))"


section \<open>The hub\<close>

record hub =
  hub_store :: store
  hub_sink :: sink

text \<open>\<open>update_task\<close>: the argument is the outcome of converting the raw update.\<close>

definition update_task :: "hub \<Rightarrow> string \<Rightarrow> task_update res \<Rightarrow> unit res \<times> hub" where
  "update_task h rid u_res = (case u_res of
     Inl e \<Rightarrow> (Inl e, h)
   | Inr u \<Rightarrow> (case store_update (hub_store h) rid (update_post_init u) of
       Inl e \<Rightarrow> (Inl e, h)
     | Inr (changed, s') \<Rightarrow>
        (Ok (), h\<lparr>hub_store := s',
           hub_sink := (if changed then sink_append (hub_sink h) (update_post_init u) else hub_sink h)\<rparr>)))"

definition remove_task :: "hub \<Rightarrow> string \<Rightarrow> hub" where
  "remove_task h rid = h\<lparr>hub_store := store_remove (hub_store h) rid\<rparr>"

text \<open>\<open>sync_manifest\<close> of a resolved folder: its manifest file and the loaded context.\<close>

definition sync_manifest ::
  "int \<Rightarrow> string \<Rightarrow> (payload \<Rightarrow> int) \<Rightarrow> (payload \<Rightarrow> int) \<Rightarrow> hub \<Rightarrow> manifest_file \<Rightarrow>
   task_context res \<Rightarrow> bool \<Rightarrow> sync_metadata \<Rightarrow> unit res \<times> hub"
where
  "sync_manifest now ts start_of end_of h f c_res deep md =
    (case load_manifest_path ts f of
       Inl e \<Rightarrow> (Inl e, h)
     | Inr m \<Rightarrow> (case c_res of
         Inl e \<Rightarrow> (Inl e, h)
       | Inr c \<Rightarrow> (case parse_update now ts start_of end_of (hub_store h) m c deep md of
           Inl e \<Rightarrow> (Inl e, h)
         | Inr u \<Rightarrow> (case store_update (hub_store h) (m_run_id m) u of
             Inl e \<Rightarrow> (Inl e, h)
           | Inr (changed, s') \<Rightarrow>
              (Ok (), h\<lparr>hub_store := s',
                 hub_sink := (if changed then sink_append (hub_sink h) u else hub_sink h)\<rparr>)))))"

definition hub_flush :: "(task_update list \<Rightarrow> bool) \<Rightarrow> hub \<Rightarrow> hub" where
  "hub_flush ok h = h\<lparr>hub_sink := flush_to_db ok (hub_sink h)\<rparr>"


section \<open>Runs of the hub\<close>

text \<open>Everything that can happen to a tracked run short of its removal.\<close>

inductive hub_step :: "hub \<Rightarrow> hub \<Rightarrow> bool" where
  update: "update_task h rid u = (r, h') \<Longrightarrow> hub_step h h'"
| sync: "sync_manifest now ts so eo h f c deep md = (r, h') \<Longrightarrow> hub_step h h'"
| add: "store_add now (hub_store h) i = Ok (rec, s') \<Longrightarrow> hub_step h (h\<lparr>hub_store := s'\<rparr>)"
| upsert: "store_upsert (hub_store h) rs = (r, s') \<Longrightarrow> hub_step h (h\<lparr>hub_store := s'\<rparr>)"
| flush: "hub_step h (hub_flush ok h)"

inductive_cases hub_stepE: "hub_step h h'"

lemma update_task_cases:
  assumes "update_task h rid u = (r, h')"
  obtains "h' = h"
  | v b where "store_update (hub_store h) rid v = Ok (b, hub_store h')"
      "hub_sink h' = (if b then sink_append (hub_sink h) v else hub_sink h)"
  using assms by (auto simp: update_task_def split: sum.splits prod.splits)

lemma sync_manifest_cases:
  assumes "sync_manifest now ts so eo h f c deep md = (r, h')"
  obtains "h' = h"
  | rid v b where "store_update (hub_store h) rid v = Ok (b, hub_store h')"
      "hub_sink h' = (if b then sink_append (hub_sink h) v else hub_sink h)"
  using assms by (auto simp: sync_manifest_def split: sum.splits prod.splits)

lemma hub_step_finished:
  assumes "hub_step h h'" "finished (hub_store h) rid"
  shows "finished (hub_store h') rid"
  using assms(1)
proof (cases rule: hub_step.cases)
  case (update rid' u r)
  then show ?thesis using assms(2) by (cases rule: update_task_cases) (auto intro: update_keeps_finished)
next
  case (sync now ts so eo f c deep md r)
  then show ?thesis using assms(2) by (cases rule: sync_manifest_cases) (auto intro: update_keeps_finished)
next
  case (add now i rec s')
  then show ?thesis using assms(2) by (auto intro: add_keeps_finished)
next
  case (upsert rs r s')
  then show ?thesis using upsert_keeps_finished [OF assms(2), of rs] by simp
next
  case (flush ok)
  then show ?thesis using assms(2) by (simp add: hub_flush_def)
qed

lemma hub_step_sink:
  assumes "hub_step h h'"
  shows "sink_contents (hub_sink h) \<subseteq># sink_contents (hub_sink h')"
    and "\<exists>new. sk_staged (hub_sink h') = sk_staged (hub_sink h) @ new"
proof -
  have app: "sink_contents (hub_sink h) \<subseteq># sink_contents (if b then sink_append (hub_sink h) v else hub_sink h)"
    "\<exists>new. sk_staged (if b then sink_append (hub_sink h) v else hub_sink h) = sk_staged (hub_sink h) @ new" for b v
    by (simp_all add: append_contents) (simp add: sink_append_def)
  from assms have "sink_contents (hub_sink h) \<subseteq># sink_contents (hub_sink h') \<and>
    (\<exists>new. sk_staged (hub_sink h') = sk_staged (hub_sink h) @ new)"
  proof (cases rule: hub_step.cases)
    case (update rid' u r)
    then show ?thesis by (cases rule: update_task_cases) (use app in auto)
  next
    case (sync now ts so eo f c deep md r)
    then show ?thesis by (cases rule: sync_manifest_cases) (use app in auto)
  next
    case (flush ok)
    then show ?thesis by (auto simp: hub_flush_def flush_contents flush_staged)
  qed auto
  then show "sink_contents (hub_sink h) \<subseteq># sink_contents (hub_sink h')"
    and "\<exists>new. sk_staged (hub_sink h') = sk_staged (hub_sink h) @ new" by auto
qed

text \<open>
  C7. A finished run stays finished: over any sequence of updates, manifest syncs, registrations,
  bulk refreshes from the database and flushes, in any order and with any arguments, a run whose
  record has a terminal status never goes back to a non-terminal one.
\<close>

theorem terminal_status_is_final:
  assumes "hub_step\<^sup>*\<^sup>* h h'" "finished (hub_store h) rid"
  shows "finished (hub_store h') rid"
  using assms by (induction rule: rtranclp_induct) (auto intro: hub_step_finished)

definition done_record :: task_record where
  "done_record = (new_record 0 (identity sample_ref))\<lparr>tr_status := Some ''SUCCESS''\<rparr>"

definition running_update :: task_update where
  "running_update = \<lparr>tu_job_id = ''j1'', tu_dataset_id = ''ds'', tu_partition_date = ''2024-01-01'',
     tu_status = ''RUNNING'', tu_last_updated = Some 5, tu_scheduled_at = None, tu_start = None,
     tu_end = None, tu_current_step = Some ''write'', tu_progress = None, tu_is_scheduled = 1,
     tu_errors = None, tu_retry_attempts = 0, tu_final_row_count = None, tu_final_manifest = None,
     tu_remarks = None\<rparr>"

definition done_hub :: hub where
  "done_hub = \<lparr>hub_store = [(''r7'', done_record)], hub_sink = \<lparr>sk_stream = [], sk_staged = [], sk_archive = []\<rparr>\<rparr>"

theorem terminal_status_is_final_witness:
  "finished (hub_store (snd (update_task done_hub ''r7'' (Ok running_update)))) ''r7''"
proof -
  have f: "finished (hub_store done_hub) ''r7''"
    by (auto simp: finished_def done_hub_def done_record_def intro!: exI [of _ SUCCESS])
  have "hub_step\<^sup>*\<^sup>* done_hub (snd (update_task done_hub ''r7'' (Ok running_update)))"
    by (rule r_into_rtranclp, rule hub_step.update) (rule prod.collapse [symmetric])
  from terminal_status_is_final [OF this f] show ?thesis .
qed



text \<open>
  Reported progress stays within the plan: the position in \<open>Step i of n\<close> is at least one and
  at most the number of planned steps, it is the last one for a successful run, and otherwise it
  is the position of the current step in the plan when the step is in it.
\<close>

theorem progress_in_bounds:
  assumes "active_ids c \<noteq> []"
  shows "1 \<le> step_index m (active_ids c) status \<and> step_index m (active_ids c) status \<le> length (active_ids c) \<and>
    (status = status_value SUCCESS \<longrightarrow> step_index m (active_ids c) status = length (active_ids c)) \<and>
    (\<forall>i < length (active_ids c). distinct (active_ids c) \<and> m_current_step_id m = active_ids c ! i \<and>
       status \<noteq> status_value SUCCESS \<longrightarrow> step_index m (active_ids c) status = i + 1)"
proof -
  have "py_index (active_ids c) x = Some i \<Longrightarrow> i < length (active_ids c)" for x i
    by (auto dest: py_index_SomeD)
  then show ?thesis using assms
    by (auto simp: step_index_def Let_def Suc_le_eq py_index_distinct split: option.splits)
qed

theorem progress_in_bounds_witness:
  "step_index sample_manifest (active_ids (default_bounds sample_ctx)) ''SUCCESS'' =
     length (active_ids (default_bounds sample_ctx))"
proof -
  have "ctx_ok (default_bounds sample_ctx)"
    by (simp add: sample_ctx_def default_bounds_def ctx_ok_def all_step_ids_def)
  from progress_in_bounds [OF ctx_ok_ends(1) [OF this]] show ?thesis by simp
qed

end
