(* ===== verification/KVCache.thy ===== *)
theory KVCache
  imports Prelude "HOL-Library.Sublist"
begin

text \<open>
  The key-value cache interface (\<open>libs/storage/cache/base.py\<close>) as a locale, and its in-memory
  and Redis implementations (\<open>memory.py\<close>, \<open>redis.py\<close>). Time is a whole number of seconds,
  passed to every operation that reads the clock. The Redis server is a parameter: its
  commands are arguments of the adapter's definitions and their documented laws are the
  assumptions of the locale \<open>kv_server\<close>.
\<close>


section \<open>Namespaced keys\<close>

definition ns_prefix :: "string \<Rightarrow> string" where
  "ns_prefix ns = (if ns = [] then [] else ns @ '':'')"

definition prefixed :: "string \<Rightarrow> string \<Rightarrow> string" where
  "prefixed ns key =
    (if ns_prefix ns \<noteq> [] \<and> \<not> prefix (ns_prefix ns) key then ns_prefix ns @ key else key)"

definition unprefixed :: "string \<Rightarrow> string \<Rightarrow> string" where
  "unprefixed ns key =
    (if ns_prefix ns \<noteq> [] \<and> prefix (ns_prefix ns) key then drop (length (ns_prefix ns)) key else key)"

lemma prefixed_has_prefix [simp]: "prefix (ns_prefix ns) (prefixed ns key)"
  by (simp add: prefixed_def)

lemma prefixed_idem [simp]: "prefixed ns (prefixed ns key) = prefixed ns key"
  by (simp add: prefixed_def)

lemma unprefixed_prefixed:
  "\<not> prefix (ns_prefix ns) key \<Longrightarrow> unprefixed ns (prefixed ns key) = key"
  by (simp add: prefixed_def unprefixed_def)

lemma prefixed_unprefixed:
  "prefix (ns_prefix ns) k \<Longrightarrow> \<not> prefix (ns_prefix ns) (unprefixed ns k) \<Longrightarrow>
   prefixed ns (unprefixed ns k) = k"
  by (auto simp: prefixed_def unprefixed_def prefix_def)

text \<open>Shell-style matching with \<open>*\<close> and \<open>?\<close>; bracket sets do not occur in this program.\<close>

fun glob :: "string \<Rightarrow> string \<Rightarrow> bool" where
  "glob [] s = (s = [])"
| "glob (p # ps) [] = (p = CHR ''*'' \<and> glob ps [])"
| "glob (p # ps) (c # cs) =
     (if p = CHR ''*'' then glob ps (c # cs) \<or> glob (p # ps) cs
      else (p = CHR ''?'' \<or> p = c) \<and> glob ps cs)"

lemma glob_star [simp]: "glob ''*'' s"
  by (induction s) auto

lemma glob_literal: "CHR ''*'' \<notin> set p \<Longrightarrow> CHR ''?'' \<notin> set p \<Longrightarrow> glob (p @ q) (p @ s) = glob q s"
  by (induction p) auto


section \<open>The cache contract\<close>

text \<open>
  What clients rely on, for a fixed moment: \<open>norm\<close> is the key an operation really touches,
  \<open>lookup\<close> the value a \<open>get\<close> without default sees.
\<close>

locale kv_cache =
  fixes norm :: "string \<Rightarrow> string"
    and lookup :: "'s \<Rightarrow> string \<Rightarrow> 'v option"
    and put :: "'s \<Rightarrow> string \<Rightarrow> 'v \<Rightarrow> 's"
    and del :: "'s \<Rightarrow> string \<Rightarrow> 's"
  assumes lookup_put: "lookup (put s k v) k' = (if norm k' = norm k then Some v else lookup s k')"
    and lookup_del: "lookup (del s k) k' = (if norm k' = norm k then None else lookup s k')"
begin

lemma put_shadows: "lookup (put (put s k v) k w) k' = lookup (put s k w) k'"
  by (simp add: lookup_put)

lemma del_put: "lookup (del (put s k v) k) k' = lookup (del s k) k'"
  by (simp add: lookup_put lookup_del)

lemma put_comm:
  "norm k \<noteq> norm k' \<Longrightarrow> lookup (put (put s k v) k' w) x = lookup (put (put s k' w) k v) x"
  by (simp add: lookup_put)

text \<open>Moving an entry: the old key is gone, the new one holds the value, the rest is untouched.\<close>

lemma rotate:
  "lookup (put (del s old) new v) x =
     (if norm x = norm new then Some v else if norm x = norm old then None else lookup s x)"
  by (simp add: lookup_put lookup_del)

end


section \<open>In-memory cache\<close>

record 'v mem_cache =
  mc_data :: "(string, 'v \<times> int option) dict"
  mc_namespace :: string

definition mem_init :: "string \<Rightarrow> 'v mem_cache" where
  "mem_init ns = \<lparr>mc_data = [], mc_namespace = ns\<rparr>"

definition mem_key :: "'v mem_cache \<Rightarrow> string \<Rightarrow> string" where
  "mem_key c key = prefixed (mc_namespace c) key"

definition expired_at :: "int \<Rightarrow> int option \<Rightarrow> bool" where
  "expired_at now e = (case e of None \<Rightarrow> False | Some t \<Rightarrow> t < now)"

definition clean_expired :: "int \<Rightarrow> 'v mem_cache \<Rightarrow> 'v mem_cache" where
  "clean_expired now c =
     c\<lparr>mc_data := filter (\<lambda>(k, v, e). \<not> expired_at now e) (mc_data c)\<rparr>"

definition mem_get :: "int \<Rightarrow> 'v mem_cache \<Rightarrow> string \<Rightarrow> 'v \<Rightarrow> 'v \<times> 'v mem_cache" where
  "mem_get now c key dflt =
    (let c1 = clean_expired now c in
     case dict_get (mc_data c1) (mem_key c key) of
       None \<Rightarrow> (dflt, c1)
     | Some (v, e) \<Rightarrow>
         if expired_at now e
         then (dflt, c1\<lparr>mc_data := dict_del (mem_key c key) (mc_data c1)\<rparr>)
         else (v, c1))"

definition mem_set :: "int \<Rightarrow> 'v mem_cache \<Rightarrow> string \<Rightarrow> 'v \<Rightarrow> int option \<Rightarrow> 'v mem_cache" where
  "mem_set now c key v ttl =
     c\<lparr>mc_data := dict_put (mem_key c key) (v, map_option (\<lambda>t. now + t) ttl) (mc_data c)\<rparr>"

definition mem_delete :: "'v mem_cache \<Rightarrow> string \<Rightarrow> bool \<times> 'v mem_cache" where
  "mem_delete c key =
    (if mem_key c key \<in> fst ` set (mc_data c)
     then (True, c\<lparr>mc_data := dict_del (mem_key c key) (mc_data c)\<rparr>)
     else (False, c))"

definition mem_pop :: "int \<Rightarrow> 'v mem_cache \<Rightarrow> string \<Rightarrow> 'v \<Rightarrow> 'v \<times> 'v mem_cache" where
  "mem_pop now c key dflt =
    (let c1 = c\<lparr>mc_data := dict_del (mem_key c key) (mc_data c)\<rparr> in
     case dict_get (mc_data c) (mem_key c key) of
       None \<Rightarrow> (dflt, c1)
     | Some (v, e) \<Rightarrow> if expired_at now e then (dflt, c1) else (v, c1))"

definition mem_add :: "int \<Rightarrow> 'v mem_cache \<Rightarrow> string \<Rightarrow> 'v \<Rightarrow> int option \<Rightarrow> bool \<times> 'v mem_cache" where
  "mem_add now c key v ttl =
    (if mem_key c key \<in> fst ` set (mc_data c) then (False, c)
     else (True, mem_set now c key v ttl))"

definition mem_replace :: "int \<Rightarrow> 'v mem_cache \<Rightarrow> string \<Rightarrow> 'v \<Rightarrow> int option \<Rightarrow> bool \<times> 'v mem_cache" where
  "mem_replace now c key v ttl =
    (if mem_key c key \<notin> fst ` set (mc_data c) then (False, c)
     else (True, mem_set now c key v ttl))"

definition mem_exists :: "int \<Rightarrow> 'v mem_cache \<Rightarrow> string \<Rightarrow> bool \<times> 'v mem_cache" where
  "mem_exists now c key =
    (let c1 = clean_expired now c in (mem_key c key \<in> fst ` set (mc_data c1), c1))"

definition mem_iterkeys :: "int \<Rightarrow> 'v mem_cache \<Rightarrow> string option \<Rightarrow> string list \<times> 'v mem_cache" where
  "mem_iterkeys now c pat =
    (let c1 = clean_expired now c; ns = mc_namespace c; p = ns_prefix ns;
         ks = map fst (mc_data c1)
     in case pat of
          None \<Rightarrow> (map (unprefixed ns) (filter (prefix p) ks), c1)
        | Some q \<Rightarrow>
            (let search = (if p \<noteq> [] then p @ q else q)
             in (map (unprefixed ns) (filter (\<lambda>k. prefix p k \<and> glob search k) ks), c1)))"

definition mem_clear :: "'v mem_cache \<Rightarrow> 'v mem_cache" where
  "mem_clear c = (let p = ns_prefix (mc_namespace c) in
     if p \<noteq> [] then c\<lparr>mc_data := filter (\<lambda>(k, v). \<not> prefix p k) (mc_data c)\<rparr>
     else c\<lparr>mc_data := []\<rparr>)"

definition mem_size :: "int \<Rightarrow> 'v mem_cache \<Rightarrow> nat \<times> 'v mem_cache" where
  "mem_size now c =
    (let c1 = clean_expired now c; p = ns_prefix (mc_namespace c) in
     (if p \<noteq> [] then length (filter (prefix p) (map fst (mc_data c1))) else length (mc_data c1), c1))"

definition mem_ok :: "'v mem_cache \<Rightarrow> bool" where
  "mem_ok c \<longleftrightarrow> dict_ok (mc_data c) \<and> (\<forall>k\<in>fst ` set (mc_data c). prefix (ns_prefix (mc_namespace c)) k)"

text \<open>The live entries: what a client can see at a given time.\<close>

definition live :: "int \<Rightarrow> 'v mem_cache \<Rightarrow> string \<Rightarrow> 'v option" where
  "live now c key = (case dict_get (mc_data c) (mem_key c key) of
     None \<Rightarrow> None | Some (v, e) \<Rightarrow> if expired_at now e then None else Some v)"

lemma mem_key_simps [simp]:
  "mem_key (c\<lparr>mc_data := d\<rparr>) k = mem_key c k"
  "mem_key (mem_set now c k' v t) k = mem_key c k"
  "mem_key (clean_expired now c) k = mem_key c k"
  by (simp_all add: mem_key_def mem_set_def clean_expired_def)

lemma map_of_filter_distinct:
  "distinct (map fst d) \<Longrightarrow> map_of (filter P d) k =
     (case map_of d k of None \<Rightarrow> None | Some v \<Rightarrow> if P (k, v) then Some v else None)"
  by (induction d) (auto split: option.splits dest: map_of_SomeD intro: rev_image_eqI)

lemma clean_expired_get:
  "dict_ok (mc_data c) \<Longrightarrow> dict_get (mc_data (clean_expired now c)) k =
     (case dict_get (mc_data c) k of
        None \<Rightarrow> None | Some (v, e) \<Rightarrow> if expired_at now e then None else Some (v, e))"
  by (auto simp: clean_expired_def map_of_filter_distinct split: option.splits)

lemma clean_expired_ok: "mem_ok c \<Longrightarrow> mem_ok (clean_expired now c)"
  by (auto simp: mem_ok_def clean_expired_def distinct_map_filter)

lemma mem_set_ok: "mem_ok c \<Longrightarrow> mem_ok (mem_set now c k v t)"
  by (auto simp: mem_ok_def mem_set_def mem_key_def dict_keys_put)

lemma dict_del_subset: "fst ` set (dict_del k d) \<subseteq> fst ` set d"
  by (auto simp: AList.delete_eq)

lemma mem_del_ok: "mem_ok c \<Longrightarrow> mem_ok (c\<lparr>mc_data := dict_del k (mc_data c)\<rparr>)"
  using dict_del_subset by (fastforce simp: mem_ok_def)

lemma in_keys_iff: "k \<in> fst ` set d \<longleftrightarrow> dict_get d k \<noteq> None"
  by (simp add: map_of_eq_None_iff)

lemma mem_get_live:
  assumes "mem_ok c"
  shows "fst (mem_get now c k d) = (case live now c k of None \<Rightarrow> d | Some v \<Rightarrow> v)"
    and "live now (snd (mem_get now c k d)) k' = live now c k'"
    and "mem_ok (snd (mem_get now c k d))"
proof -
  have ok: "dict_ok (mc_data c)" using assms by (simp add: mem_ok_def)
  note g = clean_expired_get [OF ok]
  have c1: "live now (clean_expired now c) k'' = live now c k''" for k''
    by (auto simp: live_def g split: option.splits)
  have ne: "dict_get (mc_data (clean_expired now c)) x = Some (v, e) \<Longrightarrow> \<not> expired_at now e" for x v e
    by (auto simp: g split: option.splits if_splits)
  have st: "snd (mem_get now c k d) = clean_expired now c"
    using ne by (fastforce simp: mem_get_def Let_def split: option.splits)
  show "fst (mem_get now c k d) = (case live now c k of None \<Rightarrow> d | Some v \<Rightarrow> v)"
  proof (cases "dict_get (mc_data (clean_expired now c)) (mem_key c k)")
    case None
    then show ?thesis using c1 [of k] by (simp add: mem_get_def Let_def live_def)
  next
    case (Some ve)
    then obtain v e where ve: "dict_get (mc_data (clean_expired now c)) (mem_key c k) = Some (v, e)"
      by (cases ve) simp
    then have "live now (clean_expired now c) k = Some v" using ne by (simp add: live_def)
    then have "live now c k = Some v" by (simp add: c1)
    then show ?thesis using ve ne by (simp add: mem_get_def Let_def)
  qed
  show "live now (snd (mem_get now c k d)) k' = live now c k'"
    and "mem_ok (snd (mem_get now c k d))"
    by (simp_all add: st c1 clean_expired_ok assms)
qed

lemma live_set:
  "live now (mem_set t c k v ttl) k' =
    (if mem_key c k' = mem_key c k
     then (if expired_at now (map_option (\<lambda>s. t + s) ttl) then None else Some v)
     else live now c k')"
  by (auto simp: live_def mem_set_def dict_simps)

lemma live_delete:
  "live now (snd (mem_delete c k)) k' = (if mem_key c k' = mem_key c k then None else live now c k')"
  by (cases "mem_key c k \<in> fst ` set (mc_data c)")
    (auto simp: live_def mem_delete_def dict_simps dest: map_of_eq_None_iff [THEN iffD2])

lemma live_pop:
  "fst (mem_pop now c k d) = (case live now c k of None \<Rightarrow> d | Some v \<Rightarrow> v)"
  "live now (snd (mem_pop now c k d)) k' = (if mem_key c k' = mem_key c k then None else live now c k')"
  by (auto simp: live_def mem_pop_def Let_def dict_simps split: option.splits)

lemma mem_pop_ok: "mem_ok c \<Longrightarrow> mem_ok (snd (mem_pop now c k d))"
  by (auto simp: mem_pop_def Let_def mem_del_ok split: option.splits)

text \<open>The in-memory cache meets the contract at every moment and for every namespace.\<close>

definition mem_at :: "string \<Rightarrow> (string, 'v \<times> int option) dict \<Rightarrow> 'v mem_cache" where
  "mem_at ns d = \<lparr>mc_data = d, mc_namespace = ns\<rparr>"

definition mem_lookup :: "int \<Rightarrow> string \<Rightarrow> (string, 'v \<times> int option) dict \<Rightarrow> string \<Rightarrow> 'v option" where
  "mem_lookup now ns d k = live now (mem_at ns d) k"

definition mem_put ::
  "int \<Rightarrow> string \<Rightarrow> (string, 'v \<times> int option) dict \<Rightarrow> string \<Rightarrow> 'v \<Rightarrow> (string, 'v \<times> int option) dict"
where
  "mem_put now ns d k v = mc_data (mem_set now (mem_at ns d) k v None)"

definition mem_remove ::
  "string \<Rightarrow> (string, 'v \<times> int option) dict \<Rightarrow> string \<Rightarrow> (string, 'v \<times> int option) dict"
where
  "mem_remove ns d k = mc_data (snd (mem_delete (mem_at ns d) k))"

lemma mem_at_data: "mc_namespace c = ns \<Longrightarrow> mem_at ns (mc_data c) = c"
  by (simp add: mem_at_def)

interpretation mem: kv_cache "prefixed ns" "mem_lookup now ns" "mem_put now ns" "mem_remove ns"
  for ns now
proof unfold_locales
  show "mem_lookup now ns (mem_put now ns s k v) k' =
    (if prefixed ns k' = prefixed ns k then Some v else mem_lookup now ns s k')" for s k v k'
    by (simp add: mem_lookup_def mem_put_def live_def mem_set_def mem_at_def mem_key_def
        dict_simps expired_at_def)
  show "mem_lookup now ns (mem_remove ns s k) k' =
    (if prefixed ns k' = prefixed ns k then None else mem_lookup now ns s k')" for s k k'
    using live_delete [of now "mem_at ns s" k k']
    by (simp add: mem_lookup_def mem_remove_def mem_key_def mem_at_def mem_delete_def split: if_splits)
qed

text \<open>
  C34. The in-memory cache returns exactly what was stored and is still alive: in a well-formed
  cache a \<open>get\<close> returns the live value of its (namespaced) key or the default and changes
  nothing a client can see, a value set with a time to live is visible until that time has
  passed and never later, and \<open>pop\<close> returns it once and removes it. An expired entry that no
  read has evicted yet still blocks \<open>add\<close>: the call reports a present key although a \<open>get\<close>
  finds nothing, and the new value is not stored.
\<close>

theorem mem_cache_correct:
  assumes "mem_ok c" "0 \<le> ttl"
  shows "fst (mem_get now c k d) = (case live now c k of None \<Rightarrow> d | Some v \<Rightarrow> v) \<and>
    live now (snd (mem_get now c k d)) = live now c \<and>
    (now \<le> t + ttl \<longrightarrow> fst (mem_get now (mem_set t c k v (Some ttl)) k d) = v) \<and>
    (t + ttl < now \<longrightarrow> fst (mem_get now (mem_set t c k v (Some ttl)) k d) = d \<and>
       mem_add now (mem_set t c k v (Some ttl)) k w e = (False, mem_set t c k v (Some ttl))) \<and>
    (case mem_pop now c k d of (r, c') \<Rightarrow>
       r = (case live now c k of None \<Rightarrow> d | Some x \<Rightarrow> x) \<and> live now c' k = None \<and> mem_ok c')"
proof -
  have ok: "mem_ok (mem_set t c k v (Some ttl))" by (rule mem_set_ok [OF assms(1)])
  have ex: "mem_key c k \<in> fst ` set (mc_data (mem_set t c k v (Some ttl)))"
    by (simp add: mem_set_def dict_keys_put)
  show ?thesis
    using mem_get_live [OF assms(1)] mem_get_live(1) [OF ok, of now k d] ex
      live_pop [of now c k d] mem_pop_ok [OF assms(1), of now k d]
    by (auto simp: fun_eq_iff live_set expired_at_def mem_add_def split: prod.splits)
qed

theorem mem_cache_correct_witness:
  "fst (mem_get 20 (mem_set 10 (mem_init ''task'') ''a'' (7::nat) (Some 5)) ''a'' 0) = 0 \<and>
   fst (mem_add 20 (mem_set 10 (mem_init ''task'') ''a'' (7::nat) (Some 5)) ''a'' 8 None) = False"
  using mem_cache_correct [of "mem_init ''task''" 5 20 "''a''" "0::nat" 10 7 8 None]
  by (simp add: mem_ok_def mem_init_def)


section \<open>Adapters to an external store\<close>

text \<open>
  The commands of an external key-value server: read, write with an optional time to live,
  write only if absent or only if present (both report nothing), delete.
\<close>

record ('s, 'v) server =
  srv_get :: "'s \<Rightarrow> string \<Rightarrow> 'v option"
  srv_set :: "'s \<Rightarrow> string \<Rightarrow> 'v \<Rightarrow> int option \<Rightarrow> 's"
  srv_del :: "'s \<Rightarrow> string \<Rightarrow> 's"

definition redis_get :: "('s, 'v) server \<Rightarrow> string \<Rightarrow> 's \<Rightarrow> string \<Rightarrow> 'v \<Rightarrow> 'v" where
  "redis_get srv ns s key dflt = (case srv_get srv s key of None \<Rightarrow> dflt | Some v \<Rightarrow> v)"

definition redis_set :: "('s, 'v) server \<Rightarrow> string \<Rightarrow> 's \<Rightarrow> string \<Rightarrow> 'v \<Rightarrow> int option \<Rightarrow> 's" where
  "redis_set srv ns s key v ttl = srv_set srv s (prefixed ns key) v ttl"

definition redis_delete :: "('s, 'v) server \<Rightarrow> string \<Rightarrow> 's \<Rightarrow> string \<Rightarrow> bool \<times> 's" where
  "redis_delete srv ns s key =
     (srv_get srv s (prefixed ns key) \<noteq> None, srv_del srv s (prefixed ns key))"

definition redis_pop :: "('s, 'v) server \<Rightarrow> string \<Rightarrow> 's \<Rightarrow> string \<Rightarrow> 'v \<Rightarrow> 'v \<times> 's" where
  "redis_pop srv ns s key dflt =
    ((case srv_get srv s (prefixed ns key) of None \<Rightarrow> dflt | Some v \<Rightarrow> v),
     srv_del srv s (prefixed ns key))"

definition redis_add :: "('s, 'v) server \<Rightarrow> string \<Rightarrow> 's \<Rightarrow> string \<Rightarrow> 'v \<Rightarrow> int option \<Rightarrow> bool \<times> 's" where
  "redis_add srv ns s key v ttl =
    (True, case srv_get srv s (prefixed ns key) of
             None \<Rightarrow> srv_set srv s (prefixed ns key) v ttl | Some _ \<Rightarrow> s)"

definition redis_replace :: "('s, 'v) server \<Rightarrow> string \<Rightarrow> 's \<Rightarrow> string \<Rightarrow> 'v \<Rightarrow> int option \<Rightarrow> bool \<times> 's" where
  "redis_replace srv ns s key v ttl =
    (True, case srv_get srv s (prefixed ns key) of
             None \<Rightarrow> s | Some _ \<Rightarrow> srv_set srv s (prefixed ns key) v ttl)"

definition redis_exists :: "('s, 'v) server \<Rightarrow> string \<Rightarrow> 's \<Rightarrow> string \<Rightarrow> bool" where
  "redis_exists srv ns s key \<longleftrightarrow> srv_get srv s (prefixed ns key) \<noteq> None"

text \<open>The disk cache adapter; its \<open>replace\<close> assigns without passing the time to live on.\<close>

definition disk_get :: "('s, 'v) server \<Rightarrow> string \<Rightarrow> 's \<Rightarrow> string \<Rightarrow> 'v \<Rightarrow> 'v" where
  "disk_get srv ns s key dflt =
     (case srv_get srv s (prefixed ns key) of None \<Rightarrow> dflt | Some v \<Rightarrow> v)"

definition disk_set :: "('s, 'v) server \<Rightarrow> string \<Rightarrow> 's \<Rightarrow> string \<Rightarrow> 'v \<Rightarrow> int option \<Rightarrow> 's" where
  "disk_set srv ns s key v ttl = srv_set srv s (prefixed ns key) v ttl"

definition disk_delete :: "('s, 'v) server \<Rightarrow> string \<Rightarrow> 's \<Rightarrow> string \<Rightarrow> bool \<times> 's" where
  "disk_delete srv ns s key =
    (if srv_get srv s (prefixed ns key) \<noteq> None then (True, srv_del srv s (prefixed ns key))
     else (False, s))"

definition disk_pop :: "('s, 'v) server \<Rightarrow> string \<Rightarrow> 's \<Rightarrow> string \<Rightarrow> 'v \<Rightarrow> 'v \<times> 's" where
  "disk_pop srv ns s key dflt =
    (case srv_get srv s (prefixed ns key) of
       None \<Rightarrow> (dflt, s) | Some v \<Rightarrow> (v, srv_del srv s (prefixed ns key)))"

definition disk_add :: "('s, 'v) server \<Rightarrow> string \<Rightarrow> 's \<Rightarrow> string \<Rightarrow> 'v \<Rightarrow> int option \<Rightarrow> bool \<times> 's" where
  "disk_add srv ns s key v ttl =
    (case srv_get srv s (prefixed ns key) of
       None \<Rightarrow> (True, srv_set srv s (prefixed ns key) v ttl) | Some _ \<Rightarrow> (False, s))"

definition disk_replace :: "('s, 'v) server \<Rightarrow> string \<Rightarrow> 's \<Rightarrow> string \<Rightarrow> 'v \<Rightarrow> int option \<Rightarrow> bool \<times> 's" where
  "disk_replace srv ns s key v ttl =
    (case srv_get srv s (prefixed ns key) of
       None \<Rightarrow> (False, s) | Some _ \<Rightarrow> (True, srv_set srv s (prefixed ns key) v None))"

definition disk_exists :: "('s, 'v) server \<Rightarrow> string \<Rightarrow> 's \<Rightarrow> string \<Rightarrow> bool" where
  "disk_exists srv ns s key \<longleftrightarrow> srv_get srv s (prefixed ns key) \<noteq> None"

text \<open>The documented laws of the server's commands while no entry expires.\<close>

locale kv_server =
  fixes srv :: "('s, 'v) server"
  assumes get_set: "srv_get srv (srv_set srv s k v ttl) k' = (if k' = k then Some v else srv_get srv s k')"
    and get_del: "srv_get srv (srv_del srv s k) k' = (if k' = k then None else srv_get srv s k')"

sublocale kv_server \<subseteq> disk: kv_cache "prefixed ns" "\<lambda>s k. srv_get srv s (prefixed ns k)"
    "\<lambda>s k v. disk_set srv ns s k v None" "\<lambda>s k. snd (disk_delete srv ns s k)"
  for ns
  by unfold_locales (auto simp: disk_set_def disk_delete_def get_set get_del)

context kv_server
begin

lemma redis_get_after_set:
  "redis_get srv ns (redis_set srv ns s k v ttl) k d =
     (if prefixed ns k = k then v else redis_get srv ns s k d)"
  by (auto simp: redis_get_def redis_set_def get_set)

lemma redis_exists_after_set: "redis_exists srv ns (redis_set srv ns s k v ttl) k"
  by (simp add: redis_exists_def redis_set_def get_set)

lemma redis_add_present:
  "srv_get srv s (prefixed ns k) = Some w \<Longrightarrow> redis_add srv ns s k v ttl = (True, s)"
  by (simp add: redis_add_def)

lemma disk_get_after_set: "disk_get srv ns (disk_set srv ns s k v ttl) k d = v"
  by (simp add: disk_get_def disk_set_def get_set)

end

text \<open>A server whose state is the in-memory cache's dictionary without a namespace.\<close>

definition dict_server :: "((string, 'v \<times> int option) dict, 'v) server" where
  "dict_server = \<lparr>srv_get = mem_lookup 0 [], srv_set = (\<lambda>s k v ttl. mem_put 0 [] s k v),
     srv_del = mem_remove []\<rparr>"

lemma prefixed_empty [simp]: "prefixed [] k = k"
  by (simp add: prefixed_def ns_prefix_def)

interpretation dict_srv: kv_server "dict_server"
  by unfold_locales (simp_all add: dict_server_def mem.lookup_put mem.lookup_del)

text \<open>
  The disk adapter reads back what it stored in every namespace; the Redis adapter does not:
  in a non-empty namespace \<open>set\<close> and \<open>exists\<close> use the prefixed key but \<open>get\<close> the raw one, so a
  value just stored under an unprefixed key exists and yet \<open>get\<close> returns whatever the raw key
  held before. Its \<open>add\<close> also reports success for a present key, whose value it leaves alone.
\<close>

theorem redis_get_misses_namespace:
  assumes "kv_server srv"
  shows "disk_get srv ns (disk_set srv ns s k v ttl) k d = v \<and>
    redis_exists srv ns (redis_set srv ns s k v ttl) k \<and>
    (ns \<noteq> [] \<and> \<not> prefix (ns_prefix ns) k \<longrightarrow>
       redis_get srv ns (redis_set srv ns s k v ttl) k d = redis_get srv ns s k d) \<and>
    redis_add srv ns (redis_set srv ns s k v ttl) k w e = (True, redis_set srv ns s k v ttl)"
proof (intro conjI impI)
  show "disk_get srv ns (disk_set srv ns s k v ttl) k d = v"
    by (rule kv_server.disk_get_after_set [OF assms])
  show "redis_exists srv ns (redis_set srv ns s k v ttl) k"
    by (rule kv_server.redis_exists_after_set [OF assms])
  show "redis_get srv ns (redis_set srv ns s k v ttl) k d = redis_get srv ns s k d"
    if "ns \<noteq> [] \<and> \<not> prefix (ns_prefix ns) k"
    using that kv_server.redis_get_after_set [OF assms, of ns s k v ttl d]
    by (auto simp: prefixed_def ns_prefix_def split: if_splits)
  show "redis_add srv ns (redis_set srv ns s k v ttl) k w e = (True, redis_set srv ns s k v ttl)"
    by (rule kv_server.redis_add_present [OF assms])
      (simp add: redis_set_def kv_server.get_set [OF assms])
qed

theorem redis_get_misses_namespace_witness:
  "redis_get dict_server ''task'' (redis_set dict_server ''task'' [] ''a'' (5::nat) None) ''a'' 0 = 0 \<and>
   redis_exists dict_server ''task'' (redis_set dict_server ''task'' [] ''a'' (5::nat) None) ''a''"
  using redis_get_misses_namespace [OF dict_srv.kv_server_axioms, of "''task''" "[]" "''a''" "5::nat" None 0]
  by (simp add: ns_prefix_def redis_get_def dict_server_def mem_lookup_def live_def mem_at_def)

end
