(* ===== verification/Timeouts.thy ===== *)
theory Timeouts
  imports Complex_Main Pipeline
begin

text \<open>
  Timeouts: the state carried by a task, the monitor that caches per-stage timeouts for each
  job and dataset and counts active tasks (\<open>core/orchestrator/common/task/timeout.py\<close>), the
  context that checks the deadline, and the generic budget and timeout manager of
  \<open>libs/resilience/timeout\<close>. Seconds are rational numbers; float rounding is not modelled. The
  history query of the metadata repository is the parameter \<open>fetch\<close>, \<open>None\<close> when it raises.
\<close>


section \<open>Timeout state of a task\<close>

record timeout_state =
  stage_timeout :: rat
  budget_total :: "rat option"
  budget_used :: rat
  stage_start_time :: rat

definition default_timeout_state :: timeout_state where
  "default_timeout_state =
     \<lparr>stage_timeout = 600, budget_total = None, budget_used = 0, stage_start_time = 0\<rparr>"

definition is_budget_exceeded :: "timeout_state \<Rightarrow> bool" where
  "is_budget_exceeded s = (case budget_total s of None \<Rightarrow> False | Some b \<Rightarrow> budget_used s > b)"

definition get_deadline :: "rat \<Rightarrow> timeout_state \<Rightarrow> rat" where
  "get_deadline now s =
    (let stage_deadline = now + stage_timeout s in
     case budget_total s of
       Some b \<Rightarrow> min stage_deadline (now + (b - budget_used s))
     | None \<Rightarrow> stage_deadline)"

definition start_stage :: "rat \<Rightarrow> timeout_state \<Rightarrow> timeout_state" where
  "start_stage now s = s\<lparr>stage_start_time := now\<rparr>"

definition complete_stage :: "timeout_state \<Rightarrow> rat \<Rightarrow> timeout_state" where
  "complete_stage s duration = s\<lparr>budget_used := budget_used s + duration, stage_start_time := 0\<rparr>"


section \<open>Deadline checks while a step runs\<close>

text \<open>\<open>tc_deadline = None\<close> is the infinite deadline of a context without timeout state.\<close>

record timeout_context =
  tc_state :: "timeout_state option"
  tc_deadline :: "rat option"
  tc_start :: rat
  tc_counter :: nat

definition CHECK_INTERVAL :: nat where
  "CHECK_INTERVAL = 50"

definition timeout_context_init :: "rat \<Rightarrow> timeout_state option \<Rightarrow> timeout_context res" where
  "timeout_context_init now st = (case st of
     Some s \<Rightarrow>
       if is_budget_exceeded s then Err TimeoutError
       else Ok \<lparr>tc_state = Some s, tc_deadline = Some (get_deadline now s), tc_start = now, tc_counter = 0\<rparr>
   | None \<Rightarrow> Ok \<lparr>tc_state = None, tc_deadline = None, tc_start = now, tc_counter = 0\<rparr>)"

definition tc_enter :: "rat \<Rightarrow> timeout_context \<Rightarrow> timeout_context" where
  "tc_enter now c = c\<lparr>tc_state := map_option (start_stage now) (tc_state c)\<rparr>"

definition tc_exit :: "rat \<Rightarrow> timeout_context \<Rightarrow> timeout_context" where
  "tc_exit now c = c\<lparr>tc_state := map_option (\<lambda>s. complete_stage s (now - tc_start c)) (tc_state c)\<rparr>"

definition tc_check :: "rat \<Rightarrow> timeout_context \<Rightarrow> unit res \<times> timeout_context" where
  "tc_check now c = (case tc_state c of
     None \<Rightarrow> (Ok (), c)
   | Some s \<Rightarrow>
      (let c1 = c\<lparr>tc_counter := tc_counter c + 1\<rparr> in
       if tc_counter c1 mod CHECK_INTERVAL \<noteq> 0 then (Ok (), c1)
       else (case tc_deadline c1 of
              None \<Rightarrow> (Ok (), c1)
            | Some d \<Rightarrow> if now > d then (Err TimeoutError, c1) else (Ok (), c1))))"

definition tc_remaining :: "rat \<Rightarrow> timeout_context \<Rightarrow> rat option" where
  "tc_remaining now c = (case tc_state c of
     None \<Rightarrow> None
   | Some _ \<Rightarrow> (case tc_deadline c of None \<Rightarrow> None | Some d \<Rightarrow> Some (max 0 (d - now))))"

lemma get_deadline_bounds:
  "get_deadline now s \<le> now + stage_timeout s"
  "budget_total s = Some b \<Longrightarrow> get_deadline now s \<le> now + (b - budget_used s)"
  by (auto simp: get_deadline_def Let_def split: option.splits)

lemma not_exceeded_deadline:
  assumes "\<not> is_budget_exceeded s" "0 \<le> stage_timeout s"
  shows "now \<le> get_deadline now s"
  using assms by (auto simp: get_deadline_def is_budget_exceeded_def Let_def split: option.splits)


section \<open>The timeout monitor\<close>

definition STAGE_DEFAULTS :: "(string, rat) dict" where
  "STAGE_DEFAULTS = [(''extract'', 900), (''extract_append'', 1800), (''validate'', 300),
     (''transform'', 1200), (''load'', 1800), (''load_append'', 2700), (''cleanup'', 300),
     (''index'', 600)]"

definition STAGE_CAPS :: "(string, rat) dict" where
  "STAGE_CAPS = [(''extract'', 7200), (''transform'', 14400), (''load'', 14400)]"

definition dict_get_or :: "(string, 'v) dict \<Rightarrow> string \<Rightarrow> 'v \<Rightarrow> 'v" where
  "dict_get_or d k dflt = (case dict_get d k of None \<Rightarrow> dflt | Some v \<Rightarrow> v)"

type_synonym dataset_cache = "(string, rat \<times> rat) dict"

record timeout_monitor =
  tm_cache :: "(string, (string, dataset_cache) dict) dict"
  tm_counts :: "(string, int) dict"

definition CACHE_TTL :: rat where
  "CACHE_TTL = 86400"

definition tm_init :: timeout_monitor where
  "tm_init = \<lparr>tm_cache = [], tm_counts = []\<rparr>"

definition tm_key :: "string \<Rightarrow> string \<Rightarrow> string" where
  "tm_key job ds = job @ '':'' @ ds"

text \<open>The cached dataset, if job and dataset are both present.\<close>

definition cached_dataset :: "timeout_monitor \<Rightarrow> string \<Rightarrow> string \<Rightarrow> dataset_cache option" where
  "cached_dataset tm job ds = (case dict_get (tm_cache tm) job of
     None \<Rightarrow> None | Some datasets \<Rightarrow> dict_get datasets ds)"

definition set_dataset :: "timeout_monitor \<Rightarrow> string \<Rightarrow> string \<Rightarrow> dataset_cache \<Rightarrow> timeout_monitor" where
  "set_dataset tm job ds d = tm\<lparr>tm_cache :=
     dict_put job (dict_put ds d (dict_get_or (tm_cache tm) job [])) (tm_cache tm)\<rparr>"

definition remove_dataset_from_cache :: "timeout_monitor \<Rightarrow> string \<Rightarrow> string \<Rightarrow> timeout_monitor" where
  "remove_dataset_from_cache tm job ds = (case dict_get (tm_cache tm) job of
     None \<Rightarrow> tm
   | Some datasets \<Rightarrow>
      if dict_get datasets ds = None then tm
      else (let datasets' = dict_del ds datasets in
            tm\<lparr>tm_cache := (if datasets' = [] then dict_del job (tm_cache tm)
                             else dict_put job datasets' (tm_cache tm))\<rparr>))"

definition get_cached_timeout ::
  "rat \<Rightarrow> timeout_monitor \<Rightarrow> string \<Rightarrow> string \<Rightarrow> string \<Rightarrow> rat option \<times> timeout_monitor"
where
  "get_cached_timeout now tm job ds stg = (case cached_dataset tm job ds of
     None \<Rightarrow> (None, tm)
   | Some dataset \<Rightarrow> (case dict_get dataset stg of
       None \<Rightarrow> (None, tm)
     | Some (t, ts) \<Rightarrow>
        if now - ts < CACHE_TTL then (Some t, tm)
        else let dataset' = dict_del stg dataset in
             if dataset' = [] then (None, remove_dataset_from_cache tm job ds)
             else (None, set_dataset tm job ds dataset')))"

definition cache_timeouts_for_job_dataset ::
  "rat \<Rightarrow> timeout_monitor \<Rightarrow> string \<Rightarrow> string \<Rightarrow> (string, rat) dict \<Rightarrow> timeout_monitor"
where
  "cache_timeouts_for_job_dataset now tm job ds timeouts =
    (let old = (case cached_dataset tm job ds of None \<Rightarrow> [] | Some d \<Rightarrow> d) in
     set_dataset tm job ds (fold (\<lambda>(stg, t). dict_put stg (t, now)) timeouts old))"

definition is_dataset_cached :: "rat \<Rightarrow> timeout_monitor \<Rightarrow> string \<Rightarrow> string \<Rightarrow> bool" where
  "is_dataset_cached now tm job ds = (case cached_dataset tm job ds of
     None \<Rightarrow> False
   | Some dataset \<Rightarrow> list_all (\<lambda>(_, _, ts). now - ts < CACHE_TTL) dataset)"

type_synonym metrics = "(string \<times> int \<times> rat) list"
type_synonym fetcher = "string \<Rightarrow> string \<Rightarrow> string list \<Rightarrow> metrics option"

definition stage_names :: "string list" where
  "stage_names = map stage_value ALL_STAGES"

definition metric_timeout :: "string \<Rightarrow> int \<Rightarrow> rat \<Rightarrow> rat" where
  "metric_timeout stg sample_count p95 =
    (if sample_count > 10 then min (p95 * (3 / 2)) (dict_get_or STAGE_CAPS stg 14400)
     else dict_get_or STAGE_DEFAULTS stg 1800)"

definition fill_defaults :: "string list \<Rightarrow> (string, rat) dict \<Rightarrow> (string, rat) dict" where
  "fill_defaults stgs timeouts =
     fold (\<lambda>s d. if dict_get d s = None then dict_put s (dict_get_or STAGE_DEFAULTS s 1800) d else d)
       stgs timeouts"

definition prefetched :: "metrics option \<Rightarrow> (string, rat) dict" where
  "prefetched m = (case m of
     Some rows \<Rightarrow> fill_defaults stage_names
        (fold (\<lambda>(s, n, p95). dict_put s (metric_timeout s n p95)) rows [])
   | None \<Rightarrow> fold (\<lambda>s. dict_put s (dict_get_or STAGE_DEFAULTS s 1800)) stage_names [])"

definition pre_fetch_stage_timeouts ::
  "fetcher \<Rightarrow> rat \<Rightarrow> timeout_monitor \<Rightarrow> string \<Rightarrow> string \<Rightarrow> timeout_monitor"
where
  "pre_fetch_stage_timeouts fetch now tm job ds =
     cache_timeouts_for_job_dataset now tm job ds (prefetched (fetch job ds stage_names))"

definition ensure_dataset_timeouts ::
  "fetcher \<Rightarrow> rat \<Rightarrow> timeout_monitor \<Rightarrow> string \<Rightarrow> string \<Rightarrow> timeout_monitor"
where
  "ensure_dataset_timeouts fetch now tm job ds =
    (if is_dataset_cached now tm job ds then tm
     else pre_fetch_stage_timeouts fetch now tm job ds)"

definition resolve_timeout ::
  "fetcher \<Rightarrow> rat \<Rightarrow> timeout_monitor \<Rightarrow> string \<Rightarrow> string \<Rightarrow> string \<Rightarrow> rat \<times> timeout_monitor"
where
  "resolve_timeout fetch now tm job ds sid =
    (case get_cached_timeout now tm job ds sid of
       (Some t, tm1) \<Rightarrow> (t, tm1)
     | (None, tm1) \<Rightarrow>
        (let tm2 = ensure_dataset_timeouts fetch now tm1 job ds in
         case cached_dataset tm2 job ds of
           None \<Rightarrow> (dict_get_or STAGE_DEFAULTS sid 1800, tm2)
         | Some d \<Rightarrow> (case dict_get d sid of
             None \<Rightarrow> (dict_get_or STAGE_DEFAULTS sid 1800, tm2)
           | Some (t, _) \<Rightarrow> (t, tm2))))"

definition resolve_budget ::
  "fetcher \<Rightarrow> rat \<Rightarrow> timeout_monitor \<Rightarrow> string \<Rightarrow> string \<Rightarrow> string list option \<Rightarrow> rat \<times> timeout_monitor"
where
  "resolve_budget fetch now tm job ds stages_opt =
    (let stgs = (case stages_opt of None \<Rightarrow> stage_names | Some [] \<Rightarrow> stage_names | Some ss \<Rightarrow> ss);
         tm1 = ensure_dataset_timeouts fetch now tm job ds;
         total = (case cached_dataset tm1 job ds of
            None \<Rightarrow> sum_list (map (\<lambda>s. dict_get_or STAGE_DEFAULTS s 1800) stgs)
          | Some d \<Rightarrow> sum_list (map (\<lambda>s. case dict_get d s of
                Some (t, _) \<Rightarrow> t | None \<Rightarrow> dict_get_or STAGE_DEFAULTS s 1800) stgs))
     in (total * (6 / 5), tm1))"

definition create_timeout_state ::
  "fetcher \<Rightarrow> rat \<Rightarrow> timeout_monitor \<Rightarrow> task_ref \<Rightarrow> timeout_state \<times> timeout_monitor"
where
  "create_timeout_state fetch now tm r =
    (let job = job_id (identity r); ds = dataset_id (identity r); key = tm_key job ds;
         tm1 = tm\<lparr>tm_counts := dict_put key (dict_get_or (tm_counts tm) key 0 + 1) (tm_counts tm)\<rparr>;
         (t, tm2) = resolve_timeout fetch now tm1 job ds (ref_step_id r);
         (b, tm3) = resolve_budget fetch now tm2 job ds None
     in (default_timeout_state\<lparr>stage_timeout := t, budget_total := Some b\<rparr>, tm3))"

definition release_dataset_cache :: "timeout_monitor \<Rightarrow> string \<Rightarrow> string \<Rightarrow> timeout_monitor" where
  "release_dataset_cache tm job ds =
    (let key = tm_key job ds; n = dict_get_or (tm_counts tm) key 0 - 1 in
     if n \<le> 0
     then remove_dataset_from_cache (tm\<lparr>tm_counts := dict_del key (tm_counts tm)\<rparr>) job ds
     else tm\<lparr>tm_counts := dict_put key n (tm_counts tm)\<rparr>)"

definition release_job_cache :: "timeout_monitor \<Rightarrow> string \<Rightarrow> timeout_monitor" where
  "release_job_cache tm job = tm\<lparr>
     tm_counts := filter (\<lambda>(k, n). take (length job + 1) k \<noteq> job @ '':'') (tm_counts tm),
     tm_cache := dict_del job (tm_cache tm)\<rparr>"

definition cleanup_stale_cache :: "rat \<Rightarrow> timeout_monitor \<Rightarrow> timeout_monitor" where
  "cleanup_stale_cache now tm =
    (let to_remove = concat (map (\<lambda>(job, datasets).
           map (\<lambda>(ds, dataset). (job, ds))
             (filter (\<lambda>(ds, dataset). \<not> dict_get_or (tm_counts tm) (tm_key job ds) 0 > 0 \<and>
                list_all (\<lambda>(_, _, ts). now - ts \<ge> CACHE_TTL) dataset) datasets)) (tm_cache tm));
         tm1 = fold (\<lambda>(job, ds) t. remove_dataset_from_cache t job ds) to_remove tm
     in tm1\<lparr>tm_cache := filter (\<lambda>(job, datasets). datasets \<noteq> []) (tm_cache tm1)\<rparr>)"

definition get_schedule_warning_threshold :: "string \<Rightarrow> rat" where
  "get_schedule_warning_threshold stg = dict_get_or STAGE_DEFAULTS stg 600 * 3"


section \<open>Cache laws\<close>

lemma dict_get_or_simps [simp]:
  "dict_get_or (dict_put k v d) k' x = (if k' = k then v else dict_get_or d k' x)"
  "dict_get_or (dict_del k d) k' x = (if k' = k then x else dict_get_or d k' x)"
  by (simp_all add: dict_get_or_def dict_simps)

lemma cached_set [simp]:
  "cached_dataset (set_dataset tm j d x) j' d' = (if j' = j \<and> d' = d then Some x else cached_dataset tm j' d')"
  by (auto simp: cached_dataset_def set_dataset_def dict_simps dict_get_or_def split: option.splits)

lemma dict_del_Nil_get: "dict_del k d = [] \<Longrightarrow> k' \<noteq> k \<Longrightarrow> dict_get d k' = None"
  using dict_get_del [of k d k'] by simp

lemma cached_remove [simp]:
  "cached_dataset (remove_dataset_from_cache tm j d) j' d' =
     (if j' = j \<and> d' = d then None else cached_dataset tm j' d')"
  by (auto simp: cached_dataset_def remove_dataset_from_cache_def dict_simps Let_def dict_del_Nil_get
      split: option.splits)

lemma counts_simps [simp]:
  "tm_counts (set_dataset tm j d x) = tm_counts tm"
  "tm_counts (remove_dataset_from_cache tm j d) = tm_counts tm"
  "cached_dataset (tm\<lparr>tm_counts := c\<rparr>) j d = cached_dataset tm j d"
  by (auto simp: set_dataset_def remove_dataset_from_cache_def cached_dataset_def Let_def split: option.splits)

lemma get_fold_put:
  "dict_get (fold (\<lambda>(s, t). dict_put s (f t)) ts d) k =
     (case dict_get (rev ts) k of None \<Rightarrow> dict_get d k | Some t \<Rightarrow> Some (f t))"
  by (induction ts arbitrary: d)
    (auto simp: dict_simps map_add_def split: option.splits)

lemma dict_ok_rev_get: "dict_ok d \<Longrightarrow> dict_get (rev d) k = dict_get d k"
  by (metis map_of_eq_Some_iff distinct_rev not_None_eq rev_map set_rev)

lemma fill_defaults_get:
  "dict_get (fill_defaults ss d) k =
     (if dict_get d k = None \<and> k \<in> set ss then Some (dict_get_or STAGE_DEFAULTS k 1800) else dict_get d k)"
  by (induction ss arbitrary: d) (auto simp: fill_defaults_def dict_simps)

lemma fold_put_fun_get:
  "dict_get (fold (\<lambda>s. dict_put s (g s)) ss d) k = (if k \<in> set ss then Some (g k) else dict_get d k)"
  by (induction ss arbitrary: d) (auto simp: dict_simps)

lemma fold_put_ok:
  "dict_ok d \<Longrightarrow> dict_ok (fold (\<lambda>s. dict_put (h s) (g s)) ss d)"
  by (induction ss arbitrary: d) auto

lemma prefetched_covers: "s \<in> set stage_names \<Longrightarrow> dict_get (prefetched m) s \<noteq> None"
  by (auto simp: prefetched_def fill_defaults_get fold_put_fun_get split: option.splits)

lemma prefetched_ok: "dict_ok (prefetched m)"
proof (cases m)
  case None
  then show ?thesis using fold_put_ok [of "[]" id] by (simp add: prefetched_def)
next
  case (Some rows)
  have "dict_ok (fold (\<lambda>(s, n, p95). dict_put s (metric_timeout s n p95)) rows d)" if "dict_ok d" for d
    using that by (induction rows arbitrary: d) (auto split: prod.splits)
  moreover have "dict_ok (fill_defaults ss d)" if "dict_ok d" for ss d
    using that by (induction ss arbitrary: d) (auto simp: fill_defaults_def)
  ultimately show ?thesis by (simp add: prefetched_def Some)
qed

lemma defaults_bounds: "0 < dict_get_or STAGE_DEFAULTS s 1800 \<and> dict_get_or STAGE_DEFAULTS s 1800 \<le> 14400"
  by (simp add: dict_get_or_def STAGE_DEFAULTS_def)

lemma caps_bounds: "0 < dict_get_or STAGE_CAPS s 14400 \<and> dict_get_or STAGE_CAPS s 14400 \<le> 14400"
  by (simp add: dict_get_or_def STAGE_CAPS_def)

lemma metric_bounds: "0 < p95 \<Longrightarrow> 0 < metric_timeout s n p95 \<and> metric_timeout s n p95 \<le> 14400"
  using defaults_bounds [of s] caps_bounds [of s] by (simp add: metric_timeout_def min_le_iff_disj)

lemma fold_metrics_bounds:
  "\<forall>t. dict_get d k = Some t \<longrightarrow> 0 < t \<and> t \<le> 14400 \<Longrightarrow> \<forall>(s, n, p)\<in>set rows. 0 < p \<Longrightarrow>
   \<forall>t. dict_get (fold (\<lambda>(s, n, p95). dict_put s (metric_timeout s n p95)) rows d) k = Some t \<longrightarrow>
     0 < t \<and> t \<le> 14400"
proof (induction rows arbitrary: d)
  case (Cons r rows)
  obtain s n p where r: "r = (s, n, p)" by (cases r) auto
  have "\<forall>t. dict_get (dict_put s (metric_timeout s n p) d) k = Some t \<longrightarrow> 0 < t \<and> t \<le> 14400"
    using Cons.prems metric_bounds [of p s n] by (simp add: r dict_simps)
  from Cons.IH [OF this] Cons.prems(2) show ?case by (simp add: r)
qed simp

lemma prefetched_bounds:
  assumes "\<And>rows s n p. m = Some rows \<Longrightarrow> (s, n, p) \<in> set rows \<Longrightarrow> 0 < p"
    and "dict_get (prefetched m) k = Some t"
  shows "0 < t \<and> t \<le> 14400"
proof (cases m)
  case None
  then show ?thesis using assms(2) defaults_bounds [of k]
    by (auto simp: prefetched_def fold_put_fun_get split: if_splits)
next
  case (Some rows)
  have pos: "\<forall>(s, n, p)\<in>set rows. 0 < p" using assms(1) [OF Some] by auto
  have fb: "\<forall>t. dict_get (fold (\<lambda>(s, n, p95). dict_put s (metric_timeout s n p95)) rows []) k = Some t \<longrightarrow>
     0 < t \<and> t \<le> 14400"
    by (rule fold_metrics_bounds [OF _ pos]) simp
  show ?thesis
  proof (cases "dict_get (fold (\<lambda>(s, n, p95). dict_put s (metric_timeout s n p95)) rows []) k")
    case None
    then show ?thesis using assms(2) Some defaults_bounds [of k]
      by (simp add: prefetched_def fill_defaults_get split: if_splits)
  next
    case (Some x)
    then show ?thesis using assms(2) fb \<open>m = Some rows\<close>
      by (simp add: prefetched_def fill_defaults_get)
  qed
qed

definition fresh_dataset :: "rat \<Rightarrow> metrics option \<Rightarrow> dataset_cache" where
  "fresh_dataset now m = fold (\<lambda>(s, t). dict_put s (t, now)) (prefetched m) []"

lemma fresh_dataset_get:
  "dict_get (fresh_dataset now m) k = map_option (\<lambda>t. (t, now)) (dict_get (prefetched m) k)"
  unfolding fresh_dataset_def get_fold_put [where f = "\<lambda>t. (t, now)"]
  by (simp add: dict_ok_rev_get prefetched_ok map_option_case split: option.splits)

lemma fresh_dataset_times: "(k, t, ts) \<in> set (fresh_dataset now m) \<Longrightarrow> ts = now"
proof -
  have "dict_ok (fold (\<lambda>(s, t). dict_put s (t, now)) xs d)" if "dict_ok d" for xs :: "(string, rat) dict" and d
    using that by (induction xs arbitrary: d) (auto split: prod.splits)
  then have "dict_ok (fresh_dataset now m)" by (simp add: fresh_dataset_def)
  then have "(k, t, ts) \<in> set (fresh_dataset now m) \<Longrightarrow> dict_get (fresh_dataset now m) k = Some (t, ts)"
    by (rule map_of_is_SomeI)
  then show "(k, t, ts) \<in> set (fresh_dataset now m) \<Longrightarrow> ts = now"
    unfolding fresh_dataset_get by (cases "dict_get (prefetched m) k") auto
qed

lemma ensure_uncached:
  "cached_dataset tm j d = None \<Longrightarrow>
   ensure_dataset_timeouts fetch now tm j d = set_dataset tm j d (fresh_dataset now (fetch j d stage_names))"
  by (simp add: ensure_dataset_timeouts_def is_dataset_cached_def pre_fetch_stage_timeouts_def
      cache_timeouts_for_job_dataset_def fresh_dataset_def)

lemma cached_fresh:
  assumes "cached_dataset tm j d = Some (fresh_dataset now m)" "t - now < CACHE_TTL"
  shows "is_dataset_cached t tm j d"
    and "ensure_dataset_timeouts fetch t tm j d = tm"
    and "dict_get (prefetched m) s = Some x \<Longrightarrow> resolve_timeout fetch t tm j d s = (x, tm)"
proof -
  show c: "is_dataset_cached t tm j d"
    using assms fresh_dataset_times by (fastforce simp: is_dataset_cached_def list_all_iff)
  show "ensure_dataset_timeouts fetch t tm j d = tm" by (simp add: ensure_dataset_timeouts_def c)
  show "dict_get (prefetched m) s = Some x \<Longrightarrow> resolve_timeout fetch t tm j d s = (x, tm)"
    using assms by (simp add: resolve_timeout_def get_cached_timeout_def fresh_dataset_get)
qed

text \<open>What a step's timeout is once the dataset is cached.\<close>

definition planned_timeout :: "metrics option \<Rightarrow> string \<Rightarrow> rat" where
  "planned_timeout m s = dict_get_or (prefetched m) s (dict_get_or STAGE_DEFAULTS s 1800)"

definition planned_budget :: "metrics option \<Rightarrow> rat" where
  "planned_budget m = sum_list (map (planned_timeout m) stage_names) * (6 / 5)"

lemma ensure_step_timeout:
  assumes "cached_dataset tm j d = None"
  shows "resolve_timeout fetch now tm j d s =
    (planned_timeout (fetch j d stage_names) s, set_dataset tm j d (fresh_dataset now (fetch j d stage_names)))"
  using assms
  by (simp add: resolve_timeout_def get_cached_timeout_def ensure_uncached fresh_dataset_get
      planned_timeout_def dict_get_or_def split: option.splits)

lemma cached_budget:
  assumes "cached_dataset tm j d = Some (fresh_dataset now m)" "t - now < CACHE_TTL"
  shows "resolve_budget fetch t tm j d None = (planned_budget m, tm)"
proof -
  have "(\<lambda>s. case dict_get (fresh_dataset now m) s of
      None \<Rightarrow> dict_get_or STAGE_DEFAULTS s 1800 | Some (t, _) \<Rightarrow> t) = planned_timeout m"
    by (simp add: fun_eq_iff fresh_dataset_get planned_timeout_def dict_get_or_def split: option.splits)
  then show ?thesis
    using assms(1) by (simp add: resolve_budget_def cached_fresh(2) [OF assms] planned_budget_def Let_def)
qed

lemma CACHE_TTL_pos [simp]: "0 < CACHE_TTL"
  by (simp add: CACHE_TTL_def)

lemma create_uncached:
  fixes fetch :: fetcher
  assumes "cached_dataset tm (job_id (identity r)) (dataset_id (identity r)) = None"
  defines "m \<equiv> fetch (job_id (identity r)) (dataset_id (identity r)) stage_names"
    and "k \<equiv> tm_key (job_id (identity r)) (dataset_id (identity r))"
  shows "create_timeout_state fetch now tm r =
    (default_timeout_state\<lparr>stage_timeout := planned_timeout m (ref_step_id r),
       budget_total := Some (planned_budget m)\<rparr>,
     set_dataset (tm\<lparr>tm_counts := dict_put k (dict_get_or (tm_counts tm) k 0 + 1) (tm_counts tm)\<rparr>)
       (job_id (identity r)) (dataset_id (identity r)) (fresh_dataset now m))"
  using assms(1)
  by (simp add: create_timeout_state_def Let_def ensure_step_timeout m_def [symmetric] k_def [symmetric]
      cached_budget [of _ _ _ now m])

text \<open>
  One history query per job and dataset: the first task of an uncached pair caches all
  stages from a single call of \<open>fetch\<close>; until the entries are a day old every later look-up of
  a stage timeout or of the budget gives the planned values whatever the repository would now
  answer, and leaves the monitor unchanged. With positive history durations each planned
  timeout lies in (0, 14400], and the budget is 1.2 times their sum. No other pair's cache is
  touched.
\<close>

theorem single_history_query:
  fixes fetch fetch' :: fetcher
  assumes "cached_dataset tm (job_id (identity r)) (dataset_id (identity r)) = None"
    and "t - now < CACHE_TTL"
  defines "m \<equiv> fetch (job_id (identity r)) (dataset_id (identity r)) stage_names"
  shows "case create_timeout_state fetch now tm r of (st, tm') \<Rightarrow>
    stage_timeout st = planned_timeout m (ref_step_id r) \<and>
    budget_total st = Some (planned_budget m) \<and>
    (\<forall>s\<in>set stage_names. resolve_timeout fetch' t tm' (job_id (identity r)) (dataset_id (identity r)) s =
       (planned_timeout m s, tm')) \<and>
    resolve_budget fetch' t tm' (job_id (identity r)) (dataset_id (identity r)) None =
      (planned_budget m, tm') \<and>
    ((\<forall>rows s n p. m = Some rows \<and> (s, n, p) \<in> set rows \<longrightarrow> 0 < p) \<longrightarrow>
       (\<forall>s. 0 < planned_timeout m s \<and> planned_timeout m s \<le> 14400)) \<and>
    (\<forall>j d. (j, d) \<noteq> (job_id (identity r), dataset_id (identity r)) \<longrightarrow>
       cached_dataset tm' j d = cached_dataset tm j d)"
proof -
  let ?j = "job_id (identity r)" and ?d = "dataset_id (identity r)"
  obtain st tm' where c: "create_timeout_state fetch now tm r = (st, tm')" by (cases "create_timeout_state fetch now tm r")
  note cu = create_uncached [OF assms(1), of fetch now, folded m_def, unfolded c]
  have fresh: "cached_dataset tm' ?j ?d = Some (fresh_dataset now m)" using cu by simp
  have "resolve_timeout fetch' t tm' ?j ?d s = (planned_timeout m s, tm')" if "s \<in> set stage_names" for s
    using prefetched_covers [OF that, of m] cached_fresh(3) [OF fresh assms(2)]
    by (auto simp: planned_timeout_def dict_get_or_def)
  moreover have "0 < planned_timeout m s \<and> planned_timeout m s \<le> 14400"
    if "\<forall>rows s n p. m = Some rows \<and> (s, n, p) \<in> set rows \<longrightarrow> 0 < p" for s
    using prefetched_bounds [of m s] that defaults_bounds [of s]
    by (auto simp: planned_timeout_def dict_get_or_def split: option.splits)
  ultimately show ?thesis
    unfolding c using cu cached_budget [OF fresh assms(2)] by auto
qed

definition sample_fetch :: fetcher where
  "sample_fetch j d ss = Some [(''extract'', 20, 100), (''write'', 3, 50)]"

theorem single_history_query_witness:
  "stage_timeout (fst (create_timeout_state sample_fetch 0 tm_init sample_ref)) = 150 \<and>
   resolve_timeout (\<lambda>j d ss. None) 100 (snd (create_timeout_state sample_fetch 0 tm_init sample_ref))
     ''j1'' ''ds'' ''write'' = (1800, snd (create_timeout_state sample_fetch 0 tm_init sample_ref))"
proof -
  have h: "cached_dataset tm_init (job_id (identity sample_ref)) (dataset_id (identity sample_ref)) = None"
    by (simp add: tm_init_def cached_dataset_def)
  have p: "planned_timeout (sample_fetch ''j1'' ''ds'' stage_names) ''extract'' = 150"
    "planned_timeout (sample_fetch ''j1'' ''ds'' stage_names) ''write'' = 1800"
    by (simp_all add: planned_timeout_def prefetched_def sample_fetch_def dict_get_or_def
        fill_defaults_get metric_timeout_def STAGE_CAPS_def STAGE_DEFAULTS_def stage_names_def ALL_STAGES_def)
  have i: "job_id (identity sample_ref) = ''j1''" "dataset_id (identity sample_ref) = ''ds''"
    "ref_step_id sample_ref = ''extract''"
    by (simp_all add: sample_ref_def mk_ref_def mk_identity_def)
  have w: "''write'' \<in> set stage_names" by (simp add: stage_names_def ALL_STAGES_def)
  show ?thesis
    using single_history_query [OF h, of 100 0 sample_fetch "\<lambda>j d ss. None"] w
    by (auto simp: p i CACHE_TTL_def split: prod.splits)
qed

lemma tm_key_inj: "tm_key j d = tm_key j' d \<longleftrightarrow> j = j'"
  by (simp add: tm_key_def)

lemma create_counts:
  "dict_get_or (tm_counts (snd (create_timeout_state fetch now tm r))) k 0 =
     dict_get_or (tm_counts tm) k 0 +
       (if k = tm_key (job_id (identity r)) (dataset_id (identity r)) then 1 else 0)"
proof -
  have e: "tm_counts (ensure_dataset_timeouts fetch now t j d) = tm_counts t" for t j d
    by (simp add: ensure_dataset_timeouts_def pre_fetch_stage_timeouts_def cache_timeouts_for_job_dataset_def Let_def)
  have g: "tm_counts (snd (get_cached_timeout now t j d s)) = tm_counts t" for t j d s
    by (auto simp: get_cached_timeout_def Let_def split: option.splits)
  have "tm_counts (snd (resolve_timeout fetch now t j d s)) = tm_counts t" for t j d s
    using g [of t j d s] by (auto simp: resolve_timeout_def Let_def e split: prod.splits option.splits)
  moreover have "tm_counts (snd (resolve_budget fetch now t j d so)) = tm_counts t" for t j d so
    by (simp add: resolve_budget_def Let_def e)
  ultimately have r: "resolve_timeout fetch now t j d s = (x, t1) \<Longrightarrow> tm_counts t1 = tm_counts t"
    and b: "resolve_budget fetch now t j d so = (y, t1) \<Longrightarrow> tm_counts t1 = tm_counts t"
    for t j d s so x y t1
    by (metis snd_conv)+
  show ?thesis
    by (auto simp: create_timeout_state_def Let_def split: prod.splits dest!: r b)
qed

text \<open>Releasing by another id than the job's: its counter and its cache stay as they are.\<close>

lemma release_other_job:
  assumes "j' \<noteq> j"
  shows "dict_get_or (tm_counts (release_dataset_cache tm j' d)) (tm_key j d) 0 = dict_get_or (tm_counts tm) (tm_key j d) 0"
    and "cached_dataset (release_dataset_cache tm j' d) j d = cached_dataset tm j d"
  using assms by (simp_all add: release_dataset_cache_def Let_def tm_key_inj)

text \<open>
  The active-task counter balances: releasing a job's dataset once undoes one creation of
  a timeout state for it, no matter what other pairs did; the cached timeouts are dropped
  exactly when no active task remains. A release under any other id, such as the run id, leaves
  both the counter and the cache of the job's dataset as they were.
\<close>

theorem release_balances_create:
  fixes fetch :: fetcher and now :: rat
  assumes "0 \<le> dict_get_or (tm_counts tm) (tm_key (job_id (identity r)) (dataset_id (identity r))) 0"
    and "other \<noteq> job_id (identity r)"
  defines "j \<equiv> job_id (identity r)" and "d \<equiv> dataset_id (identity r)"
    and "tm' \<equiv> snd (create_timeout_state fetch now tm r)"
  shows "dict_get_or (tm_counts (release_dataset_cache tm' j d)) k 0 = dict_get_or (tm_counts tm) k 0 \<and>
    (dict_get_or (tm_counts tm) (tm_key j d) 0 = 0 \<longrightarrow>
       cached_dataset (release_dataset_cache tm' j d) j d = None) \<and>
    (0 < dict_get_or (tm_counts tm) (tm_key j d) 0 \<longrightarrow>
       cached_dataset (release_dataset_cache tm' j d) j d = cached_dataset tm' j d) \<and>
    dict_get_or (tm_counts (release_dataset_cache tm' other d)) (tm_key j d) 0 =
      dict_get_or (tm_counts tm) (tm_key j d) 0 + 1 \<and>
    cached_dataset (release_dataset_cache tm' other d) j d = cached_dataset tm' j d"
proof -
  have c: "dict_get_or (tm_counts tm') k 0 =
    dict_get_or (tm_counts tm) k 0 + (if k = tm_key j d then 1 else 0)" for k
    unfolding tm'_def j_def d_def by (rule create_counts)
  have "other \<noteq> j" using assms(2) by (simp add: j_def)
  note o = release_other_job [OF this, of tm' d]
  show ?thesis
    using assms(1) o c by (auto simp: release_dataset_cache_def Let_def j_def [symmetric] d_def [symmetric])
qed

theorem release_balances_create_witness:
  "dict_get_or (tm_counts (release_dataset_cache (snd (create_timeout_state sample_fetch 0 tm_init sample_ref))
      ''j1'' ''ds'')) ''j1:ds'' 0 = 0 \<and>
   dict_get_or (tm_counts (release_dataset_cache (snd (create_timeout_state sample_fetch 0 tm_init sample_ref))
      ''r7'' ''ds'')) ''j1:ds'' 0 = 1"
proof -
  have i: "job_id (identity sample_ref) = ''j1''" "dataset_id (identity sample_ref) = ''ds''"
    by (simp_all add: sample_ref_def mk_ref_def mk_identity_def)
  show ?thesis
    using release_balances_create [of tm_init sample_ref "''r7''" sample_fetch 0 "''j1:ds''"]
    by (simp add: i tm_init_def dict_get_or_def tm_key_def)
qed

end
