(* ===== verification/TaskCache.thy ===== *)
theory TaskCache
  imports KVCache Timeouts
begin

text \<open>
  The hot cache of tasks: the metadata entry (\<open>core/orchestrator/common/task/types.py\<close>) and the
  cache that keeps it under a key carrying the task's whole routing state
  (\<open>core/orchestrator/common/task/cache.py\<close>). The cache client is a parameter, the record
  \<open>cache_client\<close> of the three operations used here; the properties are proved for every
  client that meets the contract \<open>kv_cache\<close> and interpreted on the in-memory cache.
\<close>


section \<open>Task metadata\<close>

record task_metadata =
  md_job_id :: string
  md_run_id :: string
  md_dataset_id :: string
  md_partition_date :: string
  md_config_file :: string
  md_current_step_id :: string
  md_status :: string
  md_last_hb :: rat
  md_next_attempt_ts :: "rat option"
  md_retry_count :: int
  md_rollback_history :: "(string, string) dict"
  md_rollback_stack :: "string list"
  md_expires_at :: "rat option"
  md_blocked_by :: "string option"
  md_timeout_state :: "timeout_state option"
  md_scheduled_at :: rat

definition from_ref :: "rat \<Rightarrow> task_ref \<Rightarrow> string \<Rightarrow> rat option \<Rightarrow> task_metadata" where
  "from_ref now r config_file expires_at =
    \<lparr>md_job_id = job_id (identity r), md_run_id = run_id (identity r),
     md_dataset_id = dataset_id (identity r), md_partition_date = partition_date (identity r),
     md_config_file = config_file, md_current_step_id = ref_step_id r,
     md_status = status_value (ref_status r), md_last_hb = now, md_next_attempt_ts = None,
     md_retry_count = 0, md_rollback_history = [], md_rollback_stack = [],
     md_expires_at = expires_at, md_blocked_by = None, md_timeout_state = None,
     md_scheduled_at = now\<rparr>"

definition md_identity :: "task_metadata \<Rightarrow> task_identity" where
  "md_identity m = mk_identity (md_job_id m) (md_dataset_id m) (md_partition_date m) (md_run_id m)"

definition to_ref :: "task_metadata \<Rightarrow> task_ref res" where
  "to_ref m = res_bind (status_of (md_status m)) (\<lambda>st.
     Ok (mk_ref CACHE_TASK_NAMESPACE st (md_current_step_id m) (md_identity m)))"

definition generate_cache_key :: "task_metadata \<Rightarrow> exec_status option \<Rightarrow> string res" where
  "generate_cache_key m override =
    (let status_val = (case override of Some s \<Rightarrow> status_value s | None \<Rightarrow> md_status m) in
     res_bind (to_ref m) (\<lambda>r. Ok (build r (Some status_val) (Some (md_current_step_id m)))))"

text \<open>Entries whose key can be parsed back: a valid status, a step, and no colon in a field.\<close>

definition md_ok :: "task_metadata \<Rightarrow> bool" where
  "md_ok m \<longleftrightarrow> (\<exists>s. md_status m = status_value s) \<and> md_current_step_id m \<noteq> [] \<and>
     colon_free (md_current_step_id m) \<and> identity_ok (md_identity m)"

definition client_parts :: "task_metadata \<Rightarrow> string list" where
  "client_parts m = [md_status m, md_current_step_id m, md_job_id m, md_dataset_id m,
     md_partition_date m, md_run_id m]"

definition client_key_of :: "task_metadata \<Rightarrow> string" where
  "client_key_of m = py_join '':'' (client_parts m)"

definition TASK_PREFIX :: string where
  "TASK_PREFIX = ''task:''"

lemma to_ref_ok:
  assumes "md_ok m"
  obtains s where "md_status m = status_value s"
    "to_ref m = Ok (mk_ref CACHE_TASK_NAMESPACE s (md_current_step_id m) (md_identity m))"
  using assms by (auto simp: md_ok_def to_ref_def)

lemma generate_cache_key_ok:
  assumes "md_ok m"
  shows "generate_cache_key m None = Ok (TASK_PREFIX @ client_key_of m)"
proof -
  obtain s where s: "md_status m = status_value s"
    "to_ref m = Ok (mk_ref CACHE_TASK_NAMESPACE s (md_current_step_id m) (md_identity m))"
    by (rule to_ref_ok [OF assms])
  then show ?thesis using assms
    by (simp add: generate_cache_key_def build_def md_ok_def client_key_of_def client_parts_def
        mk_ref_def md_identity_def mk_identity_def CACHE_TASK_NAMESPACE_def TASK_PREFIX_def)
qed

lemma from_key_generated:
  assumes "md_ok m"
  shows "from_key (TASK_PREFIX @ client_key_of m) = to_ref m"
proof -
  obtain s where s: "md_status m = status_value s"
    "to_ref m = Ok (mk_ref CACHE_TASK_NAMESPACE s (md_current_step_id m) (md_identity m))"
    by (rule to_ref_ok [OF assms])
  let ?r = "mk_ref CACHE_TASK_NAMESPACE s (md_current_step_id m) (md_identity m)"
  have "ref_ok ?r" using assms by (simp add: ref_ok_def md_ok_def mk_ref_def CACHE_TASK_NAMESPACE_def)
  moreover have "build ?r None None = TASK_PREFIX @ client_key_of m"
    by (simp add: build_def mk_ref_def client_key_of_def client_parts_def s md_identity_def
        mk_identity_def CACHE_TASK_NAMESPACE_def TASK_PREFIX_def)
  ultimately show ?thesis using from_key_build [of ?r] s by simp
qed

lemma client_key_split:
  "md_ok m \<Longrightarrow> py_split CHR '':'' (client_key_of m) = client_parts m"
  unfolding client_key_of_def
  by (intro py_split_join)
    (auto simp: client_parts_def md_ok_def identity_ok_def md_identity_def mk_identity_def)

lemma client_key_inj:
  "md_ok m \<Longrightarrow> md_ok m' \<Longrightarrow> client_key_of m = client_key_of m' \<Longrightarrow> client_parts m = client_parts m'"
  using client_key_split by metis


section \<open>Keys\<close>

definition rstrip_colon :: "string \<Rightarrow> string" where
  "rstrip_colon s = rev (dropWhile (\<lambda>c. c = CHR '':'') (rev s))"

text \<open>\<open>TaskCache.prefix\<close> as the constructor normalises it.\<close>

definition cache_prefix :: "string \<Rightarrow> string" where
  "cache_prefix p = (if p = [] then p else rstrip_colon p @ '':'')"

definition sanitize_key :: "string \<Rightarrow> string \<Rightarrow> string" where
  "sanitize_key pfx key =
    (let prefix_word = rstrip_colon pfx;
         parts = py_split CHR '':'' key;
         prefix_count = length (takeWhile (\<lambda>p. p = prefix_word) parts)
     in if prefix_count = 1 then key
        else pfx @ py_join '':'' (drop prefix_count parts))"

definition removeprefix :: "string \<Rightarrow> string \<Rightarrow> string" where
  "removeprefix p s = (if prefix p s then drop (length p) s else s)"

lemma rstrip_task [simp]: "rstrip_colon TASK_PREFIX = ''task''"
  by (simp add: rstrip_colon_def TASK_PREFIX_def)

lemma cache_prefix_task [simp]: "cache_prefix TASK_PREFIX = TASK_PREFIX"
  by (simp add: cache_prefix_def) (simp add: TASK_PREFIX_def)

lemma removeprefix_append [simp]: "removeprefix p (p @ s) = s"
  by (simp add: removeprefix_def)

lemma status_not_task [simp]: "status_value s \<noteq> ''task''" "''task'' \<noteq> status_value s"
  by (cases s; simp)+

lemma py_split_task: "py_split CHR '':'' (TASK_PREFIX @ s) = ''task'' # py_split CHR '':'' s"
  using py_split_append [of "CHR '':''" "''task''" s] by (simp add: TASK_PREFIX_def)

text \<open>Sanitising settles: the result starts with the prefix word exactly once.\<close>

lemma sanitize_idem:
  "sanitize_key TASK_PREFIX (sanitize_key TASK_PREFIX key) = sanitize_key TASK_PREFIX key"
proof -
  let ?P = "\<lambda>p. p = ''task''" and ?parts = "py_split CHR '':'' key"
  let ?n = "length (takeWhile ?P ?parts)"
  show ?thesis
  proof (cases "?n = 1")
    case True
    then show ?thesis by (simp add: sanitize_key_def Let_def)
  next
    case False
    let ?rest = "drop ?n ?parts"
    have rest: "?rest = dropWhile ?P ?parts" by (rule dropWhile_eq_drop [symmetric])
    have one: "takeWhile ?P (py_split CHR '':'' (py_join '':'' ?rest)) = []"
    proof (cases "?rest = []")
      case False
      have "\<forall>w\<in>set ?rest. colon_free w"
        by (meson in_set_dropD py_split_parts_free)
      then have "py_split CHR '':'' (py_join '':'' ?rest) = ?rest"
        by (rule py_split_join [OF False])
      moreover have "\<not> ?P (hd ?rest)" using False unfolding rest by (rule hd_dropWhile)
      ultimately show ?thesis using False by (cases ?rest) simp_all
    qed simp
    have "sanitize_key TASK_PREFIX key = TASK_PREFIX @ py_join '':'' ?rest"
      using False by (simp add: sanitize_key_def Let_def)
    then show ?thesis using one by (simp add: sanitize_key_def [of _ "TASK_PREFIX @ _"] py_split_task)
  qed
qed

lemma sanitize_generated:
  assumes "md_ok m"
  shows "sanitize_key TASK_PREFIX (TASK_PREFIX @ client_key_of m) = TASK_PREFIX @ client_key_of m"
proof -
  have "takeWhile (\<lambda>p. p = ''task'') (client_parts m) = []"
    using assms by (auto simp: md_ok_def client_parts_def)
  then show ?thesis
    by (simp add: sanitize_key_def py_split_task client_key_split [OF assms])
qed

lemma sanitize_client:
  assumes "md_ok m"
  shows "sanitize_key TASK_PREFIX (client_key_of m) = TASK_PREFIX @ client_key_of m"
proof -
  have "takeWhile (\<lambda>p. p = ''task'') (client_parts m) = []"
    using assms status_not_task by (auto simp: md_ok_def client_parts_def)
  then show ?thesis
    by (simp add: sanitize_key_def client_key_split [OF assms]) (simp add: client_key_of_def)
qed


section \<open>Cache operations\<close>

record 's cache_client =
  cl_get :: "'s \<Rightarrow> string \<Rightarrow> task_metadata option"
  cl_set :: "'s \<Rightarrow> string \<Rightarrow> task_metadata \<Rightarrow> 's"
  cl_pop :: "'s \<Rightarrow> string \<Rightarrow> 's"

text \<open>
  \<open>get\<close>: the entry under the key, else the state store's record of the run named by the last
  key segment, which is written back under the prefixed key. \<open>db\<close> is the state store's look-up,
  \<open>None\<close> for a cache without one.
\<close>

definition tc_get ::
  "'s cache_client \<Rightarrow> string \<Rightarrow> (string \<Rightarrow> task_metadata option) option \<Rightarrow> 's \<Rightarrow> string \<Rightarrow>
   task_metadata res \<times> 's"
where
  "tc_get cl pfx db s key =
    (let cache_key = sanitize_key pfx key; client_key = removeprefix pfx cache_key in
     case cl_get cl s client_key of
       Some m \<Rightarrow> (Ok m, s)
     | None \<Rightarrow>
        (let rid = last (py_split CHR '':'' cache_key) in
         case db of
           None \<Rightarrow> (Err ValueError, s)
         | Some look \<Rightarrow> (case look rid of
             None \<Rightarrow> (Err ValueError, s)
           | Some m \<Rightarrow> (Ok m, cl_set cl s cache_key m))))"

definition tc_pop ::
  "'s cache_client \<Rightarrow> string \<Rightarrow> 's \<Rightarrow> string \<Rightarrow> task_metadata option \<times> 's"
where
  "tc_pop cl pfx s key =
    (let client_key = removeprefix pfx (sanitize_key pfx key)
     in (cl_get cl s client_key, cl_pop cl s client_key))"

text \<open>Overrides: \<open>remarks\<close> is no field of the entry and only reaches the state store.\<close>

record overrides =
  ov_next_attempt_ts :: "rat option"
  ov_remarks :: "string option"
  ov_blocked_by :: "string option"
  ov_rollback_history :: "(string, string) dict option"
  ov_rollback_stack :: "string list option"

definition no_overrides :: overrides where
  "no_overrides = \<lparr>ov_next_attempt_ts = None, ov_remarks = None, ov_blocked_by = None,
     ov_rollback_history = None, ov_rollback_stack = None\<rparr>"

definition apply_overrides ::
  "rat \<Rightarrow> exec_status \<Rightarrow> string option \<Rightarrow> overrides \<Rightarrow> task_metadata \<Rightarrow> task_metadata"
where
  "apply_overrides now st step ov m = m\<lparr>
     md_status := status_value st,
     md_last_hb := now,
     md_current_step_id := str_or step (md_current_step_id m),
     md_next_attempt_ts := (case ov_next_attempt_ts ov of None \<Rightarrow> md_next_attempt_ts m | Some t \<Rightarrow> Some t),
     md_blocked_by := (case ov_blocked_by ov of None \<Rightarrow> md_blocked_by m | Some b \<Rightarrow> Some b),
     md_rollback_history :=
       (case ov_rollback_history ov of None \<Rightarrow> md_rollback_history m | Some h \<Rightarrow> h),
     md_rollback_stack := (case ov_rollback_stack ov of None \<Rightarrow> md_rollback_stack m | Some r \<Rightarrow> r)\<rparr>"

text \<open>
  \<open>transition_state\<close>: drop the entry under the old key, apply the changes, store under the new
  one. The result is the new key, the changed entry (the caller's object) and the cache.
\<close>

definition transition_state ::
  "'s cache_client \<Rightarrow> string \<Rightarrow> rat \<Rightarrow> 's \<Rightarrow> task_metadata \<Rightarrow> exec_status \<Rightarrow> string option \<Rightarrow> overrides \<Rightarrow>
   (string \<times> task_metadata \<times> 's) res"
where
  "transition_state cl pfx now s m st step ov =
    res_bind (generate_cache_key m None) (\<lambda>k0.
      let s1 = cl_pop cl s (removeprefix pfx (sanitize_key pfx k0));
          m1 = apply_overrides now st step ov m
      in res_bind (generate_cache_key m1 None) (\<lambda>k1.
        let new_key = sanitize_key pfx k1
        in Ok (new_key, m1, cl_set cl s1 (removeprefix pfx new_key) m1)))"

definition step_free :: "string option \<Rightarrow> bool" where
  "step_free step = (case step of None \<Rightarrow> True | Some x \<Rightarrow> colon_free x)"

lemma apply_overrides_simps [simp]:
  "md_run_id (apply_overrides now st step ov m) = md_run_id m"
  "md_job_id (apply_overrides now st step ov m) = md_job_id m"
  "md_dataset_id (apply_overrides now st step ov m) = md_dataset_id m"
  "md_partition_date (apply_overrides now st step ov m) = md_partition_date m"
  "md_config_file (apply_overrides now st step ov m) = md_config_file m"
  "md_identity (apply_overrides now st step ov m) = md_identity m"
  "md_status (apply_overrides now st step ov m) = status_value st"
  "md_current_step_id (apply_overrides now st step ov m) = str_or step (md_current_step_id m)"
  by (simp_all add: apply_overrides_def md_identity_def)

lemma apply_overrides_ok:
  "md_ok m \<Longrightarrow> step_free step \<Longrightarrow> md_ok (apply_overrides now st step ov m)"
  by (cases step) (auto simp: md_ok_def str_or_def step_free_def)

lemma transition_state_ok:
  fixes now :: rat and st :: exec_status and ov :: overrides
  assumes "md_ok m" "step_free step"
  defines "m' \<equiv> apply_overrides now st step ov m"
  shows "transition_state cl TASK_PREFIX now s m st step ov =
    Ok (TASK_PREFIX @ client_key_of m', m', cl_set cl (cl_pop cl s (client_key_of m)) (client_key_of m') m')"
proof -
  have ok: "md_ok m'" unfolding m'_def using assms(1,2) by (rule apply_overrides_ok)
  show ?thesis
    by (simp add: transition_state_def generate_cache_key_ok [OF assms(1)] generate_cache_key_ok [OF ok]
        m'_def [symmetric] Let_def sanitize_generated [OF assms(1)] sanitize_generated [OF ok])
qed

lemma tc_get_ok:
  assumes "md_ok m"
  shows "tc_get cl TASK_PREFIX db s (TASK_PREFIX @ client_key_of m) =
    (case cl_get cl s (client_key_of m) of
       Some x \<Rightarrow> (Ok x, s)
     | None \<Rightarrow> (case db of None \<Rightarrow> (Err ValueError, s)
         | Some look \<Rightarrow> (case look (md_run_id m) of None \<Rightarrow> (Err ValueError, s)
             | Some x \<Rightarrow> (Ok x, cl_set cl s (TASK_PREFIX @ client_key_of m) x))))"
proof -
  have "last (py_split CHR '':'' (TASK_PREFIX @ client_key_of m)) = md_run_id m"
    by (simp add: py_split_task client_key_split [OF assms]) (simp add: client_parts_def)
  then show ?thesis
    by (simp add: tc_get_def Let_def sanitize_generated [OF assms] split: option.splits)
qed


section \<open>One entry per run\<close>

text \<open>Entries are stored under their own key, and a run has at most one entry.\<close>

definition entries_keyed ::
  "(string \<Rightarrow> string) \<Rightarrow> ('s \<Rightarrow> string \<Rightarrow> task_metadata option) \<Rightarrow> 's \<Rightarrow> bool"
where
  "entries_keyed nk lookup s \<longleftrightarrow>
     (\<forall>k m. lookup s k = Some m \<longrightarrow> md_ok m \<and> nk k = nk (client_key_of m))"

definition sole_entry ::
  "(string \<Rightarrow> string) \<Rightarrow> ('s \<Rightarrow> string \<Rightarrow> task_metadata option) \<Rightarrow> 's \<Rightarrow> string \<Rightarrow> string \<Rightarrow> bool"
where
  "sole_entry nk lookup s rid key \<longleftrightarrow>
     (\<forall>k m. lookup s k = Some m \<and> md_run_id m = rid \<longrightarrow> nk k = nk key)"

definition one_per_run ::
  "(string \<Rightarrow> string) \<Rightarrow> ('s \<Rightarrow> string \<Rightarrow> task_metadata option) \<Rightarrow> 's \<Rightarrow> bool"
where
  "one_per_run nk lookup s \<longleftrightarrow>
     (\<forall>k k' m m'. lookup s k = Some m \<and> lookup s k' = Some m' \<and> md_run_id m = md_run_id m' \<longrightarrow>
        nk k = nk k')"

definition client_of ::
  "('s \<Rightarrow> string \<Rightarrow> task_metadata option) \<Rightarrow> ('s \<Rightarrow> string \<Rightarrow> task_metadata \<Rightarrow> 's) \<Rightarrow>
   ('s \<Rightarrow> string \<Rightarrow> 's) \<Rightarrow> 's cache_client"
where
  "client_of lookup put del = \<lparr>cl_get = lookup, cl_set = put, cl_pop = del\<rparr>"

locale task_cache_client = kv_cache nk lookup put del
  for nk :: "string \<Rightarrow> string"
    and lookup :: "'s \<Rightarrow> string \<Rightarrow> task_metadata option"
    and put :: "'s \<Rightarrow> string \<Rightarrow> task_metadata \<Rightarrow> 's"
    and del :: "'s \<Rightarrow> string \<Rightarrow> 's"
begin

lemma transition_lookup:
  assumes "md_ok m" "step_free step"
    and "transition_state (client_of lookup put del) TASK_PREFIX now s m st step ov = Ok (k', m', s')"
  shows "m' = apply_overrides now st step ov m" "md_ok m'" "k' = TASK_PREFIX @ client_key_of m'"
    and "lookup s' x = (if nk x = nk (client_key_of m') then Some m'
           else if nk x = nk (client_key_of m) then None else lookup s x)"
proof -
  note t = transition_state_ok [OF assms(1,2), where cl = "client_of lookup put del" and now = now and s = s and st = st and ov = ov]
  show m': "m' = apply_overrides now st step ov m" and k': "k' = TASK_PREFIX @ client_key_of m'"
    using t assms(3) by auto
  show "md_ok m'" unfolding m' by (rule apply_overrides_ok [OF assms(1,2)])
  have "s' = put (del s (client_key_of m)) (client_key_of m') m'"
    using t assms(3) m' by (auto simp: client_of_def)
  then show "lookup s' x = (if nk x = nk (client_key_of m') then Some m'
      else if nk x = nk (client_key_of m) then None else lookup s x)"
    by (simp add: rotate)
qed

lemma transition_keeps_one:
  assumes "entries_keyed nk lookup s" "one_per_run nk lookup s"
    and "sole_entry nk lookup s (md_run_id m) (client_key_of m)"
    and "md_ok m" "step_free step"
    and "transition_state (client_of lookup put del) TASK_PREFIX now s m st step ov = Ok (k', m', s')"
  shows "entries_keyed nk lookup s'" "one_per_run nk lookup s'"
    and "sole_entry nk lookup s' (md_run_id m) (client_key_of m')"
proof -
  note l = transition_lookup [OF assms(4,5,6)]
  have rid: "md_run_id m' = md_run_id m" by (simp add: l(1))
  have old: "lookup s' k = Some y \<Longrightarrow> nk k \<noteq> nk (client_key_of m') \<Longrightarrow> lookup s k = Some y" for k y
    by (simp add: l(4) split: if_splits)
  show "entries_keyed nk lookup s'"
    using assms(1) l(2) by (auto simp: entries_keyed_def l(4) split: if_splits)
  show sole: "sole_entry nk lookup s' (md_run_id m) (client_key_of m')"
    unfolding sole_entry_def
  proof (intro allI impI, elim conjE)
    fix k y assume y: "lookup s' k = Some y" "md_run_id y = md_run_id m"
    show "nk k = nk (client_key_of m')"
    proof (rule ccontr)
      assume n: "nk k \<noteq> nk (client_key_of m')"
      have "lookup s k = Some y" by (rule old [OF y(1) n])
      then have "nk k = nk (client_key_of m)" using assms(3) y(2) by (auto simp: sole_entry_def)
      then show False using y(1) n by (simp add: l(4))
    qed
  qed
  show "one_per_run nk lookup s'"
    unfolding one_per_run_def
  proof (intro allI impI, elim conjE)
    fix k k2 y y2 assume y: "lookup s' k = Some y" "lookup s' k2 = Some y2" "md_run_id y = md_run_id y2"
    have a: "lookup s' z = Some w \<Longrightarrow> md_run_id w \<noteq> md_run_id m \<Longrightarrow> lookup s z = Some w" for z w
      using rid by (auto simp: l(4) split: if_splits)
    show "nk k = nk k2"
    proof (cases "md_run_id y = md_run_id m")
      case True
      then show ?thesis using sole y unfolding sole_entry_def by metis
    next
      case False
      then show ?thesis using a y assms(2) unfolding one_per_run_def by metis
    qed
  qed
qed

end

text \<open>
  The orchestrator's own client: its cache namespace is the raw prefix, so the stored key has
  the prefix word followed by two colons.
\<close>

interpretation task_mem: task_cache_client "prefixed TASK_PREFIX" "mem_lookup now TASK_PREFIX"
    "mem_put now TASK_PREFIX" "mem_remove TASK_PREFIX"
  for now
  by unfold_locales

definition mem_client :: "int \<Rightarrow> (string, task_metadata \<times> int option) dict cache_client" where
  "mem_client now = client_of (mem_lookup now TASK_PREFIX) (mem_put now TASK_PREFIX) (mem_remove TASK_PREFIX)"

lemma mem_client_simps [simp]:
  "cl_get (mem_client now) = mem_lookup now TASK_PREFIX"
  "cl_set (mem_client now) = mem_put now TASK_PREFIX"
  by (simp_all add: mem_client_def client_of_def)

lemma client_key_prefix:
  assumes "md_ok m"
  shows "prefixed TASK_PREFIX (client_key_of m) = ''task::'' @ client_key_of m"
    and "prefixed TASK_PREFIX (TASK_PREFIX @ client_key_of m) = ''task::task:'' @ client_key_of m"
proof -
  obtain s where s: "md_status m = status_value s" using assms by (auto simp: md_ok_def)
  have "\<exists>c cs. client_key_of m = c # cs \<and> c \<noteq> CHR ''t'' \<and> c \<noteq> CHR '':''"
    by (cases s) (simp_all add: client_key_of_def client_parts_def s)
  then obtain c cs where c: "client_key_of m = c # cs" "c \<noteq> CHR ''t''" "c \<noteq> CHR '':''" by auto
  show "prefixed TASK_PREFIX (client_key_of m) = ''task::'' @ client_key_of m"
    using c by (auto simp: prefixed_def ns_prefix_def TASK_PREFIX_def)
  show "prefixed TASK_PREFIX (TASK_PREFIX @ client_key_of m) = ''task::task:'' @ client_key_of m"
    using c by (simp add: prefixed_def ns_prefix_def TASK_PREFIX_def)
qed

lemma prefixed_client_inj:
  assumes "md_ok x" "md_ok y" "prefixed TASK_PREFIX (client_key_of x) = prefixed TASK_PREFIX (client_key_of y)"
  shows "client_key_of x = client_key_of y"
  using assms(3) client_key_prefix(1) [OF assms(1)] client_key_prefix(1) [OF assms(2)] by simp


definition sample_md :: task_metadata where
  "sample_md = from_ref 0 sample_ref ''/ws/ds/config.json'' None"

lemma sample_md_ok [simp]: "md_ok sample_md"
proof -
  have "md_status sample_md = status_value RUNNING"
    by (simp add: sample_md_def from_ref_def sample_ref_def mk_ref_def)
  then show ?thesis unfolding md_ok_def
    by (intro conjI exI [of _ RUNNING])
      (simp_all add: sample_md_def from_ref_def sample_ref_def mk_ref_def mk_identity_def
        md_identity_def identity_ok_def)
qed


text \<open>
  The state-store fallback of \<open>get\<close> does not warm the cache it reads: it stores the record
  under the prefixed key while every look-up strips the prefix, so the entry is found again only
  through the state store, and without one the next look-up fails as if nothing were cached.
\<close>

theorem get_fallback_not_rehydrated:
  assumes "md_ok m" "mem_lookup now TASK_PREFIX s (client_key_of m) = None"
    and "look (md_run_id m) = Some x"
  shows "case tc_get (mem_client now) TASK_PREFIX (Some look) s (TASK_PREFIX @ client_key_of m) of (r, s') \<Rightarrow>
    r = Ok x \<and> mem_lookup now TASK_PREFIX s' (client_key_of m) = None \<and>
    tc_get (mem_client now) TASK_PREFIX None s' (TASK_PREFIX @ client_key_of m) = (Err ValueError, s')"
  using assms(2,3) client_key_prefix [OF assms(1)]
  by (simp add: tc_get_ok [OF assms(1)] mem.lookup_put)

theorem get_fallback_not_rehydrated_witness:
  "fst (tc_get (mem_client 0) TASK_PREFIX (Some (\<lambda>_. Some sample_md)) [] (TASK_PREFIX @ client_key_of sample_md))
     = Ok sample_md \<and>
   fst (tc_get (mem_client 0) TASK_PREFIX None
     (snd (tc_get (mem_client 0) TASK_PREFIX (Some (\<lambda>_. Some sample_md)) [] (TASK_PREFIX @ client_key_of sample_md)))
     (TASK_PREFIX @ client_key_of sample_md)) = Err ValueError"
proof -
  have "mem_lookup 0 TASK_PREFIX [] (client_key_of sample_md) = None"
    by (simp add: mem_lookup_def mem_at_def live_def)
  from get_fallback_not_rehydrated [OF sample_md_ok this, of "\<lambda>_. Some sample_md" sample_md]
  show ?thesis by (simp split: prod.splits)
qed

end
