(* ===== verification/Admission.thy ===== *)
theory Admission
  imports TaskCache
begin

text \<open>
  Which tasks may enter the cache and which are taken back from dead workers: the admission and
  maintenance policies of the two modes (\<open>modes/daemon/manager.py\<close>, \<open>modes/trigger/manager.py\<close>) and
  the zombie and expiry rules (\<open>core/models/states/detect.py\<close>). The policies use the raw cache
  client: the in-memory back end of \<open>KVCache\<close>, under the name space the task manager gives it.
\<close>

type_synonym md_cache = "task_metadata mem_cache"

definition task_cache_ok :: "md_cache \<Rightarrow> bool" where
  "task_cache_ok c \<longleftrightarrow> mc_namespace c = TASK_PREFIX"

text \<open>Keys written by \<open>transition_state\<close> and by the admission policies.\<close>

definition rotated_key :: "string \<Rightarrow> bool" where
  "rotated_key k \<longleftrightarrow> (\<exists>m. md_ok m \<and> k = ''task::'' @ client_key_of m)"

definition admitted_key :: "string \<Rightarrow> bool" where
  "admitted_key k \<longleftrightarrow> (\<exists>m. md_ok m \<and> k = ''task::task:'' @ client_key_of m)"


section \<open>Admission\<close>

definition ACTIVE_STATUSES :: "exec_status list" where
  "ACTIVE_STATUSES = [WAITING, DISPATCHED, RUNNING, BLOCKED, RETRY]"

definition deny_pattern :: "task_metadata \<Rightarrow> exec_status \<Rightarrow> string" where
  "deny_pattern m s = CACHE_TASK_NAMESPACE @ '':'' @ md_current_step_id m @ '':'' @ status_value s @ '':'' @ md_run_id m"

fun any_exists :: "int \<Rightarrow> string list \<Rightarrow> md_cache \<Rightarrow> bool \<times> md_cache" where
  "any_exists now [] c = (False, c)"
| "any_exists now (p # ps) c =
    (let (e, c1) = mem_exists now c p in if e then (True, c1) else any_exists now ps c1)"

definition admit_deny_duplicates :: "int \<Rightarrow> task_metadata \<Rightarrow> md_cache \<Rightarrow> bool res \<times> md_cache" where
  "admit_deny_duplicates now m c =
    (let (dup, c1) = any_exists now (map (deny_pattern m) ACTIVE_STATUSES) c in
     if dup then (Ok False, c1)
     else (case generate_cache_key m None of
        Err e \<Rightarrow> (Err e, c1)
      | Ok k \<Rightarrow> (Ok True, mem_set now c1 k m None)))"

definition overwrite_pattern :: "task_metadata \<Rightarrow> string" where
  "overwrite_pattern m = cache_prefix TASK_PREFIX @ '':*:'' @ md_run_id m"

definition admit_overwrite :: "int \<Rightarrow> task_metadata \<Rightarrow> md_cache \<Rightarrow> bool res \<times> md_cache" where
  "admit_overwrite now m c =
    (let (olds, c1) = mem_iterkeys now c (Some (overwrite_pattern m));
         c2 = fold (\<lambda>k c. snd (mem_delete c k)) olds c1
     in case generate_cache_key m None of
          Err e \<Rightarrow> (Err e, c2)
        | Ok k \<Rightarrow> (Ok True, mem_set now c2 k m None))"


section \<open>Detected states\<close>

text \<open>
  \<open>ZombieState.matches\<close>. \<open>active\<close> maps runs to worker handles; the membership test compares the run id
  with the handles, here through \<open>same_handle\<close>. \<open>stuck\<close> is the verdict on such a handle,
  \<open>manifest_age\<close> the age of the run's manifest if the run folder has one.
\<close>

definition zombie_matches ::
  "('h \<Rightarrow> string \<Rightarrow> bool) \<Rightarrow> ('h \<Rightarrow> bool) \<Rightarrow> rat \<Rightarrow> rat option \<Rightarrow> (string, 'h) dict \<Rightarrow> task_metadata \<Rightarrow> bool res"
where
  "zombie_matches same_handle stuck now manifest_age active m =
    (if list_ex (\<lambda>h. same_handle h (md_run_id m)) (map snd active)
     then (case dict_get active (md_run_id m) of None \<Rightarrow> Err KeyError | Some h \<Rightarrow> Ok (stuck h))
     else if now - md_last_hb m < 300 then Ok False
     else if (case manifest_age of None \<Rightarrow> False | Some a \<Rightarrow> a < 300) then Ok False
     else Ok True)"

text \<open>\<open>_is_ray_task_stuck\<close>: \<open>ready\<close> is what the cluster reports for the handle, \<open>None\<close> when it raises.\<close>

definition is_ray_task_stuck :: "bool \<Rightarrow> bool \<Rightarrow> bool option \<Rightarrow> bool" where
  "is_ray_task_stuck local_mode ray_up ready =
    (if local_mode \<or> \<not> ray_up then False else ready = Some True)"

text \<open>\<open>ExpiredState.matches\<close>, for a record with a status and an optional threshold.\<close>

definition expired_matches :: "bool \<Rightarrow> rat option \<Rightarrow> string \<Rightarrow> rat \<Rightarrow> bool res" where
  "expired_matches is_snapshot threshold st now =
    (case (is_snapshot, threshold) of
       (True, Some t) \<Rightarrow> res_bind (status_of st) (\<lambda>s. Ok (\<not> is_terminal s \<and> now > t))
     | _ \<Rightarrow> Ok False)"


section \<open>Maintenance\<close>

definition recovery_pattern :: "exec_status \<Rightarrow> string" where
  "recovery_pattern s = CACHE_TASK_NAMESPACE @ '':*:'' @ status_value s @ '':*''"

text \<open>
  One recovered entry: the status and the step are set on the entry before the rotation, so the
  rotation computes the old key from the new status. \<open>same\<close>, \<open>stuck\<close> and \<open>age\<close> as above.
\<close>

definition recover_entry ::
  "'s cache_client \<Rightarrow> rat \<Rightarrow> (string, 'h) dict \<Rightarrow> task_metadata \<Rightarrow> 's \<Rightarrow>
   (task_metadata \<times> 's \<times> (string, 'h) dict) res"
where
  "recover_entry cl now active m s =
    (let resume_step = (if md_current_step_id m = [] then ''start'' else md_current_step_id m);
         m1 = m\<lparr>md_status := status_value WAITING, md_current_step_id := resume_step\<rparr>
     in res_bind (transition_state cl TASK_PREFIX now s m1 WAITING (Some resume_step) no_overrides)
          (\<lambda>(k, m2, s1). Ok (m2, s1, dict_del (md_run_id m) active)))"

fun recover_keys ::
  "'s cache_client \<Rightarrow> (string \<Rightarrow> task_metadata option) option \<Rightarrow> (task_metadata \<Rightarrow> (string, 'h) dict \<Rightarrow> bool res) \<Rightarrow>
   rat \<Rightarrow> string list \<Rightarrow> 's \<Rightarrow> (string, 'h) dict \<Rightarrow> (task_metadata list \<times> 's \<times> (string, 'h) dict) res"
where
  "recover_keys cl db zombie now [] s active = Ok ([], s, active)"
| "recover_keys cl db zombie now (k # ks) s active =
    (let (g, s1) = tc_get cl TASK_PREFIX db s k in
     res_bind g (\<lambda>m. res_bind (zombie m active) (\<lambda>z.
       if \<not> z then recover_keys cl db zombie now ks s1 active
       else res_bind (recover_entry cl now active m s1) (\<lambda>(m1, s2, active1).
         res_bind (recover_keys cl db zombie now ks s2 active1) (\<lambda>(ms, s3, active2).
           Ok (m1 # ms, s3, active2))))))"

definition maintenance_run ::
  "int \<Rightarrow> (string \<Rightarrow> task_metadata option) option \<Rightarrow> (task_metadata \<Rightarrow> (string, 'h) dict \<Rightarrow> bool res) \<Rightarrow> rat \<Rightarrow>
   md_cache \<Rightarrow> (string, 'h) dict \<Rightarrow> (task_metadata list \<times> md_cache \<times> (string, 'h) dict) res"
where
  "maintenance_run t db zombie now c active =
    (let (ks1, c1) = mem_iterkeys t c (Some (recovery_pattern DISPATCHED));
         (ks2, c2) = mem_iterkeys t c1 (Some (recovery_pattern RUNNING))
     in if ks1 @ ks2 = [] then Ok ([], c2, active)
        else res_bind (recover_keys (mem_client t) db zombie now (ks1 @ ks2) (mc_data c2) active)
          (\<lambda>(ms, d, active1). Ok (ms, c2\<lparr>mc_data := d\<rparr>, active1)))"

text \<open>\<open>TaskCache.find\<close> and \<open>resume\<close>: the first key the pattern finds is rotated back to \<open>WAITING\<close>.\<close>

definition tc_find :: "int \<Rightarrow> md_cache \<Rightarrow> string \<Rightarrow> string list \<times> md_cache" where
  "tc_find t c pattern =
    mem_iterkeys t c (Some (if prefix (cache_prefix TASK_PREFIX) pattern then pattern
                            else cache_prefix TASK_PREFIX @ pattern))"

definition maintenance_resume ::
  "int \<Rightarrow> (string \<Rightarrow> task_metadata option) option \<Rightarrow> rat \<Rightarrow> string \<Rightarrow> string option \<Rightarrow> md_cache \<Rightarrow> bool res \<times> md_cache"
where
  "maintenance_resume t db now rid step c =
    (let (ks, c1) = tc_find t c (''*:*:'' @ rid) in
     case ks of
       [] \<Rightarrow> (Ok False, c1)
     | k # _ \<Rightarrow>
        (let (g, d) = tc_get (mem_client t) TASK_PREFIX db (mc_data c1) k in
         case g of
           Err e \<Rightarrow> (Err e, c1\<lparr>mc_data := d\<rparr>)
         | Ok m \<Rightarrow>
            (case transition_state (mem_client t) TASK_PREFIX now d
                (m\<lparr>md_retry_count := 0\<rparr>) WAITING (Some (str_or step (md_current_step_id m)))
                (no_overrides\<lparr>ov_rollback_history := Some []\<rparr>) of
               Err e \<Rightarrow> (Err e, c1\<lparr>mc_data := d\<rparr>)
             | Ok (_, _, d1) \<Rightarrow> (Ok True, c1\<lparr>mc_data := d1\<rparr>))))"


section \<open>What the patterns find\<close>

lemma status_first:
  assumes "md_ok m"
  obtains c cs where "client_key_of m = c # cs" "c \<noteq> CHR ''t''" "c \<noteq> CHR '':''"
proof -
  obtain s where s: "md_status m = status_value s" using assms by (auto simp: md_ok_def)
  have "\<exists>c cs. client_key_of m = c # cs \<and> c \<noteq> CHR ''t'' \<and> c \<noteq> CHR '':''"
    by (cases s) (simp_all add: client_key_of_def client_parts_def s)
  then show ?thesis using that by blast
qed

lemma ns_prefix_task [simp]: "ns_prefix TASK_PREFIX = ''task::''"
  by (simp add: ns_prefix_def TASK_PREFIX_def)

text \<open>A pattern that starts with \<open>task:\<close> is searched for under \<open>task::task:\<close>, where no rotated key is.\<close>

lemma glob_misses_rotated:
  assumes "md_ok m"
  shows "\<not> glob (''task::'' @ ''task:'' @ q) (''task::'' @ client_key_of m)"
proof -
  obtain c cs where "client_key_of m = c # cs" "c \<noteq> CHR ''t''" by (rule status_first [OF assms])
  then show ?thesis by simp
qed

lemma iterkeys_misses_rotated:
  assumes "task_cache_ok c" "\<forall>k\<in>fst ` set (mc_data c). rotated_key k"
  shows "mem_iterkeys now c (Some (''task:'' @ q)) = ([], clean_expired now c)"
proof -
  have "\<forall>k\<in>fst ` set (mc_data (clean_expired now c)). rotated_key k"
    using assms(2) by (auto simp: clean_expired_def)
  then have "filter (\<lambda>k. prefix ''task::'' k \<and> glob (''task::'' @ ''task:'' @ q) k) (map fst (mc_data (clean_expired now c))) = []"
    using glob_misses_rotated unfolding filter_empty_conv set_map rotated_key_def by fastforce
  then show ?thesis using assms(1) by (simp add: mem_iterkeys_def task_cache_ok_def Let_def)
qed

lemma clean_expired_keeps:
  "mc_namespace (clean_expired now c) = mc_namespace c"
  "fst ` set (mc_data (clean_expired now c)) \<subseteq> fst ` set (mc_data c)"
  by (auto simp: clean_expired_def)

lemma clean_expired_all:
  "\<forall>k\<in>fst ` set (mc_data c). P k \<Longrightarrow> \<forall>k\<in>fst ` set (mc_data (clean_expired now c)). P k"
  using clean_expired_keeps(2) [of now c] by blast

lemma clean_expired_cache_ok [simp]: "task_cache_ok (clean_expired now c) = task_cache_ok c"
  by (simp add: task_cache_ok_def clean_expired_keeps)

lemma patterns_start_with_task:
  "recovery_pattern s = ''task:'' @ ''*:'' @ status_value s @ '':*''"
  "overwrite_pattern m = ''task:'' @ '':*:'' @ md_run_id m"
  by (simp_all add: recovery_pattern_def overwrite_pattern_def CACHE_TASK_NAMESPACE_def)
    (simp add: TASK_PREFIX_def)

lemma patterns_miss_rotated:
  assumes "task_cache_ok c" "\<forall>k\<in>fst ` set (mc_data c). rotated_key k"
  shows "mem_iterkeys now c (Some (recovery_pattern s)) = ([], clean_expired now c)"
    and "mem_iterkeys now c (Some (overwrite_pattern m)) = ([], clean_expired now c)"
  unfolding patterns_start_with_task by (rule iterkeys_misses_rotated [OF assms])+

lemma find_misses_rotated:
  assumes "task_cache_ok c" "\<forall>k\<in>fst ` set (mc_data c). rotated_key k" "\<not> prefix TASK_PREFIX q"
  shows "tc_find now c q = ([], clean_expired now c)"
  unfolding tc_find_def cache_prefix_task
  using assms(3) iterkeys_misses_rotated [OF assms(1,2), of now q] by (simp add: TASK_PREFIX_def)

text \<open>
  The maintenance sweep sees nothing. In a cache whose keys were all written by \<open>transition_state\<close>,
  the sweep finds no task to recover whatever the zombie verdicts would be, a manual resume
  of any run reports failure, and a forced trigger evicts nothing before it admits its task: every
  pattern asks for the word \<open>task\<close> behind the name space, where those keys have the status.
\<close>

theorem maintenance_finds_nothing:
  assumes "task_cache_ok c" "\<forall>k\<in>fst ` set (mc_data c). rotated_key k"
  shows "(\<exists>c'. maintenance_run t db zombie now c active = Ok ([], c', active) \<and>
      set (mc_data c') \<subseteq> set (mc_data c)) \<and>
    fst (maintenance_resume t db now rid step c) = Ok False \<and>
    fst (mem_iterkeys t c (Some (overwrite_pattern m))) = []"
proof -
  let ?c1 = "clean_expired t c"
  have ok1: "task_cache_ok ?c1" "\<forall>k\<in>fst ` set (mc_data ?c1). rotated_key k"
    using assms clean_expired_all by simp_all
  have "maintenance_run t db zombie now c active = Ok ([], clean_expired t ?c1, active)"
    by (simp add: maintenance_run_def patterns_miss_rotated [OF assms] patterns_miss_rotated [OF ok1])
  moreover have "set (mc_data (clean_expired t ?c1)) \<subseteq> set (mc_data c)" by (auto simp: clean_expired_def)
  moreover have "fst (maintenance_resume t db now rid step c) = Ok False"
  proof -
    have "\<not> prefix TASK_PREFIX (''*:*:'' @ rid)" by (simp add: TASK_PREFIX_def)
    from find_misses_rotated [OF assms this] show ?thesis by (simp add: maintenance_resume_def)
  qed
  moreover have "fst (mem_iterkeys t c (Some (overwrite_pattern m))) = []"
    by (simp add: patterns_miss_rotated [OF assms])
  ultimately show ?thesis by blast
qed

lemma md_ok_status:
  assumes "md_ok m"
  shows "md_ok (m\<lparr>md_status := status_value st\<rparr>)"
proof -
  have "\<exists>s. md_status (m\<lparr>md_status := status_value st\<rparr>) = status_value s" by (rule exI [of _ st]) simp
  then show ?thesis using assms unfolding md_ok_def by (auto simp: md_identity_def)
qed

definition running_md :: task_metadata where
  "running_md = sample_md\<lparr>md_status := status_value RUNNING\<rparr>"

lemma running_md_ok [simp]: "md_ok running_md"
  unfolding running_md_def by (rule md_ok_status [OF sample_md_ok])

definition running_cache :: md_cache where
  "running_cache = mem_set 0 (mem_init TASK_PREFIX) (client_key_of running_md) running_md None"

lemma running_cache_keys: "mc_data running_cache = [(''task::'' @ client_key_of running_md, running_md, None)]"
  using client_key_prefix(1) [OF running_md_ok]
  by (simp add: running_cache_def mem_set_def mem_init_def mem_key_def)

theorem maintenance_finds_nothing_witness:
  "\<exists>c'. maintenance_run 9 None (\<lambda>m a. Ok True) 1000 running_cache ([] :: (string, nat) dict) = Ok ([], c', []) \<and>
     fst (maintenance_resume 9 None 1000 (md_run_id running_md) None running_cache) = Ok False"
proof -
  have ok: "task_cache_ok running_cache" "\<forall>k\<in>fst ` set (mc_data running_cache). rotated_key k"
    unfolding running_cache_keys by (auto simp: task_cache_ok_def running_cache_def mem_set_def mem_init_def
        rotated_key_def intro!: exI [of _ running_md])
  show ?thesis using maintenance_finds_nothing [OF ok] by blast
qed

lemma deny_key:
  assumes "task_cache_ok c" "md_ok m"
  shows "mem_key c (deny_pattern m s) =
    ''task::task:'' @ py_join '':'' [md_current_step_id m, status_value s, md_run_id m]"
proof -
  obtain x xs where x: "md_current_step_id m = x # xs" "x \<noteq> CHR '':''"
    using assms(2) by (cases "md_current_step_id m") (auto simp: md_ok_def)
  show ?thesis using assms(1) x
    by (simp add: mem_key_def prefixed_def task_cache_ok_def deny_pattern_def CACHE_TASK_NAMESPACE_def)
qed

lemma deny_key_absent:
  assumes "task_cache_ok c" "md_ok m" "rotated_key k \<or> admitted_key k"
  shows "k \<noteq> mem_key c (deny_pattern m s)"
proof
  let ?ps = "[md_current_step_id m, status_value s, md_run_id m]"
  assume k: "k = mem_key c (deny_pattern m s)"
  from assms(3) show False
  proof
    assume "rotated_key k"
    then obtain m' where m': "md_ok m'" "k = ''task::'' @ client_key_of m'" by (auto simp: rotated_key_def)
    obtain x xs where "client_key_of m' = x # xs" "x \<noteq> CHR ''t''" by (rule status_first [OF m'(1)])
    then show False using k m'(2) deny_key [OF assms(1,2), of s] by simp
  next
    assume "admitted_key k"
    then obtain m' where m': "md_ok m'" "k = ''task::task:'' @ client_key_of m'" by (auto simp: admitted_key_def)
    have "py_split CHR '':'' (client_key_of m') = py_split CHR '':'' (py_join '':'' ?ps)"
      using k m'(2) deny_key [OF assms(1,2), of s] by simp
    moreover have "py_split CHR '':'' (py_join '':'' ?ps) = ?ps"
      using assms(2) by (intro py_split_join)
        (auto simp: md_ok_def identity_ok_def md_identity_def mk_identity_def)
    ultimately show False using client_key_split [OF m'(1)] by (simp add: client_parts_def)
  qed
qed

lemma any_exists_none:
  assumes "task_cache_ok c" "md_ok m" "\<forall>k\<in>fst ` set (mc_data c). rotated_key k \<or> admitted_key k"
  shows "fst (any_exists now (map (deny_pattern m) ss) c) = False \<and>
    mc_namespace (snd (any_exists now (map (deny_pattern m) ss) c)) = TASK_PREFIX \<and>
    set (mc_data (snd (any_exists now (map (deny_pattern m) ss) c))) \<subseteq> set (mc_data c)"
  using assms
proof (induction ss arbitrary: c)
  case Nil
  then show ?case by (simp add: task_cache_ok_def)
next
  case (Cons s ss)
  let ?c1 = "clean_expired now c"
  have no: "mem_key c (deny_pattern m s) \<notin> fst ` set (mc_data ?c1)"
    using Cons.prems(3) clean_expired_keeps(2) [of now c] deny_key_absent [OF Cons.prems(1,2)] by blast
  have "set (mc_data ?c1) \<subseteq> set (mc_data c)" by (auto simp: clean_expired_def)
  moreover have "task_cache_ok ?c1" "\<forall>k\<in>fst ` set (mc_data ?c1). rotated_key k \<or> admitted_key k"
    using Cons.prems(1) clean_expired_all [OF Cons.prems(3)] by simp_all
  ultimately show ?case using Cons.IH [of ?c1] Cons.prems(2) no
    by (auto simp: mem_exists_def Let_def)
qed

text \<open>
  The duplicate check denies nothing. In a cache whose keys were written by \<open>transition_state\<close> or
  by admissions, every well-formed task is admitted, whatever else is active for its run; and the
  admitted entry is stored under a key that \<open>TaskCache.get\<close> does not read, so reading the
  task's key afterwards gives what it gave before.
\<close>

theorem duplicates_never_denied:
  assumes "task_cache_ok c" "md_ok m"
    and "\<forall>k\<in>fst ` set (mc_data c). rotated_key k \<or> admitted_key k"
  shows "\<exists>c'. admit_deny_duplicates now m c = (Ok True, c') \<and> task_cache_ok c' \<and>
    (\<forall>k\<in>fst ` set (mc_data c'). rotated_key k \<or> admitted_key k) \<and>
    dict_get (mc_data c') (''task::task:'' @ client_key_of m) = Some (m, None) \<and>
    dict_get (mc_data c') (''task::'' @ client_key_of m) =
      dict_get (mc_data (snd (any_exists now (map (deny_pattern m) ACTIVE_STATUSES) c))) (''task::'' @ client_key_of m)"
proof -
  obtain c1 where c1: "any_exists now (map (deny_pattern m) ACTIVE_STATUSES) c = (False, c1)"
    and ns: "mc_namespace c1 = TASK_PREFIX" and sub: "set (mc_data c1) \<subseteq> set (mc_data c)"
    using any_exists_none [OF assms, of now ACTIVE_STATUSES]
    by (cases "any_exists now (map (deny_pattern m) ACTIVE_STATUSES) c") auto
  define c2 where "c2 = mem_set now c1 (TASK_PREFIX @ client_key_of m) m None"
  have adm: "admit_deny_duplicates now m c = (Ok True, c2)"
    using c1 by (simp add: admit_deny_duplicates_def generate_cache_key_ok [OF assms(2)] c2_def)
  have key: "mem_key c1 (TASK_PREFIX @ client_key_of m) = ''task::task:'' @ client_key_of m"
    using client_key_prefix(2) [OF assms(2)] by (simp add: mem_key_def ns)
  obtain x xs where x: "client_key_of m = x # xs" "x \<noteq> CHR ''t''" by (rule status_first [OF assms(2)])
  have data: "mc_data c2 = dict_put (''task::task:'' @ client_key_of m) (m, None) (mc_data c1)"
    unfolding c2_def mem_set_def key by simp
  have forms: "\<forall>k\<in>fst ` set (mc_data c2). rotated_key k \<or> admitted_key k"
    using assms(2,3) sub unfolding data dict_keys_put by (auto simp: admitted_key_def)
  have ok: "task_cache_ok c2" by (simp add: task_cache_ok_def c2_def mem_set_def ns)
  have ne: "''task::'' @ client_key_of m \<noteq> ''task::task:'' @ client_key_of m" using x by simp
  have g1: "dict_get (mc_data c2) (''task::task:'' @ client_key_of m) = Some (m, None)"
    unfolding data dict_get_put by simp
  have g2: "dict_get (mc_data c2) (''task::'' @ client_key_of m) = dict_get (mc_data c1) (''task::'' @ client_key_of m)"
    unfolding data dict_get_put using ne by simp
  show ?thesis by (rule exI [of _ c2]) (use adm ok forms g1 g2 c1 in simp)
qed

theorem duplicates_never_denied_witness:
  "\<exists>c'. admit_deny_duplicates 9 running_md running_cache = (Ok True, c')"
proof -
  have ok: "task_cache_ok running_cache" "\<forall>k\<in>fst ` set (mc_data running_cache). rotated_key k \<or> admitted_key k"
    unfolding running_cache_keys by (auto simp: task_cache_ok_def running_cache_def mem_set_def mem_init_def
        rotated_key_def intro!: exI [of _ running_md])
  show ?thesis using duplicates_never_denied [OF ok(1) running_md_ok ok(2)] by blast
qed


section \<open>Recovering a zombie\<close>

text \<open>The statuses a sweep looks for are not \<open>WAITING\<close>, so the rotation drops a key nobody wrote.\<close>

context task_cache_client
begin

lemma recover_keeps_old:
  assumes "md_ok m" "md_status m \<noteq> status_value WAITING"
    and nk: "\<forall>x y. md_ok x \<longrightarrow> md_ok y \<longrightarrow> nk (client_key_of x) = nk (client_key_of y) \<longrightarrow>
      client_key_of x = client_key_of y"
    and "recover_entry (client_of lookup put del) now active m s = Ok (m', s', active')"
  shows "md_status m' = status_value WAITING" "md_run_id m' = md_run_id m"
    "lookup s' (client_key_of m') = Some m'"
    "lookup s' (client_key_of m) = lookup s (client_key_of m)"
    "active' = dict_del (md_run_id m) active"
proof -
  define m1 where "m1 = m\<lparr>md_status := status_value WAITING\<rparr>"
  have step: "md_current_step_id m \<noteq> []" "colon_free (md_current_step_id m)"
    using assms(1) by (auto simp: md_ok_def)
  have m1: "m\<lparr>md_status := status_value WAITING, md_current_step_id := md_current_step_id m\<rparr> = m1"
    by (simp add: m1_def)
  have ok1: "md_ok m1" unfolding m1_def by (rule md_ok_status [OF assms(1)])
  obtain k where t: "transition_state (client_of lookup put del) TASK_PREFIX now s m1 WAITING
      (Some (md_current_step_id m)) no_overrides = Ok (k, m', s')"
    and act: "active' = dict_del (md_run_id m) active"
    using assms(4) step m1 by (auto simp: recover_entry_def Let_def res_bind_Ok_iff)
  have free: "step_free (Some (md_current_step_id m))" using step by (simp add: step_free_def)
  note l = transition_lookup [OF ok1 free t]
  have st: "md_status m' = status_value WAITING" using l(1) by (simp add: apply_overrides_def)
  have ne: "client_key_of m \<noteq> client_key_of x" if "md_ok x" "md_status x = status_value WAITING" for x
    using client_key_inj [OF assms(1) that(1)] assms(2) that(2) by (auto simp: client_parts_def)
  show "md_status m' = status_value WAITING" by (rule st)
  show "md_run_id m' = md_run_id m" unfolding l(1) by (simp add: apply_overrides_def m1_def)
  show "lookup s' (client_key_of m') = Some m'" by (simp add: l(4))
  show "lookup s' (client_key_of m) = lookup s (client_key_of m)"
    using ne [OF l(2) st] ne [OF ok1] nk [rule_format, OF assms(1) l(2)] nk [rule_format, OF assms(1) ok1]
    by (auto simp: l(4) m1_def)
  show "active' = dict_del (md_run_id m) active" by (rule act)
qed

end

text \<open>
  Recovering a zombie duplicates it, and may hit a live task. Whether a task is still in the active
  table plays no part in the verdict when its handles are not run ids: a run without a heartbeat and
  a manifest change for five minutes is a zombie. Recovering an entry with another status than
  \<open>WAITING\<close> stores a \<open>WAITING\<close> entry of the run and drops its handle, but the old entry stays
  where it was, to be found and queued again by the next sweep.
\<close>

theorem zombie_recovery_duplicates:
  assumes "md_ok m" "md_status m \<noteq> status_value WAITING" "mem_lookup t TASK_PREFIX s (client_key_of m) = Some m"
    and "\<And>h. h \<in> set (map snd active) \<Longrightarrow> \<not> same h (md_run_id m)"
  shows "zombie_matches same stuck now age active m =
      Ok (now - md_last_hb m \<ge> 300 \<and> (case age of None \<Rightarrow> True | Some a \<Rightarrow> a \<ge> 300)) \<and>
    (\<exists>m' s'. recover_entry (mem_client t) hb active m s = Ok (m', s', dict_del (md_run_id m) active) \<and>
      md_run_id m' = md_run_id m \<and> md_status m' = status_value WAITING \<and>
      mem_lookup t TASK_PREFIX s' (client_key_of m') = Some m' \<and>
      mem_lookup t TASK_PREFIX s' (client_key_of m) = Some m)"
proof (rule conjI)
  show "zombie_matches same stuck now age active m =
      Ok (now - md_last_hb m \<ge> 300 \<and> (case age of None \<Rightarrow> True | Some a \<Rightarrow> a \<ge> 300))"
    using assms(4) by (auto simp: zombie_matches_def list_ex_iff not_less split: option.splits)
  define m1 where "m1 = m\<lparr>md_status := status_value WAITING\<rparr>"
  have step: "md_current_step_id m \<noteq> []" "colon_free (md_current_step_id m)"
    using assms(1) by (auto simp: md_ok_def)
  have ok1: "md_ok m1" unfolding m1_def by (rule md_ok_status [OF assms(1)])
  obtain r where r: "recover_entry (mem_client t) hb active m s = Ok r"
    using transition_state_ok [OF ok1, of "Some (md_current_step_id m)", where cl = "mem_client t"] step
    by (auto simp: recover_entry_def Let_def step_free_def m1_def)
  obtain m' s' a' where r': "r = (m', s', a')" by (cases r)
  have inj: "\<forall>x y. md_ok x \<longrightarrow> md_ok y \<longrightarrow>
      prefixed TASK_PREFIX (client_key_of x) = prefixed TASK_PREFIX (client_key_of y) \<longrightarrow>
      client_key_of x = client_key_of y"
    using prefixed_client_inj by blast
  note k = task_mem.recover_keeps_old [OF assms(1,2) inj r [unfolded r' mem_client_def]]
  have a': "a' = dict_del (md_run_id m) active" by (rule k(5))
  have lk: "mem_lookup t TASK_PREFIX s' (client_key_of m) = Some m" unfolding k(4) by (rule assms(3))
  show "\<exists>m' s'. recover_entry (mem_client t) hb active m s = Ok (m', s', dict_del (md_run_id m) active) \<and>
      md_run_id m' = md_run_id m \<and> md_status m' = status_value WAITING \<and>
      mem_lookup t TASK_PREFIX s' (client_key_of m') = Some m' \<and>
      mem_lookup t TASK_PREFIX s' (client_key_of m) = Some m"
    by (intro exI conjI) (rule r [unfolded r' a'], rule k(2), rule k(1), rule k(3), rule lk)
qed

theorem zombie_recovery_duplicates_witness:
  "zombie_matches (\<lambda>h r. False) (\<lambda>h. False) 400 None [(md_run_id running_md, (7 :: nat))] running_md =
     Ok (400 - md_last_hb running_md \<ge> 300) \<and>
   (\<exists>m' s'. recover_entry (mem_client 9) 400 [(md_run_id running_md, (7 :: nat))] running_md (mc_data running_cache) =
      Ok (m', s', []) \<and> mem_lookup 9 TASK_PREFIX s' (client_key_of running_md) = Some running_md)"
proof -
  have st: "md_status running_md \<noteq> status_value WAITING" by (simp add: running_md_def)
  have lk: "mem_lookup 9 TASK_PREFIX (mc_data running_cache) (client_key_of running_md) = Some running_md"
    using client_key_prefix(1) [OF running_md_ok]
    by (simp add: mem_lookup_def live_def mem_at_def running_cache_keys mem_key_def expired_at_def)
  have h: "\<not> (\<lambda>h r. False) h (md_run_id running_md)" for h :: nat by simp
  show ?thesis
    using zombie_recovery_duplicates [OF running_md_ok st lk, of "[(md_run_id running_md, 7 :: nat)]" "\<lambda>h r. False"
        "\<lambda>h. False" 400 None 400]
    by auto
qed

end
