(* ===== verification/Budgets.thy ===== *)
theory Budgets
  imports Prelude Complex_Main
begin

text \<open>
  Time budgets of \<open>libs/resilience\<close>: the pausable multi-stage budget (\<open>timeout/budget.py\<close>), the
  configurable time-outs (\<open>timeout/timeout.py\<close>) and the adaptive ones with their running
  statistics (\<open>timeout2.py\<close>). Times are exact rationals in seconds; floating-point rounding is
  not modelled.
\<close>


section \<open>The stage budget\<close>

record budget =
  bd_total :: rat
  bd_stage_timeouts :: "(string, rat) dict"
  bd_start :: rat
  bd_stage_starts :: "(string, rat) dict"
  bd_stage_durations :: "(string, rat) dict"
  bd_paused :: bool
  bd_pause_start :: "rat option"
  bd_elapsed_paused :: rat

definition budget_init :: "rat \<Rightarrow> (string, rat) dict \<Rightarrow> rat \<Rightarrow> budget" where
  "budget_init allowance limits now =
    \<lparr>bd_total = allowance, bd_stage_timeouts = limits, bd_start = now, bd_stage_starts = [],
     bd_stage_durations = [], bd_paused = False, bd_pause_start = None, bd_elapsed_paused = 0\<rparr>"

definition bd_start_stage :: "string \<Rightarrow> rat \<Rightarrow> budget \<Rightarrow> budget res" where
  "bd_start_stage st now b =
    (if dict_get (bd_stage_starts b) st \<noteq> None then Err ValueError
     else Ok (b\<lparr>bd_stage_starts := dict_put st now (bd_stage_starts b)\<rparr>))"

text \<open>\<open>end_stage\<close> returns the duration or raises; the budget as it is left comes second.\<close>

definition bd_end_stage :: "string \<Rightarrow> rat \<Rightarrow> budget \<Rightarrow> rat res \<times> budget" where
  "bd_end_stage st now b =
    (case dict_get (bd_stage_starts b) st of
       None \<Rightarrow> (Err ValueError, b)
     | Some t \<Rightarrow>
        (let d = now - t;
             b1 = b\<lparr>bd_stage_durations := dict_put st d (bd_stage_durations b)\<rparr>
         in if (case dict_get (bd_stage_timeouts b) st of None \<Rightarrow> False | Some l \<Rightarrow> d > l)
            then (Err TimeoutError, b1)
            else (Ok d, b1\<lparr>bd_stage_starts := dict_del st (bd_stage_starts b1)\<rparr>)))"

definition bd_pause :: "rat \<Rightarrow> budget \<Rightarrow> budget" where
  "bd_pause now b = (if bd_paused b then b else b\<lparr>bd_paused := True, bd_pause_start := Some now\<rparr>)"

definition bd_resume :: "rat \<Rightarrow> budget \<Rightarrow> budget" where
  "bd_resume now b =
    (case bd_pause_start b of
       None \<Rightarrow> b
     | Some t \<Rightarrow> if \<not> bd_paused b then b
         else b\<lparr>bd_elapsed_paused := bd_elapsed_paused b + (now - t), bd_paused := False, bd_pause_start := None\<rparr>)"

definition bd_elapsed :: "budget \<Rightarrow> rat \<Rightarrow> rat" where
  "bd_elapsed b now = now - bd_start b - bd_elapsed_paused b"

definition bd_remaining :: "budget \<Rightarrow> rat \<Rightarrow> rat" where
  "bd_remaining b now = bd_total b - bd_elapsed b now"

definition bd_is_exceeded :: "budget \<Rightarrow> rat \<Rightarrow> bool" where
  "bd_is_exceeded b now \<longleftrightarrow> bd_remaining b now < 0"

definition bd_can_complete_stage :: "budget \<Rightarrow> string \<Rightarrow> rat \<Rightarrow> rat \<Rightarrow> bool" where
  "bd_can_complete_stage b st estimate now \<longleftrightarrow>
     \<not> bd_is_exceeded b now \<and>
     \<not> (case dict_get (bd_stage_timeouts b) st of None \<Rightarrow> False | Some l \<Rightarrow> estimate > l) \<and>
     bd_remaining b now \<ge> estimate"

definition bd_stage_duration :: "budget \<Rightarrow> string \<Rightarrow> rat option" where
  "bd_stage_duration b st = dict_get (bd_stage_durations b) st"

definition bd_elapsed_per_stage :: "budget \<Rightarrow> rat \<Rightarrow> (string, rat) dict" where
  "bd_elapsed_per_stage b now = map (\<lambda>(st, t). (st, now - t)) (bd_stage_starts b)"

definition bd_reset :: "rat \<Rightarrow> budget \<Rightarrow> budget" where
  "bd_reset now b = b\<lparr>bd_stage_starts := [], bd_stage_durations := [], bd_elapsed_paused := 0,
     bd_paused := False, bd_pause_start := None, bd_start := now\<rparr>"

text \<open>\<open>TimeoutStage\<close>: a body run between \<open>start_stage\<close> and \<open>end_stage\<close>.\<close>

definition with_stage :: "string \<Rightarrow> rat \<Rightarrow> rat \<Rightarrow> (budget \<Rightarrow> budget) \<Rightarrow> budget \<Rightarrow> rat res \<times> budget" where
  "with_stage st t1 t2 body b =
    (case bd_start_stage st t1 b of
       Err e \<Rightarrow> (Err e, b)
     | Ok b1 \<Rightarrow> bd_end_stage st t2 (body b1))"

text \<open>
  What the budget should count: the time during which it was not paused. An execution is a list of
  events with their times; \<open>active_time\<close> adds up the stretches between events in which the budget ran.
\<close>

datatype budget_event = Pause | Resume | StartStage string | EndStage string

fun apply_event :: "budget_event \<times> rat \<Rightarrow> budget \<Rightarrow> budget" where
  "apply_event (Pause, t) b = bd_pause t b"
| "apply_event (Resume, t) b = bd_resume t b"
| "apply_event (StartStage st, t) b = (case bd_start_stage st t b of Err e \<Rightarrow> b | Ok b1 \<Rightarrow> b1)"
| "apply_event (EndStage st, t) b = snd (bd_end_stage st t b)"

fun paused_after :: "bool \<Rightarrow> budget_event \<Rightarrow> bool" where
  "paused_after p Pause = True"
| "paused_after p Resume = False"
| "paused_after p (StartStage st) = p"
| "paused_after p (EndStage st) = p"

fun active_time :: "bool \<Rightarrow> rat \<Rightarrow> (budget_event \<times> rat) list \<Rightarrow> rat \<Rightarrow> rat" where
  "active_time p since [] now = (if p then 0 else now - since)"
| "active_time p since ((e, t) # es) now =
     (if p then 0 else t - since) + active_time (paused_after p e) t es now"

text \<open>Time of the open pause, if any, at the end of an execution.\<close>

fun open_pause :: "rat option \<Rightarrow> (budget_event \<times> rat) list \<Rightarrow> rat option" where
  "open_pause p [] = p"
| "open_pause p ((e, t) # es) = open_pause (case e of
      Pause \<Rightarrow> (case p of None \<Rightarrow> Some t | Some s \<Rightarrow> Some s) | Resume \<Rightarrow> None
    | StartStage st \<Rightarrow> p | EndStage st \<Rightarrow> p) es"

definition pause_consistent :: "budget \<Rightarrow> bool" where
  "pause_consistent b \<longleftrightarrow> (bd_paused b \<longleftrightarrow> bd_pause_start b \<noteq> None)"

lemma stage_events_keep [simp]:
  "bd_paused (apply_event (StartStage st, t) b) = bd_paused b"
  "bd_pause_start (apply_event (StartStage st, t) b) = bd_pause_start b"
  "bd_elapsed_paused (apply_event (StartStage st, t) b) = bd_elapsed_paused b"
  "bd_start (apply_event (StartStage st, t) b) = bd_start b"
  "bd_paused (apply_event (EndStage st, t) b) = bd_paused b"
  "bd_pause_start (apply_event (EndStage st, t) b) = bd_pause_start b"
  "bd_elapsed_paused (apply_event (EndStage st, t) b) = bd_elapsed_paused b"
  "bd_start (apply_event (EndStage st, t) b) = bd_start b"
  by (auto simp: bd_start_stage_def bd_end_stage_def Let_def split: option.splits)

lemma event_effect:
  assumes "pause_consistent b"
  shows "pause_consistent (apply_event (e, t) b)"
    and "bd_start (apply_event (e, t) b) = bd_start b"
    and "bd_pause_start (apply_event (e, t) b) = open_pause (bd_pause_start b) [(e, t)]"
    and "bd_elapsed_paused (apply_event (e, t) b) = bd_elapsed_paused b +
      (case (e, bd_pause_start b) of (Resume, Some s) \<Rightarrow> t - s | _ \<Rightarrow> 0)"
  using assms by (cases e; cases "bd_pause_start b";
    auto simp: pause_consistent_def bd_pause_def bd_resume_def simp del: apply_event.simps(3,4))+

text \<open>
  The time from the last change of the pause flag: with a pause open since \<open>s\<close>, the budget has counted
  the stretch from \<open>s\<close> as well.
\<close>

lemma elapsed_active:
  assumes "pause_consistent b"
    and "since - bd_start b - bd_elapsed_paused b =
      counted + (case bd_pause_start b of None \<Rightarrow> 0 | Some s \<Rightarrow> since - s)"
  shows "bd_elapsed (fold apply_event es b) now =
    counted + active_time (bd_pause_start b \<noteq> None) since es now +
      (case open_pause (bd_pause_start b) es of None \<Rightarrow> 0 | Some s \<Rightarrow> now - s)"
  using assms
proof (induction es arbitrary: b since counted)
  case Nil
  then show ?case by (auto simp: bd_elapsed_def split: option.splits)
next
  case (Cons et es)
  obtain e t where et: "et = (e, t)" by (cases et)
  let ?b = "apply_event (e, t) b"
  note eff = event_effect [OF Cons.prems(1), of e t]
  let ?c = "counted + (if bd_pause_start b \<noteq> None then 0 else t - since)"
  have inv: "t - bd_start ?b - bd_elapsed_paused ?b =
      ?c + (case bd_pause_start ?b of None \<Rightarrow> 0 | Some s \<Rightarrow> t - s)"
    using Cons.prems(2) unfolding eff(2-4)
    by (cases e; cases "bd_pause_start b") auto
  have p: "(bd_pause_start ?b \<noteq> None) = paused_after (bd_pause_start b \<noteq> None) e"
    unfolding eff(3) by (cases e; cases "bd_pause_start b") auto
  have o: "open_pause (bd_pause_start ?b) es = open_pause (bd_pause_start b) ((e, t) # es)"
    unfolding eff(3) by (cases e; cases "bd_pause_start b") auto
  show ?case using Cons.IH [OF eff(1) inv, unfolded p o] by (simp add: et del: apply_event.simps open_pause.simps)
qed


text \<open>
  A stage that overruns its time-out cannot be started again: ending it raises and records the
  duration but leaves it listed as running, so that every later attempt to start it raises too, at any
  time, until the budget is reset.
\<close>

theorem overrun_blocks_stage:
  assumes "bd_start_stage st t1 b = Ok b1" "dict_get (bd_stage_timeouts b) st = Some limit" "t2 - t1 > limit"
  shows "fst (bd_end_stage st t2 b1) = Err TimeoutError \<and>
    bd_stage_duration (snd (bd_end_stage st t2 b1)) st = Some (t2 - t1) \<and>
    bd_start_stage st t3 (snd (bd_end_stage st t2 b1)) = Err ValueError \<and>
    with_stage st t3 t4 body (snd (bd_end_stage st t2 b1)) = (Err ValueError, snd (bd_end_stage st t2 b1)) \<and>
    (\<exists>b2. bd_start_stage st t3 (bd_reset t2 (snd (bd_end_stage st t2 b1))) = Ok b2)"
proof -
  have b1: "b1 = b\<lparr>bd_stage_starts := dict_put st t1 (bd_stage_starts b)\<rparr>"
    using assms(1) by (simp add: bd_start_stage_def split: if_splits)
  show ?thesis using assms(2,3)
    by (simp add: b1 bd_end_stage_def bd_start_stage_def with_stage_def bd_reset_def bd_stage_duration_def
        Let_def dict_simps)
qed

theorem overrun_blocks_stage_witness:
  "fst (with_stage ''load'' 0 20 (\<lambda>b. b) (budget_init 100 [(''load'', 10)] 0)) = Err TimeoutError \<and>
   fst (with_stage ''load'' 30 31 (\<lambda>b. b)
      (snd (with_stage ''load'' 0 20 (\<lambda>b. b) (budget_init 100 [(''load'', 10)] 0)))) = Err ValueError"
  using overrun_blocks_stage [of "''load''" 0 "budget_init 100 [(''load'', 10)] 0"
      "budget_init 100 [(''load'', 10)] 0\<lparr>bd_stage_starts := [(''load'', 0)]\<rparr>" 10 20 30 31 "\<lambda>b. b"]
  by (simp add: bd_start_stage_def budget_init_def with_stage_def)


section \<open>Configured time-outs\<close>

datatype timeout_type = SCHEDULE_TO_START | START_TO_CLOSE | SCHEDULE_TO_CLOSE

definition timeout_types :: "timeout_type list" where
  "timeout_types = [SCHEDULE_TO_START, START_TO_CLOSE, SCHEDULE_TO_CLOSE]"

fun default_timeout :: "timeout_type \<Rightarrow> rat" where
  "default_timeout SCHEDULE_TO_START = 5 * 60"
| "default_timeout START_TO_CLOSE = 10 * 60"
| "default_timeout SCHEDULE_TO_CLOSE = 15 * 60"

record timeout_config =
  tcf_value :: rat
  tcf_enabled :: bool

type_synonym timeout_configs = "(timeout_type, timeout_config) dict"

definition reset_to_defaults :: "timeout_configs \<Rightarrow> timeout_configs" where
  "reset_to_defaults cs = fold (\<lambda>t. dict_put t \<lparr>tcf_value = default_timeout t, tcf_enabled = True\<rparr>) timeout_types cs"

definition manager_init :: timeout_configs where
  "manager_init = reset_to_defaults []"

definition set_timeout :: "timeout_type \<Rightarrow> rat \<Rightarrow> bool \<Rightarrow> timeout_configs \<Rightarrow> timeout_configs res" where
  "set_timeout t v en cs =
    (if v \<le> 0 then Err ValueError else Ok (dict_put t \<lparr>tcf_value = v, tcf_enabled = en\<rparr> cs))"

definition get_timeout :: "timeout_configs \<Rightarrow> timeout_type \<Rightarrow> rat option" where
  "get_timeout cs t = (case dict_get cs t of
     None \<Rightarrow> None | Some c \<Rightarrow> if tcf_enabled c then Some (tcf_value c) else None)"

definition switch_timeout :: "bool \<Rightarrow> timeout_type \<Rightarrow> timeout_configs \<Rightarrow> timeout_configs" where
  "switch_timeout en t cs = (case dict_get cs t of
     None \<Rightarrow> cs | Some c \<Rightarrow> dict_put t (c\<lparr>tcf_enabled := en\<rparr>) cs)"

definition is_timeout_exceeded :: "timeout_configs \<Rightarrow> timeout_type \<Rightarrow> rat \<Rightarrow> bool" where
  "is_timeout_exceeded cs t elapsed = (case get_timeout cs t of None \<Rightarrow> False | Some v \<Rightarrow> elapsed > v)"

definition get_remaining_time :: "timeout_configs \<Rightarrow> timeout_type \<Rightarrow> rat \<Rightarrow> rat option" where
  "get_remaining_time cs t elapsed =
    map_option (\<lambda>v. if v - elapsed > 0 then v - elapsed else 0) (get_timeout cs t)"

inductive configs_step :: "timeout_configs \<Rightarrow> timeout_configs \<Rightarrow> bool" where
  "set_timeout t v en cs = Ok cs' \<Longrightarrow> configs_step cs cs'"
| "configs_step cs (switch_timeout en t cs)"
| "configs_step cs (reset_to_defaults cs)"

definition configs_ok :: "timeout_configs \<Rightarrow> bool" where
  "configs_ok cs \<longleftrightarrow> (\<forall>t. \<exists>c. dict_get cs t = Some c \<and> tcf_value c > 0)"

lemma reset_get: "dict_get (reset_to_defaults cs) t = Some \<lparr>tcf_value = default_timeout t, tcf_enabled = True\<rparr>"
  by (cases t) (simp_all add: reset_to_defaults_def timeout_types_def dict_simps)

lemma default_pos: "default_timeout t > 0"
  by (cases t) simp_all

lemma configs_step_ok: "configs_step cs cs' \<Longrightarrow> configs_ok cs \<Longrightarrow> configs_ok cs'"
proof (induction rule: configs_step.induct)
  case (1 t v en cs cs')
  then show ?case by (auto simp: configs_ok_def set_timeout_def dict_simps split: if_splits)
next
  case (2 cs en t)
  then obtain c where c: "dict_get cs t = Some c" "tcf_value c > 0" by (auto simp: configs_ok_def)
  then show ?case using 2 by (auto simp: configs_ok_def switch_timeout_def dict_simps)
next
  case (3 cs)
  then show ?case by (simp add: configs_ok_def reset_get default_pos)
qed

text \<open>
  C39. Configured time-outs stay positive: after any sequence of settings (one that is not positive
  is refused), switches on and off and resets, every type has a positive value; an enabled one has
  a remaining time between zero and its value for any elapsed time that is not negative, and it is
  exceeded only when nothing remains.
\<close>

theorem timeouts_stay_positive:
  assumes "configs_step\<^sup>*\<^sup>* manager_init cs" "0 \<le> elapsed"
  shows "(\<exists>c. dict_get cs t = Some c \<and> 0 < tcf_value c \<and>
      get_remaining_time cs t elapsed =
        (if tcf_enabled c then Some (max 0 (tcf_value c - elapsed)) else None) \<and>
      (is_timeout_exceeded cs t elapsed \<longrightarrow> get_remaining_time cs t elapsed = Some 0)) \<and>
    (v \<le> 0 \<longrightarrow> set_timeout t v en cs = Err ValueError)"
proof -
  have init: "configs_ok manager_init" by (simp add: configs_ok_def manager_init_def reset_get default_pos)
  have "configs_ok cs" using assms(1) init
    by (induction rule: rtranclp_induct) (auto intro: configs_step_ok)
  then obtain c where c: "dict_get cs t = Some c" "0 < tcf_value c" by (auto simp: configs_ok_def)
  then show ?thesis
    by (auto simp: get_remaining_time_def is_timeout_exceeded_def get_timeout_def set_timeout_def max_def)
qed

theorem timeouts_stay_positive_witness:
  "\<exists>c. dict_get (switch_timeout False SCHEDULE_TO_START manager_init) START_TO_CLOSE = Some c \<and> 0 < tcf_value c"
proof -
  have "configs_step\<^sup>*\<^sup>* manager_init (switch_timeout False SCHEDULE_TO_START manager_init)"
    by (rule r_into_rtranclp) (rule configs_step.intros)
  from timeouts_stay_positive [OF this, of 1 START_TO_CLOSE 0 True] show ?thesis by auto
qed


section \<open>Adaptive time-outs\<close>

text \<open>\<open>None\<close> as least and greatest value stands for the infinities an empty record starts from.\<close>

record running_stats =
  rs_count :: nat
  rs_mean :: rat
  rs_m2 :: rat
  rs_min :: "rat option"
  rs_max :: "rat option"

definition stats_init :: running_stats where
  "stats_init = \<lparr>rs_count = 0, rs_mean = 0, rs_m2 = 0, rs_min = None, rs_max = None\<rparr>"

definition stats_update :: "rat \<Rightarrow> running_stats \<Rightarrow> running_stats" where
  "stats_update v s =
    (let count = rs_count s + 1;
         delta = v - rs_mean s;
         mean = rs_mean s + delta / of_nat count;
         delta2 = v - mean
     in \<lparr>rs_count = count, rs_mean = mean, rs_m2 = rs_m2 s + delta * delta2,
         rs_min = Some (case rs_min s of None \<Rightarrow> v | Some x \<Rightarrow> min x v),
         rs_max = Some (case rs_max s of None \<Rightarrow> v | Some x \<Rightarrow> max x v)\<rparr>)"

text \<open>The square of the standard deviation.\<close>

definition stats_variance :: "running_stats \<Rightarrow> rat" where
  "stats_variance s = (if rs_count s < 2 then 0 else rs_m2 s / of_nat (rs_count s - 1))"

text \<open>
  What is stored: no second moment. \<open>rnd\<close> is the rounding to two decimals.
\<close>

record stats_doc =
  sd_count :: nat
  sd_mean :: rat
  sd_min :: "rat option"
  sd_max :: "rat option"

definition stats_to_dict :: "(rat \<Rightarrow> rat) \<Rightarrow> running_stats \<Rightarrow> stats_doc" where
  "stats_to_dict rnd s = \<lparr>sd_count = rs_count s, sd_mean = rnd (rs_mean s),
     sd_min = map_option rnd (rs_min s), sd_max = map_option rnd (rs_max s)\<rparr>"

definition stats_of_doc :: "stats_doc \<Rightarrow> running_stats" where
  "stats_of_doc d = \<lparr>rs_count = sd_count d, rs_mean = sd_mean d, rs_m2 = 0, rs_min = sd_min d, rs_max = sd_max d\<rparr>"

record adaptive =
  ad_namespace :: string
  ad_store :: "(string, stats_doc) dict"
  ad_cache :: "(string, running_stats) dict"

definition ad_key :: "string \<Rightarrow> string \<Rightarrow> string \<Rightarrow> string" where
  "ad_key ns st metric = ns @ '':'' @ st @ '':'' @ metric"

definition load_key :: "string \<Rightarrow> string \<times> stats_doc \<Rightarrow> (string, running_stats) dict \<Rightarrow> (string, running_stats) dict" where
  "load_key ns e c =
    (case e of (key, d) \<Rightarrow>
      if take (length ns + 1) key \<noteq> ns @ '':'' then c
      else (case py_split CHR '':'' key of
          [a, st, metric] \<Rightarrow> dict_put st (stats_of_doc d) c
        | _ \<Rightarrow> c))"

definition load_all :: "string \<Rightarrow> (string, stats_doc) dict \<Rightarrow> adaptive" where
  "load_all ns store = \<lparr>ad_namespace = ns, ad_store = store, ad_cache = fold (load_key ns) store []\<rparr>"

definition ad_record :: "(rat \<Rightarrow> rat) \<Rightarrow> string \<Rightarrow> rat \<Rightarrow> adaptive \<Rightarrow> adaptive" where
  "ad_record rnd st duration a =
    (let s0 = (case dict_get (ad_cache a) st of None \<Rightarrow> stats_init | Some s \<Rightarrow> s);
         s1 = stats_update duration s0
     in a\<lparr>ad_cache := dict_put st s1 (ad_cache a),
          ad_store := dict_put (ad_key (ad_namespace a) st ''stats'') (stats_to_dict rnd s1) (ad_store a)\<rparr>)"

definition truncate_rat :: "rat \<Rightarrow> int" where
  "truncate_rat r = (if r < 0 then - \<lfloor>- r\<rfloor> else \<lfloor>r\<rfloor>)"

definition truthy :: "int option \<Rightarrow> bool" where
  "truthy v \<longleftrightarrow> v \<notin> {None, Some 0}"

text \<open>The pair of the queue and the execution time-out.\<close>

definition ad_get_config ::
  "adaptive \<Rightarrow> string \<Rightarrow> rat \<Rightarrow> int option \<Rightarrow> int option \<Rightarrow> int option \<Rightarrow> int \<times> int"
where
  "ad_get_config a st multiplier min_timeout max_timeout s2s =
    (let queue = (if truthy s2s then the s2s else 60);
         exec = (case dict_get (ad_cache a) st of
            None \<Rightarrow> 300
          | Some s \<Rightarrow> if rs_count s \<ge> 5
              then (let t0 = truncate_rat (rs_mean s * multiplier);
                        t1 = (if truthy min_timeout then max t0 (the min_timeout) else t0)
                    in if truthy max_timeout then min t1 (the max_timeout) else t1)
              else 300)
     in (queue, exec))"

definition ad_check :: "rat \<Rightarrow> rat \<Rightarrow> int \<times> int \<Rightarrow> rat option \<Rightarrow> timeout_type option" where
  "ad_check now start cfg queue_start =
    (let waited = (case queue_start of None \<Rightarrow> None | Some q \<Rightarrow> if q = 0 then None else Some (now - q)) in
     if (case waited of None \<Rightarrow> False | Some w \<Rightarrow> w > of_int (fst cfg)) then Some SCHEDULE_TO_START
     else if now - start > of_int (snd cfg) then Some START_TO_CLOSE
     else if (case waited of None \<Rightarrow> False | Some w \<Rightarrow> w > of_int (fst cfg + snd cfg)) then Some SCHEDULE_TO_CLOSE
     else None)"

definition sum_sq :: "rat list \<Rightarrow> rat" where
  "sum_sq xs = sum_list (map (\<lambda>x. x\<^sup>2) xs)"

lemma welford_step:
  fixes mean v :: rat
  assumes n: "0 < (n' :: rat)" "n' = n + 1" and m': "mean' = mean + (v - mean) / n'"
    and m: "n * mean = S" and q: "m2 = Q - n * mean\<^sup>2"
  shows "n' * mean' = S + v" "m2 + (v - mean) * (v - mean') = (Q + v\<^sup>2) - n' * mean'\<^sup>2"
proof -
  have "n' * mean' = n' * mean + (v - mean)" using n by (simp add: m' distrib_left)
  then show s: "n' * mean' = S + v" using n m by (simp add: algebra_simps)
  have "n' * mean'\<^sup>2 = (n * mean + v) * mean'"
    using s m by (simp add: power2_eq_square mult.assoc [symmetric])
  moreover have "n * mean' = n * mean + v - mean'" using s m n by (simp add: algebra_simps)
  then have "mean * (n * mean') = mean * (n * mean + v - mean')" by simp
  ultimately show "m2 + (v - mean) * (v - mean') = (Q + v\<^sup>2) - n' * mean'\<^sup>2"
    by (simp add: q power2_eq_square algebra_simps)
qed

lemma welford_moments:
  "rs_count (fold stats_update xs stats_init) = length xs \<and>
   of_nat (length xs) * rs_mean (fold stats_update xs stats_init) = sum_list xs \<and>
   rs_m2 (fold stats_update xs stats_init) =
     sum_sq xs - of_nat (length xs) * (rs_mean (fold stats_update xs stats_init))\<^sup>2"
proof (induction xs rule: rev_induct)
  case Nil
  show ?case by (simp add: stats_init_def sum_sq_def)
next
  case (snoc v xs)
  define s where "s = fold stats_update xs stats_init"
  define t where "t = stats_update v s"
  note IH = snoc [folded s_def]
  have t: "rs_count t = length xs + 1" "rs_mean t = rs_mean s + (v - rs_mean s) / of_nat (length xs + 1)"
    "rs_m2 t = rs_m2 s + (v - rs_mean s) * (v - rs_mean t)"
    using IH by (simp_all add: t_def stats_update_def Let_def)
  have "of_nat (length xs + 1) * rs_mean t = sum_list xs + v"
    and "rs_m2 t = (sum_sq xs + v\<^sup>2) - of_nat (length xs + 1) * (rs_mean t)\<^sup>2"
    using welford_step [of "of_nat (length xs + 1)" "of_nat (length xs)" "rs_mean t" "rs_mean s" v
        "sum_list xs" "rs_m2 s" "sum_sq xs"] IH t(2,3) by auto
  then show ?case using t(1) by (simp add: sum_sq_def t_def [symmetric] s_def [symmetric])
qed

lemma sum_deviation: "sum_list (map (\<lambda>x. (x - m)\<^sup>2) xs) = sum_sq xs - 2 * m * sum_list xs + of_nat (length xs) * (m :: rat)\<^sup>2"
  by (induction xs) (simp_all add: sum_sq_def power2_eq_square algebra_simps)

lemma stats_extrema:
  "xs \<noteq> [] \<Longrightarrow> rs_min (fold stats_update xs stats_init) = Some (Min (set xs)) \<and>
    rs_max (fold stats_update xs stats_init) = Some (Max (set xs))"
proof (induction xs rule: rev_induct)
  case (snoc v xs)
  show ?case
  proof (cases "xs = []")
    case True
    then show ?thesis by (simp add: stats_update_def stats_init_def Let_def)
  next
    case False
    then show ?thesis using snoc
      by (simp add: stats_update_def Let_def Min_insert Max_insert min.commute max.commute)
  qed
qed simp

lemma stats_textbook:
  assumes "xs \<noteq> []"
  shows "rs_count (fold stats_update xs stats_init) = length xs \<and>
    rs_mean (fold stats_update xs stats_init) = sum_list xs / of_nat (length xs)"
proof -
  have "(of_nat (length xs) :: rat) > 0" using assms by simp
  then show ?thesis using welford_moments [of xs] by (simp add: field_simps)
qed

text \<open>
  C40. The one-pass statistics equal the textbook ones: after any non-empty list of durations they hold
  their number, their mean, their least and greatest value, and the sum of the squared deviations from
  the mean, so that the variance is the sample variance.
\<close>

theorem running_stats_correct:
  assumes "xs \<noteq> []"
  defines "s \<equiv> fold stats_update xs stats_init" and "m \<equiv> sum_list xs / of_nat (length xs)"
  shows "rs_count s = length xs \<and> rs_mean s = m \<and>
    rs_m2 s = sum_list (map (\<lambda>x. (x - m)\<^sup>2) xs) \<and>
    (2 \<le> length xs \<longrightarrow> stats_variance s = sum_list (map (\<lambda>x. (x - m)\<^sup>2) xs) / of_nat (length xs - 1)) \<and>
    rs_min s = Some (Min (set xs)) \<and> rs_max s = Some (Max (set xs))"
proof -
  have n: "(of_nat (length xs) :: rat) > 0" using assms(1) by simp
  note w = welford_moments [of xs, folded s_def]
  have m: "rs_mean s = m" using stats_textbook [OF assms(1)] by (simp add: m_def s_def)
  have nm: "of_nat (length xs) * m = sum_list xs" using n by (simp add: m_def)
  have "rs_m2 s = sum_list (map (\<lambda>x. (x - m)\<^sup>2) xs)"
  proof -
    have "2 * m * sum_list xs = 2 * (of_nat (length xs) * m\<^sup>2)"
      unfolding nm [symmetric] by (simp add: power2_eq_square algebra_simps)
    then show ?thesis unfolding sum_deviation using w m by simp
  qed
  then show ?thesis using w m stats_extrema [OF assms(1)] by (simp add: s_def stats_variance_def)
qed

theorem running_stats_correct_witness:
  "rs_mean (fold stats_update [2, 4, 9] stats_init) = 5 \<and> rs_m2 (fold stats_update [2, 4, 9] stats_init) = 26"
  using running_stats_correct [of "[2, 4, 9]"] by simp

lemma records_state:
  assumes "xs \<noteq> []"
  shows "fold (ad_record rnd st) xs (load_all ns []) =
    \<lparr>ad_namespace = ns, ad_store = [(ad_key ns st ''stats'', stats_to_dict rnd (fold stats_update xs stats_init))],
     ad_cache = [(st, fold stats_update xs stats_init)]\<rparr>"
  using assms
proof (induction xs rule: rev_induct)
  case (snoc v xs)
  then show ?case by (cases "xs = []") (simp_all add: ad_record_def load_all_def Let_def)
qed simp

lemma load_own_key:
  assumes "CHR '':'' \<notin> set ns" "CHR '':'' \<notin> set st"
  shows "load_all ns [(ad_key ns st ''stats'', d)] =
    \<lparr>ad_namespace = ns, ad_store = [(ad_key ns st ''stats'', d)], ad_cache = [(st, stats_of_doc d)]\<rparr>"
proof -
  have "py_split CHR '':'' (ad_key ns st ''stats'') = [ns, st, ''stats'']"
    using assms by (simp add: ad_key_def py_split_append [where c = "CHR '':''", simplified])
  then show ?thesis by (simp add: load_all_def load_key_def ad_key_def)
qed

text \<open>
  The adaptive time-out and a restart. After \<open>n\<close> recorded durations of a stage the execution time-out
  is 300 seconds while \<open>n\<close> is below five, and from then on the mean times the multiplier cut to a whole
  number, raised to the given minimum and then lowered to the given maximum. A manager that loads
  what was stored has the count and the rounded mean, but a spread of zero whatever the durations
  were: the second moment is not stored.
\<close>

theorem adaptive_timeout_and_restart:
  fixes rnd :: "rat \<Rightarrow> rat" and st ns :: string
  assumes xs: "xs \<noteq> []" and free: "CHR '':'' \<notin> set ns" "CHR '':'' \<notin> set st"
  defines "a \<equiv> fold (ad_record rnd st) xs (load_all ns [])"
    and "m \<equiv> sum_list xs / of_nat (length xs)"
  shows "(length xs < 5 \<longrightarrow> snd (ad_get_config a st k lo hi q) = 300) \<and>
    (5 \<le> length xs \<and> truthy lo \<and> truthy hi \<longrightarrow>
      snd (ad_get_config a st k lo hi q) = min (max (truncate_rat (m * k)) (the lo)) (the hi)) \<and>
    (\<exists>s. dict_get (ad_cache (load_all ns (ad_store a))) st = Some s \<and> rs_count s = length xs \<and>
      rs_mean s = rnd m \<and> stats_variance s = 0)"
proof -
  let ?s = "fold stats_update xs stats_init"
  note c = stats_textbook [OF xs, folded m_def]
  have a: "ad_cache a = [(st, ?s)]" "ad_store a = [(ad_key ns st ''stats'', stats_to_dict rnd ?s)]"
    using records_state [OF xs, of rnd st ns] by (simp_all add: a_def)
  show ?thesis using c
    by (simp add: a ad_get_config_def Let_def load_own_key [OF free] stats_of_doc_def stats_to_dict_def
        stats_variance_def)
qed

theorem adaptive_timeout_and_restart_witness:
  "snd (ad_get_config (fold (ad_record (\<lambda>r. r) ''load'') [2, 4, 9, 4, 6] (load_all ''timeout'' [])) ''load'' 3
     (Some 10) (Some 60) None) = 15"
proof -
  have t: "truncate_rat 15 = 15" by (simp add: truncate_rat_def)
  show ?thesis
    using adaptive_timeout_and_restart [where rnd = "\<lambda>r. r", of "[2, 4, 9, 4, 6]" "''timeout''" "''load''" 3 "Some 10" "Some 60" None]
    by (simp add: truthy_def t)
qed

end
