(* ===== verification/PriorityQueues.thy ===== *)
theory PriorityQueues
  imports Prelude "HOL-Library.List_Lexorder" "HOL-Library.Char_ord" "HOL-Library.Product_Lexorder"
begin

text \<open>
  The priority queues of \<open>libs/queue/priority\<close>: the message contract every back end is meant to
  keep, the heap-based queue of \<open>memory.py\<close>, the disk-backed one of \<open>diskcache.py\<close> over an
  external ordered index, the sort order of its keys, and which back ends the factory can build.
  Times are clock readings in microseconds; message ids (\<open>uuid4\<close>) are arguments.
\<close>


section \<open>The contract\<close>

text \<open>
  What a client of a queue relies on: a message pushed is held, waiting or in flight, until it
  is acknowledged. \<open>'e\<close> is what the environment contributes to an operation (clock, fresh id).
\<close>

datatype ('e, 'a) queue_op = Push 'e 'a | Pop 'e | Ack string

fun pushed :: "('e, 'a) queue_op list \<Rightarrow> 'a multiset" where
  "pushed [] = {#}"
| "pushed (Push e a # ops) = add_mset a (pushed ops)"
| "pushed (Pop e # ops) = pushed ops"
| "pushed (Ack i # ops) = pushed ops"

locale message_queue =
  fixes inv :: "'s \<Rightarrow> bool"
    and env_ok :: "'e \<Rightarrow> 's \<Rightarrow> bool"
    and held :: "'s \<Rightarrow> 'a multiset"
    and in_flight :: "'s \<Rightarrow> string \<Rightarrow> 'a option"
    and push :: "'e \<Rightarrow> 'a \<Rightarrow> 's \<Rightarrow> 's"
    and pop :: "'e \<Rightarrow> 's \<Rightarrow> (string \<times> 'a) option \<times> 's"
    and ack :: "string \<Rightarrow> 's \<Rightarrow> 's"
  assumes inv_push: "inv s \<Longrightarrow> env_ok e s \<Longrightarrow> inv (push e a s)"
    and inv_pop: "inv s \<Longrightarrow> env_ok e s \<Longrightarrow> inv (snd (pop e s))"
    and inv_ack: "inv s \<Longrightarrow> inv (ack i s)"
    and held_push: "inv s \<Longrightarrow> env_ok e s \<Longrightarrow> held (push e a s) = add_mset a (held s)"
    and held_pop: "inv s \<Longrightarrow> env_ok e s \<Longrightarrow> held (snd (pop e s)) = held s"
    and pop_delivers: "inv s \<Longrightarrow> env_ok e s \<Longrightarrow> fst (pop e s) = Some (i, a) \<Longrightarrow>
      in_flight (snd (pop e s)) i = Some a"
    and held_ack: "inv s \<Longrightarrow> held s = held (ack i s) + (case in_flight s i of None \<Rightarrow> {#} | Some a \<Rightarrow> {#a#})"
begin

fun run :: "('e, 'a) queue_op list \<Rightarrow> 's \<Rightarrow> 's" where
  "run [] s = s"
| "run (Push e a # ops) s = run ops (push e a s)"
| "run (Pop e # ops) s = run ops (snd (pop e s))"
| "run (Ack i # ops) s = run ops (ack i s)"

fun run_ok :: "('e, 'a) queue_op list \<Rightarrow> 's \<Rightarrow> bool" where
  "run_ok [] s = True"
| "run_ok (Push e a # ops) s = (env_ok e s \<and> run_ok ops (push e a s))"
| "run_ok (Pop e # ops) s = (env_ok e s \<and> run_ok ops (snd (pop e s)))"
| "run_ok (Ack i # ops) s = run_ok ops (ack i s)"

fun acked :: "('e, 'a) queue_op list \<Rightarrow> 's \<Rightarrow> 'a multiset" where
  "acked [] s = {#}"
| "acked (Push e a # ops) s = acked ops (push e a s)"
| "acked (Pop e # ops) s = acked ops (snd (pop e s))"
| "acked (Ack i # ops) s =
     (case in_flight s i of None \<Rightarrow> {#} | Some a \<Rightarrow> {#a#}) + acked ops (ack i s)"

lemma run_inv: "inv s \<Longrightarrow> run_ok ops s \<Longrightarrow> inv (run ops s)"
  by (induction ops s rule: run.induct) (auto simp: inv_push inv_pop inv_ack)

lemma run_accounts:
  "inv s \<Longrightarrow> run_ok ops s \<Longrightarrow> held (run ops s) + acked ops s = held s + pushed ops"
proof (induction ops s rule: run.induct)
  case (4 i ops s)
  then have IH: "held (run ops (ack i s)) + acked ops (ack i s) = held (ack i s) + pushed ops"
    by (simp add: inv_ack)
  show ?case using held_ack [OF \<open>inv s\<close>, of i] IH by (simp add: ac_simps)
qed (simp_all add: inv_push inv_pop held_push held_pop)

lemma unacked_still_held:
  "inv s \<Longrightarrow> run_ok ops s \<Longrightarrow> a \<in># held s + pushed ops \<Longrightarrow> a \<notin># acked ops s \<Longrightarrow> a \<in># held (run ops s)"
  by (metis run_accounts union_iff)

end


section \<open>The in-memory queue\<close>

text \<open>
  A heap entry is \<open>(priority, time, counter, msg_id, data, metadata)\<close>. Entries are compared as
  tuples; the counter is unique, so the first three decide. The heap is kept as the sorted
  list of its entries: \<open>heappush\<close> inserts, \<open>heappop\<close> takes the least.
\<close>

type_synonym ('a, 'md) heap_entry = "int \<times> nat \<times> nat \<times> string \<times> 'a \<times> 'md"

fun hkey :: "('a, 'md) heap_entry \<Rightarrow> int \<times> nat \<times> nat" where
  "hkey (p, t, c, i, a, md) = (p, t, c)"

fun hid :: "('a, 'md) heap_entry \<Rightarrow> string" where
  "hid (p, t, c, i, a, md) = i"

fun hdata :: "('a, 'md) heap_entry \<Rightarrow> 'a" where
  "hdata (p, t, c, i, a, md) = a"

record ('a, 'md) mem_queue =
  mq_queue :: "('a, 'md) heap_entry list"
  mq_processing :: "(string, 'a \<times> nat) dict"
  mq_counter :: nat

definition mem_queue_init :: "('a, 'md) mem_queue" where
  "mem_queue_init = \<lparr>mq_queue = [], mq_processing = [], mq_counter = 0\<rparr>"

definition heappush :: "('a, 'md) heap_entry \<Rightarrow> ('a, 'md) heap_entry list \<Rightarrow> ('a, 'md) heap_entry list" where
  "heappush e q = insort_key hkey e q"

definition mem_push :: "nat \<Rightarrow> string \<Rightarrow> int \<Rightarrow> 'md \<Rightarrow> 'a \<Rightarrow> ('a, 'md) mem_queue \<Rightarrow> ('a, 'md) mem_queue" where
  "mem_push now uid prio md a q =
     q\<lparr>mq_queue := heappush (prio, now, mq_counter q, uid, a, md) (mq_queue q),
       mq_counter := mq_counter q + 1\<rparr>"

text \<open>One turn of the zombie loop, for an entry of the snapshot of the in-flight table.\<close>

definition mem_recover_one ::
  "nat \<Rightarrow> 'md \<Rightarrow> string \<times> 'a \<times> nat \<Rightarrow> ('a, 'md) mem_queue \<Rightarrow> ('a, 'md) mem_queue"
where
  "mem_recover_one now empty_md e q =
    (case e of (i, a, timeout) \<Rightarrow>
      if now > timeout
      then q\<lparr>mq_processing := dict_del i (mq_processing q),
             mq_queue := heappush (100, now, mq_counter q, i, a, empty_md) (mq_queue q),
             mq_counter := mq_counter q + 1\<rparr>
      else q)"

definition mem_recover :: "nat \<Rightarrow> 'md \<Rightarrow> ('a, 'md) mem_queue \<Rightarrow> ('a, 'md) mem_queue" where
  "mem_recover now empty_md q = fold (mem_recover_one now empty_md) (mq_processing q) q"

text \<open>\<open>pop\<close>: an empty heap returns before the zombie loop.\<close>

definition queue_pop ::
  "nat \<Rightarrow> nat \<Rightarrow> 'md \<Rightarrow> ('a, 'md) mem_queue \<Rightarrow> (string \<times> 'a \<times> 'md) option \<times> ('a, 'md) mem_queue"
where
  "queue_pop now visibility empty_md q =
    (if mq_queue q = [] then (None, q)
     else (let q1 = mem_recover now empty_md q in
       case mq_queue q1 of
         [] \<Rightarrow> (None, q1)
       | (p, t, c, i, a, md) # rest \<Rightarrow>
          (Some (i, a, md),
           q1\<lparr>mq_queue := rest,
              mq_processing := dict_put i (a, now + visibility) (mq_processing q1)\<rparr>)))"

definition mem_ack :: "string \<Rightarrow> ('a, 'md) mem_queue \<Rightarrow> ('a, 'md) mem_queue" where
  "mem_ack i q = q\<lparr>mq_processing := dict_del i (mq_processing q)\<rparr>"

definition queue_size :: "('a, 'md) mem_queue \<Rightarrow> nat" where
  "queue_size q = length (mq_queue q) + length (mq_processing q)"

definition queue_items :: "('a, 'md) mem_queue \<Rightarrow> 'a multiset" where
  "queue_items q = mset (map hdata (mq_queue q))"

definition mem_shutdown :: "('a, 'md) mem_queue \<Rightarrow> ('a, 'md) mem_queue" where
  "mem_shutdown q = q\<lparr>mq_queue := [], mq_processing := []\<rparr>"

definition mem_held :: "('a, 'md) mem_queue \<Rightarrow> 'a multiset" where
  "mem_held q = mset (map hdata (mq_queue q)) + mset (map (fst \<circ> snd) (mq_processing q))"

text \<open>Heap order, counters below the next one, and one place per message id.\<close>

definition mem_queue_ok :: "('a, 'md) mem_queue \<Rightarrow> bool" where
  "mem_queue_ok q \<longleftrightarrow> sorted (map hkey (mq_queue q)) \<and>
     distinct (map hid (mq_queue q) @ map fst (mq_processing q))"

definition fresh_id :: "string \<Rightarrow> ('a, 'md) mem_queue \<Rightarrow> bool" where
  "fresh_id i q \<longleftrightarrow> i \<notin> hid ` set (mq_queue q) \<union> fst ` set (mq_processing q)"

lemma set_heappush [simp]: "set (heappush e q) = insert e (set q)"
  by (simp add: heappush_def set_insort_key)

lemma mset_heappush [simp]: "mset (heappush e q) = add_mset e (mset q)"
  by (simp add: heappush_def)

lemma heappush_not_Nil [simp]: "heappush e q \<noteq> []"
  by (metis insert_not_empty set_empty set_heappush)

lemma sorted_heappush [simp]: "sorted (map hkey (heappush e q)) = sorted (map hkey q)"
  by (simp add: heappush_def sorted_insort_key)

lemma distinct_heappush [simp]:
  "distinct (map hid (heappush e q)) = (hid e \<notin> hid ` set q \<and> distinct (map hid q))"
proof -
  have "mset (map hid (heappush e q)) = mset (map hid (e # q))" by simp
  then have "distinct (map hid (heappush e q)) = distinct (map hid (e # q))"
    by (rule mset_eq_imp_distinct_iff)
  then show ?thesis by simp
qed

lemma recover_one_ok:
  assumes "mem_queue_ok q" "dict_get (mq_processing q) i = Some (a, t)"
  shows "mem_queue_ok (mem_recover_one now md (i, a, t) q)"
    and "mem_held (mem_recover_one now md (i, a, t) q) = mem_held q"
proof -
  have i: "i \<in> fst ` set (mq_processing q)" using assms(2) by (force dest: map_of_SomeD)
  show "mem_queue_ok (mem_recover_one now md (i, a, t) q)"
    using assms i unfolding mem_queue_ok_def mem_recover_one_def
    by (auto simp: dict_keys_del)
  have "dict_ok (mq_processing q)" using assms(1) by (simp add: mem_queue_ok_def)
  then show "mem_held (mem_recover_one now md (i, a, t) q) = mem_held q"
    using mset_dict_del [OF _ assms(2), of "fst \<circ> snd"] by (simp add: mem_recover_one_def mem_held_def)
qed

lemma recover_fold:
  assumes "mem_queue_ok q" "distinct (map fst es)"
    and "\<forall>e\<in>set es. dict_get (mq_processing q) (fst e) = Some (snd e)"
  shows "mem_queue_ok (fold (mem_recover_one now md) es q) \<and>
    mem_held (fold (mem_recover_one now md) es q) = mem_held q"
  using assms
proof (induction es arbitrary: q)
  case (Cons e es)
  obtain i a t where e [simp]: "e = (i, a, t)" by (cases e) auto
  have g: "dict_get (mq_processing q) i = Some (a, t)" using Cons.prems(3) by simp
  note step = recover_one_ok [OF Cons.prems(1) g, of now md]
  have "\<forall>e\<in>set es. dict_get (mq_processing (mem_recover_one now md (i, a, t) q)) (fst e) = Some (snd e)"
    using Cons.prems(2,3) by (auto simp: mem_recover_one_def dict_simps)
  with Cons.IH [OF step(1)] Cons.prems(2) step(2) show ?case by simp
qed simp

lemma mem_recover_ok:
  assumes "mem_queue_ok q"
  shows "mem_queue_ok (mem_recover now md q)" "mem_held (mem_recover now md q) = mem_held q"
proof -
  have d: "distinct (map fst (mq_processing q))" using assms by (simp add: mem_queue_ok_def)
  have "\<forall>e\<in>set (mq_processing q). dict_get (mq_processing q) (fst e) = Some (snd e)"
    using d by auto
  from recover_fold [OF assms d this]
  show "mem_queue_ok (mem_recover now md q)" "mem_held (mem_recover now md q) = mem_held q"
    by (simp_all add: mem_recover_def)
qed

lemma queue_pop_cases:
  assumes "mem_queue_ok q"
  obtains "fst (queue_pop now vis md0 q) = None" "mem_queue_ok (snd (queue_pop now vis md0 q))"
      "mem_held (snd (queue_pop now vis md0 q)) = mem_held q"
  | i a md where "fst (queue_pop now vis md0 q) = Some (i, a, md)"
      "mem_queue_ok (snd (queue_pop now vis md0 q))"
      "mem_held (snd (queue_pop now vis md0 q)) = mem_held q"
      "dict_get (mq_processing (snd (queue_pop now vis md0 q))) i = Some (a, now + vis)"
proof (cases "mq_queue q = []")
  case True
  then show ?thesis using assms by (intro that(1)) (simp_all add: queue_pop_def)
next
  case False
  define q1 where "q1 = mem_recover now md0 q"
  note q1 = mem_recover_ok [OF assms, of now md0, folded q1_def]
  show ?thesis
  proof (cases "mq_queue q1")
    case Nil
    then show ?thesis using False q1 by (intro that(1)) (simp_all add: queue_pop_def q1_def [symmetric])
  next
    case (Cons e rest)
    obtain p t c i a md where e: "e = (p, t, c, i, a, md)" by (cases e) auto
    have r: "queue_pop now vis md0 q = (Some (i, a, md),
        q1\<lparr>mq_queue := rest, mq_processing := dict_put i (a, now + vis) (mq_processing q1)\<rparr>)"
      using False Cons e by (simp add: queue_pop_def q1_def [symmetric])
    have new: "i \<notin> fst ` set (mq_processing q1)" using q1(1) Cons e by (auto simp: mem_queue_ok_def)
    have "mem_held (snd (queue_pop now vis md0 q)) = mem_held q"
      using mset_dict_put [OF new, of "fst \<circ> snd" "(a, now + vis)"] q1(2) Cons e
      by (simp add: r mem_held_def)
    moreover have "mem_queue_ok (snd (queue_pop now vis md0 q))"
      using q1(1) Cons e new unfolding r mem_queue_ok_def by (auto simp: dict_keys_put)
    ultimately show ?thesis by (intro that(2) [of i a md]) (simp_all add: r dict_simps)
  qed
qed

lemma recover_keeps_queue: "set (mq_queue q) \<subseteq> set (mq_queue (fold (mem_recover_one now md) es q))"
proof (induction es arbitrary: q)
  case (Cons e es)
  have "set (mq_queue q) \<subseteq> set (mq_queue (mem_recover_one now md e q))"
    by (auto simp: mem_recover_one_def split: prod.splits)
  then show ?case using Cons [of "mem_recover_one now md e q"] by simp
qed simp

text \<open>The environment of an operation: clock, fresh id, priority, visibility and metadata.\<close>

type_synonym 'md mem_env = "nat \<times> string \<times> int \<times> nat \<times> 'md"

fun env_push :: "'md mem_env \<Rightarrow> 'a \<Rightarrow> ('a, 'md) mem_queue \<Rightarrow> ('a, 'md) mem_queue" where
  "env_push (now, uid, prio, vis, md) a q = mem_push now uid prio md a q"

fun env_pop :: "'md mem_env \<Rightarrow> ('a, 'md) mem_queue \<Rightarrow> (string \<times> 'a) option \<times> ('a, 'md) mem_queue" where
  "env_pop (now, uid, prio, vis, md) q =
     map_prod (map_option (\<lambda>(i, a, m). (i, a))) id (queue_pop now vis md q)"

fun env_fresh :: "'md mem_env \<Rightarrow> ('a, 'md) mem_queue \<Rightarrow> bool" where
  "env_fresh (now, uid, prio, vis, md) q = fresh_id uid q"

definition mem_in_flight :: "('a, 'md) mem_queue \<Rightarrow> string \<Rightarrow> 'a option" where
  "mem_in_flight q i = map_option fst (dict_get (mq_processing q) i)"

lemma mem_held_ack:
  assumes "mem_queue_ok q"
  shows "mem_held q = mem_held (mem_ack i q) +
    (case mem_in_flight q i of None \<Rightarrow> {#} | Some a \<Rightarrow> {#a#})"
proof (cases "dict_get (mq_processing q) i")
  case None
  then have "dict_del i (mq_processing q) = mq_processing q"
    by (simp add: map_of_eq_None_iff delete_idem)
  then show ?thesis using None by (simp add: mem_held_def mem_ack_def mem_in_flight_def)
next
  case (Some v)
  have "dict_ok (mq_processing q)" using assms by (simp add: mem_queue_ok_def)
  then show ?thesis using mset_dict_del [OF _ Some, of "fst \<circ> snd"] Some
    by (simp add: mem_held_def mem_ack_def mem_in_flight_def)
qed

interpretation mq: message_queue mem_queue_ok env_fresh mem_held mem_in_flight env_push env_pop mem_ack
proof unfold_locales
  fix s :: "('a, 'md) mem_queue" and e :: "'md mem_env" and a i
  obtain now uid prio vis md where e: "e = (now, uid, prio, vis, md)" by (cases e) auto
  assume ok: "mem_queue_ok s"
  show "mem_queue_ok (mem_ack i s)" using ok by (auto simp: mem_queue_ok_def mem_ack_def dict_keys_del)
  show "mem_held s = mem_held (mem_ack i s) + (case mem_in_flight s i of None \<Rightarrow> {#} | Some a \<Rightarrow> {#a#})"
    by (rule mem_held_ack [OF ok])
  assume fr: "env_fresh e s"
  show "mem_queue_ok (env_push e a s)" using ok fr
    by (auto simp: e mem_queue_ok_def mem_push_def fresh_id_def)
  show "mem_held (env_push e a s) = add_mset a (mem_held s)" by (simp add: e mem_held_def mem_push_def)
  show "mem_queue_ok (snd (env_pop e s))" "mem_held (snd (env_pop e s)) = mem_held s"
    by (cases rule: queue_pop_cases [OF ok, of now vis md]; simp add: e)+
  show "mem_in_flight (snd (env_pop e s)) i = Some a" if "fst (env_pop e s) = Some (i, a)"
    using that by (cases rule: queue_pop_cases [OF ok, of now vis md]) (auto simp: e mem_in_flight_def)
qed

text \<open>
  The in-memory queue loses and duplicates nothing: over any sequence of pushes (under fresh
  ids), pops and acknowledgements, with time-outs expiring at any point, the messages waiting or
  in flight at the end and those acknowledged are together exactly those held at the start and
  those pushed.
\<close>

theorem mem_queue_accounts:
  assumes "mem_queue_ok q" "mq.run_ok ops q"
  shows "mem_held (mq.run ops q) + mq.acked ops q = mem_held q + pushed ops"
  using assms by (rule mq.run_accounts)

theorem mem_queue_accounts_witness:
  "mem_held (mq.run [Push (5, ''u1'', 7, 30, ()) (10::nat), Push (6, ''u2'', 3, 30, ()) 20,
      Pop (7, ''u3'', 0, 30, ()), Pop (90, ''u4'', 0, 30, ()), Ack ''u1''] mem_queue_init) + {#10#} = {#10, 20#}"
  using mem_queue_accounts [of mem_queue_init "[Push (5, ''u1'', 7, 30, ()) (10::nat),
      Push (6, ''u2'', 3, 30, ()) 20, Pop (7, ''u3'', 0, 30, ()), Pop (90, ''u4'', 0, 30, ()), Ack ''u1'']"]
  by (simp add: mem_queue_ok_def mem_queue_init_def mem_push_def heappush_def fresh_id_def queue_pop_def
      mem_recover_def mem_recover_one_def mem_in_flight_def mem_held_def mem_ack_def)

text \<open>
  Pop order of the in-memory queue: a non-empty heap yields an entry of least priority number,
  ties going to the earlier push, among all waiting entries and the expired ones put back with
  priority 100; the yielded message is in flight until its visibility time-out. With an empty
  heap nothing is yielded and nothing changes, even when every in-flight message has expired:
  those are only recovered once something else is pushed.
\<close>

theorem mem_pop_order:
  assumes "mem_queue_ok q"
  shows "(mq_queue q \<noteq> [] \<longrightarrow>
      (\<exists>p t c i a md. fst (queue_pop now vis md0 q) = Some (i, a, md) \<and>
        (p, t, c, i, a, md) \<in> set (mq_queue (mem_recover now md0 q)) \<and>
        (\<forall>e\<in>set (mq_queue (mem_recover now md0 q)). (p, t, c) \<le> hkey e) \<and>
        dict_get (mq_processing (snd (queue_pop now vis md0 q))) i = Some (a, now + vis))) \<and>
    (mq_queue q = [] \<longrightarrow> queue_pop now vis md0 q = (None, q))"
proof (intro conjI impI)
  assume ne: "mq_queue q \<noteq> []"
  from ne obtain e rest where q1: "mq_queue (mem_recover now md0 q) = e # rest"
    using recover_keeps_queue [of q now md0 "mq_processing q"] by (cases "mq_queue (mem_recover now md0 q)") (auto simp: mem_recover_def)
  obtain p t c i a md where e: "e = (p, t, c, i, a, md)" by (cases e) auto
  have "sorted (map hkey (e # rest))" using mem_recover_ok(1) [OF assms, of now md0] q1 by (simp add: mem_queue_ok_def)
  then have least: "\<forall>e'\<in>set (e # rest). (p, t, c) \<le> hkey e'" using e by auto
  show "\<exists>p t c i a md. fst (queue_pop now vis md0 q) = Some (i, a, md) \<and>
        (p, t, c, i, a, md) \<in> set (mq_queue (mem_recover now md0 q)) \<and>
        (\<forall>e\<in>set (mq_queue (mem_recover now md0 q)). (p, t, c) \<le> hkey e) \<and>
        dict_get (mq_processing (snd (queue_pop now vis md0 q))) i = Some (a, now + vis)"
    by (rule exI [of _ p], rule exI [of _ t], rule exI [of _ c], rule exI [of _ i], rule exI [of _ a],
        rule exI [of _ md]) (use ne q1 e least in \<open>simp add: queue_pop_def dict_simps Let_def\<close>)
qed (simp add: queue_pop_def)

theorem mem_pop_order_witness:
  "\<exists>p t c i a md. fst (queue_pop 7 30 () (mem_push 6 ''u2'' 3 () (20::nat) (mem_push 5 ''u1'' 7 () 10 mem_queue_init))) =
      Some (i, a, md) \<and> (p, t, c) \<le> (3 :: int, 6 :: nat, 1 :: nat)"
  using mem_pop_order [of "mem_push 6 ''u2'' 3 () (20::nat) (mem_push 5 ''u1'' 7 () 10 mem_queue_init)" 7 30 "()"]
  by (auto simp: mem_queue_ok_def mem_queue_init_def mem_push_def heappush_def mem_recover_def)


section \<open>Keys of the disk-backed queue\<close>

text \<open>
  \<open>f"{priority:010d}"\<close> counts the sign in the width; \<open>f"{timestamp:.6f}"\<close> of a time in
  microseconds.
\<close>

definition zero_pad :: "nat \<Rightarrow> string \<Rightarrow> string" where
  "zero_pad k s = replicate (k - length s) CHR ''0'' @ s"

definition format_priority :: "int \<Rightarrow> string" where
  "format_priority p = (if p < 0 then CHR ''-'' # zero_pad 9 (show_nat (nat (- p)))
     else zero_pad 10 (show_nat (nat p)))"

definition format_timestamp :: "nat \<Rightarrow> string" where
  "format_timestamp t = show_nat (t div 1000000) @ ''.'' @ zero_pad 6 (show_nat (t mod 1000000))"

definition QUEUE_NAMESPACE :: string where
  "QUEUE_NAMESPACE = ''task_queue''"

definition PROCESSING_NAMESPACE :: string where
  "PROCESSING_NAMESPACE = ''processing''"

definition make_queue_key :: "int \<Rightarrow> nat \<Rightarrow> string \<Rightarrow> string" where
  "make_queue_key prio ts uid =
     QUEUE_NAMESPACE @ '':'' @ format_priority prio @ '':'' @ format_timestamp ts @ '':'' @ uid"

definition make_processing_key :: "string \<Rightarrow> string" where
  "make_processing_key msg_id = PROCESSING_NAMESPACE @ '':'' @ msg_id"

definition dval :: "nat \<Rightarrow> string \<Rightarrow> nat" where
  "dval n s = foldl (\<lambda>n c. 10 * n + digit_val c) n s"

lemma dval_simps [simp]: "dval n [] = n" "dval n (c # s) = dval (10 * n + digit_val c) s"
  by (simp_all add: dval_def)

lemma dval_append: "dval n (s @ t) = dval (dval n s) t"
  by (simp add: dval_def)

lemma digit_val_le: "is_digit c \<Longrightarrow> digit_val c \<le> 9"
  by (simp add: is_digit_def digit_val_def le_diff_conv)

lemma dval_bounds:
  assumes "list_all is_digit s"
  shows "n * 10 ^ length s \<le> dval n s" "dval n s < (n + 1) * 10 ^ length s"
proof -
  have "n * 10 ^ length s \<le> dval n s \<and> dval n s < (n + 1) * 10 ^ length s"
    using assms
  proof (induction s arbitrary: n)
    case (Cons c s)
    have d: "digit_val c \<le> 9" using Cons.prems by (simp add: digit_val_le)
    have IH: "(10 * n + digit_val c) * 10 ^ length s \<le> dval (10 * n + digit_val c) s"
      "dval (10 * n + digit_val c) s < (10 * n + digit_val c + 1) * 10 ^ length s"
      using Cons by auto
    have "(10 * n + digit_val c + 1) * 10 ^ length s \<le> (10 * (n + 1)) * 10 ^ length s"
      using d by (intro mult_right_mono) auto
    moreover have "(10 * n) * 10 ^ length s \<le> (10 * n + digit_val c) * 10 ^ length s"
      by (intro mult_right_mono) auto
    ultimately have "10 * n * 10 ^ length s \<le> dval (10 * n + digit_val c) s"
      "dval (10 * n + digit_val c) s < 10 * (n + 1) * 10 ^ length s"
      using IH by linarith+
    then show ?case by (simp add: algebra_simps)
  qed simp
  then show "n * 10 ^ length s \<le> dval n s" "dval n s < (n + 1) * 10 ^ length s" by auto
qed

lemma dval_mono:
  assumes "list_all is_digit s" "list_all is_digit t" "length s = length t" "m < n"
  shows "dval m s < dval n t"
proof -
  have "dval m s < (m + 1) * 10 ^ length s" by (rule dval_bounds(2) [OF assms(1)])
  also have "\<dots> \<le> n * 10 ^ length t" using assms(3,4) by (intro mult_mono) auto
  also have "\<dots> \<le> dval n t" by (rule dval_bounds(1) [OF assms(2)])
  finally show ?thesis .
qed

lemma digit_less_iff:
  "is_digit c \<Longrightarrow> is_digit d \<Longrightarrow> c < d \<longleftrightarrow> digit_val c < digit_val d"
  by (auto simp: is_digit_def digit_val_def less_char_def)

lemma digit_eq_iff: "is_digit c \<Longrightarrow> is_digit d \<Longrightarrow> digit_val c = digit_val d \<longleftrightarrow> c = d"
  by (metis digit_less_iff linorder_neq_iff)

text \<open>Digit strings of one length compare as the numbers they denote, then the rest decides.\<close>

lemma digits_less_iff:
  assumes "list_all is_digit s" "list_all is_digit t" "length s = length t"
  shows "s @ x < t @ y \<longleftrightarrow> dval n s < dval n t \<or> dval n s = dval n t \<and> x < y"
  using assms
proof (induction s t arbitrary: n rule: list_induct2')
  case (4 c s d t)
  have c: "is_digit c" "is_digit d" using 4 by auto
  have rest: "list_all is_digit s" "list_all is_digit t" "length s = length t" using 4 by auto
  consider (lt) "c < d" | (eq) "c = d" | (gt) "d < c" by (rule linorder_cases)
  then show ?case
  proof cases
    case lt
    then have "dval (10 * n + digit_val c) s < dval (10 * n + digit_val d) t"
      using c digit_less_iff by (intro dval_mono rest) auto
    then show ?thesis using lt by simp
  next
    case eq
    then show ?thesis using "4.IH" [OF rest] by simp
  next
    case gt
    then have "dval (10 * n + digit_val d) t < dval (10 * n + digit_val c) s"
      using c digit_less_iff rest by (intro dval_mono) auto
    then show ?thesis using gt by auto
  qed
qed auto

lemma show_nat_length: "n < 10 ^ k \<Longrightarrow> 0 < k \<Longrightarrow> length (show_nat n) \<le> k"
proof (induction n arbitrary: k rule: show_nat.induct)
  case (1 n)
  show ?case
  proof (cases "n < 10")
    case True
    then show ?thesis using "1.prems"(2) by (subst show_nat.simps) simp
  next
    case False
    then have k: "1 < k" using "1.prems" by (cases k; cases "k - 1") auto
    have "n div 10 < 10 ^ (k - 1)" using "1.prems" k
      by (cases k) (auto simp: less_mult_imp_div_less mult.commute)
    then have "length (show_nat (n div 10)) \<le> k - 1" using "1.IH" False k by simp
    then show ?thesis using False k by (subst show_nat.simps) simp
  qed
qed

lemma zero_pad_digits [simp]: "list_all is_digit s \<Longrightarrow> list_all is_digit (zero_pad k s)"
  by (auto simp: zero_pad_def list_all_iff is_digit_def)

lemma zero_pad_length [simp]: "length s \<le> k \<Longrightarrow> length (zero_pad k s) = k"
  by (simp add: zero_pad_def)

lemma dval_zero_pad [simp]: "dval 0 (zero_pad k s) = dval 0 s"
proof -
  have "dval 0 (replicate m CHR ''0'' @ s) = dval 0 s" for m
    by (induction m) (simp_all add: digit_val_def)
  then show ?thesis by (simp add: zero_pad_def)
qed

lemma dval_show [simp]: "dval 0 (show_nat n) = n"
  by (simp add: dval_def show_nat_value)

lemma same_prefix_less: "(p @ x < p @ y) = (x < (y :: string))"
  by (induction p) auto

lemma sep_less: "(c # x < c # y) = (x < (y :: string))"
  by simp

lemma micros_order:
  fixes t u :: nat
  shows "t div 1000000 < u div 1000000 \<or> t div 1000000 = u div 1000000 \<and>
    (t mod 1000000 < u mod 1000000 \<or> t mod 1000000 = u mod 1000000 \<and> P) \<longleftrightarrow> t < u \<or> t = u \<and> P"
proof -
  define m :: nat where "m = 1000000"
  have m: "0 < m" by (simp add: m_def)
  have eq: "n = m * (n div m) + n mod m" "n mod m < m" for n using m by simp_all
  have lt: "t < u" if "t div m < u div m"
  proof -
    have "m * (t div m) + m \<le> m * (u div m)" using that
      by (metis Suc_leI mult_Suc_right mult_le_mono2 add.commute)
    then show ?thesis using eq [of t] eq [of u] by linarith
  qed
  have gt: "u < t" if "u div m < t div m"
  proof -
    have "m * (u div m) + m \<le> m * (t div m)" using that
      by (metis Suc_leI mult_Suc_right mult_le_mono2 add.commute)
    then show ?thesis using eq [of t] eq [of u] by linarith
  qed
  have same: "(t < u \<longleftrightarrow> t mod m < u mod m) \<and> (t = u \<longleftrightarrow> t mod m = u mod m)" if "t div m = u div m"
  proof -
    have "t = m * (u div m) + t mod m" "u = m * (u div m) + u mod m"
      using that eq(1) [of t] eq(1) [of u] by simp_all
    then show ?thesis by linarith
  qed
  show ?thesis unfolding m_def [symmetric]
    using lt gt same by (metis linorder_neq_iff order_less_asym)
qed

lemma timestamp_order:
  assumes "10 ^ 15 \<le> t" "t < 10 ^ 16" "10 ^ 15 \<le> u" "u < 10 ^ 16"
  shows "format_timestamp t @ '':'' @ x < format_timestamp u @ '':'' @ y \<longleftrightarrow> t < u \<or> t = u \<and> x < y"
proof -
  have len: "length (show_nat (n div 1000000)) = 10" if "10 ^ 15 \<le> n" "n < 10 ^ 16" for n :: nat
  proof (rule antisym)
    show "length (show_nat (n div 1000000)) \<le> 10" using that by (intro show_nat_length) auto
    show "10 \<le> length (show_nat (n div 1000000))"
    proof (rule ccontr)
      assume "\<not> 10 \<le> length (show_nat (n div 1000000))"
      then have l: "length (show_nat (n div 1000000)) \<le> 9" by simp
      have "n div 1000000 < 10 ^ length (show_nat (n div 1000000))"
        using dval_bounds(2) [OF show_nat_digits, of 0 "n div 1000000"] by simp
      also have "\<dots> \<le> 10 ^ 9" using l by (intro power_increasing) auto
      finally show False using that(1) by simp
    qed
  qed
  have pad: "list_all is_digit (zero_pad 6 (show_nat (n mod 1000000)))"
    "length (zero_pad 6 (show_nat (n mod 1000000))) = 6" for n :: nat
    by (simp_all add: show_nat_digits show_nat_length)
  have "format_timestamp t @ '':'' @ x < format_timestamp u @ '':'' @ y \<longleftrightarrow>
      t div 1000000 < u div 1000000 \<or> t div 1000000 = u div 1000000 \<and>
      (t mod 1000000 < u mod 1000000 \<or> t mod 1000000 = u mod 1000000 \<and> x < y)"
    unfolding format_timestamp_def append_assoc
    by (subst digits_less_iff [where n = 0])
      (simp_all add: show_nat_digits len [OF assms(1,2)] len [OF assms(3,4)] digits_less_iff [where n = 0] pad)
  also have "\<dots> \<longleftrightarrow> t < u \<or> t = u \<and> x < y"
    by (rule micros_order)
  finally show ?thesis .
qed

text \<open>
  Key order is delivery order: for priorities of at most ten digits and clock readings with ten
  digits of seconds, the string order of two queue keys is priority first, then time, then id. A
  negative priority breaks it: the more negative of two sorts later.
\<close>

theorem queue_key_order:
  assumes "0 \<le> p" "p < 10 ^ 10" "0 \<le> q" "q < 10 ^ 10"
    and "10 ^ 15 \<le> t" "t < 10 ^ 16" "10 ^ 15 \<le> u" "u < 10 ^ 16"
  shows "(make_queue_key p t i < make_queue_key q u j \<longleftrightarrow> (p, t, i) < (q, u, j)) \<and>
    make_queue_key (- 1) t i < make_queue_key (- 2) u j"
proof (rule conjI)
  have pad: "list_all is_digit (zero_pad 10 (show_nat (nat r)))"
    "length (zero_pad 10 (show_nat (nat r))) = 10" if "r < 10 ^ 10" for r :: int
  proof -
    have "nat r < 10 ^ 10" using that by simp
    then show "list_all is_digit (zero_pad 10 (show_nat (nat r)))"
      "length (zero_pad 10 (show_nat (nat r))) = 10"
      by (simp_all add: show_nat_digits show_nat_length)
  qed
  have "make_queue_key p t i < make_queue_key q u j \<longleftrightarrow>
      nat p < nat q \<or> nat p = nat q \<and> (t < u \<or> t = u \<and> i < j)"
    unfolding make_queue_key_def same_prefix_less
    using assms timestamp_order [OF assms(5-8), of i j]
    by (simp add: format_priority_def digits_less_iff [where n = 0] pad)
  then show "make_queue_key p t i < make_queue_key q u j \<longleftrightarrow> (p, t, i) < (q, u, j)"
    using assms by (auto simp: less_prod_def)
  have "format_priority (- 1) = ''-000000001''" "format_priority (- 2) = ''-000000002''"
    by code_simp+
  then show "make_queue_key (- 1) t i < make_queue_key (- 2) u j"
    by (simp add: make_queue_key_def same_prefix_less less_char_def)
qed

theorem queue_key_order_witness:
  "make_queue_key 75 1700000000000001 ''b'' < make_queue_key 195 1600000000000000 ''a''"
  using queue_key_order [of 75 195 1700000000000001 1600000000000000 "''b''" "''a''"] by simp


section \<open>The factory\<close>

text \<open>
  A class that inherits abstract methods and leaves some out cannot be instantiated: the call
  raises. The method names are those the base class and the back ends declare.
\<close>

datatype queue_type = QT_Diskcache | QT_Redis | QT_Postgres | QT_Memory

definition queue_type_of :: "string \<Rightarrow> queue_type res" where
  "queue_type_of s =
    (if s = ''diskcache'' then Ok QT_Diskcache else if s = ''redis'' then Ok QT_Redis
     else if s = ''postgres'' then Ok QT_Postgres else if s = ''memory'' then Ok QT_Memory
     else Err ValueError)"

definition abstract_methods :: "string list" where
  "abstract_methods = [''push'', ''pop'', ''pop_by_key'', ''ack'', ''size'', ''cleanup'', ''shutdown'', ''items'', ''peek'']"

definition memory_methods :: "string list" where
  "memory_methods = [''push'', ''pop'', ''ack'', ''size'', ''items'', ''cleanup'', ''shutdown'']"

definition redis_methods :: "string list" where
  "redis_methods = [''push'', ''pop'', ''ack'', ''size'', ''items'', ''cleanup'', ''shutdown'']"

definition sql_methods :: "string list" where
  "sql_methods = [''push'', ''pop'', ''ack'', ''size'', ''items'', ''cleanup'', ''shutdown'', ''get_stats'']"

definition diskcache_methods :: "string list" where
  "diskcache_methods = [''push'', ''pop'', ''pop_by_key'', ''ack'', ''nack'', ''size'', ''processing_count'',
     ''cleanup'', ''shutdown'', ''peek'', ''items'']"

fun class_methods :: "queue_type \<Rightarrow> string list" where
  "class_methods QT_Diskcache = diskcache_methods"
| "class_methods QT_Redis = redis_methods"
| "class_methods QT_Postgres = sql_methods"
| "class_methods QT_Memory = memory_methods"

definition instantiate_class :: "queue_type \<Rightarrow> queue_type res" where
  "instantiate_class t =
    (if list_all (\<lambda>m. m \<in> set (class_methods t)) abstract_methods then Ok t else Err TypeError)"

definition given :: "(string, string) dict \<Rightarrow> string \<Rightarrow> bool" where
  "given kw k \<longleftrightarrow> dict_get kw k \<notin> {None, Some []}"

definition factory_create :: "(string, string) dict \<Rightarrow> queue_type res" where
  "factory_create kw =
    (if \<not> given kw ''key'' then Err ValueError
     else res_bind (queue_type_of (the (dict_get kw ''key''))) (\<lambda>t. case t of
        QT_Diskcache \<Rightarrow> if given kw ''directory'' then instantiate_class t else Err ValueError
      | QT_Redis \<Rightarrow> instantiate_class t
      | QT_Postgres \<Rightarrow> if given kw ''database_url'' then instantiate_class t else Err ValueError
      | QT_Memory \<Rightarrow> instantiate_class t))"

text \<open>\<open>get_or_create\<close>: the type argument is not passed on.\<close>

definition factory_get_or_create ::
  "(string, queue_type) dict \<Rightarrow> string \<Rightarrow> queue_type \<Rightarrow> (string, string) dict \<Rightarrow>
   queue_type res \<times> (string, queue_type) dict"
where
  "factory_get_or_create qs name t kw =
    (case dict_get qs name of
       Some q \<Rightarrow> (Ok q, qs)
     | None \<Rightarrow> (case factory_create kw of
         Err e \<Rightarrow> (Err e, qs)
       | Ok q \<Rightarrow> (Ok q, dict_put name q qs)))"

text \<open>
  Only the disk-backed queue can be built: the factory returns a queue exactly when the key is
  \<open>diskcache\<close> and a directory is given. The in-memory, Redis and SQL classes leave \<open>pop_by_key\<close> and
  \<open>peek\<close> abstract, so creating one raises; so does every request without a key, whatever queue
  type was asked for.
\<close>

theorem factory_builds_diskcache_only:
  "(factory_create kw = Ok t \<longleftrightarrow>
      t = QT_Diskcache \<and> dict_get kw ''key'' = Some ''diskcache'' \<and> given kw ''directory'') \<and>
   (dict_get kw ''key'' = Some ''memory'' \<longrightarrow> factory_create kw = Err TypeError) \<and>
   (dict_get kw ''key'' = Some ''redis'' \<longrightarrow> factory_create kw = Err TypeError) \<and>
   (dict_get kw ''key'' = None \<and> dict_get qs nm = None \<longrightarrow>
      factory_get_or_create qs nm want kw = (Err ValueError, qs))"
proof -
  have d: "instantiate_class QT_Diskcache = Ok QT_Diskcache" by code_simp
  have m: "instantiate_class QT_Memory = Err TypeError" by code_simp
  have r: "instantiate_class QT_Redis = Err TypeError" by code_simp
  have p: "instantiate_class QT_Postgres = Err TypeError" by code_simp
  show ?thesis
    by (cases "dict_get kw ''key''")
      (auto simp: factory_create_def factory_get_or_create_def queue_type_of_def given_def d m r p)
qed

theorem factory_builds_diskcache_only_witness:
  "factory_create [(''key'', ''memory'')] = Err TypeError \<and>
   factory_create [(''key'', ''diskcache''), (''directory'', ''/var/q'')] = Ok QT_Diskcache"
  using factory_builds_diskcache_only [of "[(''key'', ''memory'')]" QT_Memory "[]" "''a''" QT_Memory]
    factory_builds_diskcache_only [of "[(''key'', ''diskcache''), (''directory'', ''/var/q'')]"
      QT_Diskcache "[]" "''a''" QT_Memory]
  by (simp add: given_def)

end
