(* ===== verification/DiskQueue.thy ===== *)
theory DiskQueue
  imports PriorityQueues "HOL-Library.Sublist"
begin

text \<open>
  \<open>libs/queue/priority/diskcache.py\<close>: the priority queue over one external index. The index is a
  parameter: its commands and the laws the queue relies on are stated first, with two
  instances, one that lists its keys in insertion order and one that lists them sorted.
\<close>


section \<open>The index\<close>

record ('s, 'v) index_ops =
  ix_get :: "'s \<Rightarrow> string \<Rightarrow> 'v option"
  ix_set :: "'s \<Rightarrow> string \<Rightarrow> 'v \<Rightarrow> 's"
  ix_del :: "'s \<Rightarrow> string \<Rightarrow> 's"
  ix_keys :: "'s \<Rightarrow> string list"

locale mapping_index =
  fixes ix :: "('s, 'v) index_ops" and contents :: "'s \<Rightarrow> (string, 'v) dict"
  assumes keys_unique: "dict_ok (contents s)"
    and get_law: "ix_get ix s k = dict_get (contents s) k"
    and set_law: "mset (contents (ix_set ix s k v)) = mset (dict_put k v (contents s))"
    and del_law: "mset (contents (ix_del ix s k)) = mset (dict_del k (contents s))"
    and keys_law: "mset (ix_keys ix s) = mset (map fst (contents s))"
begin

lemma set_keys: "set (ix_keys ix s) = fst ` set (contents s)"
  using mset_eq_setD [OF keys_law [of s]] by simp

lemma distinct_keys: "distinct (ix_keys ix s)"
  using mset_eq_imp_distinct_iff [OF keys_law [of s]] keys_unique by blast

lemma set_new:
  "k \<notin> fst ` set (contents s) \<Longrightarrow> mset (contents (ix_set ix s k v)) = add_mset (k, v) (mset (contents s))"
  using mset_dict_put [of k "contents s" "\<lambda>x. x" v] by (simp add: set_law)

lemma del_known:
  "ix_get ix s k = Some v \<Longrightarrow> mset (contents s) = add_mset (k, v) (mset (contents (ix_del ix s k)))"
  using mset_dict_del [OF keys_unique, of s k v "\<lambda>x. x"] by (simp add: get_law del_law)

lemma get_in: "ix_get ix s k = Some v \<longleftrightarrow> (k, v) \<in> set (contents s)"
  using keys_unique [of s] by (auto simp: get_law)

lemma get_none: "ix_get ix s k = None \<longleftrightarrow> k \<notin> fst ` set (contents s)"
  by (simp add: get_law map_of_eq_None_iff)

lemma get_set: "ix_get ix (ix_set ix s k v) k' = (if k' = k then Some v else ix_get ix s k')"
proof -
  have d: "dict_ok (contents (ix_set ix s k v))" "dict_ok (dict_put k v (contents s))"
    using keys_unique by auto
  have "dict_get (contents (ix_set ix s k v)) = dict_get (dict_put k v (contents s))"
    using d set_law [of s k v] by (intro map_of_inject_set [THEN iffD2]) (auto dest: mset_eq_setD)
  then show ?thesis by (simp add: get_law dict_get_put)
qed

lemma get_del: "ix_get ix (ix_del ix s k) k' = (if k' = k then None else ix_get ix s k')"
proof -
  have d: "dict_ok (contents (ix_del ix s k))" "dict_ok (dict_del k (contents s))"
    using keys_unique by auto
  have "dict_get (contents (ix_del ix s k)) = dict_get (dict_del k (contents s))"
    using d del_law [of s k] by (intro map_of_inject_set [THEN iffD2]) (auto dest: mset_eq_setD)
  then show ?thesis by (simp add: get_law dict_get_del)
qed

end

text \<open>The two orders an index can list its keys in.\<close>

locale insertion_index = mapping_index +
  assumes keys_in_order: "ix_keys ix s = map fst (contents s)"
    and set_in_order: "contents (ix_set ix s k v) = dict_put k v (contents s)"
    and del_in_order: "contents (ix_del ix s k) = dict_del k (contents s)"

locale sorted_index = mapping_index +
  assumes keys_sorted: "sorted (ix_keys ix s)"

text \<open>A dictionary as an index: its raw keys, or its keys sorted.\<close>

typedef (overloaded) 'v cells = "{d :: (string, 'v) dict. dict_ok d}"
  by (rule exI [of _ "[]"]) simp

setup_lifting type_definition_cells

lift_definition cells_empty :: "'v cells" is "[]" by simp
lift_definition cells_dict :: "'v cells \<Rightarrow> (string, 'v) dict" is "\<lambda>d. d" .
lift_definition cells_set :: "'v cells \<Rightarrow> string \<Rightarrow> 'v \<Rightarrow> 'v cells" is "\<lambda>d k v. dict_put k v d"
  by (rule dict_ok_put)
lift_definition cells_del :: "'v cells \<Rightarrow> string \<Rightarrow> 'v cells" is "\<lambda>d k. dict_del k d"
  by (rule dict_ok_del)

definition insertion_ops :: "('v cells, 'v) index_ops" where
  "insertion_ops = \<lparr>ix_get = (\<lambda>s. dict_get (cells_dict s)), ix_set = cells_set, ix_del = cells_del,
     ix_keys = (\<lambda>s. map fst (cells_dict s))\<rparr>"

definition sorted_ops :: "('v cells, 'v) index_ops" where
  "sorted_ops = insertion_ops\<lparr>ix_keys := (\<lambda>s. sort (map fst (cells_dict s)))\<rparr>"

lemma cells_dict_simps [simp]:
  "cells_dict cells_empty = []"
  "cells_dict (cells_set s k v) = dict_put k v (cells_dict s)"
  "cells_dict (cells_del s k) = dict_del k (cells_dict s)"
  "dict_ok (cells_dict s)"
  by (transfer, simp)+

interpretation ins: insertion_index insertion_ops cells_dict
  by unfold_locales (simp_all add: insertion_ops_def)

interpretation srt: sorted_index sorted_ops cells_dict
  by unfold_locales (simp_all add: sorted_ops_def insertion_ops_def)


section \<open>The queue\<close>

text \<open>
  A waiting entry and an in-flight record. Both are dictionaries in the program and live in one
  index, told apart by the prefix of their key.
\<close>

record ('a, 'md) waiting_value =
  wv_data :: 'a
  wv_group :: "string option"
  wv_metadata :: 'md
  wv_enqueued_at :: nat
  wv_priority :: int

record ('a, 'md) claim_info =
  ci_data :: 'a
  ci_queue_key :: string
  ci_value :: "('a, 'md) waiting_value"
  ci_started_at :: nat
  ci_timeout :: nat
  ci_visibility :: nat

datatype ('a, 'md) cell = Waiting "('a, 'md) waiting_value" | Claimed "('a, 'md) claim_info"

record 's disk_queue =
  dk_cache :: 's
  dk_in_flight :: "string set"

type_synonym ('s, 'a, 'md) index = "('s, ('a, 'md) cell) index_ops"

definition get_queue_keys :: "('s, 'a, 'md) index \<Rightarrow> 's disk_queue \<Rightarrow> string list" where
  "get_queue_keys ix q = filter (prefix QUEUE_NAMESPACE) (ix_keys ix (dk_cache q))"

definition get_processing_keys :: "('s, 'a, 'md) index \<Rightarrow> 's disk_queue \<Rightarrow> string list" where
  "get_processing_keys ix q = filter (prefix PROCESSING_NAMESPACE) (ix_keys ix (dk_cache q))"

definition get_first_queue_key :: "('s, 'a, 'md) index \<Rightarrow> 's disk_queue \<Rightarrow> string option" where
  "get_first_queue_key ix q = find (prefix QUEUE_NAMESPACE) (ix_keys ix (dk_cache q))"

definition disk_push ::
  "('s, 'a, 'md) index \<Rightarrow> nat \<Rightarrow> string \<Rightarrow> nat \<Rightarrow> int \<Rightarrow> string option \<Rightarrow> 'md \<Rightarrow> 'a \<Rightarrow> 's disk_queue \<Rightarrow> 's disk_queue"
where
  "disk_push ix t1 uid t2 prio grp md a q =
     q\<lparr>dk_cache := ix_set ix (dk_cache q) (make_queue_key prio t1 uid)
         (Waiting \<lparr>wv_data = a, wv_group = grp, wv_metadata = md, wv_enqueued_at = t2, wv_priority = prio\<rparr>)\<rparr>"

text \<open>
  \<open>pop_by_key\<close>. Handed the key of an in-flight record it raises (the record has no priority) after
  adding to the in-flight set; the transaction undoes the change of the index.
\<close>

definition pop_by_key ::
  "('s, 'a, 'md) index \<Rightarrow> nat \<Rightarrow> nat \<Rightarrow> nat \<Rightarrow> string \<Rightarrow> string \<Rightarrow> 's disk_queue \<Rightarrow>
   (string \<times> 'a \<times> 'md) option res \<times> 's disk_queue"
where
  "pop_by_key ix visibility t1 t2 uid key q =
    (case ix_get ix (dk_cache q) key of
       None \<Rightarrow> (Ok None, q)
     | Some (Claimed info) \<Rightarrow>
         (Err KeyError, q\<lparr>dk_in_flight := insert (make_processing_key uid) (dk_in_flight q)\<rparr>)
     | Some (Waiting v) \<Rightarrow>
         (let pkey = make_processing_key uid;
              info = \<lparr>ci_data = wv_data v, ci_queue_key = key, ci_value = v, ci_started_at = t1,
                      ci_timeout = t2 + visibility, ci_visibility = visibility\<rparr>
          in (Ok (Some (uid, wv_data v, wv_metadata v)),
              \<lparr>dk_cache = ix_set ix (ix_del ix (dk_cache q) key) pkey (Claimed info),
               dk_in_flight = insert pkey (dk_in_flight q)\<rparr>)))"

text \<open>
  One turn of the zombie loop. A value without a time-out counts as expired since time zero, and one
  without a queue key is dropped.
\<close>

definition disk_recover_one :: "('s, 'a, 'md) index \<Rightarrow> nat \<Rightarrow> string \<Rightarrow> 's disk_queue \<Rightarrow> 's disk_queue" where
  "disk_recover_one ix now pkey q =
    (case ix_get ix (dk_cache q) pkey of
       None \<Rightarrow> q
     | Some (Waiting v) \<Rightarrow> if now > 0 then q\<lparr>dk_cache := ix_del ix (dk_cache q) pkey\<rparr> else q
     | Some (Claimed info) \<Rightarrow>
         if now > ci_timeout info
         then q\<lparr>dk_cache := ix_set ix (ix_del ix (dk_cache q) pkey) (ci_queue_key info)
                (Waiting (ci_value info))\<rparr>
         else q)"

definition recover_zombies :: "('s, 'a, 'md) index \<Rightarrow> nat \<Rightarrow> 's disk_queue \<Rightarrow> 's disk_queue" where
  "recover_zombies ix now q = fold (disk_recover_one ix now) (get_processing_keys ix q) q"

definition disk_queue_pop ::
  "('s, 'a, 'md) index \<Rightarrow> nat \<Rightarrow> nat \<Rightarrow> nat \<Rightarrow> nat \<Rightarrow> string \<Rightarrow> 's disk_queue \<Rightarrow>
   (string \<times> 'a \<times> 'md) option res \<times> 's disk_queue"
where
  "disk_queue_pop ix now visibility t1 t2 uid q =
    (let q1 = recover_zombies ix now q in
     case get_first_queue_key ix q1 of
       None \<Rightarrow> (Ok None, q1)
     | Some key \<Rightarrow> pop_by_key ix visibility t1 t2 uid key q1)"

text \<open>\<open>ack\<close> and \<open>nack\<close> discard the message id from a set that holds processing keys.\<close>

definition disk_ack :: "('s, 'a, 'md) index \<Rightarrow> string \<Rightarrow> 's disk_queue \<Rightarrow> 's disk_queue" where
  "disk_ack ix msg_id q =
    (let pkey = make_processing_key msg_id in
     if ix_get ix (dk_cache q) pkey \<noteq> None
     then \<lparr>dk_cache = ix_del ix (dk_cache q) pkey, dk_in_flight = dk_in_flight q - {msg_id}\<rparr>
     else q)"

definition disk_nack :: "('s, 'a, 'md) index \<Rightarrow> string \<Rightarrow> 's disk_queue \<Rightarrow> 's disk_queue" where
  "disk_nack ix msg_id q =
    (let pkey = make_processing_key msg_id in
     case ix_get ix (dk_cache q) pkey of
       None \<Rightarrow> q
     | Some (Waiting v) \<Rightarrow>
        \<lparr>dk_cache = ix_del ix (dk_cache q) pkey, dk_in_flight = dk_in_flight q - {msg_id}\<rparr>
     | Some (Claimed info) \<Rightarrow>
        \<lparr>dk_cache = ix_set ix (ix_del ix (dk_cache q) pkey) (ci_queue_key info) (Waiting (ci_value info)),
         dk_in_flight = dk_in_flight q - {msg_id}\<rparr>)"

definition disk_size :: "('s, 'a, 'md) index \<Rightarrow> 's disk_queue \<Rightarrow> nat" where
  "disk_size ix q = length (get_queue_keys ix q)"

definition disk_processing_count :: "('s, 'a, 'md) index \<Rightarrow> 's disk_queue \<Rightarrow> nat" where
  "disk_processing_count ix q = length (get_processing_keys ix q)"

definition disk_peek :: "('s, 'a, 'md) index \<Rightarrow> 's disk_queue \<Rightarrow> (string \<times> 'a \<times> 'md) option res" where
  "disk_peek ix q =
    (case get_first_queue_key ix q of
       None \<Rightarrow> Ok None
     | Some key \<Rightarrow> (case ix_get ix (dk_cache q) key of
         None \<Rightarrow> Ok None
       | Some (Waiting v) \<Rightarrow> Ok (Some (key, wv_data v, wv_metadata v))
       | Some (Claimed _) \<Rightarrow> Err KeyError))"

definition cell_data :: "('a, 'md) cell \<Rightarrow> 'a" where
  "cell_data c = (case c of Waiting v \<Rightarrow> wv_data v | Claimed info \<Rightarrow> ci_data info)"

definition disk_items :: "('s, 'a, 'md) index \<Rightarrow> 's disk_queue \<Rightarrow> (string \<times> 'a) list" where
  "disk_items ix q = List.map_filter (\<lambda>k. map_option (\<lambda>c. (k, cell_data c)) (ix_get ix (dk_cache q) k))
     (get_queue_keys ix q)"

text \<open>\<open>cleanup\<close>: seven days, whether the message was delivered or not. A missing stamp counts as 0.\<close>

definition RETENTION :: nat where
  "RETENTION = 7 * 24 * 3600 * 1000000"

definition enqueued_at :: "('a, 'md) cell \<Rightarrow> nat" where
  "enqueued_at c = (case c of Waiting v \<Rightarrow> wv_enqueued_at v | Claimed _ \<Rightarrow> 0)"

definition started_at :: "('a, 'md) cell \<Rightarrow> nat" where
  "started_at c = (case c of Waiting _ \<Rightarrow> 0 | Claimed info \<Rightarrow> ci_started_at info)"

definition expired_keys ::
  "('s, 'a, 'md) index \<Rightarrow> (('a, 'md) cell \<Rightarrow> nat) \<Rightarrow> nat \<Rightarrow> string list \<Rightarrow> 's disk_queue \<Rightarrow> string list"
where
  "expired_keys ix stamp now ks q = filter (\<lambda>k. case ix_get ix (dk_cache q) k of
      None \<Rightarrow> False | Some c \<Rightarrow> int (stamp c) < int now - int RETENTION) ks"

definition drop_keys :: "('s, 'a, 'md) index \<Rightarrow> string list \<Rightarrow> 's disk_queue \<Rightarrow> 's disk_queue" where
  "drop_keys ix ks q = q\<lparr>dk_cache := fold (\<lambda>k s. ix_del ix s k) ks (dk_cache q)\<rparr>"

definition disk_cleanup :: "('s, 'a, 'md) index \<Rightarrow> nat \<Rightarrow> 's disk_queue \<Rightarrow> 's disk_queue" where
  "disk_cleanup ix now q =
    (let q1 = drop_keys ix (expired_keys ix enqueued_at now (get_queue_keys ix q) q) q
     in drop_keys ix (expired_keys ix started_at now (get_processing_keys ix q1) q1) q1)"

text \<open>Every queue key holds a waiting entry, every other key an in-flight one, and no two entries
  have the same queue key to live under.\<close>

definition home_key :: "string \<times> ('a, 'md) cell \<Rightarrow> string" where
  "home_key e = (case e of (k, Waiting v) \<Rightarrow> k | (k, Claimed info) \<Rightarrow> ci_queue_key info)"

fun cell_ok :: "string \<times> ('a, 'md) cell \<Rightarrow> bool" where
  "cell_ok (k, Waiting v) = prefix QUEUE_NAMESPACE k"
| "cell_ok (k, Claimed info) = (prefix PROCESSING_NAMESPACE k \<and>
     prefix QUEUE_NAMESPACE (ci_queue_key info) \<and> ci_data info = wv_data (ci_value info))"

lemma prefix_apart: "prefix QUEUE_NAMESPACE k \<Longrightarrow> \<not> prefix PROCESSING_NAMESPACE k"
  by (auto simp: QUEUE_NAMESPACE_def PROCESSING_NAMESPACE_def prefix_def)

lemma prefix_made [simp]:
  "prefix QUEUE_NAMESPACE (make_queue_key p t u)"
  "prefix PROCESSING_NAMESPACE (make_processing_key i)"
  "\<not> prefix QUEUE_NAMESPACE (make_processing_key i)"
  by (auto simp: make_queue_key_def make_processing_key_def QUEUE_NAMESPACE_def
      PROCESSING_NAMESPACE_def prefix_def)


section \<open>Message accounting\<close>

definition disk_ok :: "('s \<Rightarrow> (string, ('a, 'md) cell) dict) \<Rightarrow> 's disk_queue \<Rightarrow> bool" where
  "disk_ok contents q \<longleftrightarrow> (\<forall>e\<in>set (contents (dk_cache q)). cell_ok e) \<and>
     distinct (map home_key (contents (dk_cache q)))"

definition disk_held :: "('s \<Rightarrow> (string, ('a, 'md) cell) dict) \<Rightarrow> 's disk_queue \<Rightarrow> 'a multiset" where
  "disk_held contents q = mset (map (cell_data \<circ> snd) (contents (dk_cache q)))"

definition disk_flying :: "('s, 'a, 'md) index \<Rightarrow> 's disk_queue \<Rightarrow> string \<Rightarrow> 'a option" where
  "disk_flying ix q i = map_option cell_data (ix_get ix (dk_cache q) (make_processing_key i))"

text \<open>The environment of an operation: two clock readings, a fresh id, priority, visibility, group
  and metadata.\<close>

record 'md disk_env =
  de_now :: nat
  de_later :: nat
  de_uid :: string
  de_priority :: int
  de_visibility :: nat
  de_group :: "string option"
  de_metadata :: 'md

definition disk_env_fresh ::
  "('s \<Rightarrow> (string, ('a, 'md) cell) dict) \<Rightarrow> 'md disk_env \<Rightarrow> 's disk_queue \<Rightarrow> bool"
where
  "disk_env_fresh contents e q \<longleftrightarrow>
     make_queue_key (de_priority e) (de_now e) (de_uid e) \<notin> home_key ` set (contents (dk_cache q)) \<and>
     make_processing_key (de_uid e) \<notin> fst ` set (contents (dk_cache q))"

definition env_disk_push :: "('s, 'a, 'md) index \<Rightarrow> 'md disk_env \<Rightarrow> 'a \<Rightarrow> 's disk_queue \<Rightarrow> 's disk_queue" where
  "env_disk_push ix e a q = disk_push ix (de_now e) (de_uid e) (de_later e) (de_priority e)
     (de_group e) (de_metadata e) a q"

definition env_disk_pop ::
  "('s, 'a, 'md) index \<Rightarrow> 'md disk_env \<Rightarrow> 's disk_queue \<Rightarrow> (string \<times> 'a) option \<times> 's disk_queue"
where
  "env_disk_pop ix e q =
    (case disk_queue_pop ix (de_now e) (de_visibility e) (de_now e) (de_later e) (de_uid e) q of
       (Ok (Some (i, a, md)), q') \<Rightarrow> (Some (i, a), q')
     | (_, q') \<Rightarrow> (None, q'))"

lemma disk_ok_mset:
  assumes "mset (contents (dk_cache q)) = mset es"
  shows "disk_ok contents q \<longleftrightarrow> (\<forall>e\<in>set es. cell_ok e) \<and> distinct (map home_key es)"
proof -
  have "mset (map home_key (contents (dk_cache q))) = mset (map home_key es)" using assms by simp
  then show ?thesis using mset_eq_setD [OF assms] mset_eq_imp_distinct_iff
    unfolding disk_ok_def by blast
qed

lemma disk_held_mset:
  "mset (contents (dk_cache q)) = mset es \<Longrightarrow> disk_held contents q = mset (map (cell_data \<circ> snd) es)"
  by (simp add: disk_held_def)

text \<open>Replacing one entry by another with the same home and payload changes neither.\<close>

lemma swap_entry:
  assumes ok: "disk_ok contents q" and e: "mset (contents (dk_cache q)) = add_mset e R"
    and e': "mset (contents (dk_cache q')) = add_mset e' R"
    and home: "home_key e' = home_key e" and data: "cell_data (snd e') = cell_data (snd e)" and shape: "cell_ok e'"
  shows "disk_ok contents q'" "disk_held contents q' = disk_held contents q"
proof -
  obtain es where R: "R = mset es" by (metis ex_mset)
  have q: "mset (contents (dk_cache q)) = mset (e # es)" using e R by simp
  have q': "mset (contents (dk_cache q')) = mset (e' # es)" using e' R by simp
  show "disk_ok contents q'" using ok home shape
    by (simp add: disk_ok_mset [of contents q, OF q] disk_ok_mset [of contents q', OF q'])
  show "disk_held contents q' = disk_held contents q"
    by (simp add: disk_held_mset [of contents q, OF q] disk_held_mset [of contents q', OF q'] data)
qed

lemma add_entry:
  assumes ok: "disk_ok contents q" and e': "mset (contents (dk_cache q')) = add_mset e (mset (contents (dk_cache q)))"
    and new: "home_key e \<notin> home_key ` set (contents (dk_cache q))" and shape: "cell_ok e"
  shows "disk_ok contents q'" "disk_held contents q' = add_mset (cell_data (snd e)) (disk_held contents q)"
proof -
  have q': "mset (contents (dk_cache q')) = mset (e # contents (dk_cache q))" using e' by simp
  show "disk_ok contents q'" unfolding disk_ok_mset [of contents q', OF q']
    using ok new shape by (simp add: disk_ok_def)
  show "disk_held contents q' = add_mset (cell_data (snd e)) (disk_held contents q)"
    using e' by (simp add: disk_held_def)
qed

lemma remove_entry:
  assumes ok: "disk_ok contents q" and e: "mset (contents (dk_cache q)) = add_mset e (mset (contents (dk_cache q')))"
  shows "disk_ok contents q'" "disk_held contents q = add_mset (cell_data (snd e)) (disk_held contents q')"
proof -
  have q: "mset (contents (dk_cache q)) = mset (e # contents (dk_cache q'))" using e by simp
  show "disk_ok contents q'" using ok [unfolded disk_ok_mset [of contents q, OF q]]
    by (simp add: disk_ok_def)
  show "disk_held contents q = add_mset (cell_data (snd e)) (disk_held contents q')"
    using e by (simp add: disk_held_def)
qed


text \<open>
  The laws of the index specialised to the cells of the queue, and every operation of the queue.
\<close>

locale cell_index = mapping_index ix contents
  for ix :: "('s, ('a, 'md) cell) index_ops" and contents :: "'s \<Rightarrow> (string, ('a, 'md) cell) dict"
begin

lemma claimed_at:
  assumes "disk_ok contents q" "ix_get ix (dk_cache q) pkey = Some c" "prefix PROCESSING_NAMESPACE pkey"
  obtains info where "c = Claimed info" "prefix QUEUE_NAMESPACE (ci_queue_key info)"
    "ci_data info = wv_data (ci_value info)"
proof -
  have "cell_ok (pkey, c)" using assms(1,2) by (auto simp: get_in disk_ok_def)
  then show ?thesis using that assms(3) by (cases c) (auto dest: prefix_apart)
qed

lemma waiting_at:
  assumes "disk_ok contents q" "ix_get ix (dk_cache q) key = Some c" "prefix QUEUE_NAMESPACE key"
  obtains v where "c = Waiting v"
proof -
  have "cell_ok (key, c)" using assms(1,2) by (auto simp: get_in disk_ok_def)
  then show ?thesis using that assms(3) by (cases c) (auto dest: prefix_apart)
qed

text \<open>Putting a claimed entry back under its queue key, as recovery and \<open>nack\<close> do.\<close>

lemma home_unique:
  assumes "disk_ok contents q" "x \<in> set (contents (dk_cache q))" "y \<in> set (contents (dk_cache q))"
    "home_key x = home_key y"
  shows "x = y"
  using assms by (auto simp: disk_ok_def distinct_map dest: inj_onD)

lemma put_back:
  assumes ok: "disk_ok contents q" and c: "ix_get ix (dk_cache q) pkey = Some (Claimed info)"
    and q': "dk_cache q' = ix_set ix (ix_del ix (dk_cache q) pkey) (ci_queue_key info) (Waiting (ci_value info))"
  shows "disk_ok contents q'" "disk_held contents q' = disk_held contents q"
proof -
  let ?s = "ix_del ix (dk_cache q) pkey"
  have ein: "(pkey, Claimed info) \<in> set (contents (dk_cache q))" using c by (simp add: get_in)
  then have shape: "cell_ok (pkey, Claimed info)" using ok by (auto simp: disk_ok_def)
  note del = del_known [OF c]
  have "ci_queue_key info \<notin> fst ` set (contents ?s)"
  proof
    assume "ci_queue_key info \<in> fst ` set (contents ?s)"
    then obtain c' where c': "(ci_queue_key info, c') \<in> set (contents ?s)" by auto
    then have in_q: "(ci_queue_key info, c') \<in> set (contents (dk_cache q))"
      using mset_eq_setD [of "contents (dk_cache q)" "(pkey, Claimed info) # contents ?s"] del by auto
    have "ix_get ix (dk_cache q) (ci_queue_key info) = Some c'" using in_q by (simp add: get_in)
    then obtain v where "c' = Waiting v" using shape ok by (auto elim: waiting_at)
    then have "(ci_queue_key info, c') = (pkey, Claimed info)"
      by (intro home_unique [OF ok in_q ein]) (simp add: home_key_def)
    then show False using \<open>c' = Waiting v\<close> by simp
  qed
  from set_new [OF this] have new: "mset (contents (dk_cache q')) =
      add_mset (ci_queue_key info, Waiting (ci_value info)) (mset (contents ?s))"
    by (simp add: q')
  have s: "home_key (ci_queue_key info, Waiting (ci_value info)) = home_key (pkey, Claimed info)"
    "cell_data (snd (ci_queue_key info, Waiting (ci_value info))) = cell_data (snd (pkey, Claimed info))"
    "cell_ok (ci_queue_key info, Waiting (ci_value info))"
    using shape by (auto simp: home_key_def cell_data_def)
  show "disk_ok contents q'" "disk_held contents q' = disk_held contents q"
    by (rule swap_entry [OF ok del new s])+
qed

lemma recover_cell_ok:
  assumes "disk_ok contents q" "prefix PROCESSING_NAMESPACE pkey"
  shows "disk_ok contents (disk_recover_one ix now pkey q)"
    and "disk_held contents (disk_recover_one ix now pkey q) = disk_held contents q"
proof -
  have "disk_ok contents (disk_recover_one ix now pkey q) \<and>
    disk_held contents (disk_recover_one ix now pkey q) = disk_held contents q"
  proof (cases "ix_get ix (dk_cache q) pkey")
    case (Some c)
    then obtain info where c: "c = Claimed info" by (rule claimed_at [OF assms(1) _ assms(2)])
    show ?thesis
    proof (cases "now > ci_timeout info")
      case True
      show ?thesis using True Some c
        by (intro conjI put_back [OF assms(1), of pkey info]) (simp_all add: disk_recover_one_def)
    qed (use Some c assms in \<open>simp add: disk_recover_one_def\<close>)
  qed (use assms in \<open>simp add: disk_recover_one_def\<close>)
  then show "disk_ok contents (disk_recover_one ix now pkey q)"
    "disk_held contents (disk_recover_one ix now pkey q) = disk_held contents q" by auto
qed

lemma recover_ok:
  assumes "disk_ok contents q"
  shows "disk_ok contents (recover_zombies ix now q)"
    and "disk_held contents (recover_zombies ix now q) = disk_held contents q"
proof -
  have "disk_ok contents (fold (disk_recover_one ix now) ks q) \<and>
      disk_held contents (fold (disk_recover_one ix now) ks q) = disk_held contents q"
    if "\<forall>k\<in>set ks. prefix PROCESSING_NAMESPACE k" "disk_ok contents q" for ks q
    using that by (induction ks arbitrary: q) (auto simp: recover_cell_ok)
  from this [of "get_processing_keys ix q"] assms
  show "disk_ok contents (recover_zombies ix now q)"
    "disk_held contents (recover_zombies ix now q) = disk_held contents q"
    by (auto simp: recover_zombies_def get_processing_keys_def)
qed

lemma push_ok:
  assumes "disk_ok contents q" "disk_env_fresh contents e q"
  shows "disk_ok contents (env_disk_push ix e a q)"
    and "disk_held contents (env_disk_push ix e a q) = add_mset a (disk_held contents q)"
proof -
  define k where "k = make_queue_key (de_priority e) (de_now e) (de_uid e)"
  define v where "v = \<lparr>wv_data = a, wv_group = de_group e, wv_metadata = de_metadata e,
    wv_enqueued_at = de_later e, wv_priority = de_priority e\<rparr>"
  have push: "env_disk_push ix e a q = q\<lparr>dk_cache := ix_set ix (dk_cache q) k (Waiting v)\<rparr>"
    by (simp add: env_disk_push_def disk_push_def k_def v_def)
  have new: "k \<notin> home_key ` set (contents (dk_cache q))"
    using assms(2) by (simp add: disk_env_fresh_def k_def)
  have "k \<notin> fst ` set (contents (dk_cache q))"
  proof
    assume "k \<in> fst ` set (contents (dk_cache q))"
    then obtain c where c: "(k, c) \<in> set (contents (dk_cache q))" by auto
    then have "ix_get ix (dk_cache q) k = Some c" by (simp add: get_in)
    then obtain w where "c = Waiting w" by (rule waiting_at [OF assms(1)]) (simp add: k_def)
    then have "home_key (k, c) = k" by (simp add: home_key_def)
    then show False using new c by (metis image_eqI)
  qed
  from set_new [OF this]
  have "mset (contents (dk_cache (env_disk_push ix e a q))) =
      add_mset (k, Waiting v) (mset (contents (dk_cache q)))"
    by (simp add: push)
  from add_entry [OF assms(1) this] new
  show "disk_ok contents (env_disk_push ix e a q)"
    "disk_held contents (env_disk_push ix e a q) = add_mset a (disk_held contents q)"
    by (simp_all add: home_key_def k_def cell_data_def v_def)
qed

lemma claim_ok:
  assumes ok: "disk_ok contents q" and key: "prefix QUEUE_NAMESPACE key"
    and fresh: "make_processing_key uid \<notin> fst ` set (contents (dk_cache q))"
  shows "disk_ok contents (snd (pop_by_key ix vis t1 t2 uid key q))"
    and "disk_held contents (snd (pop_by_key ix vis t1 t2 uid key q)) = disk_held contents q"
    and "fst (pop_by_key ix vis t1 t2 uid key q) = Ok (Some (i, a, md)) \<Longrightarrow>
      i = uid \<and> disk_flying ix (snd (pop_by_key ix vis t1 t2 uid key q)) i = Some a"
proof -
  have "disk_ok contents (snd (pop_by_key ix vis t1 t2 uid key q)) \<and>
    disk_held contents (snd (pop_by_key ix vis t1 t2 uid key q)) = disk_held contents q \<and>
    (fst (pop_by_key ix vis t1 t2 uid key q) = Ok (Some (i, a, md)) \<longrightarrow>
      i = uid \<and> disk_flying ix (snd (pop_by_key ix vis t1 t2 uid key q)) i = Some a)"
  proof (cases "ix_get ix (dk_cache q) key")
    case (Some c)
    then obtain v where c: "c = Waiting v" by (rule waiting_at [OF ok _ key])
    define info where "info = \<lparr>ci_data = wv_data v, ci_queue_key = key, ci_value = v, ci_started_at = t1,
       ci_timeout = t2 + vis, ci_visibility = vis\<rparr>"
    let ?p = "make_processing_key uid"
    have r: "pop_by_key ix vis t1 t2 uid key q = (Ok (Some (uid, wv_data v, wv_metadata v)),
      \<lparr>dk_cache = ix_set ix (ix_del ix (dk_cache q) key) ?p (Claimed info), dk_in_flight = insert ?p (dk_in_flight q)\<rparr>)"
      using Some c by (simp add: pop_by_key_def info_def Let_def)
    note del = del_known [OF Some [unfolded c]]
    have "?p \<notin> fst ` set (contents (ix_del ix (dk_cache q) key))"
      using fresh mset_eq_setD [of "contents (dk_cache q)" "(key, Waiting v) # contents (ix_del ix (dk_cache q) key)"] del
      by auto
    from set_new [OF this]
    have new: "mset (contents (dk_cache (snd (pop_by_key ix vis t1 t2 uid key q)))) =
        add_mset (?p, Claimed info) (mset (contents (ix_del ix (dk_cache q) key)))"
      by (simp add: r)
    have s: "home_key (?p, Claimed info) = home_key (key, Waiting v)"
      "cell_data (snd (?p, Claimed info)) = cell_data (snd (key, Waiting v))" "cell_ok (?p, Claimed info)"
      using key by (auto simp: home_key_def cell_data_def info_def)
    show ?thesis using swap_entry [OF ok del new s] unfolding r
      by (auto simp: disk_flying_def get_set cell_data_def info_def)
  qed (use ok in \<open>simp add: pop_by_key_def\<close>)
  then show "disk_ok contents (snd (pop_by_key ix vis t1 t2 uid key q))"
    "disk_held contents (snd (pop_by_key ix vis t1 t2 uid key q)) = disk_held contents q"
    "fst (pop_by_key ix vis t1 t2 uid key q) = Ok (Some (i, a, md)) \<Longrightarrow>
      i = uid \<and> disk_flying ix (snd (pop_by_key ix vis t1 t2 uid key q)) i = Some a" by auto
qed

text \<open>Recovery only moves entries to queue keys, so a fresh processing key stays fresh.\<close>

lemma recover_one_keys:
  assumes "disk_ok contents q" "prefix PROCESSING_NAMESPACE pkey"
    and "make_processing_key uid \<notin> fst ` set (contents (dk_cache q))"
  shows "make_processing_key uid \<notin> fst ` set (contents (dk_cache (disk_recover_one ix now pkey q)))"
proof (cases "ix_get ix (dk_cache q) pkey")
  case (Some c)
  then obtain info where c: "c = Claimed info" "prefix QUEUE_NAMESPACE (ci_queue_key info)"
    by (rule claimed_at [OF assms(1) _ assms(2)])
  have "ci_queue_key info \<noteq> make_processing_key uid" using c(2) by auto
  moreover have "ix_get ix (dk_cache q) (make_processing_key uid) = None" using assms(3) by (simp add: get_none)
  ultimately have "ix_get ix (dk_cache (disk_recover_one ix now pkey q)) (make_processing_key uid) = None"
    using Some c by (auto simp: disk_recover_one_def get_set get_del)
  then show ?thesis by (simp add: get_none)
qed (use assms in \<open>simp add: disk_recover_one_def\<close>)

lemma recover_keys:
  assumes "disk_ok contents q" "make_processing_key uid \<notin> fst ` set (contents (dk_cache q))"
  shows "make_processing_key uid \<notin> fst ` set (contents (dk_cache (recover_zombies ix now q)))"
proof -
  have "make_processing_key uid \<notin> fst ` set (contents (dk_cache (fold (disk_recover_one ix now) ks q)))"
    if "\<forall>k\<in>set ks. prefix PROCESSING_NAMESPACE k" "disk_ok contents q"
      "make_processing_key uid \<notin> fst ` set (contents (dk_cache q))" for ks q
    using that by (induction ks arbitrary: q) (simp_all add: recover_cell_ok recover_one_keys)
  then show ?thesis using assms by (simp add: recover_zombies_def get_processing_keys_def)
qed

end

context cell_index
begin

lemma first_key: "get_first_queue_key ix q = Some key \<Longrightarrow> prefix QUEUE_NAMESPACE key"
  by (auto simp: get_first_queue_key_def find_Some_iff)

lemma pop_ok:
  assumes "disk_ok contents q" "disk_env_fresh contents e q"
  shows "disk_ok contents (snd (env_disk_pop ix e q))"
    and "disk_held contents (snd (env_disk_pop ix e q)) = disk_held contents q"
    and "fst (env_disk_pop ix e q) = Some (i, a) \<Longrightarrow>
      disk_flying ix (snd (env_disk_pop ix e q)) i = Some a"
proof -
  define q1 where "q1 = recover_zombies ix (de_now e) q"
  have q1: "disk_ok contents q1" "disk_held contents q1 = disk_held contents q"
    "make_processing_key (de_uid e) \<notin> fst ` set (contents (dk_cache q1))"
    using recover_ok [OF assms(1), of "de_now e"] recover_keys [OF assms(1), of "de_uid e" "de_now e"] assms(2)
    by (simp_all add: q1_def disk_env_fresh_def)
  have "disk_ok contents (snd (env_disk_pop ix e q)) \<and>
    disk_held contents (snd (env_disk_pop ix e q)) = disk_held contents q \<and>
    (fst (env_disk_pop ix e q) = Some (i, a) \<longrightarrow> disk_flying ix (snd (env_disk_pop ix e q)) i = Some a)"
  proof (cases "get_first_queue_key ix q1")
    case None
    then show ?thesis using q1
      by (simp add: env_disk_pop_def disk_queue_pop_def q1_def [symmetric] Let_def)
  next
    case (Some key)
    obtain r q2 where p: "pop_by_key ix (de_visibility e) (de_now e) (de_later e) (de_uid e) key q1 = (r, q2)"
      by (cases "pop_by_key ix (de_visibility e) (de_now e) (de_later e) (de_uid e) key q1")
    note c = claim_ok [OF q1(1) first_key [OF Some] q1(3), of "de_visibility e" "de_now e" "de_later e", unfolded p]
    have "env_disk_pop ix e q = (case r of Ok (Some (i, a, md)) \<Rightarrow> (Some (i, a), q2) | _ \<Rightarrow> (None, q2))"
      using Some p by (simp add: env_disk_pop_def disk_queue_pop_def q1_def [symmetric] Let_def)
    then show ?thesis using c q1(2) by (auto split: sum.splits option.splits)
  qed
  then show "disk_ok contents (snd (env_disk_pop ix e q))"
    "disk_held contents (snd (env_disk_pop ix e q)) = disk_held contents q"
    "fst (env_disk_pop ix e q) = Some (i, a) \<Longrightarrow> disk_flying ix (snd (env_disk_pop ix e q)) i = Some a"
    by auto
qed

lemma ack_ok:
  assumes "disk_ok contents q"
  shows "disk_ok contents (disk_ack ix i q)"
    and "disk_held contents q = disk_held contents (disk_ack ix i q) +
      (case disk_flying ix q i of None \<Rightarrow> {#} | Some a \<Rightarrow> {#a#})"
proof -
  have "disk_ok contents (disk_ack ix i q) \<and> disk_held contents q = disk_held contents (disk_ack ix i q) +
      (case disk_flying ix q i of None \<Rightarrow> {#} | Some a \<Rightarrow> {#a#})"
  proof (cases "ix_get ix (dk_cache q) (make_processing_key i)")
    case None
    then show ?thesis using assms by (simp add: disk_ack_def disk_flying_def)
  next
    case (Some c)
    have "mset (contents (dk_cache q)) =
        add_mset (make_processing_key i, c) (mset (contents (dk_cache (disk_ack ix i q))))"
      using del_known [OF Some] Some by (simp add: disk_ack_def Let_def)
    from remove_entry [OF assms this] Some show ?thesis by (simp add: disk_flying_def)
  qed
  then show "disk_ok contents (disk_ack ix i q)"
    "disk_held contents q = disk_held contents (disk_ack ix i q) +
      (case disk_flying ix q i of None \<Rightarrow> {#} | Some a \<Rightarrow> {#a#})" by auto
qed

lemma nack_ok:
  assumes "disk_ok contents q"
  shows "disk_ok contents (disk_nack ix i q)" "disk_held contents (disk_nack ix i q) = disk_held contents q"
proof -
  have "disk_ok contents (disk_nack ix i q) \<and> disk_held contents (disk_nack ix i q) = disk_held contents q"
  proof (cases "ix_get ix (dk_cache q) (make_processing_key i)")
    case None
    then show ?thesis using assms by (simp add: disk_nack_def)
  next
    case (Some c)
    then obtain info where c: "c = Claimed info" by (rule claimed_at [OF assms]) simp
    show ?thesis using Some c
      by (intro conjI put_back [OF assms, of "make_processing_key i" info]) (simp_all add: disk_nack_def Let_def)
  qed
  then show "disk_ok contents (disk_nack ix i q)" "disk_held contents (disk_nack ix i q) = disk_held contents q"
    by auto
qed

end

sublocale cell_index \<subseteq> dq: message_queue "disk_ok contents" "disk_env_fresh contents"
    "disk_held contents" "disk_flying ix" "env_disk_push ix" "env_disk_pop ix" "disk_ack ix"
  by unfold_locales (simp_all add: push_ok pop_ok ack_ok)

context cell_index
begin

lemma run_conserves:
  assumes "disk_ok contents q" "dq.run_ok ops q"
  shows "disk_held contents (dq.run ops q) + dq.acked ops q = disk_held contents q + pushed ops"
  using assms by (rule dq.run_accounts)

end

interpretation dins: cell_index insertion_ops cells_dict
  by unfold_locales

interpretation dsrt: cell_index sorted_ops cells_dict
  by unfold_locales

text \<open>
  The disk-backed queue loses and duplicates nothing, over any index that behaves as a
  dictionary: over any sequence of pushes and pops (under fresh ids) and acknowledgements, with
  claims expiring at any point, the messages waiting or in flight at the end and those
  acknowledged are together exactly those held at the start and those pushed; a negative
  acknowledgement keeps every message.
\<close>

theorem disk_queue_accounts:
  fixes ix :: "('s, 'a, 'md) index"
  assumes "cell_index ix contents" "disk_ok contents q"
    and "message_queue.run_ok (disk_env_fresh contents) (env_disk_push ix) (env_disk_pop ix) (disk_ack ix) ops q"
  shows "disk_held contents (message_queue.run (env_disk_push ix) (env_disk_pop ix) (disk_ack ix) ops q) +
      message_queue.acked (disk_flying ix) (env_disk_push ix) (env_disk_pop ix) (disk_ack ix) ops q =
      disk_held contents q + pushed ops \<and>
    disk_held contents (disk_nack ix i q) = disk_held contents q"
  using cell_index.run_conserves [OF assms] cell_index.nack_ok(2) [OF assms(1,2)] by simp

definition sample_env :: "nat \<Rightarrow> string \<Rightarrow> int \<Rightarrow> unit disk_env" where
  "sample_env t uid prio = \<lparr>de_now = t, de_later = t, de_uid = uid, de_priority = prio, de_visibility = 30,
     de_group = None, de_metadata = ()\<rparr>"

definition empty_disk_queue :: "('a, 'md) cell cells disk_queue" where
  "empty_disk_queue = \<lparr>dk_cache = cells_empty, dk_in_flight = {}\<rparr>"

lemma key_kinds_apart [simp]:
  "make_processing_key i \<noteq> make_queue_key p t u" "make_queue_key p t u \<noteq> make_processing_key i"
  by (metis prefix_made)+

theorem disk_queue_accounts_witness:
  "disk_held cells_dict (dins.dq.run [Push (sample_env 5 ''u1'' 200) (10::nat),
      Pop (sample_env 7 ''u3'' 0), Ack ''u3''] empty_disk_queue) +
    dins.dq.acked [Push (sample_env 5 ''u1'' 200) (10::nat),
      Pop (sample_env 7 ''u3'' 0), Ack ''u3''] empty_disk_queue = {#10#}"
proof -
  let ?ops = "[Push (sample_env 5 ''u1'' 200) (10::nat), Pop (sample_env 7 ''u3'' 0), Ack ''u3'']"
  have ne: "make_queue_key 0 7 ''u3'' \<noteq> make_queue_key 200 5 ''u1''"
  proof
    assume "make_queue_key 0 7 ''u3'' = make_queue_key 200 5 ''u1''"
    then have "last (make_queue_key 0 7 ''u3'') = last (make_queue_key 200 5 ''u1'')" by simp
    then show False by (simp add: make_queue_key_def)
  qed
  have ok: "disk_ok cells_dict (empty_disk_queue :: (nat, unit) cell cells disk_queue)"
    by (simp add: disk_ok_def empty_disk_queue_def)
  have "dins.dq.run_ok ?ops empty_disk_queue"
    unfolding dins.dq.run_ok.simps
    using ne by (simp add: disk_env_fresh_def sample_env_def empty_disk_queue_def env_disk_push_def
        disk_push_def insertion_ops_def home_key_def)
  from disk_queue_accounts [OF dins.cell_index_axioms ok this] show ?thesis
    by (simp add: disk_held_def empty_disk_queue_def)
qed


section \<open>Order of delivery, claims and clean-up\<close>

lemma find_sorted_least:
  "sorted xs \<Longrightarrow> find P xs = Some x \<Longrightarrow> y \<in> set xs \<Longrightarrow> P y \<Longrightarrow> x \<le> y"
  by (induction xs) (auto split: if_splits)

lemma find_map_fst:
  assumes "find P (map fst es) = Some x"
  obtains xs v ys where "es = xs @ (x, v) # ys" "\<forall>e\<in>set xs. \<not> P (fst e)"
  using assms
proof (induction es arbitrary: thesis)
  case (Cons e es)
  show ?case
  proof (cases "P (fst e)")
    case True
    then show ?thesis using Cons.prems(2) by (intro Cons.prems(1) [of "[]" "snd e" es]) auto
  next
    case False
    then have "find P (map fst es) = Some x" using Cons.prems(2) by simp
    then obtain xs v ys where "es = xs @ (x, v) # ys" "\<forall>e\<in>set xs. \<not> P (fst e)"
      using Cons.IH by blast
    then show ?thesis using False by (intro Cons.prems(1) [of "e # xs" v ys]) auto
  qed
qed simp

context cell_index
begin

lemma pop_yields:
  assumes "disk_ok contents q" "fst (disk_queue_pop ix now vis t1 t2 uid q) = Ok (Some (i, a, md))"
  obtains key v where "get_first_queue_key ix (recover_zombies ix now q) = Some key"
    "(key, Waiting v) \<in> set (contents (dk_cache (recover_zombies ix now q)))"
    "i = uid" "a = wv_data v" "md = wv_metadata v"
proof (cases "get_first_queue_key ix (recover_zombies ix now q)")
  case (Some key)
  note key = first_key [OF Some]
  from assms(2) Some have r: "fst (pop_by_key ix vis t1 t2 uid key (recover_zombies ix now q)) = Ok (Some (i, a, md))"
    by (simp add: disk_queue_pop_def Let_def)
  then obtain c where c: "ix_get ix (dk_cache (recover_zombies ix now q)) key = Some c"
    by (auto simp: pop_by_key_def split: option.splits)
  then obtain v where v: "c = Waiting v" by (rule waiting_at [OF recover_ok(1) [OF assms(1)] _ key])
  have "i = uid \<and> a = wv_data v \<and> md = wv_metadata v" using r c v by (auto simp: pop_by_key_def Let_def)
  moreover have "(key, Waiting v) \<in> set (contents (dk_cache (recover_zombies ix now q)))"
    using c v by (simp add: get_in)
  ultimately show ?thesis using Some by (intro that [of key v]) auto
qed (use assms(2) in \<open>simp add: disk_queue_pop_def Let_def\<close>)

end

text \<open>
  Order of delivery: what \<open>pop\<close> yields is a message waiting after recovery, under the fresh id. If
  the index lists its keys sorted, it is the one with the least queue key. If the index lists them
  in insertion order, it is the one inserted first, whatever the priorities are: a more urgent
  message pushed later waits.
\<close>

theorem disk_pop_order:
  assumes "cell_index ix contents" "disk_ok contents q"
    and "fst (disk_queue_pop ix now vis t1 t2 uid q) = Ok (Some (i, a, md))"
  shows "\<exists>key v. (key, Waiting v) \<in> set (contents (dk_cache (recover_zombies ix now q))) \<and>
    i = uid \<and> a = wv_data v \<and> md = wv_metadata v \<and>
    (sorted_index ix contents \<longrightarrow>
      (\<forall>k\<in>set (get_queue_keys ix (recover_zombies ix now q)). key \<le> k)) \<and>
    (insertion_index ix contents \<longrightarrow>
      (\<exists>xs ys. contents (dk_cache (recover_zombies ix now q)) = xs @ (key, Waiting v) # ys \<and>
        (\<forall>e\<in>set xs. \<not> prefix QUEUE_NAMESPACE (fst e))))"
proof -
  let ?q1 = "recover_zombies ix now q"
  obtain key v where f: "get_first_queue_key ix ?q1 = Some key"
    and kv: "(key, Waiting v) \<in> set (contents (dk_cache ?q1))"
    and v: "i = uid" "a = wv_data v" "md = wv_metadata v"
    by (rule cell_index.pop_yields [OF assms])
  have srt: "\<forall>k\<in>set (get_queue_keys ix ?q1). key \<le> k" if "sorted_index ix contents"
    using find_sorted_least [OF sorted_index.keys_sorted [OF that] f [unfolded get_first_queue_key_def]]
    by (auto simp: get_queue_keys_def)
  have ord: "\<exists>xs ys. contents (dk_cache ?q1) = xs @ (key, Waiting v) # ys \<and>
      (\<forall>e\<in>set xs. \<not> prefix QUEUE_NAMESPACE (fst e))" if ins: "insertion_index ix contents"
  proof -
    have mi: "mapping_index ix contents" using ins by (simp add: insertion_index_def)
    have "find (prefix QUEUE_NAMESPACE) (map fst (contents (dk_cache ?q1))) = Some key"
      using f insertion_index.keys_in_order [OF ins] by (simp add: get_first_queue_key_def)
    then obtain xs w ys where s: "contents (dk_cache ?q1) = xs @ (key, w) # ys"
      "\<forall>e\<in>set xs. \<not> prefix QUEUE_NAMESPACE (fst e)" by (rule find_map_fst)
    have "(key, w) \<in> set (contents (dk_cache ?q1))" using s by simp
    with kv have "w = Waiting v" using mapping_index.keys_unique [OF mi]
      by (metis map_of_eq_Some_iff option.inject)
    then show ?thesis using s by blast
  qed
  show ?thesis by (rule exI [of _ key], rule exI [of _ v]) (use kv v srt ord in blast)
qed

definition two_pushed :: "(nat, unit) cell cells disk_queue" where
  "two_pushed = disk_push insertion_ops 6 ''u2'' 6 5 None () 20
     (disk_push insertion_ops 5 ''u1'' 5 200 None () 10 empty_disk_queue)"

lemma not_processing [simp]: "\<not> prefix PROCESSING_NAMESPACE (make_queue_key p t u)"
  using prefix_apart prefix_made(1) by blast

lemma two_pushed_keys: "make_queue_key 5 6 ''u2'' \<noteq> make_queue_key 200 5 ''u1''"
proof
  assume "make_queue_key 5 6 ''u2'' = make_queue_key 200 5 ''u1''"
  then have "last (make_queue_key 5 6 ''u2'') = last (make_queue_key 200 5 ''u1'')" by simp
  then show False by (simp add: make_queue_key_def)
qed

theorem disk_pop_order_witness:
  "fst (disk_queue_pop insertion_ops 7 30 7 7 ''u3'' two_pushed) = Ok (Some (''u3'', 10, ())) \<and>
   (\<exists>key v xs ys. wv_data v = 10 \<and>
     cells_dict (dk_cache (recover_zombies insertion_ops 7 two_pushed)) = xs @ (key, Waiting v) # ys \<and>
     (\<forall>e\<in>set xs. \<not> prefix QUEUE_NAMESPACE (fst e)))"
proof -
  have ok: "disk_ok cells_dict two_pushed" using two_pushed_keys
    by (auto simp: disk_ok_def two_pushed_def disk_push_def insertion_ops_def empty_disk_queue_def home_key_def)
  have pop: "fst (disk_queue_pop insertion_ops 7 30 7 7 ''u3'' two_pushed) = Ok (Some (''u3'', 10, ()))"
    using two_pushed_keys
    by (auto simp: disk_queue_pop_def recover_zombies_def get_processing_keys_def two_pushed_def disk_push_def
        insertion_ops_def empty_disk_queue_def get_first_queue_key_def pop_by_key_def Let_def)
  from disk_pop_order [OF dins.cell_index_axioms ok pop] obtain key v xs ys where
    "wv_data v = 10" "cells_dict (dk_cache (recover_zombies insertion_ops 7 two_pushed)) = xs @ (key, Waiting v) # ys"
    "\<forall>e\<in>set xs. \<not> prefix QUEUE_NAMESPACE (fst e)"
    using ins.insertion_index_axioms by metis
  with pop show ?thesis by blast
qed

context cell_index
begin

lemma drop_keys_get:
  "ix_get ix (dk_cache (drop_keys ix ks q)) k = (if k \<in> set ks then None else ix_get ix (dk_cache q) k)"
proof -
  have "ix_get ix (fold (\<lambda>k s. ix_del ix s k) ks s) k = (if k \<in> set ks then None else ix_get ix s k)" for s
    by (induction ks arbitrary: s) (auto simp: get_del)
  then show ?thesis by (simp add: drop_keys_def)
qed

lemma queue_keys_iff:
  "k \<in> set (get_queue_keys ix q) \<longleftrightarrow> prefix QUEUE_NAMESPACE k \<and> ix_get ix (dk_cache q) k \<noteq> None"
  by (auto simp: get_queue_keys_def set_keys get_none)

lemma processing_keys_iff:
  "k \<in> set (get_processing_keys ix q) \<longleftrightarrow> prefix PROCESSING_NAMESPACE k \<and> ix_get ix (dk_cache q) k \<noteq> None"
  by (auto simp: get_processing_keys_def set_keys get_none)

lemma cleanup_get:
  assumes "disk_ok contents q"
  shows "ix_get ix (dk_cache (disk_cleanup ix now q)) k =
    (case ix_get ix (dk_cache q) k of
       None \<Rightarrow> None
     | Some (Waiting v) \<Rightarrow>
         if int (wv_enqueued_at v) < int now - int RETENTION then None else Some (Waiting v)
     | Some (Claimed info) \<Rightarrow>
         if int (ci_started_at info) < int now - int RETENTION then None else Some (Claimed info))"
proof (cases "ix_get ix (dk_cache q) k")
  case None
  then show ?thesis by (simp add: disk_cleanup_def drop_keys_get Let_def)
next
  case (Some c)
  have shape: "cell_ok (k, c)" using Some assms by (auto simp: get_in disk_ok_def)
  show ?thesis
  proof (cases c)
    case (Waiting v)
    then have "prefix QUEUE_NAMESPACE k" "\<not> prefix PROCESSING_NAMESPACE k"
      using shape prefix_apart by auto
    then show ?thesis using Some Waiting
      by (simp add: disk_cleanup_def drop_keys_get Let_def expired_keys_def queue_keys_iff
          processing_keys_iff enqueued_at_def)
  next
    case (Claimed info)
    then have "prefix PROCESSING_NAMESPACE k" "\<not> prefix QUEUE_NAMESPACE k"
      using shape prefix_apart by auto
    then show ?thesis using Some Claimed
      by (simp add: disk_cleanup_def drop_keys_get Let_def expired_keys_def queue_keys_iff
          processing_keys_iff started_at_def)
  qed
qed

end

lemma release_keeps_in_flight:
  assumes "\<forall>k\<in>dk_in_flight q. prefix PROCESSING_NAMESPACE k" "\<not> prefix PROCESSING_NAMESPACE i"
  shows "dk_in_flight (disk_ack ix i q) = dk_in_flight q" "dk_in_flight (disk_nack ix i q) = dk_in_flight q"
  using assms by (auto simp: disk_ack_def disk_nack_def Let_def split: option.splits cell.splits)

text \<open>
  Clean-up and the in-memory set: \<open>cleanup\<close> deletes exactly the entries older than seven days,
  waiting messages never delivered included, and leaves every other entry as it is. The set of
  in-flight keys is only ever added to: it holds processing keys and \<open>ack\<close> and \<open>nack\<close> discard
  message ids from it.
\<close>

theorem disk_cleanup_and_leak:
  assumes "cell_index ix contents" "disk_ok contents q"
    and "\<forall>k\<in>dk_in_flight q. prefix PROCESSING_NAMESPACE k" "\<not> prefix PROCESSING_NAMESPACE i"
  shows "ix_get ix (dk_cache (disk_cleanup ix now q)) k =
    (case ix_get ix (dk_cache q) k of
       None \<Rightarrow> None
     | Some (Waiting v) \<Rightarrow>
         if int (wv_enqueued_at v) < int now - int RETENTION then None else Some (Waiting v)
     | Some (Claimed info) \<Rightarrow>
         if int (ci_started_at info) < int now - int RETENTION then None else Some (Claimed info)) \<and>
    dk_in_flight (disk_ack ix i q) = dk_in_flight q \<and> dk_in_flight (disk_nack ix i q) = dk_in_flight q"
  using cell_index.cleanup_get [OF assms(1,2)] release_keeps_in_flight [OF assms(3,4)] by blast

theorem disk_cleanup_and_leak_witness:
  "ix_get insertion_ops (dk_cache (disk_cleanup insertion_ops (RETENTION + 100) two_pushed))
     (make_queue_key 200 5 ''u1'') = None"
proof -
  have ok: "disk_ok cells_dict two_pushed" using two_pushed_keys
    by (auto simp: disk_ok_def two_pushed_def disk_push_def insertion_ops_def empty_disk_queue_def home_key_def)
  have fl: "\<forall>k\<in>dk_in_flight two_pushed. prefix PROCESSING_NAMESPACE k"
    by (simp add: two_pushed_def disk_push_def empty_disk_queue_def)
  have i: "\<not> prefix PROCESSING_NAMESPACE ''u3''" by (simp add: PROCESSING_NAMESPACE_def)
  have g: "ix_get insertion_ops (dk_cache two_pushed) (make_queue_key 200 5 ''u1'') =
      Some (Waiting \<lparr>wv_data = 10, wv_group = None, wv_metadata = (), wv_enqueued_at = 5, wv_priority = 200\<rparr>)"
    using two_pushed_keys by (simp add: two_pushed_def disk_push_def insertion_ops_def empty_disk_queue_def)
  show ?thesis
    using disk_cleanup_and_leak [OF dins.cell_index_axioms ok fl i, of "RETENTION + 100" "make_queue_key 200 5 ''u1''"]
    by (simp add: g)
qed

end
