(* ===== verification/Outcome.thy ===== *)
theory Outcome
  imports Manifest TaskCache
begin

text \<open>
  What happens after a step has run (\<open>core/orchestrator/common/task/outcome.py\<close>): the outcome
  policies, which write the manifest and return a directive, the session that checks a task in
  (\<open>session.py\<close>), and the part of the task manager that picks a policy and applies its
  directive (\<open>manager.py\<close>).
\<close>


section \<open>Directives and errors\<close>

text \<open>The remarks a policy attaches, by the template and its arguments.\<close>

datatype remark =
    RetryAttempt int
  | DiskFull rat
  | ServiceUnavailable "string option"
  | RolledBackTo string

datatype action = A_success | A_progress | A_retry | A_blocked | A_failed | A_rollback

record resolution =
  rs_status :: exec_status
  rs_action :: action
  rs_next_step_id :: "string option"
  rs_next_attempt_ts :: "rat option"
  rs_remarks :: "remark option"
  rs_blocked_by :: "string option"
  rs_rollback_stack :: "string list"
  rs_rollback_history :: "(string, string) dict"
  rs_signal :: "task_signal option"
  rs_re_enqueue :: bool
  rs_release_cache :: bool
  rs_release_dataset_lock :: bool

definition resolution_of :: "exec_status \<Rightarrow> action \<Rightarrow> resolution" where
  "resolution_of st a = \<lparr>rs_status = st, rs_action = a, rs_next_step_id = None,
     rs_next_attempt_ts = None, rs_remarks = None, rs_blocked_by = None, rs_rollback_stack = [],
     rs_rollback_history = [], rs_signal = None, rs_re_enqueue = False, rs_release_cache = False,
     rs_release_dataset_lock = False\<rparr>"

text \<open>The exception classes the policies distinguish, with the attributes they read.\<close>

datatype exc_kind =
    ERollback string
  | EOutOfDisk "rat" int
  | ETryAgain "string option" int
  | ETransient
  | EHostUnreachable
  | EClientCantConnect
  | ECircuitOpen
  | ETimeout
  | EOther

record task_exc =
  ex_kind :: exc_kind
  ex_type :: string
  ex_message :: string

fun exc_wait_seconds :: "exc_kind \<Rightarrow> int option" where
  "exc_wait_seconds (EOutOfDisk u w) = Some w"
| "exc_wait_seconds (ETryAgain s w) = Some w"
| "exc_wait_seconds _ = None"

text \<open>\<open>getattr(exc, 'service_name', 'UNKNOWN_SERVICE')\<close>: a present attribute may be \<open>None\<close>.\<close>

fun exc_service_name :: "exc_kind \<Rightarrow> string option" where
  "exc_service_name (ETryAgain s w) = s"
| "exc_service_name (EOutOfDisk u w) = Some ''DISK_PRESSURE''"
| "exc_service_name _ = Some ''UNKNOWN_SERVICE''"

fun retryable_kind :: "exc_kind \<Rightarrow> bool" where
  "retryable_kind (ETryAgain s w) = True"
| "retryable_kind ETransient = True"
| "retryable_kind EHostUnreachable = True"
| "retryable_kind EClientCantConnect = True"
| "retryable_kind ECircuitOpen = True"
| "retryable_kind (EOutOfDisk u w) = True"
| "retryable_kind _ = False"

definition RETRY_MARKER :: string where
  "RETRY_MARKER = ''.retrying''"

definition BLOCKED_MARKER :: string where
  "BLOCKED_MARKER = ''.blocked''"

lemma markers_differ [simp]: "RETRY_MARKER \<noteq> BLOCKED_MARKER" "BLOCKED_MARKER \<noteq> RETRY_MARKER"
  by (simp_all add: RETRY_MARKER_def BLOCKED_MARKER_def)

text \<open>The clock: the ISO timestamp, the epoch seconds, and the seconds since local midnight.\<close>

record clock =
  ck_iso :: string
  ck_epoch :: rat
  ck_second_of_day :: rat

definition is_retryable :: "clock \<Rightarrow> workspace \<Rightarrow> exc_kind \<Rightarrow> bool \<times> workspace" where
  "is_retryable ck w k =
    (let (m, w1) = load_manifest (ck_iso ck) w in
     if m_retry_count m \<ge> 3 then (False, w1)
     else if ck_second_of_day ck \<ge> 86399 then (False, w1)
     else (retryable_kind k, w1))"

definition is_complete :: "clock \<Rightarrow> task_context \<Rightarrow> workspace \<Rightarrow> bool \<times> workspace" where
  "is_complete ck c w =
    (let (m, w1) = load_manifest (ck_iso ck) w in
     (insert ''start'' (set (active_ids c)) = set (completed_step_ids m), w1))"


section \<open>Policies\<close>

definition success_outcome :: "clock \<Rightarrow> workspace \<Rightarrow> resolution res \<times> workspace" where
  "success_outcome ck w =
    (let (r, w1) = update_manifest (ck_iso ck) w [(''status'', VStr (status_value SUCCESS))]
     in (res_bind r (\<lambda>_. Ok ((resolution_of SUCCESS A_success)\<lparr>
          rs_signal := Some DONE, rs_release_dataset_lock := True\<rparr>)), w1))"

definition progress_next :: "task_context \<Rightarrow> string \<Rightarrow> string list \<Rightarrow> (string \<times> string list) res" where
  "progress_next c cur stack =
    (let standard = get_next_step_id c cur;
         no_standard = (case standard of None \<Rightarrow> True | Some s \<Rightarrow> s = [])
     in if stack \<noteq> []
        then (if standard = Some (last stack) \<or> no_standard then Ok (last stack, butlast stack)
              else Ok (the standard, stack))
        else (if no_standard then Err ValueError else Ok (the standard, stack)))"

definition progress_outcome ::
  "clock \<Rightarrow> task_context \<Rightarrow> task_ref \<Rightarrow> workspace \<Rightarrow> resolution res \<times> workspace"
where
  "progress_outcome ck c r w =
    (let (m, w1) = load_manifest (ck_iso ck) w in
     case progress_next c (ref_step_id r) (m_rollback_stack m) of
       Inl e \<Rightarrow> (Inl e, w1)
     | Inr (next_id, stack) \<Rightarrow>
        (let (u, w2) = update_manifest (ck_iso ck) w1
               [(''status'', VStr (status_value WAITING)), (''current_step_id'', VStr next_id),
                (''rollback_stack'', VList (map VStr stack))]
         in (res_bind u (\<lambda>_. Ok ((resolution_of WAITING A_progress)\<lparr>
               rs_next_step_id := Some next_id, rs_rollback_stack := stack,
               rs_signal := Some SYNC, rs_re_enqueue := True\<rparr>)), w2)))"

definition retry_wait :: "exc_kind \<Rightarrow> int \<Rightarrow> int" where
  "retry_wait k retry_count = (case exc_wait_seconds k of
     Some w \<Rightarrow> w | None \<Rightarrow> min 600 (2 ^ nat retry_count * 30))"

text \<open>
  The error document both waiting policies write has no step, stage or error type. The disk
  usage, a float under a key the manifest does not declare, is left out of the value.
\<close>

definition retry_error :: "task_exc \<Rightarrow> doc" where
  "retry_error e = [(''message'', VStr (ex_message e)), (''type'', VStr (ex_type e))]"

definition retry_outcome :: "clock \<Rightarrow> workspace \<Rightarrow> task_exc \<Rightarrow> resolution res \<times> workspace" where
  "retry_outcome ck w e =
    (let (m, w1) = load_manifest (ck_iso ck) w;
         wait_secs = retry_wait (ex_kind e) (m_retry_count m);
         w2 = remove_marker (create_marker w1 RETRY_MARKER) BLOCKED_MARKER;
         (u, w3) = update_manifest (ck_iso ck) w2 (error_updates RETRY [] (retry_error e))
     in (res_bind u (\<lambda>_. Ok ((resolution_of RETRY A_retry)\<lparr>
           rs_next_attempt_ts := Some (ck_epoch ck + of_int wait_secs),
           rs_remarks := Some (RetryAttempt (m_retry_count m + 1)),
           rs_signal := Some SYNC, rs_re_enqueue := True\<rparr>)), w3))"

definition blocked_error :: "task_exc \<Rightarrow> doc" where
  "blocked_error e = retry_error e @ (case ex_kind e of
     EOutOfDisk u w \<Rightarrow> [(''disk_usage'', VNone)]
   | k \<Rightarrow> [(''service'', opt_str (exc_service_name k))])"

definition blocked_outcome :: "clock \<Rightarrow> workspace \<Rightarrow> task_exc \<Rightarrow> resolution res \<times> workspace" where
  "blocked_outcome ck w e =
    (let (blocked_by, remarks) = (case ex_kind e of
           EOutOfDisk u s \<Rightarrow> (Some ''DISK_PRESSURE'', DiskFull u)
         | k \<Rightarrow> (exc_service_name k, ServiceUnavailable (exc_service_name k)));
         w2 = remove_marker (create_marker w BLOCKED_MARKER) RETRY_MARKER;
         (u, w3) = update_manifest (ck_iso ck) w2
            (error_updates BLOCKED [(''blocked_by'', opt_str blocked_by)] (blocked_error e))
     in (res_bind u (\<lambda>_. Ok ((resolution_of BLOCKED A_blocked)\<lparr>
           rs_blocked_by := blocked_by, rs_remarks := Some remarks,
           rs_signal := Some SYNC, rs_re_enqueue := True\<rparr>)), w3))"

text \<open>The context is absent when loading it failed; the stage then stays unresolved.\<close>

definition failed_error :: "task_context option \<Rightarrow> task_ref \<Rightarrow> task_exc \<Rightarrow> string \<Rightarrow> doc" where
  "failed_error c_opt r e tb =
    (let stage_name = (case c_opt of
           None \<Rightarrow> None
         | Some c \<Rightarrow> (case get_step c (ref_step_id r) of Inl _ \<Rightarrow> None | Inr s \<Rightarrow> Some (step_stage s)))
     in [(''step_id'', VStr (ref_step_id r)), (''stage'', opt_str stage_name),
         (''message'', VStr (ex_message e)), (''error_type'', VStr (ex_type e)),
         (''traceback'', VStr tb)])"

definition failed_outcome ::
  "clock \<Rightarrow> task_context option \<Rightarrow> task_ref \<Rightarrow> workspace \<Rightarrow> task_exc \<Rightarrow> string \<Rightarrow> resolution res \<times> workspace"
where
  "failed_outcome ck c_opt r w e tb =
    (let (u, w1) = update_manifest (ck_iso ck) w (error_updates FAILED [] (failed_error c_opt r e tb))
     in (res_bind u (\<lambda>_. Ok ((resolution_of FAILED A_failed)\<lparr>
           rs_signal := Some FAIL, rs_release_dataset_lock := True, rs_release_cache := True\<rparr>)), w1))"

definition rollback_outcome ::
  "clock \<Rightarrow> task_context option \<Rightarrow> task_ref \<Rightarrow> workspace \<Rightarrow> task_exc \<Rightarrow> string \<Rightarrow> string \<Rightarrow>
   task_metadata option \<Rightarrow> resolution res \<times> workspace"
where
  "rollback_outcome ck c_opt r w e target tb cached =
    (case cached of
       None \<Rightarrow> failed_outcome ck c_opt r w e tb
     | Some md \<Rightarrow>
        if target \<in> fst ` set (md_rollback_history md) then failed_outcome ck c_opt r w e tb
        else
          (let origin = ref_step_id r;
               (m, w1) = load_manifest (ck_iso ck) w;
               stack = (if md_rollback_stack md \<noteq> [] then md_rollback_stack md else m_rollback_stack m)
           in if length stack \<ge> 20 \<or> count_list stack origin \<ge> 5
              then failed_outcome ck c_opt r w1 e tb
              else
                (let stack' = stack @ [origin];
                     history' = dict_put target (ck_iso ck) (md_rollback_history md);
                     (u, w2) = update_manifest (ck_iso ck) w1
                       [(''status'', VStr (status_value WAITING)), (''current_step_id'', VStr target),
                        (''rollback_stack'', VList (map VStr stack'))]
                 in (res_bind u (\<lambda>_. Ok ((resolution_of WAITING A_rollback)\<lparr>
                       rs_next_step_id := Some target, rs_rollback_history := history',
                       rs_rollback_stack := stack', rs_remarks := Some (RolledBackTo target),
                       rs_signal := Some SYNC, rs_re_enqueue := True\<rparr>)), w2))))"


section \<open>Picking a policy\<close>

text \<open>
  \<open>_conclude_outcome\<close> up to the directive. \<open>cached\<close> is the result of looking the running entry
  up, which only a rollback needs; \<open>c_res\<close> is the result of loading the task context.
\<close>

definition conclude_outcome ::
  "clock \<Rightarrow> task_context res \<Rightarrow> task_ref \<Rightarrow> workspace \<Rightarrow> task_exc option \<Rightarrow> string \<Rightarrow>
   task_metadata res \<Rightarrow> resolution res \<times> workspace"
where
  "conclude_outcome ck c_res r w exc tb cached =
    (let c_opt = (case c_res of Inl _ \<Rightarrow> None | Inr c \<Rightarrow> Some c) in
     case exc of
       Some e \<Rightarrow>
        (case ex_kind e of
           ERollback target \<Rightarrow>
             (case cached of Inl er \<Rightarrow> (Inl er, w)
              | Inr md \<Rightarrow> rollback_outcome ck c_opt r w e target tb (Some md))
         | EOutOfDisk u s \<Rightarrow> blocked_outcome ck w e
         | ETryAgain s v \<Rightarrow> blocked_outcome ck w e
         | k \<Rightarrow>
            (let (ok, w1) = is_retryable ck w k in
             if ok then retry_outcome ck w1 e else failed_outcome ck c_opt r w1 e tb))
     | None \<Rightarrow>
        (case c_res of
           Inl er \<Rightarrow> (Inl er, w)
         | Inr c \<Rightarrow>
            (let (complete, w1) = is_complete ck c w in
             if complete then success_outcome ck w1 else progress_outcome ck c r w1)))"


section \<open>Applying a directive\<close>

record 's driver =
  dr_cache :: 's
  dr_timeouts :: timeout_monitor
  dr_queue :: "task_metadata list"
  dr_signals :: "(string \<times> task_signal \<times> string) list"

text \<open>
  \<open>_apply_outcome_resolution\<close>: look the running entry up, emit the signal, release the dataset
  (by the run id), then either drop the old key through the raw client or rotate the entry and
  queue it again. Empty collections of the directive are not handed on as overrides.
\<close>

definition resolution_overrides :: "resolution \<Rightarrow> overrides" where
  "resolution_overrides d =
    \<lparr>ov_next_attempt_ts = rs_next_attempt_ts d, ov_remarks = None,
     ov_blocked_by = (case rs_blocked_by d of Some b \<Rightarrow> if b = [] then None else Some b | None \<Rightarrow> None),
     ov_rollback_history = (if rs_rollback_history d = [] then None else Some (rs_rollback_history d)),
     ov_rollback_stack = (if rs_rollback_stack d = [] then None else Some (rs_rollback_stack d))\<rparr>"

definition running_key :: "task_ref \<Rightarrow> string" where
  "running_key r = build r (Some (status_value RUNNING)) None"

definition apply_outcome_resolution ::
  "'s cache_client \<Rightarrow> (string \<Rightarrow> task_metadata option) option \<Rightarrow> clock \<Rightarrow> 's driver \<Rightarrow> task_ref \<Rightarrow>
   resolution \<Rightarrow> unit res \<times> 's driver"
where
  "apply_outcome_resolution cl db ck dr r d =
    (let old_key = running_key r;
         (g, c1) = tc_get cl TASK_PREFIX db (dr_cache dr) old_key;
         dr1 = dr\<lparr>dr_cache := c1\<rparr>
     in case g of
          Inl e \<Rightarrow> (Inl e, dr1)
        | Inr md \<Rightarrow>
           (let dr2 = (case rs_signal d of None \<Rightarrow> dr1
                  | Some sg \<Rightarrow> dr1\<lparr>dr_signals := dr_signals dr1 @ [(run_id (identity r), sg, ref_step_id r)]\<rparr>);
                dr3 = (if rs_release_dataset_lock d
                       then dr2\<lparr>dr_timeouts := release_dataset_cache (dr_timeouts dr2)
                              (run_id (identity r)) (dataset_id (identity r))\<rparr>
                       else dr2)
            in if rs_release_cache d
               then (Ok (), dr3\<lparr>dr_cache := cl_pop cl (dr_cache dr3) old_key\<rparr>)
               else (case transition_state cl TASK_PREFIX (ck_epoch ck) (dr_cache dr3) md (rs_status d)
                            (rs_next_step_id d) (resolution_overrides d) of
                      Inl e \<Rightarrow> (Inl e, dr3)
                    | Inr (_, md', c2) \<Rightarrow>
                        (Ok (), dr3\<lparr>dr_cache := c2,
                           dr_queue := (if rs_re_enqueue d then dr_queue dr3 @ [md'] else dr_queue dr3)\<rparr>))))"

text \<open>\<open>TaskSession.__enter__\<close>: check-in of a task; \<open>m\<close> is the manifest the worker loaded.\<close>

definition session_enter :: "clock \<Rightarrow> task_ref \<Rightarrow> task_manifest \<Rightarrow> workspace \<Rightarrow> task_manifest res \<times> workspace" where
  "session_enter ck r m w =
    (if RETRY_MARKER \<in> ws_markers w
     then (let (u, w1) = update_manifest (ck_iso ck) w
                 [(''status'', VStr (status_value RUNNING)), (''current_step_id'', VStr (ref_step_id r)),
                  (''retry_count'', VInt (m_retry_count m + 1))]
           in case u of
                Inl e \<Rightarrow> (Inl e, w1)
              | Inr m' \<Rightarrow> (Ok m', remove_marker (remove_marker w1 RETRY_MARKER) BLOCKED_MARKER))
     else (Ok m, remove_marker w BLOCKED_MARKER))"


section \<open>Laws of the policies\<close>

lemma update_status: 
  assumes "holds w m"
  shows "update_manifest now w [(''status'', VStr (status_value st))] =
    (Ok (m\<lparr>m_status := st\<rparr>), save_manifest (m\<lparr>m_status := st\<rparr>) w)"
  using update_holds [OF assms update_fields [of now m "Some st" None None None None]]
  by (simp add: field_updates_def apply_fields_def)

lemma update_position:
  fixes st :: exec_status and cur :: string and rb :: "string list"
  assumes "holds w m"
  defines "m' \<equiv> m\<lparr>m_status := st, m_current_step_id := cur, m_rollback_stack := rb\<rparr>"
  shows "update_manifest now w
    [(''status'', VStr (status_value st)), (''current_step_id'', VStr cur),
     (''rollback_stack'', VList (map VStr rb))] = (Ok m', save_manifest m' w)"
  using update_holds [OF assms(1) update_fields [of now m "Some st" "Some cur" None "Some rb" None]]
  by (simp add: field_updates_def apply_fields_def m'_def)

lemma update_checkin:
  fixes st :: exec_status and cur :: string and n :: int
  assumes "holds w m"
  defines "m' \<equiv> m\<lparr>m_status := st, m_current_step_id := cur, m_retry_count := n\<rparr>"
  shows "update_manifest now w
    [(''status'', VStr (status_value st)), (''current_step_id'', VStr cur),
     (''retry_count'', VInt n)] = (Ok m', save_manifest m' w)"
  using update_holds [OF assms(1) update_fields [of now m "Some st" "Some cur" "Some n" None None]]
  by (simp add: field_updates_def apply_fields_def m'_def)

lemma retry_error_step [simp]: "dict_get (retry_error e) ''step_id'' = None"
  by (simp add: retry_error_def)

lemma blocked_error_step [simp]: "dict_get (blocked_error e) ''step_id'' = None"
  by (simp add: blocked_error_def retry_error_def split: exc_kind.splits)

text \<open>Merged into a recorded error, both documents only replace the message.\<close>

lemma merge_retry_error:
  "error_decode now (deep_merge (error_to_builtins i) (retry_error e)) = Ok (i\<lparr>err_message := ex_message e\<rparr>)"
proof -
  have ok: "dict_ok (retry_error e)" by (simp add: retry_error_def)
  show ?thesis
    unfolding error_decode_def required_merge [OF ok] optional_merge [OF ok]
    by (cases i) (simp add: retry_error_def error_to_builtins_def)
qed

lemma merge_blocked_error:
  "error_decode now (deep_merge (error_to_builtins i) (blocked_error e)) = Ok (i\<lparr>err_message := ex_message e\<rparr>)"
proof -
  have ok: "dict_ok (blocked_error e)"
    by (simp add: blocked_error_def retry_error_def split: exc_kind.splits)
  have g: "dict_get (blocked_error e) k = (if k = ''message'' then Some (VStr (ex_message e)) else None)"
    if "k \<in> {''step_id'', ''stage'', ''error_type'', ''message'', ''traceback'', ''timestamp''}" for k
    using that by (auto simp: blocked_error_def retry_error_def split: exc_kind.splits)
  show ?thesis
    unfolding error_decode_def required_merge [OF ok] optional_merge [OF ok]
    by (cases i) (simp add: g error_to_builtins_def)
qed

lemma wait_bounds:
  assumes "exc_wait_seconds k = None" "0 \<le> n"
  shows "30 \<le> retry_wait k n \<and> retry_wait k n \<le> 600"
  using assms by (simp add: retry_wait_def)

text \<open>A write that succeeds leaves a readable manifest with the status that was written.\<close>

lemma update_Ok_holds:
  assumes "update_manifest now w ups = (Inr m', w')"
  shows "holds w' m'"
  using assms by (auto simp: update_manifest_def Let_def split: prod.splits sum.splits)

lemma decode_status:
  assumes "manifest_decode now d = Ok m" "dict_get d ''status'' = Some (VStr (status_value st))"
  shows "m_status m = st"
  using assms by (auto simp: manifest_decode_def res_bind_Ok_iff required_def)

lemma update_Ok_status:
  assumes "update_manifest now w ups = (Inr m', w')" "dict_ok ups"
    and "dict_get ups ''status'' = Some (VStr (status_value st))"
  shows "m_status m' = st"
proof -
  obtain m w1 where l: "load_manifest now w = (m, w1)" by (cases "load_manifest now w")
  have "manifest_decode now (deep_merge (manifest_to_builtins m) ups) = Inr m'"
    using assms(1) by (auto simp: update_manifest_def l Let_def split: sum.splits)
  then show ?thesis by (rule decode_status) (simp add: deep_merge_get [OF assms(2)] assms(3))
qed

text \<open>What every directive promises about itself and about the manifest it leaves behind.\<close>

definition consistent :: "resolution \<Rightarrow> workspace \<Rightarrow> bool" where
  "consistent d w \<longleftrightarrow>
     (\<exists>m. holds w m \<and> m_status m = rs_status d) \<and>
     (rs_re_enqueue d \<longleftrightarrow> \<not> is_terminal (rs_status d)) \<and>
     (rs_release_dataset_lock d \<longleftrightarrow> is_terminal (rs_status d)) \<and>
     rs_signal d = Some (if rs_status d = SUCCESS then DONE else if rs_status d = FAILED then FAIL else SYNC) \<and>
     rs_status d \<in> {SUCCESS, FAILED, WAITING, RETRY, BLOCKED}"

lemma consistentI:
  assumes "update_manifest now w ups = (u, w')" "dict_ok ups"
    and "dict_get ups ''status'' = Some (VStr (status_value st))"
    and "res_bind u (\<lambda>_. Ok d) = Ok d'"
    and "rs_status d = st" "rs_re_enqueue d \<longleftrightarrow> \<not> is_terminal st"
    and "rs_release_dataset_lock d \<longleftrightarrow> is_terminal st"
    and "rs_signal d = Some (if st = SUCCESS then DONE else if st = FAILED then FAIL else SYNC)"
    and "st \<in> {SUCCESS, FAILED, WAITING, RETRY, BLOCKED}"
  shows "consistent d' w'"
proof -
  obtain m' where u: "u = Inr m'" and d: "d' = d" using assms(4) by (cases u) auto
  have "update_manifest now w ups = (Inr m', w')" using assms(1) u by simp
  note update_Ok_holds [OF this] update_Ok_status [OF this assms(2,3)]
  then show ?thesis using assms(5-) by (auto simp: consistent_def d)
qed

lemmas directive_simps = resolution_of_def res_bind_Ok_iff

lemma success_consistent: "success_outcome ck w = (Ok d, w') \<Longrightarrow> consistent d w'"
  unfolding success_outcome_def
  by (cases "update_manifest (ck_iso ck) w [(''status'', VStr (status_value SUCCESS))]")
    (auto simp: Let_def resolution_of_def intro!: consistentI [where st = SUCCESS])

lemma error_updates_ok:
  "dict_ok (error_updates st [] d)" "dict_ok (error_updates st [(''blocked_by'', v)] d)"
  "dict_get (error_updates st extra d) ''status'' = Some (VStr (status_value st))"
  by (simp_all add: error_updates_def)

lemma failed_consistent:
  assumes "failed_outcome ck c_opt r w e tb = (Ok d, w')"
  shows "consistent d w'"
  using assms unfolding failed_outcome_def Let_def
  by (auto split: prod.splits simp: resolution_of_def
      intro!: consistentI [where st = FAILED, OF _ error_updates_ok(1,3)])

lemma retry_consistent:
  assumes "retry_outcome ck w e = (Ok d, w')"
  shows "consistent d w'"
  using assms unfolding retry_outcome_def Let_def
  by (auto split: prod.splits simp: resolution_of_def
      intro!: consistentI [where st = RETRY, OF _ error_updates_ok(1,3)])

lemma blocked_consistent:
  assumes "blocked_outcome ck w e = (Ok d, w')"
  shows "consistent d w'"
  using assms unfolding blocked_outcome_def Let_def
  by (auto split: prod.splits simp: resolution_of_def
      intro!: consistentI [where st = BLOCKED, OF _ error_updates_ok(2,3)])

lemma progress_consistent:
  assumes "progress_outcome ck c r w = (Ok d, w')"
  shows "consistent d w'"
  using assms unfolding progress_outcome_def Let_def
  by (auto split: prod.splits sum.splits simp: resolution_of_def
      intro!: consistentI [where st = WAITING])

lemma rollback_consistent:
  assumes "rollback_outcome ck c_opt r w e target tb cached = (Ok d, w')"
  shows "consistent d w'"
  using assms unfolding rollback_outcome_def Let_def
  by (auto split: prod.splits option.splits if_splits simp: resolution_of_def
      dest!: failed_consistent intro!: consistentI [where st = WAITING])

lemma conclude_consistent:
  assumes "conclude_outcome ck c_res r w exc tb cached = (Ok d, w')"
  shows "consistent d w'"
  using assms unfolding conclude_outcome_def Let_def
  by (auto split: prod.splits sum.splits option.splits exc_kind.splits if_splits
      intro: success_consistent progress_consistent retry_consistent failed_consistent
        blocked_consistent rollback_consistent)

text \<open>
  C4. Every directive agrees with the manifest and with itself: whenever the outcome of a step
  is concluded without an error, for any result of the step and any state of the workspace,
  the manifest on disk is readable and has the directive's status; the task is queued again
  exactly when that status is not terminal, the dataset is released exactly when it is, and the
  signal is done for success, fail for failure and sync otherwise.
\<close>

theorem outcome_directive_consistent:
  assumes "conclude_outcome ck c_res r w exc tb cached = (Ok d, w')"
  shows "(\<exists>m. load_manifest now w' = (m, w') \<and> m_status m = rs_status d) \<and>
    (rs_re_enqueue d \<longleftrightarrow> \<not> is_terminal (rs_status d)) \<and>
    (rs_release_dataset_lock d \<longleftrightarrow> is_terminal (rs_status d)) \<and>
    rs_signal d = Some (if rs_status d = SUCCESS then DONE else if rs_status d = FAILED then FAIL else SYNC)"
  using conclude_consistent [OF assms] load_holds by (fastforce simp: consistent_def)

definition sample_clock :: clock where
  "sample_clock = \<lparr>ck_iso = ''2024-01-01 10:00:00'', ck_epoch = 1704103200, ck_second_of_day = 36000\<rparr>"

definition sample_error :: error_info where
  "sample_error = \<lparr>err_step_id = ''extract'', err_stage = ''extract'', err_type = ''HostUnreachable'',
     err_message = ''no route'', err_traceback = None, err_timestamp = ''t0''\<rparr>"

definition failed_manifest :: task_manifest where
  "failed_manifest = sample_manifest\<lparr>m_error := Some sample_error, m_status := FAILED\<rparr>"

definition host_down :: task_exc where
  "host_down = \<lparr>ex_kind = EHostUnreachable, ex_type = ''HostUnreachable'', ex_message = ''no route''\<rparr>"

definition transient :: "exc_kind \<Rightarrow> bool" where
  "transient k \<longleftrightarrow> k \<in> {ETransient, EHostUnreachable, EClientCantConnect, ECircuitOpen}"

lemma transient_simps:
  "transient k \<Longrightarrow> retryable_kind k" "transient k \<Longrightarrow> exc_wait_seconds k = None"
  by (auto simp: transient_def)

lemma is_retryable_holds:
  "holds w m \<Longrightarrow> is_retryable ck w k =
     (m_retry_count m < 3 \<and> ck_second_of_day ck < 86399 \<and> retryable_kind k, w)"
  by (auto simp: is_retryable_def load_holds)

lemma conclude_transient:
  "transient (ex_kind e) \<Longrightarrow> conclude_outcome ck c_res r w (Some e) tb cached =
    (let (ok, w1) = is_retryable ck w (ex_kind e) in
     if ok then retry_outcome ck w1 e
     else failed_outcome ck (case c_res of Inl _ \<Rightarrow> None | Inr c \<Rightarrow> Some c) r w1 e tb)"
  by (auto simp: conclude_outcome_def transient_def Let_def)

definition retried :: "task_exc \<Rightarrow> error_info \<Rightarrow> task_manifest \<Rightarrow> task_manifest" where
  "retried e i m = m\<lparr>m_status := RETRY, m_error := Some (i\<lparr>err_message := ex_message e\<rparr>)\<rparr>"

lemma retry_outcome_recorded:
  assumes "holds w m" "m_error m = Some i"
  shows "retry_outcome ck w e =
    (Ok ((resolution_of RETRY A_retry)\<lparr>
        rs_next_attempt_ts := Some (ck_epoch ck + of_int (retry_wait (ex_kind e) (m_retry_count m))),
        rs_remarks := Some (RetryAttempt (m_retry_count m + 1)),
        rs_signal := Some SYNC, rs_re_enqueue := True\<rparr>),
     save_manifest (retried e i m) (remove_marker (create_marker w RETRY_MARKER) BLOCKED_MARKER))"
proof -
  let ?w2 = "remove_marker (create_marker w RETRY_MARKER) BLOCKED_MARKER"
  have "holds ?w2 m" using assms(1) by simp
  from update_error_complete [OF this, of "[]" VNone "ck_iso ck" "retry_error e" "i\<lparr>err_message := ex_message e\<rparr>" RETRY]
  have "update_manifest (ck_iso ck) ?w2 (error_updates RETRY [] (retry_error e)) =
    (Ok (retried e i m), save_manifest (retried e i m) ?w2)"
    by (simp add: merged_error_def assms(2) merge_retry_error retried_def)
  then show ?thesis by (simp add: retry_outcome_def load_holds [OF assms(1)] Let_def)
qed

lemma session_enter_retry:
  fixes r :: task_ref
  assumes "holds w m" "RETRY_MARKER \<in> ws_markers w"
  defines "m' \<equiv> m\<lparr>m_status := RUNNING, m_current_step_id := ref_step_id r, m_retry_count := m_retry_count m + 1\<rparr>"
  shows "session_enter ck r m w =
    (Ok m', remove_marker (remove_marker (save_manifest m' w) RETRY_MARKER) BLOCKED_MARKER)"
  using assms(2) by (simp add: session_enter_def update_checkin [OF assms(1), where st = RUNNING, simplified] m'_def)


lemma failed_manifest_simps [simp]:
  "m_error failed_manifest = Some sample_error" "m_retry_count failed_manifest = 0"
  by (simp_all add: failed_manifest_def sample_manifest_def)

lemma host_down_transient [simp]: "transient (ex_kind host_down)"
  by (simp add: host_down_def transient_def)


theorem outcome_directive_consistent_witness:
  "\<exists>d w'. conclude_outcome sample_clock (Err ValueError) sample_ref
      (save_manifest failed_manifest sample_ws) (Some host_down) [] (Err ValueError) = (Ok d, w') \<and>
     rs_re_enqueue d \<and> rs_signal d = Some SYNC"
proof -
  let ?c = "conclude_outcome sample_clock (Err ValueError) sample_ref
      (save_manifest failed_manifest sample_ws) (Some host_down) [] (Err ValueError)"
  have "?c = retry_outcome sample_clock (save_manifest failed_manifest sample_ws) host_down"
    by (simp add: conclude_transient is_retryable_holds [OF holds_save] transient_simps sample_clock_def)
  then obtain d w' where c: "?c = (Ok d, w')" "rs_status d = RETRY"
    by (simp add: retry_outcome_recorded [OF holds_save] resolution_of_def)
  from outcome_directive_consistent [OF c(1)] show ?thesis using c by auto
qed

text \<open>An error raised before the stage could record one, such as in its pre-flight checks.\<close>

definition waiting_kind :: "exc_kind \<Rightarrow> bool" where
  "waiting_kind k \<longleftrightarrow> (case k of EOutOfDisk u s \<Rightarrow> True | ETryAgain s v \<Rightarrow> True | _ \<Rightarrow> transient k)"

lemma blocked_outcome_unrecorded:
  assumes "holds w m" "m_error m = None"
  shows "blocked_outcome ck w e = (Err ValidationError, remove_marker (create_marker w BLOCKED_MARKER) RETRY_MARKER)"
proof -
  let ?w2 = "remove_marker (create_marker w BLOCKED_MARKER) RETRY_MARKER"
  have "update_manifest (ck_iso ck) ?w2 (error_updates BLOCKED [(''blocked_by'', v)] (blocked_error e)) =
    (Err ValidationError, ?w2)" for v
    using assms by (intro update_error_incomplete [of _ m _ v]) simp_all
  then show ?thesis by (simp add: blocked_outcome_def Let_def split: prod.splits)
qed

lemma retry_outcome_unrecorded:
  assumes "holds w m" "m_error m = None"
  shows "retry_outcome ck w e = (Err ValidationError, remove_marker (create_marker w RETRY_MARKER) BLOCKED_MARKER)"
proof -
  let ?w2 = "remove_marker (create_marker w RETRY_MARKER) BLOCKED_MARKER"
  have "update_manifest (ck_iso ck) ?w2 (error_updates RETRY [] (retry_error e)) = (Err ValidationError, ?w2)"
    using assms by (intro update_error_incomplete [of _ m]) simp_all
  then show ?thesis by (simp add: retry_outcome_def load_holds [OF assms(1)] Let_def)
qed

text \<open>
  Waiting needs a recorded error: when the manifest carries none, as after disk pressure or an
  unreachable service in a stage's pre-flight checks, concluding a blocked or retryable error
  raises a validation error. There is then no directive, so nothing is queued again, while the
  manifest keeps the status it had and only the marker files have changed.
\<close>

theorem waiting_needs_recorded_error:
  assumes "holds w m" "m_error m = None" "waiting_kind (ex_kind e)"
    and "m_retry_count m < 3" "ck_second_of_day ck < 86399"
  shows "\<exists>w'. conclude_outcome ck c_res r w (Some e) tb cached = (Err ValidationError, w') \<and>
    holds w' m \<and> ws_markers w' \<noteq> ws_markers w - {RETRY_MARKER, BLOCKED_MARKER}"
proof (cases "transient (ex_kind e)")
  case True
  then have "conclude_outcome ck c_res r w (Some e) tb cached = retry_outcome ck w e"
    using assms(4,5) by (simp add: conclude_transient is_retryable_holds [OF assms(1)] transient_simps)
  then show ?thesis using retry_outcome_unrecorded [OF assms(1,2)] assms(1) by auto
next
  case False
  then have "conclude_outcome ck c_res r w (Some e) tb cached = blocked_outcome ck w e"
    using assms(3) by (auto simp: conclude_outcome_def waiting_kind_def split: exc_kind.splits)
  then show ?thesis using blocked_outcome_unrecorded [OF assms(1,2)] assms(1) by auto
qed

theorem waiting_needs_recorded_error_witness:
  "fst (conclude_outcome sample_clock (Ok sample_ctx) sample_ref sample_ws
     (Some \<lparr>ex_kind = EOutOfDisk 97 60, ex_type = ''OutOfDiskSpace'', ex_message = ''full''\<rparr>) [] (Err ValueError))
   = Err ValidationError"
proof -
  have m: "m_error sample_manifest = None" "m_retry_count sample_manifest < 3" by (simp_all add: sample_manifest_def)
  from waiting_needs_recorded_error [OF sample_ws_holds m(1),
      of "\<lparr>ex_kind = EOutOfDisk 97 60, ex_type = ''OutOfDiskSpace'', ex_message = ''full''\<rparr>" sample_clock
        "Ok sample_ctx" sample_ref "[]" "Err ValueError"]
  show ?thesis using m(2) by (auto simp: waiting_kind_def sample_clock_def)
qed


section \<open>Rollbacks\<close>

lemma count_list_le_length: "count_list xs x \<le> length xs"
  by (induction xs) auto

text \<open>A rollback that is not turned into a failure: the directive in full.\<close>

definition rollback_stack_of :: "task_metadata \<Rightarrow> task_manifest \<Rightarrow> string list" where
  "rollback_stack_of md m = (if md_rollback_stack md \<noteq> [] then md_rollback_stack md else m_rollback_stack m)"

definition granted :: "clock \<Rightarrow> task_ref \<Rightarrow> string \<Rightarrow> task_metadata \<Rightarrow> string list \<Rightarrow> resolution" where
  "granted ck r target md stack = (resolution_of WAITING A_rollback)\<lparr>rs_next_step_id := Some target,
     rs_rollback_history := dict_put target (ck_iso ck) (md_rollback_history md),
     rs_rollback_stack := stack @ [ref_step_id r], rs_remarks := Some (RolledBackTo target),
     rs_signal := Some SYNC, rs_re_enqueue := True\<rparr>"

lemma rollback_outcome_eq:
  fixes md :: task_metadata
  assumes "load_manifest (ck_iso ck) w = (m, w1)"
  defines "stack \<equiv> rollback_stack_of md m"
  shows "rollback_outcome ck c_opt r w e target tb (Some md) =
    (if target \<in> fst ` set (md_rollback_history md) then failed_outcome ck c_opt r w e tb
     else if length stack \<ge> 20 \<or> count_list stack (ref_step_id r) \<ge> 5 then failed_outcome ck c_opt r w1 e tb
     else (case update_manifest (ck_iso ck) w1
         [(''status'', VStr (status_value WAITING)), (''current_step_id'', VStr target),
          (''rollback_stack'', VList (map VStr (stack @ [ref_step_id r])))] of
         (u, w2) \<Rightarrow> (res_bind u (\<lambda>_. Ok (granted ck r target md stack)), w2)))"
  unfolding rollback_outcome_def option.case assms(1) Let_def prod.case stack_def rollback_stack_of_def granted_def
  by (rule refl)




section \<open>Directives on the cache and the queue\<close>

text \<open>The entry a running task has: its key is the one the driver looks up.\<close>

definition running_entry :: "task_ref \<Rightarrow> task_metadata \<Rightarrow> bool" where
  "running_entry r md \<longleftrightarrow> md_ok md \<and> md_status md = status_value RUNNING \<and>
     md_current_step_id md = ref_step_id r \<and> md_identity md = identity r \<and>
     ref_namespace r = CACHE_TASK_NAMESPACE"

lemma running_key_entry:
  assumes "running_entry r md"
  shows "running_key r = TASK_PREFIX @ client_key_of md"
proof -
  have "job_id (identity r) = md_job_id md" "dataset_id (identity r) = md_dataset_id md"
    "partition_date (identity r) = md_partition_date md" "run_id (identity r) = md_run_id md"
    using assms by (auto simp: running_entry_def md_identity_def mk_identity_def dest: sym)
  then show ?thesis using assms
    by (simp add: running_key_def build_def client_key_of_def client_parts_def running_entry_def
        CACHE_TASK_NAMESPACE_def TASK_PREFIX_def)
qed

lemma apply_resolution_eq:
  assumes "running_entry r md" "mem_lookup now TASK_PREFIX (dr_cache dr) (client_key_of md) = Some md"
    and "rs_signal d = Some sg"
  defines "tm \<equiv> if rs_release_dataset_lock d
      then release_dataset_cache (dr_timeouts dr) (run_id (identity r)) (dataset_id (identity r))
      else dr_timeouts dr"
    and "sigs \<equiv> dr_signals dr @ [(run_id (identity r), sg, ref_step_id r)]"
  shows "apply_outcome_resolution (mem_client now) db ck dr r d =
    (if rs_release_cache d
     then (Ok (), dr\<lparr>dr_cache := mem_remove TASK_PREFIX (dr_cache dr) (TASK_PREFIX @ client_key_of md),
             dr_timeouts := tm, dr_signals := sigs\<rparr>)
     else (case transition_state (mem_client now) TASK_PREFIX (ck_epoch ck) (dr_cache dr) md (rs_status d)
              (rs_next_step_id d) (resolution_overrides d) of
             Inl e \<Rightarrow> (Inl e, dr\<lparr>dr_timeouts := tm, dr_signals := sigs\<rparr>)
           | Inr (_, md', c2) \<Rightarrow> (Ok (), dr\<lparr>dr_cache := c2, dr_timeouts := tm,
               dr_queue := (if rs_re_enqueue d then dr_queue dr @ [md'] else dr_queue dr),
               dr_signals := sigs\<rparr>)))"
proof -
  have ok: "md_ok md" using assms(1) by (simp add: running_entry_def)
  have "tc_get (mem_client now) TASK_PREFIX db (dr_cache dr) (running_key r) = (Ok md, dr_cache dr)"
    unfolding running_key_entry [OF assms(1)] tc_get_ok [OF ok] by (simp add: assms(2))
  then show ?thesis
    using assms(3)
    by (simp add: apply_outcome_resolution_def Let_def running_key_entry [OF assms(1)] tm_def sigs_def
        mem_client_def client_of_def split: sum.splits prod.splits)
qed


lemma sample_md_running: "running_entry sample_ref sample_md"
proof -
  have "md_status sample_md = status_value RUNNING"
    by (simp add: sample_md_def from_ref_def sample_ref_def mk_ref_def)
  with sample_md_ok show ?thesis unfolding running_entry_def
    by (intro conjI; (assumption)?)
      (simp_all add: sample_md_def from_ref_def sample_ref_def mk_ref_def mk_identity_def
        md_identity_def CACHE_TASK_NAMESPACE_def)
qed


end
