(* ===== verification/TaskQueueing.thy ===== *)
theory TaskQueueing
  imports DiskQueue Outcome
begin

text \<open>
  \<open>common/task/queue.py\<close>: the priority of a task and the typed queue over a message back end. The back
  end is an interface, as it is for the code (\<open>QueueFactory.create\<close> picks the class): its operations
  are a record, its laws the locale \<open>task_backend\<close>, discharged for the disk-backed queue.
\<close>


section \<open>Priorities\<close>

fun STAGES_PRIORITY :: "stage \<Rightarrow> int" where
  "STAGES_PRIORITY ARCHIVE = 100"
| "STAGES_PRIORITY PUBLISH = 80"
| "STAGES_PRIORITY WRITE = 60"
| "STAGES_PRIORITY TRANSFORM = 40"
| "STAGES_PRIORITY EXTRACT = 20"
| "STAGES_PRIORITY START = 10"

definition STATUS_WEIGHTS :: "(exec_status, int) dict" where
  "STATUS_WEIGHTS = [(RETRY, 0), (WAITING, 3), (BLOCKED, 5)]"

definition status_weight :: "exec_status \<Rightarrow> int" where
  "status_weight s = (case dict_get STATUS_WEIGHTS s of None \<Rightarrow> 0 | Some w \<Rightarrow> w)"

text \<open>
  \<open>TaskMetadata.current_stage\<close>: the stage of the step, from the task's configuration. \<open>ctx_of\<close> loads the
  context next to a configuration file, \<open>None\<close> when there is none.
\<close>

definition current_stage :: "(string \<Rightarrow> task_context option) \<Rightarrow> task_metadata \<Rightarrow> string res" where
  "current_stage ctx_of m =
    (if md_current_step_id m = ''start'' then Ok (stage_value START)
     else (case ctx_of (md_config_file m) of
       Some c \<Rightarrow> resolve_stage c (md_current_step_id m)
     | None \<Rightarrow> Ok (stage_value START)))"

definition priority_of :: "stage \<Rightarrow> exec_status \<Rightarrow> int" where
  "priority_of sg st = max 0 (min 255 (255 - (STAGES_PRIORITY sg + status_weight st)))"

definition calculate_priority :: "(string \<Rightarrow> task_context option) \<Rightarrow> task_metadata \<Rightarrow> int res" where
  "calculate_priority ctx_of m =
    res_bind (current_stage ctx_of m) (\<lambda>s.
    res_bind (stage_from_string s) (\<lambda>sg.
    res_bind (status_of (md_status m)) (\<lambda>st. Ok (priority_of sg st))))"

lemma status_weight_simps [simp]:
  "status_weight RETRY = 0" "status_weight WAITING = 3" "status_weight BLOCKED = 5"
  by (simp_all add: status_weight_def STATUS_WEIGHTS_def)

lemma status_weight_bounds: "0 \<le> status_weight st \<and> status_weight st \<le> 5"
  by (cases st) (simp_all add: status_weight_def STATUS_WEIGHTS_def)

lemma stage_priority_mono: "sg < sg' \<Longrightarrow> STAGES_PRIORITY sg + 10 \<le> STAGES_PRIORITY sg'"
  by (cases sg; cases sg') (simp_all add: less_stage_def)

lemma priority_of_exact: "priority_of sg st = 255 - (STAGES_PRIORITY sg + status_weight st)"
  using status_weight_bounds [of st] by (cases sg) (simp_all add: priority_of_def)

text \<open>A task further down the pipeline always comes first; within a stage the status decides.\<close>

lemma priority_of_less_iff:
  "priority_of sg st < priority_of sg' st' \<longleftrightarrow> sg' < sg \<or> sg = sg' \<and> status_weight st' < status_weight st"
proof (cases sg sg' rule: linorder_cases)
  case less
  then show ?thesis using stage_priority_mono [OF less] status_weight_bounds [of st] status_weight_bounds [of st']
    by (auto simp: priority_of_exact)
next
  case greater
  then show ?thesis using stage_priority_mono [OF greater] status_weight_bounds [of st] status_weight_bounds [of st']
    by (auto simp: priority_of_exact)
qed (simp add: priority_of_exact)

text \<open>
  Queue priorities. Every priority is a byte, and of two tasks the one further down the pipeline
  has the smaller number, whatever their statuses; within a stage the status with the greater weight
  comes first (blocked before waiting before retried).
\<close>

theorem priority_orders_tasks:
  assumes "calculate_priority ctx_of m = Ok p" "calculate_priority ctx_of m' = Ok p'"
    and "current_stage ctx_of m = Ok (stage_value sg)" "md_status m = status_value st"
    and "current_stage ctx_of m' = Ok (stage_value sg')" "md_status m' = status_value st'"
  shows "0 \<le> p \<and> p \<le> 255 \<and>
    (p < p' \<longleftrightarrow> sg' < sg \<or> sg = sg' \<and> status_weight st' < status_weight st)"
proof -
  have "p = priority_of sg st" "p' = priority_of sg' st'"
    using assms by (auto simp: calculate_priority_def)
  moreover have "0 \<le> priority_of sg st \<and> priority_of sg st \<le> 255" by (simp add: priority_of_def)
  ultimately show ?thesis by (simp add: priority_of_less_iff)
qed

definition two_steps :: task_context where
  "two_steps = \<lparr>steps = [\<lparr>step_id = ''pull'', step_stage = ''extract'', step_config = Some EXTRACT\<rparr>,
       \<lparr>step_id = ''load'', step_stage = ''write'', step_config = Some WRITE\<rparr>],
     ctx_identity = mk_identity ''j1'' ''ds'' ''2024-01-01'' ''r7'', from_step = ''pull'', to_step = ''load''\<rparr>"

definition waiting_at_step :: "string \<Rightarrow> exec_status \<Rightarrow> task_metadata" where
  "waiting_at_step sid st = (from_ref 0 (mk_ref ''task'' st sid (ctx_identity two_steps)) ''cfg'' None)"

theorem priority_orders_tasks_witness:
  "calculate_priority (\<lambda>_. Some two_steps) (waiting_at_step ''load'' RETRY) = Ok 195 \<and>
   calculate_priority (\<lambda>_. Some two_steps) (waiting_at_step ''pull'' BLOCKED) = Ok 230 \<and> WRITE > EXTRACT"
proof -
  let ?c = "\<lambda>_ :: string. Some two_steps"
  have s: "current_stage ?c (waiting_at_step ''load'' RETRY) = Ok (stage_value WRITE)"
    "current_stage ?c (waiting_at_step ''pull'' BLOCKED) = Ok (stage_value EXTRACT)"
    by (simp_all add: current_stage_def resolve_stage_def get_step_def waiting_at_step_def from_ref_def
        mk_ref_def two_steps_def)
  have st: "md_status (waiting_at_step sid x) = status_value x" for sid x
    by (simp add: waiting_at_step_def from_ref_def mk_ref_def)
  have p: "calculate_priority ?c (waiting_at_step ''load'' RETRY) = Ok 195"
    "calculate_priority ?c (waiting_at_step ''pull'' BLOCKED) = Ok 230"
    unfolding calculate_priority_def s st by (simp_all add: priority_of_exact del: stage_value.simps status_value.simps)
  show ?thesis using priority_orders_tasks [OF p s(1) st s(2) st] p by auto
qed


section \<open>The back end\<close>

text \<open>What the environment gives an operation: two clock readings and a fresh message id.\<close>

record queue_stamp =
  qs_now :: nat
  qs_later :: nat
  qs_uid :: string

record ('q, 'a) backend_ops =
  be_push :: "queue_stamp \<Rightarrow> 'a \<Rightarrow> int \<Rightarrow> string option \<Rightarrow> 'q \<Rightarrow> 'q"
  be_pop :: "queue_stamp \<Rightarrow> 'q \<Rightarrow> (string \<times> 'a) option res \<times> 'q"
  be_pop_by_key :: "queue_stamp \<Rightarrow> string \<Rightarrow> 'q \<Rightarrow> (string \<times> 'a) option res \<times> 'q"
  be_ack :: "string \<Rightarrow> 'q \<Rightarrow> 'q"
  be_items :: "'q \<Rightarrow> (string \<times> 'a) list"
  be_size :: "'q \<Rightarrow> nat"
  be_peek :: "'q \<Rightarrow> (string \<times> 'a) option res"

text \<open>How the entries and their bytes correspond: \<open>msgspec.json\<close>.\<close>

record 'a codec =
  cd_enc :: "task_metadata \<Rightarrow> 'a"
  cd_dec :: "'a \<Rightarrow> task_metadata option"

definition decode :: "'a codec \<Rightarrow> 'a \<Rightarrow> task_metadata res" where
  "decode cd a = (case cd_dec cd a of None \<Rightarrow> Err ValidationError | Some m \<Rightarrow> Ok m)"

definition tq_is_empty :: "('q, 'a) backend_ops \<Rightarrow> 'q \<Rightarrow> bool" where
  "tq_is_empty be q \<longleftrightarrow> be_size be q = 0"

definition tq_push ::
  "('q, 'a) backend_ops \<Rightarrow> 'a codec \<Rightarrow> (string \<Rightarrow> task_context option) \<Rightarrow> queue_stamp \<Rightarrow> task_metadata \<Rightarrow> 'q \<Rightarrow>
   unit res \<times> 'q"
where
  "tq_push be cd ctx_of e m q =
    (case calculate_priority ctx_of m of
       Inl err \<Rightarrow> (Inl err, q)
     | Inr p \<Rightarrow> (Ok (), be_push be e (cd_enc cd m) p (Some (md_job_id m)) q))"

definition decoded_msg :: "'a codec \<Rightarrow> (string \<times> 'a) option res \<Rightarrow> (string \<times> task_metadata) option res" where
  "decoded_msg cd r = res_bind r (\<lambda>o_msg. case o_msg of
     None \<Rightarrow> Ok None
   | Some (i, a) \<Rightarrow> res_bind (decode cd a) (\<lambda>m. Ok (Some (i, m))))"

definition tq_pop ::
  "('q, 'a) backend_ops \<Rightarrow> 'a codec \<Rightarrow> queue_stamp \<Rightarrow> 'q \<Rightarrow> (string \<times> task_metadata) option res \<times> 'q"
where
  "tq_pop be cd e q = (let (r, q1) = be_pop be e q in (decoded_msg cd r, q1))"

definition tq_pop_by_key ::
  "('q, 'a) backend_ops \<Rightarrow> 'a codec \<Rightarrow> queue_stamp \<Rightarrow> string \<Rightarrow> 'q \<Rightarrow>
   (string \<times> task_metadata) option res \<times> 'q"
where
  "tq_pop_by_key be cd e key q = (let (r, q1) = be_pop_by_key be e key q in (decoded_msg cd r, q1))"

definition tq_ack :: "('q, 'a) backend_ops \<Rightarrow> string \<Rightarrow> 'q \<Rightarrow> 'q" where
  "tq_ack be i q = be_ack be i q"

text \<open>Entries that do not decode are skipped.\<close>

definition tq_items :: "('q, 'a) backend_ops \<Rightarrow> 'a codec \<Rightarrow> 'q \<Rightarrow> (string \<times> task_metadata) list" where
  "tq_items be cd q = List.map_filter (\<lambda>(k, a). map_option (Pair k) (cd_dec cd a)) (be_items be q)"

text \<open>\<open>peek\<close> unpacks the message object as a pair, which raises whenever there is one.\<close>

definition tq_peek :: "('q, 'a) backend_ops \<Rightarrow> 'q \<Rightarrow> (string \<times> task_metadata) option res" where
  "tq_peek be q = res_bind (be_peek be q) (\<lambda>o_msg. case o_msg of None \<Rightarrow> Ok None | Some _ \<Rightarrow> Err TypeError)"


section \<open>The contract of a back end\<close>

text \<open>
  Waiting messages are listed once each, under their key. Claiming a listed one by key delivers it, and
  after the acknowledgement the others are listed as before. A push under a new key adds one.
\<close>

locale task_backend =
  fixes be :: "('q, 'a) backend_ops"
    and inv :: "'q \<Rightarrow> bool"
    and fresh :: "queue_stamp \<Rightarrow> int \<Rightarrow> 'q \<Rightarrow> bool"
  assumes items_distinct: "inv q \<Longrightarrow> distinct (map fst (be_items be q))"
    and claim_listed: "inv q \<Longrightarrow> map_of (be_items be q) key = Some a \<Longrightarrow> qs_uid e \<noteq> [] \<Longrightarrow>
      \<exists>i q1. i \<noteq> [] \<and> be_pop_by_key be e key q = (Ok (Some (i, a)), q1) \<and> inv (be_ack be i q1) \<and>
        map_of (be_items be (be_ack be i q1)) = (map_of (be_items be q))(key := None)"
    and push_new: "inv q \<Longrightarrow> fresh e p q \<Longrightarrow> inv (be_push be e a p g q) \<and>
      (\<exists>key. key \<notin> fst ` set (be_items be q) \<and>
        map_of (be_items be (be_push be e a p g q)) = (map_of (be_items be q))(key \<mapsto> a))"
    and size_items: "inv q \<Longrightarrow> be_size be q = length (be_items be q)"
begin

lemma items_eq_map_of: "inv q \<Longrightarrow> set (be_items be q) = {(k, a). map_of (be_items be q) k = Some a}"
  using items_distinct [of q] by auto

lemma tq_items_set:
  "inv q \<Longrightarrow> set (tq_items be cd q) = {(k, m). \<exists>a. map_of (be_items be q) k = Some a \<and> cd_dec cd a = Some m}"
  unfolding tq_items_def map_filter_def using items_distinct [of q] by force

lemma tq_items_distinct: "inv q \<Longrightarrow> distinct (map fst (tq_items be cd q))"
proof -
  have "distinct (map fst xs) \<Longrightarrow>
      distinct (map fst (List.map_filter (\<lambda>(k, a). map_option (Pair k) (cd_dec cd a)) xs))" for xs :: "(string \<times> 'a) list"
  proof (induction xs)
    case (Cons x xs)
    then show ?case by (cases x) (force simp: List.map_filter_def split: option.splits)
  qed (simp add: List.map_filter_def)
  then show "inv q \<Longrightarrow> ?thesis" using items_distinct by (simp add: tq_items_def)
qed

lemma tq_claim:
  assumes "inv q" "(key, m) \<in> set (tq_items be cd q)" "qs_uid e \<noteq> []"
  obtains i q1 where "i \<noteq> []" "tq_pop_by_key be cd e key q = (Ok (Some (i, m)), q1)" "inv (tq_ack be i q1)"
    "set (tq_items be cd (tq_ack be i q1)) = {x \<in> set (tq_items be cd q). fst x \<noteq> key}"
proof -
  obtain a where a: "map_of (be_items be q) key = Some a" "cd_dec cd a = Some m"
    using assms by (auto simp: tq_items_set)
  obtain i q1 where c: "i \<noteq> []" "be_pop_by_key be e key q = (Ok (Some (i, a)), q1)" "inv (be_ack be i q1)"
    "map_of (be_items be (be_ack be i q1)) = (map_of (be_items be q))(key := None)"
    using claim_listed [OF assms(1) a(1) assms(3)] by blast
  show ?thesis
    by (rule that [of i q1])
      (use c a assms(1) in \<open>auto simp: tq_pop_by_key_def decoded_msg_def decode_def tq_ack_def tq_items_set split: if_splits\<close>)
qed

lemma tq_push_adds:
  assumes "inv q" "calculate_priority ctx_of m = Ok p" "fresh e p q" "cd_dec cd (cd_enc cd m) = Some m"
  obtains key q1 where "tq_push be cd ctx_of e m q = (Ok (), q1)" "inv q1" "key \<notin> fst ` set (tq_items be cd q)"
    "set (tq_items be cd q1) = insert (key, m) (set (tq_items be cd q))"
proof -
  let ?q1 = "be_push be e (cd_enc cd m) p (Some (md_job_id m)) q"
  obtain key where k: "key \<notin> fst ` set (be_items be q)"
    "map_of (be_items be ?q1) = (map_of (be_items be q))(key \<mapsto> cd_enc cd m)" and i: "inv ?q1"
    using push_new [OF assms(1,3)] by blast
  have n: "map_of (be_items be q) key = None" using k(1) by (simp add: map_of_eq_None_iff)
  show ?thesis
    by (rule that [of ?q1 key])
      (use assms(1,2,4) k(2) i n in \<open>auto simp: tq_push_def tq_items_set split: if_splits\<close>)
qed

end


section \<open>The disk-backed back end\<close>

text \<open>
  A Message built by the disk queue is its id and data. Listing and claiming only need every cell to be
  of the kind its key says; whether the fresh id really is fresh plays no part for the others.
\<close>

definition message_of :: "(string \<times> 'a \<times> 'md) option res \<Rightarrow> (string \<times> 'a) option res" where
  "message_of r = res_bind r (\<lambda>o_msg. Ok (map_option (\<lambda>(i, a, md). (i, a)) o_msg))"

definition disk_backend :: "('s, 'a, 'md) index \<Rightarrow> nat \<Rightarrow> 'md \<Rightarrow> ('s disk_queue, 'a) backend_ops" where
  "disk_backend ix visibility no_md = \<lparr>
     be_push = (\<lambda>e a p g q. disk_push ix (qs_now e) (qs_uid e) (qs_later e) p g no_md a q),
     be_pop = (\<lambda>e q. let (r, q1) = disk_queue_pop ix (qs_now e) visibility (qs_now e) (qs_later e) (qs_uid e) q
               in (message_of r, q1)),
     be_pop_by_key = (\<lambda>e k q. let (r, q1) = pop_by_key ix visibility (qs_now e) (qs_later e) (qs_uid e) k q
               in (message_of r, q1)),
     be_ack = disk_ack ix,
     be_items = disk_items ix,
     be_size = disk_size ix,
     be_peek = (\<lambda>q. message_of (disk_peek ix q))\<rparr>"

definition cells_ok :: "('s, 'a, 'md) index \<Rightarrow> 's disk_queue \<Rightarrow> bool" where
  "cells_ok ix q \<longleftrightarrow> (\<forall>k c. ix_get ix (dk_cache q) k = Some c \<longrightarrow> cell_ok (k, c))"

definition stamp_unused :: "('s, 'a, 'md) index \<Rightarrow> queue_stamp \<Rightarrow> int \<Rightarrow> 's disk_queue \<Rightarrow> bool" where
  "stamp_unused ix e p q \<longleftrightarrow> ix_get ix (dk_cache q) (make_queue_key p (qs_now e) (qs_uid e)) = None"

context cell_index
begin

lemma items_map:
  "map_of (disk_items ix q) k = (if prefix QUEUE_NAMESPACE k then map_option cell_data (ix_get ix (dk_cache q) k) else None)"
proof -
  have m: "map_of (List.map_filter (\<lambda>k. map_option (\<lambda>c. (k, cell_data c)) (ix_get ix (dk_cache q) k)) ks) k =
      (if k \<in> set ks then map_option cell_data (ix_get ix (dk_cache q) k) else None)" for ks
    by (induction ks) (auto simp: List.map_filter_def split: option.splits)
  show ?thesis unfolding disk_items_def m by (auto simp: queue_keys_iff)
qed

lemma items_keys_eq: "map fst (disk_items ix q) = get_queue_keys ix q"
proof -
  have "\<forall>k\<in>set ks. ix_get ix (dk_cache q) k \<noteq> None \<Longrightarrow>
      map fst (List.map_filter (\<lambda>k. map_option (\<lambda>c. (k, cell_data c)) (ix_get ix (dk_cache q) k)) ks) = ks" for ks
    by (induction ks) (auto simp: List.map_filter_def split: option.splits)
  then show ?thesis by (simp add: disk_items_def queue_keys_iff)
qed

lemma claim_by_key:
  assumes ok: "cells_ok ix q" and a: "map_of (disk_items ix q) key = Some a"
  shows "\<exists>i q1. i = uid \<and> (let (r, q1) = pop_by_key ix vis t1 t2 uid key q in (message_of r, q1)) = (Ok (Some (i, a)), q1) \<and>
    cells_ok ix (disk_ack ix i q1) \<and>
    map_of (disk_items ix (disk_ack ix i q1)) = (map_of (disk_items ix q))(key := None)"
proof -
  have key: "prefix QUEUE_NAMESPACE key" using a by (simp add: items_map split: if_splits)
  then obtain c where c: "ix_get ix (dk_cache q) key = Some c" "a = cell_data c" using a by (auto simp: items_map)
  have "cell_ok (key, c)" using ok c(1) by (simp add: cells_ok_def)
  then obtain v where v: "c = Waiting v" using key by (cases c) (auto dest: prefix_apart)
  define q1 where "q1 = snd (pop_by_key ix vis t1 t2 uid key q)"
  have get1: "ix_get ix (dk_cache (disk_ack ix uid q1)) k =
      (if k = key \<or> k = make_processing_key uid then None else ix_get ix (dk_cache q) k)" for k
    using c(1) v by (simp add: q1_def pop_by_key_def disk_ack_def Let_def get_set get_del)
  have "cells_ok ix (disk_ack ix uid q1)" using ok by (auto simp: cells_ok_def get1)
  moreover have "map_of (disk_items ix (disk_ack ix uid q1)) = (map_of (disk_items ix q))(key := None)"
    by (rule ext) (auto simp: items_map get1)
  moreover have "(let (r, q1) = pop_by_key ix vis t1 t2 uid key q in (message_of r, q1)) = (Ok (Some (uid, a)), q1)"
    using c v by (simp add: q1_def pop_by_key_def message_of_def Let_def cell_data_def)
  ultimately show ?thesis by blast
qed

lemma push_by_key:
  assumes ok: "cells_ok ix q" and new: "stamp_unused ix e p q"
  shows "cells_ok ix (disk_push ix (qs_now e) (qs_uid e) (qs_later e) p g md a q) \<and>
    (\<exists>key. key \<notin> fst ` set (disk_items ix q) \<and>
      map_of (disk_items ix (disk_push ix (qs_now e) (qs_uid e) (qs_later e) p g md a q)) =
        (map_of (disk_items ix q))(key \<mapsto> a))"
proof -
  let ?k = "make_queue_key p (qs_now e) (qs_uid e)"
  have "map_of (disk_items ix q) ?k = None" using new by (simp add: items_map stamp_unused_def)
  then have k: "?k \<notin> fst ` set (disk_items ix q)" by (simp add: map_of_eq_None_iff)
  have "cells_ok ix (disk_push ix (qs_now e) (qs_uid e) (qs_later e) p g md a q)"
    using ok by (auto simp: cells_ok_def disk_push_def get_set)
  moreover have "map_of (disk_items ix (disk_push ix (qs_now e) (qs_uid e) (qs_later e) p g md a q)) =
      (map_of (disk_items ix q))(?k \<mapsto> a)"
    by (rule ext) (auto simp: items_map disk_push_def get_set cell_data_def)
  ultimately show ?thesis using k by blast
qed

end

sublocale cell_index \<subseteq> tb: task_backend "disk_backend ix visibility no_md" "cells_ok ix" "stamp_unused ix"
  for visibility no_md
proof
  fix q :: "'s disk_queue"
  assume ok: "cells_ok ix q"
  show "distinct (map fst (be_items (disk_backend ix visibility no_md) q))"
    by (simp add: disk_backend_def items_keys_eq get_queue_keys_def distinct_keys)
  show "be_size (disk_backend ix visibility no_md) q = length (be_items (disk_backend ix visibility no_md) q)"
    using arg_cong [OF items_keys_eq [of q], of length] by (simp add: disk_backend_def disk_size_def)
  fix key a and e :: queue_stamp
  assume uid: "qs_uid e \<noteq> []" and "map_of (be_items (disk_backend ix visibility no_md) q) key = Some a"
  then show "\<exists>i q1. i \<noteq> [] \<and> be_pop_by_key (disk_backend ix visibility no_md) e key q = (Ok (Some (i, a)), q1) \<and>
      cells_ok ix (be_ack (disk_backend ix visibility no_md) i q1) \<and>
      map_of (be_items (disk_backend ix visibility no_md) (be_ack (disk_backend ix visibility no_md) i q1)) =
        (map_of (be_items (disk_backend ix visibility no_md) q))(key := None)"
    using claim_by_key [OF ok] uid by (fastforce simp: disk_backend_def)
next
  fix q :: "'s disk_queue" and e p a g
  assume "cells_ok ix q" "stamp_unused ix e p q"
  then show "cells_ok ix (be_push (disk_backend ix visibility no_md) e a p g q) \<and>
      (\<exists>key. key \<notin> fst ` set (be_items (disk_backend ix visibility no_md) q) \<and>
        map_of (be_items (disk_backend ix visibility no_md) (be_push (disk_backend ix visibility no_md) e a p g q)) =
          (map_of (be_items (disk_backend ix visibility no_md) q))(key \<mapsto> a))"
    by (simp add: disk_backend_def push_by_key)
qed

end
