(* ===== verification/Breaker.thy ===== *)
theory Breaker
  imports KVCache Complex_Main
begin

text \<open>
  Fault isolation: the circuit breaker of \<open>libs/resilience/circuit_breaker.py\<close> as a state machine,
  and the shared service registry of \<open>services/health/monitor.py\<close> with the decorator that loads
  a breaker from it before every call and writes the verdict back.
\<close>


section \<open>The breaker\<close>

datatype breaker_state = CLOSED | OPEN | HALF_OPEN

fun state_name :: "breaker_state \<Rightarrow> string" where
  "state_name CLOSED = ''CLOSED''"
| "state_name OPEN = ''OPEN''"
| "state_name HALF_OPEN = ''HALF_OPEN''"

definition breaker_state_of :: "string \<Rightarrow> breaker_state res" where
  "breaker_state_of s =
    (if s = ''CLOSED'' then Ok CLOSED else if s = ''OPEN'' then Ok OPEN
     else if s = ''HALF_OPEN'' then Ok HALF_OPEN else Err ValueError)"

lemma breaker_state_of_name [simp]: "breaker_state_of (state_name s) = Ok s"
  by (cases s) (simp_all add: breaker_state_of_def)

record breaker =
  br_limit :: nat
  br_timeout :: rat
  br_state :: breaker_state
  br_failures :: nat
  br_last_failure :: "rat option"

definition breaker_init :: "nat \<Rightarrow> rat \<Rightarrow> breaker" where
  "breaker_init limit timeout =
     \<lparr>br_limit = limit, br_timeout = timeout, br_state = CLOSED, br_failures = 0, br_last_failure = None\<rparr>"

text \<open>\<open>now\<close> is the monotonic clock; a missing (or zero) last failure counts as time 0.\<close>

definition since_failure :: "breaker \<Rightarrow> rat \<Rightarrow> rat" where
  "since_failure b now = now - (case br_last_failure b of None \<Rightarrow> 0 | Some t \<Rightarrow> t)"

definition check_before_call :: "breaker \<Rightarrow> rat \<Rightarrow> breaker res" where
  "check_before_call b now =
    (if br_state b \<noteq> OPEN then Ok b
     else if since_failure b now \<ge> br_timeout b then Ok (b\<lparr>br_state := HALF_OPEN\<rparr>)
     else Err CircuitOpenError)"

definition succeed :: "breaker \<Rightarrow> breaker" where
  "succeed b = b\<lparr>br_state := CLOSED, br_failures := 0\<rparr>"

definition fail :: "breaker \<Rightarrow> rat \<Rightarrow> breaker" where
  "fail b now =
    (let b1 = b\<lparr>br_failures := br_failures b + 1\<rparr> in
     if br_state b1 = HALF_OPEN \<or> br_failures b1 \<ge> br_limit b1
     then b1\<lparr>br_state := OPEN, br_last_failure := Some now\<rparr> else b1)"

text \<open>
  A guarded call: what the function does, and whether its exception is one the breaker tracks.
  \<open>now\<close> is the time of the check, \<open>later\<close> that of the failure.
\<close>

datatype call_outcome = Returns | Raises_tracked | Raises_other

datatype call_result = Refused | Done call_outcome

fun guarded_call :: "breaker \<Rightarrow> rat \<Rightarrow> rat \<Rightarrow> call_outcome \<Rightarrow> call_result \<times> breaker" where
  "guarded_call b now later out =
    (case check_before_call b now of
       Err _ \<Rightarrow> (Refused, b)
     | Ok b1 \<Rightarrow> (Done out, case out of
          Returns \<Rightarrow> succeed b1
        | Raises_tracked \<Rightarrow> fail b1 later
        | Raises_other \<Rightarrow> b1))"

declare guarded_call.simps [simp del]

text \<open>Calls in sequence: one transition per call.\<close>

inductive breaker_step :: "breaker \<Rightarrow> breaker \<Rightarrow> bool" where
  "now \<le> later \<Longrightarrow> breaker_step b (snd (guarded_call b now later out))"

inductive_simps breaker_step_iff: "breaker_step b b'"

definition breaker_inv :: "breaker \<Rightarrow> bool" where
  "breaker_inv b \<longleftrightarrow>
     (br_state b = CLOSED \<longrightarrow> br_failures b < br_limit b) \<and>
     (br_state b \<noteq> CLOSED \<longrightarrow> br_last_failure b \<noteq> None \<and> br_failures b \<ge> 1)"

lemma check_cases:
  obtains "check_before_call b now = Ok b" "br_state b \<noteq> OPEN"
  | "check_before_call b now = Ok (b\<lparr>br_state := HALF_OPEN\<rparr>)" "br_state b = OPEN" "since_failure b now \<ge> br_timeout b"
  | "check_before_call b now = Err CircuitOpenError" "br_state b = OPEN" "since_failure b now < br_timeout b"
  by (cases "br_state b = OPEN"; cases "since_failure b now \<ge> br_timeout b")
    (auto simp: check_before_call_def)

lemma fail_inv:
  "breaker_inv b \<Longrightarrow> br_state b \<noteq> OPEN \<Longrightarrow> breaker_inv (fail b t)"
  by (auto simp: breaker_inv_def fail_def Let_def)

lemma guarded_call_inv:
  assumes "breaker_inv b" "0 < br_limit b"
  shows "breaker_inv (snd (guarded_call b now later out))"
    and "br_limit (snd (guarded_call b now later out)) = br_limit b"
    and "br_timeout (snd (guarded_call b now later out)) = br_timeout b"
proof -
  have half: "breaker_inv (b\<lparr>br_state := HALF_OPEN\<rparr>)" if "br_state b = OPEN"
    using assms(1) that by (auto simp: breaker_inv_def)
  have "breaker_inv (snd (guarded_call b now later out)) \<and>
      br_limit (snd (guarded_call b now later out)) = br_limit b \<and>
      br_timeout (snd (guarded_call b now later out)) = br_timeout b"
    by (cases rule: check_cases [of b now]; cases out)
      (use assms half fail_inv [OF assms(1), of later] fail_inv [OF half, of later] in
        \<open>auto simp: guarded_call.simps succeed_def fail_def Let_def breaker_inv_def\<close>)
  then show "breaker_inv (snd (guarded_call b now later out))"
    "br_limit (snd (guarded_call b now later out)) = br_limit b"
    "br_timeout (snd (guarded_call b now later out)) = br_timeout b" by auto
qed

lemma reachable_inv:
  assumes "breaker_step\<^sup>*\<^sup>* b b'" "breaker_inv b" "0 < br_limit b"
  shows "breaker_inv b'" "br_limit b' = br_limit b" "br_timeout b' = br_timeout b"
proof -
  have "breaker_inv b' \<and> br_limit b' = br_limit b \<and> br_timeout b' = br_timeout b"
    using assms by (induction rule: rtranclp_induct) (auto simp: breaker_step_iff guarded_call_inv)
  then show "breaker_inv b'" "br_limit b' = br_limit b" "br_timeout b' = br_timeout b" by auto
qed

lemma breaker_init_inv: "0 < limit \<Longrightarrow> breaker_inv (breaker_init limit t)"
  by (simp add: breaker_inv_def breaker_init_def)

text \<open>A run of tracked failures against a closed breaker.\<close>

fun failing_calls :: "rat list \<Rightarrow> breaker \<Rightarrow> breaker" where
  "failing_calls [] b = b"
| "failing_calls (t # ts) b = failing_calls ts (snd (guarded_call b t t Raises_tracked))"

lemma failing_call_closed:
  "br_state b = CLOSED \<Longrightarrow> br_failures b + 1 < br_limit b \<Longrightarrow>
     snd (guarded_call b t t Raises_tracked) = b\<lparr>br_failures := br_failures b + 1\<rparr>"
  by (auto simp: guarded_call.simps check_before_call_def fail_def Let_def)

lemma failing_calls_closed:
  "br_state b = CLOSED \<Longrightarrow> br_failures b + length ts < br_limit b \<Longrightarrow>
     failing_calls ts b = b\<lparr>br_failures := br_failures b + length ts\<rparr>"
  by (induction ts arbitrary: b) (simp_all add: failing_call_closed)

lemma failing_call_opens:
  "br_state b = CLOSED \<Longrightarrow> br_failures b + 1 = br_limit b \<Longrightarrow>
     snd (guarded_call b t t Raises_tracked) =
       b\<lparr>br_state := OPEN, br_failures := br_limit b, br_last_failure := Some t\<rparr>"
  by (auto simp: guarded_call.simps check_before_call_def fail_def Let_def)

lemma failing_calls_append: "failing_calls (ts @ us) b = failing_calls us (failing_calls ts b)"
  by (induction ts arbitrary: b) simp_all

text \<open>
  C37. The breaker isolates a failing service. In every state it can reach: while open and before its
  time-out has passed since the last failure, a call is refused without running the function and
  nothing changes; once it has passed, one call goes through, success closes the breaker with no
  failures on record and a tracked failure opens it again as of that failure. While closed it has
  fewer failures than its limit, and it opens at exactly the failure that reaches the limit.
\<close>

theorem breaker_isolates:
  assumes reach: "breaker_step\<^sup>*\<^sup>* (breaker_init n T) b" and n: "0 < n"
  shows "(br_state b = OPEN \<longrightarrow> (\<exists>t. br_last_failure b = Some t \<and>
      (now - t < T \<longrightarrow> guarded_call b now later out = (Refused, b)) \<and>
      (now - t \<ge> T \<longrightarrow>
         guarded_call b now later Returns = (Done Returns, b\<lparr>br_state := CLOSED, br_failures := 0\<rparr>) \<and>
         fst (guarded_call b now later Raises_tracked) = Done Raises_tracked \<and>
         br_state (snd (guarded_call b now later Raises_tracked)) = OPEN \<and>
         br_last_failure (snd (guarded_call b now later Raises_tracked)) = Some later))) \<and>
    (br_state b = CLOSED \<longrightarrow> br_failures b < n \<and>
      (br_failures b + length ts + 1 < n \<longrightarrow> br_state (failing_calls (ts @ [t]) b) = CLOSED) \<and>
      (br_failures b + length ts + 1 = n \<longrightarrow> br_state (failing_calls (ts @ [t]) b) = OPEN \<and>
         br_last_failure (failing_calls (ts @ [t]) b) = Some t))"
proof -
  note inv = reachable_inv [OF reach breaker_init_inv [OF n]]
  have i: "breaker_inv b" "br_limit b = n" "br_timeout b = T"
    using inv n by (simp_all add: breaker_init_def)
  show ?thesis
  proof (intro conjI impI)
    assume o: "br_state b = OPEN"
    then obtain t where t: "br_last_failure b = Some t" using i(1) by (auto simp: breaker_inv_def)
    show "\<exists>t. br_last_failure b = Some t \<and>
      (now - t < T \<longrightarrow> guarded_call b now later out = (Refused, b)) \<and>
      (now - t \<ge> T \<longrightarrow>
         guarded_call b now later Returns = (Done Returns, b\<lparr>br_state := CLOSED, br_failures := 0\<rparr>) \<and>
         fst (guarded_call b now later Raises_tracked) = Done Raises_tracked \<and>
         br_state (snd (guarded_call b now later Raises_tracked)) = OPEN \<and>
         br_last_failure (snd (guarded_call b now later Raises_tracked)) = Some later)"
      by (rule exI [of _ t])
        (use o t i in \<open>simp add: guarded_call.simps check_before_call_def since_failure_def succeed_def fail_def Let_def\<close>)
  next
    assume c: "br_state b = CLOSED"
    show "br_failures b < n" using i c by (simp add: breaker_inv_def)
    show "br_state (failing_calls (ts @ [t]) b) = CLOSED" if "br_failures b + length ts + 1 < n"
      using failing_calls_closed [of b "ts @ [t]"] c i that by simp
    assume l: "br_failures b + length ts + 1 = n"
    have "failing_calls (ts @ [t]) b =
        b\<lparr>br_state := OPEN, br_failures := n, br_last_failure := Some t\<rparr>"
      using failing_calls_closed [of b ts] failing_call_opens [of "b\<lparr>br_failures := br_failures b + length ts\<rparr>" t] c i l
      by (simp add: failing_calls_append)
    then show "br_state (failing_calls (ts @ [t]) b) = OPEN"
      "br_last_failure (failing_calls (ts @ [t]) b) = Some t" by simp_all
  qed
qed

theorem breaker_isolates_witness:
  "guarded_call (breaker_init 1 60\<lparr>br_state := OPEN, br_failures := 1, br_last_failure := Some 5\<rparr>) 30 31 Returns =
     (Refused, breaker_init 1 60\<lparr>br_state := OPEN, br_failures := 1, br_last_failure := Some 5\<rparr>)"
proof -
  have "snd (guarded_call (breaker_init 1 60) 5 5 Raises_tracked) =
      breaker_init 1 60\<lparr>br_state := OPEN, br_failures := 1, br_last_failure := Some 5\<rparr>"
    by (simp add: guarded_call.simps check_before_call_def fail_def breaker_init_def)
  then have "breaker_step\<^sup>*\<^sup>* (breaker_init 1 60)
      (breaker_init 1 60\<lparr>br_state := OPEN, br_failures := 1, br_last_failure := Some 5\<rparr>)"
    by (metis breaker_step.intros order_refl r_into_rtranclp)
  from breaker_isolates [OF this, of 30 31 Returns] show ?thesis by simp
qed


section \<open>The shared registry\<close>

text \<open>
  Every worker reads and writes one key-value cache (the disk adapter, name space \<open>svc\<close>) and a
  directory of outage markers. Values are state names and numbers.
\<close>

datatype svc_value = SStr string | SNum rat

record 's registry =
  rg_cache :: 's
  rg_signals :: "string set"

type_synonym 's svc_server = "('s, svc_value option) server"

definition REGISTRY_NAMESPACE :: string where
  "REGISTRY_NAMESPACE = ''svc''"

definition svc_key :: "string \<Rightarrow> string \<Rightarrow> string" where
  "svc_key sfx name = ''svc:'' @ sfx @ '':'' @ name"

definition rg_get :: "'s svc_server \<Rightarrow> 's registry \<Rightarrow> string \<Rightarrow> svc_value option" where
  "rg_get srv g k = disk_get srv REGISTRY_NAMESPACE (rg_cache g) k None"

definition rg_set :: "'s svc_server \<Rightarrow> string \<Rightarrow> svc_value \<Rightarrow> int option \<Rightarrow> 's registry \<Rightarrow> 's registry" where
  "rg_set srv k v ttl g = g\<lparr>rg_cache := disk_set srv REGISTRY_NAMESPACE (rg_cache g) k (Some v) ttl\<rparr>"

definition rg_delete :: "'s svc_server \<Rightarrow> string \<Rightarrow> 's registry \<Rightarrow> 's registry" where
  "rg_delete srv k g = g\<lparr>rg_cache := snd (disk_delete srv REGISTRY_NAMESPACE (rg_cache g) k)\<rparr>"

definition get_state :: "'s svc_server \<Rightarrow> 's registry \<Rightarrow> string \<Rightarrow> svc_value" where
  "get_state srv g name = (case rg_get srv g (svc_key ''state'' name) of
     None \<Rightarrow> SStr ''CLOSED'' | Some v \<Rightarrow> v)"

text \<open>\<open>float\<close> of a cached value, 0 by default; a state name is not a number.\<close>

definition get_number :: "'s svc_server \<Rightarrow> 's registry \<Rightarrow> string \<Rightarrow> string \<Rightarrow> rat res" where
  "get_number srv g sfx name = (case rg_get srv g (svc_key sfx name) of
     None \<Rightarrow> Ok 0 | Some (SNum r) \<Rightarrow> Ok r | Some (SStr _) \<Rightarrow> Err ValueError)"

definition get_failures :: "'s svc_server \<Rightarrow> 's registry \<Rightarrow> string \<Rightarrow> nat res" where
  "get_failures srv g name = res_bind (get_number srv g ''failures'' name) (\<lambda>r. Ok (nat \<lfloor>r\<rfloor>))"

definition get_last_failure :: "'s svc_server \<Rightarrow> 's registry \<Rightarrow> string \<Rightarrow> rat res" where
  "get_last_failure srv g name = get_number srv g ''last_failure'' name"

definition outage_file :: "string \<Rightarrow> string" where
  "outage_file name = str_lower name @ ''.outage''"

definition set_state :: "'s svc_server \<Rightarrow> string \<Rightarrow> breaker_state \<Rightarrow> 's registry \<Rightarrow> 's registry" where
  "set_state srv name st g =
    (let g1 = rg_set srv (svc_key ''state'' name) (SStr (state_name st)) None g in
     g1\<lparr>rg_signals := (if st = OPEN then insert (outage_file name) (rg_signals g1)
                       else rg_signals g1 - {outage_file name})\<rparr>)"

definition is_healthy :: "'s svc_server \<Rightarrow> 's registry \<Rightarrow> string \<Rightarrow> bool" where
  "is_healthy srv g name \<longleftrightarrow> get_state srv g name = SStr ''CLOSED''"

text \<open>\<open>record_failure\<close>: \<open>now\<close> is the wall clock; reports within the debounce window are dropped.\<close>

definition record_failure ::
  "'s svc_server \<Rightarrow> string \<Rightarrow> rat \<Rightarrow> rat \<Rightarrow> 's registry \<Rightarrow> (nat \<times> 's registry) res"
where
  "record_failure srv name debounce now g =
    res_bind (get_number srv g ''last_reported'' name) (\<lambda>last_reported.
    res_bind (get_failures srv g name) (\<lambda>failures.
      if now - last_reported < debounce then Ok (failures, g)
      else
        (let new_count = failures + 1;
             g1 = rg_set srv (svc_key ''failures'' name) (SNum (of_nat new_count)) None g;
             g2 = rg_set srv (svc_key ''last_reported'' name) (SNum now) None g1;
             g3 = rg_set srv (svc_key ''last_failure'' name) (SNum now) None g2;
             g4 = (if new_count \<ge> 3 \<and> get_state srv g3 name \<noteq> SStr ''OPEN''
                   then rg_set srv (svc_key ''state'' name) (SStr ''OPEN'') (Some 3600) g3 else g3)
         in Ok (new_count, g4))))"

definition reset_service :: "'s svc_server \<Rightarrow> string \<Rightarrow> 's registry \<Rightarrow> 's registry" where
  "reset_service srv name g =
    set_state srv name CLOSED
      (fold (\<lambda>sfx. rg_delete srv (svc_key sfx name)) [''failures'', ''last_failure'', ''last_reported''] g)"

text \<open>\<open>probe\<close>: the outcome of the probe is an argument, \<open>None\<close> when it raises.\<close>

definition probe :: "'s svc_server \<Rightarrow> string \<Rightarrow> bool option \<Rightarrow> 's registry \<Rightarrow> bool \<times> 's registry" where
  "probe srv name out g = (if out = Some True then (True, reset_service srv name g) else (False, g))"

text \<open>
  The decorator. \<open>mt\<close> and \<open>mt'\<close> are monotonic readings, \<open>wall\<close> the wall clock. The refusal branch
  writes the half-open state only when the breaker is half open.
\<close>

definition monitored_call ::
  "'s svc_server \<Rightarrow> string \<Rightarrow> rat \<Rightarrow> rat \<Rightarrow> rat \<Rightarrow> call_outcome \<Rightarrow> breaker \<Rightarrow> 's registry \<Rightarrow>
   (call_result \<times> breaker \<times> 's registry) res"
where
  "monitored_call srv name mt mt' wall out b g =
    res_bind (case get_state srv g name of SStr s \<Rightarrow> breaker_state_of s | SNum _ \<Rightarrow> Err ValueError) (\<lambda>st.
    res_bind (get_failures srv g name) (\<lambda>fs.
    res_bind (get_last_failure srv g name) (\<lambda>lf.
      let b0 = b\<lparr>br_state := st, br_failures := fs, br_last_failure := Some lf\<rparr> in
      case check_before_call b0 mt of
        Err _ \<Rightarrow> Ok (Refused, b0, if br_state b0 = HALF_OPEN then set_state srv name HALF_OPEN g else g)
      | Ok b1 \<Rightarrow> (case out of
          Returns \<Rightarrow> Ok (Done Returns, succeed b1, reset_service srv name g)
        | Raises_tracked \<Rightarrow>
            (let b2 = fail b1 mt' in
             res_bind (record_failure srv name 5 wall g) (\<lambda>(k, g1).
               Ok (Done Raises_tracked, b2, set_state srv name (br_state b2) g1)))
        | Raises_other \<Rightarrow> Ok (Done Raises_other, b1, g)))))"

lemma svc_key_inj [simp]: "svc_key a n = svc_key b n \<longleftrightarrow> a = b"
  by (simp add: svc_key_def)

lemma prefixed_svc [simp]: "prefixed REGISTRY_NAMESPACE (svc_key a n) = svc_key a n"
  by (simp add: prefixed_def ns_prefix_def REGISTRY_NAMESPACE_def svc_key_def)

context kv_server
begin

lemma disk_read_back: "disk_get srv ns (disk_set srv ns s k v ttl) k' d =
    (if prefixed ns k' = prefixed ns k then v else disk_get srv ns s k' d)"
  by (simp add: disk_get_def disk_set_def get_set)

lemma disk_read_deleted: "disk_get srv ns (snd (disk_delete srv ns s k)) k' d =
    (if prefixed ns k' = prefixed ns k then d else disk_get srv ns s k' d)"
  by (auto simp: disk_get_def disk_delete_def get_del split: option.splits)

end

lemma rg_read_back:
  assumes "kv_server srv"
  shows "rg_get srv (rg_set srv (svc_key a n) v ttl g) (svc_key b n) =
    (if b = a then Some v else rg_get srv g (svc_key b n))"
  by (simp add: rg_get_def rg_set_def kv_server.disk_read_back [OF assms])

lemma rg_read_deleted:
  assumes "kv_server srv"
  shows "rg_get srv (rg_delete srv (svc_key a n) g) (svc_key b n) =
    (if b = a then None else rg_get srv g (svc_key b n))"
  by (simp add: rg_get_def rg_delete_def kv_server.disk_read_deleted [OF assms])

lemma rg_get_signals [simp]: "rg_get srv (g\<lparr>rg_signals := x\<rparr>) k = rg_get srv g k"
  by (simp add: rg_get_def)

lemma set_state_reads:
  assumes "kv_server srv"
  shows "get_state srv (set_state srv n st g) n = SStr (state_name st)"
    and "a \<noteq> ''state'' \<Longrightarrow> rg_get srv (set_state srv n st g) (svc_key a n) = rg_get srv g (svc_key a n)"
    and "outage_file n \<in> rg_signals (set_state srv n st g) \<longleftrightarrow> st = OPEN"
  by (auto simp: get_state_def set_state_def Let_def rg_read_back [OF assms])

lemma reset_reads:
  assumes "kv_server srv"
  shows "is_healthy srv (reset_service srv n g) n"
    and "get_failures srv (reset_service srv n g) n = Ok 0"
    and "outage_file n \<notin> rg_signals (reset_service srv n g)"
  by (simp_all add: reset_service_def is_healthy_def set_state_reads [OF assms] get_failures_def
      get_number_def rg_read_deleted [OF assms])

lemma record_failure_reads:
  assumes kv: "kv_server srv" and lr: "get_number srv g ''last_reported'' n = Ok lr"
    and fs: "get_failures srv g n = Ok k" and late: "wall - lr \<ge> debounce"
  obtains g1 where "record_failure srv n debounce wall g = Ok (k + 1, g1)"
    "get_last_failure srv g1 n = Ok wall" "get_failures srv g1 n = Ok (k + 1)"
proof -
  define g3 where "g3 = rg_set srv (svc_key ''last_failure'' n) (SNum wall) None
    (rg_set srv (svc_key ''last_reported'' n) (SNum wall) None
      (rg_set srv (svc_key ''failures'' n) (SNum (of_nat (k + 1))) None g))"
  define g4 where "g4 = (if k + 1 \<ge> 3 \<and> get_state srv g3 n \<noteq> SStr ''OPEN''
    then rg_set srv (svc_key ''state'' n) (SStr ''OPEN'') (Some 3600) g3 else g3)"
  have "record_failure srv n debounce wall g = Ok (k + 1, g4)"
    using lr fs late by (simp add: record_failure_def Let_def g4_def g3_def)
  moreover have "get_last_failure srv g4 n = Ok wall" "get_failures srv g4 n = Ok (k + 1)"
    by (auto simp: get_last_failure_def get_failures_def get_number_def g4_def g3_def rg_read_back [OF kv])
  ultimately show ?thesis by (rule that)
qed

text \<open>
  A tripped service stays refused. When a tracked failure brings the recorded count to the
  breaker's limit, the registry holds \<open>OPEN\<close>, the outage marker and the failure's wall-clock time. From
  then on every worker's call is refused with the registry unchanged for as long as its monotonic
  clock has not passed that wall-clock time plus the time-out, which a machine's up-time never
  does: the trial call the time-out promises is not made. A successful probe makes the service
  healthy again, with no failures and no marker.
\<close>

theorem tripped_service_stays_refused:
  assumes kv: "kv_server srv"
    and closed: "get_state srv g name = SStr ''CLOSED''" and fs: "get_failures srv g name = Ok k"
    and limit: "br_limit b \<le> k + 1" and lr: "get_number srv g ''last_reported'' name = Ok lr"
    and late: "wall - lr \<ge> 5" and lf: "get_last_failure srv g name = Ok t0"
  shows "\<exists>b1 g1. monitored_call srv name mt mt' wall Raises_tracked b g = Ok (Done Raises_tracked, b1, g1) \<and>
    get_state srv g1 name = SStr ''OPEN'' \<and> outage_file name \<in> rg_signals g1 \<and>
    (\<forall>b2 m m' w out. m - wall < br_timeout b2 \<longrightarrow>
       (\<exists>b3. monitored_call srv name m m' w out b2 g1 = Ok (Refused, b3, g1))) \<and>
    is_healthy srv (snd (probe srv name (Some True) g1)) name \<and>
    outage_file name \<notin> rg_signals (snd (probe srv name (Some True) g1))"
proof -
  obtain g0 where rec: "record_failure srv name 5 wall g = Ok (k + 1, g0)"
    and r0: "get_last_failure srv g0 name = Ok wall" "get_failures srv g0 name = Ok (k + 1)"
    by (rule record_failure_reads [OF kv lr fs late])
  define b0 where "b0 = b\<lparr>br_state := CLOSED, br_failures := k, br_last_failure := Some t0\<rparr>"
  define g1 where "g1 = set_state srv name OPEN g0"
  have call: "monitored_call srv name mt mt' wall Raises_tracked b g = Ok (Done Raises_tracked, fail b0 mt', g1)"
    using closed fs lf limit rec
    by (simp add: monitored_call_def breaker_state_of_def check_before_call_def b0_def fail_def Let_def g1_def)
  have g1: "get_state srv g1 name = SStr ''OPEN''" "outage_file name \<in> rg_signals g1"
    "get_last_failure srv g1 name = Ok wall" "get_failures srv g1 name = Ok (k + 1)"
    using r0 by (simp_all add: g1_def set_state_reads [OF kv] get_last_failure_def get_failures_def get_number_def)
  have refused: "\<exists>b3. monitored_call srv name m m' w out b2 g1 = Ok (Refused, b3, g1)"
    if "m - wall < br_timeout b2" for b2 m m' w out
    using that g1 by (simp add: monitored_call_def breaker_state_of_def check_before_call_def since_failure_def)
  have probe: "snd (probe srv name (Some True) g1) = reset_service srv name g1" by (simp add: probe_def)
  show ?thesis
    by (rule exI [of _ "fail b0 mt'"], rule exI [of _ g1])
      (use call g1 refused reset_reads [OF kv] in \<open>auto simp: probe\<close>)
qed

definition tripping_registry :: "(string, svc_value option \<times> int option) dict registry" where
  "tripping_registry = rg_set dict_server (svc_key ''failures'' ''db'') (SNum 2) None
     \<lparr>rg_cache = [], rg_signals = {}\<rparr>"

theorem tripped_service_stays_refused_witness:
  "\<exists>b1 g1. monitored_call dict_server ''db'' 900 901 1700000000 Raises_tracked (breaker_init 3 60) tripping_registry =
      Ok (Done Raises_tracked, b1, g1) \<and>
    (\<exists>b3. monitored_call dict_server ''db'' 90000 90001 1700086400 Returns (breaker_init 3 60) g1 = Ok (Refused, b3, g1))"
proof -
  have kv: "kv_server (dict_server :: ((string, svc_value option \<times> int option) dict, svc_value option) server)"
    by (rule dict_srv.kv_server_axioms)
  have empty: "rg_get dict_server \<lparr>rg_cache = [], rg_signals = {}\<rparr> k = None" for k
    by (simp add: rg_get_def disk_get_def dict_server_def mem_lookup_def live_def mem_at_def)
  note rd = rg_read_back [OF kv]
  have s: "get_state dict_server tripping_registry ''db'' = SStr ''CLOSED''"
    "get_failures dict_server tripping_registry ''db'' = Ok 2"
    "get_number dict_server tripping_registry ''last_reported'' ''db'' = Ok 0"
    "get_last_failure dict_server tripping_registry ''db'' = Ok 0"
    by (simp_all add: get_state_def get_failures_def get_last_failure_def get_number_def tripping_registry_def rd empty)
  have *: "br_limit (breaker_init 3 60) \<le> 2 + 1" "(1700000000 :: rat) - 0 \<ge> 5"
    "90000 - 1700000000 < br_timeout (breaker_init 3 60)"
    by (simp_all add: breaker_init_def)
  from tripped_service_stays_refused [OF kv s(1,2) *(1) s(3) *(2) s(4), of 900 901] *(3)
  show ?thesis by meson
qed

end
