(* ===== verification/SystemHealth.thy ===== *)
theory SystemHealth
  imports Pipeline Complex_Main
begin

text \<open>
  Host pressure and worker capacity: the health verdicts and the cached monitor with its disk
  window (\<open>services/health/system.py\<close>), and the admission test of the worker pool
  (\<open>core/orchestrator/common/task/compute.py\<close>). Readings of the host, the clock and the
  resources the cluster reports are arguments.
\<close>


section \<open>Verdicts\<close>

datatype health_status = HEALTHY | DEGRADED | H_CRITICAL | H_BLOCKED

definition status_order :: "health_status list" where
  "status_order = [HEALTHY, DEGRADED, H_CRITICAL, H_BLOCKED]"

definition severity :: "health_status \<Rightarrow> nat" where
  "severity s = (case py_index status_order s of None \<Rightarrow> 0 | Some i \<Rightarrow> i)"

lemma severity_simps [simp]:
  "severity HEALTHY = 0" "severity DEGRADED = 1" "severity H_CRITICAL = 2" "severity H_BLOCKED = 3"
  by (simp_all add: severity_def status_order_def)

lemma severity_inj: "severity s = severity t \<longleftrightarrow> s = t"
  by (cases s; cases t) simp_all

text \<open>Statuses are ordered as the source's \<open>status_order\<close> lists them, so the worst is the maximum.\<close>

instantiation health_status :: linorder
begin

definition less_eq_health_status :: "health_status \<Rightarrow> health_status \<Rightarrow> bool" where
  "less_eq_health_status s t \<longleftrightarrow> severity s \<le> severity t"

definition less_health_status :: "health_status \<Rightarrow> health_status \<Rightarrow> bool" where
  "less_health_status s t \<longleftrightarrow> severity s < severity t"

instance
  by standard (auto simp: less_eq_health_status_def less_health_status_def severity_inj)

end

lemmas health_order = less_eq_health_status_def less_health_status_def

definition evaluate :: "rat \<Rightarrow> rat \<Rightarrow> rat \<Rightarrow> rat \<Rightarrow> health_status" where
  "evaluate v warn critical blocked =
    (if v \<ge> blocked then H_BLOCKED else if v \<ge> critical then H_CRITICAL
     else if v \<ge> warn then DEGRADED else HEALTHY)"

definition disk_verdict :: "rat \<Rightarrow> health_status" where
  "disk_verdict pct = evaluate pct 75 85 95"

definition memory_verdict :: "rat \<Rightarrow> health_status" where
  "memory_verdict pct = evaluate pct 80 90 95"

record system_health =
  sh_disk_pct :: rat
  sh_memory_pct :: rat
  sh_disk :: health_status
  sh_memory :: health_status
  sh_status :: health_status

definition from_metrics :: "rat \<Rightarrow> rat \<Rightarrow> system_health" where
  "from_metrics disk mem =
    \<lparr>sh_disk_pct = disk, sh_memory_pct = mem, sh_disk = disk_verdict disk, sh_memory = memory_verdict mem,
     sh_status = max (disk_verdict disk) (memory_verdict mem)\<rparr>"

definition healthy_default :: system_health where
  "healthy_default = \<lparr>sh_disk_pct = 0, sh_memory_pct = 0, sh_disk = HEALTHY, sh_memory = HEALTHY, sh_status = HEALTHY\<rparr>"

definition report_is_degraded :: "system_health \<Rightarrow> bool" where
  "report_is_degraded h \<longleftrightarrow> sh_status h \<in> {DEGRADED, H_CRITICAL, H_BLOCKED}"

definition can_accept_new_tasks :: "system_health \<Rightarrow> bool" where
  "can_accept_new_tasks h \<longleftrightarrow> sh_status h \<noteq> H_BLOCKED"

definition should_throttle :: "system_health \<Rightarrow> bool" where
  "should_throttle h \<longleftrightarrow> sh_status h \<in> {DEGRADED, H_CRITICAL}"

definition report_disk_blocked :: "system_health \<Rightarrow> bool" where
  "report_disk_blocked h \<longleftrightarrow> sh_disk h = H_BLOCKED"

definition report_memory_blocked :: "system_health \<Rightarrow> bool" where
  "report_memory_blocked h \<longleftrightarrow> sh_memory h = H_BLOCKED"

lemma verdict_levels [simp]:
  "H_CRITICAL \<le> disk_verdict d \<longleftrightarrow> 85 \<le> d" "H_CRITICAL \<le> memory_verdict m \<longleftrightarrow> 90 \<le> m"
  "H_BLOCKED \<le> disk_verdict d \<longleftrightarrow> 95 \<le> d" "H_BLOCKED \<le> memory_verdict m \<longleftrightarrow> 95 \<le> m"
  "DEGRADED \<le> disk_verdict d \<longleftrightarrow> 75 \<le> d" "DEGRADED \<le> memory_verdict m \<longleftrightarrow> 80 \<le> m"
  by (auto simp: disk_verdict_def memory_verdict_def evaluate_def health_order)

lemma at_least_critical: "s \<in> {H_CRITICAL, H_BLOCKED} \<longleftrightarrow> H_CRITICAL \<le> s"
  by (cases s) (simp_all add: health_order)


section \<open>The monitor\<close>

text \<open>
  A reading is the pair of percentages, each \<open>None\<close> where the probe of the host raises (it then
  counts as 0); the whole reading is \<open>None\<close> when the check itself raises.
\<close>

type_synonym reading = "(rat option \<times> rat option) option"

record system_monitor =
  sm_report :: "system_health option"
  sm_report_expires_at :: rat
  sm_disk_blocked_until :: rat

definition REPORT_TTL :: rat where
  "REPORT_TTL = 10"

definition COOLDOWN :: rat where
  "COOLDOWN = 300"

definition or_zero :: "rat option \<Rightarrow> rat" where
  "or_zero v = (case v of None \<Rightarrow> 0 | Some x \<Rightarrow> x)"

definition sm_check :: "rat \<Rightarrow> reading \<Rightarrow> system_monitor \<Rightarrow> system_health \<times> system_monitor" where
  "sm_check now r m =
    (case r of
       None \<Rightarrow> (healthy_default, m)
     | Some (d, mem) \<Rightarrow>
        (let rep = from_metrics (or_zero d) (or_zero mem);
             m1 = m\<lparr>sm_report := Some rep, sm_report_expires_at := now + REPORT_TTL\<rparr>
         in (rep, if sh_disk rep \<in> {H_CRITICAL, H_BLOCKED}
                  then m1\<lparr>sm_disk_blocked_until := now + COOLDOWN\<rparr> else m1)))"

definition sm_init :: "rat \<Rightarrow> reading \<Rightarrow> system_monitor" where
  "sm_init now r = snd (sm_check now r
     \<lparr>sm_report = None, sm_report_expires_at = 0, sm_disk_blocked_until = 0\<rparr>)"

definition sm_get_report :: "rat \<Rightarrow> reading \<Rightarrow> system_monitor \<Rightarrow> system_health \<times> system_monitor" where
  "sm_get_report now r m =
    (case sm_report m of
       None \<Rightarrow> sm_check now r m
     | Some rep \<Rightarrow> if now \<ge> sm_report_expires_at m then sm_check now r m else (rep, m))"

definition is_disk_blocked :: "rat \<Rightarrow> reading \<Rightarrow> system_monitor \<Rightarrow> bool \<times> system_monitor" where
  "is_disk_blocked now r m =
    (if now < sm_disk_blocked_until m then (True, m)
     else (let (rep, m1) = sm_get_report now r m in (sh_disk rep \<in> {H_CRITICAL, H_BLOCKED}, m1)))"

definition is_memory_blocked :: "rat \<Rightarrow> reading \<Rightarrow> system_monitor \<Rightarrow> bool \<times> system_monitor" where
  "is_memory_blocked now r m = (let (rep, m1) = sm_get_report now r m in (sh_memory rep = H_BLOCKED, m1))"

definition sm_is_degraded :: "rat \<Rightarrow> reading \<Rightarrow> system_monitor \<Rightarrow> bool \<times> system_monitor" where
  "sm_is_degraded now r m = (let (rep, m1) = sm_get_report now r m in (report_is_degraded rep, m1))"

definition sm_disk_usage :: "system_monitor \<Rightarrow> rat option" where
  "sm_disk_usage m = map_option sh_disk_pct (sm_report m)"

definition sm_memory_usage :: "system_monitor \<Rightarrow> rat option" where
  "sm_memory_usage m = map_option sh_memory_pct (sm_report m)"

text \<open>The singleton may not exist yet.\<close>

definition force_refresh ::
  "rat \<Rightarrow> reading \<Rightarrow> system_monitor option \<Rightarrow> system_health option \<times> system_monitor option"
where
  "force_refresh now r inst =
    (case inst of
       None \<Rightarrow> (None, None)
     | Some m \<Rightarrow> (let (rep, m1) = sm_get_report now r (m\<lparr>sm_report_expires_at := 0\<rparr>) in (Some rep, Some m1)))"

lemma disk_critical: "sh_disk (from_metrics d mem) \<in> {H_CRITICAL, H_BLOCKED} \<longleftrightarrow> 85 \<le> d"
  unfolding at_least_critical by (simp add: from_metrics_def)

lemma sm_check_reading:
  "sm_check t (Some (a, b)) m = (from_metrics (or_zero a) (or_zero b),
     m\<lparr>sm_report := Some (from_metrics (or_zero a) (or_zero b)), sm_report_expires_at := t + 10,
       sm_disk_blocked_until := (if 85 \<le> or_zero a then t + 300 else sm_disk_blocked_until m)\<rparr>)"
  unfolding sm_check_def option.case prod.case Let_def disk_critical
  by (simp add: REPORT_TTL_def COOLDOWN_def)

lemma disk_blocked_unfold:
  "is_disk_blocked now r m =
    (if now < sm_disk_blocked_until m then (True, m)
     else (H_CRITICAL \<le> sh_disk (fst (sm_get_report now r m)), snd (sm_get_report now r m)))"
  unfolding is_disk_blocked_def at_least_critical by (simp add: split_def Let_def)

lemma from_metrics_disk [simp]: "sh_disk (from_metrics d mem) = disk_verdict d"
  by (simp add: from_metrics_def)

lemma or_zero_Some [simp]: "or_zero (Some x) = x"
  by (simp add: or_zero_def)

text \<open>
  The disk gate. A reading at or above 85 percent closes it for the whole of the next 300
  seconds, whatever later readings say, and without a new reading; once the window has passed, it is
  closed exactly when the current report has at least 85 percent, and a report is current for 10
  seconds only. So the gate closes at the critical level, 10 points below the \<open>BLOCKED\<close> level its
  description names.
\<close>

theorem disk_gate:
  assumes "0 \<le> t" "t \<le> u"
  shows "(85 \<le> d \<and> u < t + 300 \<longrightarrow>
      is_disk_blocked u r (snd (sm_check t (Some (Some d, mem)) m)) = (True, snd (sm_check t (Some (Some d, mem)) m))) \<and>
    (sm_disk_blocked_until m \<le> u \<and> d < 85 \<and> u < t + 10 \<longrightarrow>
      fst (is_disk_blocked u r (snd (sm_check t (Some (Some d, mem)) m))) = False) \<and>
    (sm_disk_blocked_until m \<le> u \<and> t + 10 \<le> u \<and> d < 85 \<longrightarrow>
      fst (is_disk_blocked u (Some (Some d', mem')) (snd (sm_check t (Some (Some d, mem)) m))) = (85 \<le> d')) \<and>
    sh_status (fst (sm_check t (Some (Some d, Some x)) m)) = max (disk_verdict d) (memory_verdict x)"
  using assms
  by (auto simp: disk_blocked_unfold sm_check_reading sm_get_report_def from_metrics_def)

theorem disk_gate_witness:
  "is_disk_blocked 299 (Some (Some 1, None)) (sm_init 0 (Some (Some 86, Some 20))) =
     (True, sm_init 0 (Some (Some 86, Some 20)))"
  using disk_gate [of 0 299 86 "Some (Some 1, None)" "Some 20"
      "\<lparr>sm_report = None, sm_report_expires_at = 0, sm_disk_blocked_until = 0\<rparr>"]
  by (simp add: sm_init_def)


section \<open>Worker capacity\<close>

datatype workload_class = W_DEFAULT | CPU_INTENSIVE | IO_INTENSIVE

datatype resource = R_CPU | R_IO | R_MEM

fun workload_cost_table :: "workload_class \<Rightarrow> (resource \<times> rat) list" where
  "workload_cost_table W_DEFAULT = [(R_CPU, 1/5), (R_IO, 1/10), (R_MEM, 1/2)]"
| "workload_cost_table CPU_INTENSIVE = [(R_CPU, 1), (R_IO, 1/5), (R_MEM, 2)]"
| "workload_cost_table IO_INTENSIVE = [(R_CPU, 1/5), (R_IO, 1), (R_MEM, 1)]"

fun stage_workload :: "stage \<Rightarrow> workload_class" where
  "stage_workload START = W_DEFAULT"
| "stage_workload EXTRACT = IO_INTENSIVE"
| "stage_workload TRANSFORM = CPU_INTENSIVE"
| "stage_workload WRITE = IO_INTENSIVE"
| "stage_workload PUBLISH = IO_INTENSIVE"
| "stage_workload ARCHIVE = W_DEFAULT"

fun ray_resource_name :: "resource \<Rightarrow> string" where
  "ray_resource_name R_CPU = ''CPU''"
| "ray_resource_name R_IO = ''IO''"
| "ray_resource_name R_MEM = ''memory''"

definition get_workload_cost :: "stage \<Rightarrow> (resource \<times> rat) list" where
  "get_workload_cost s = workload_cost_table (stage_workload s)"

text \<open>
  The limits: four fifths of the physical cores (2 when unknown), at least one; five I/O slots per
  core; seven tenths of the memory in whole gigabytes.
\<close>

definition calculate_resource_limits :: "nat option \<Rightarrow> nat \<Rightarrow> rat \<Rightarrow> rat \<Rightarrow> int \<times> int \<times> int" where
  "calculate_resource_limits cores total_bytes cpu_ratio memory_ratio =
    (let physical = (case cores of None \<Rightarrow> 2 | Some n \<Rightarrow> if n = 0 then 2 else n);
         logical = max 1 \<lfloor>of_nat physical * cpu_ratio\<rfloor>
     in (logical, logical * 5, \<lfloor>of_nat total_bytes / 1073741824 * memory_ratio\<rfloor>))"

text \<open>
  The admission test. The local ray mode runs everything in process; otherwise every cost must be
  covered by what the cluster reports under the resource's name, 0 when it reports none.
\<close>

definition reported :: "(string, rat) dict \<Rightarrow> string \<Rightarrow> rat" where
  "reported available name = (case dict_get available name of None \<Rightarrow> 0 | Some x \<Rightarrow> x)"

definition has_capacity ::
  "rat \<Rightarrow> reading \<Rightarrow> system_monitor option \<Rightarrow> bool \<Rightarrow> bool \<Rightarrow> (string, rat) dict \<Rightarrow> stage \<Rightarrow>
   bool \<times> system_monitor option"
where
  "has_capacity now r inst local_mode ray_up available s =
    (let (rep, inst1) = force_refresh now r inst in
     ((case rep of
         None \<Rightarrow> True
       | Some h \<Rightarrow> sh_disk h \<notin> {H_CRITICAL, H_BLOCKED} \<and> sh_memory h \<notin> {H_CRITICAL, H_BLOCKED}) \<and>
      (local_mode \<or>
        ray_up \<and> list_all (\<lambda>(res, amt). \<not> reported available (ray_resource_name res) < amt) (get_workload_cost s)),
      inst1))"

text \<open>\<open>_purge_orphaned_tasks\<close>: which running tasks are cancelled at start-up, by their name.\<close>

definition is_orphan :: "string \<Rightarrow> bool" where
  "is_orphan name \<longleftrightarrow> name \<noteq> [] \<and> CHR ''_'' \<in> set name \<and>
     hd (py_split CHR ''_'' name) \<in> set (map stage_value ALL_STAGES)"

definition purge_orphaned_tasks :: "bool \<Rightarrow> ('id \<times> string) list \<Rightarrow> 'id list" where
  "purge_orphaned_tasks ray_up running = (if \<not> ray_up then [] else map fst (filter (is_orphan \<circ> snd) running))"

lemma limits_bounds:
  assumes "calculate_resource_limits cores nbytes (4/5) (7/10) = (c, io, mem)"
  shows "1 \<le> c" "io = 5 * c" "0 \<le> mem" "of_int mem * 1073741824 \<le> (of_nat nbytes :: rat) * (7/10)"
    "cores = Some n \<Longrightarrow> 2 \<le> n \<Longrightarrow> c \<le> int n"
proof -
  have c: "c = max 1 \<lfloor>of_nat (case cores of None \<Rightarrow> 2 | Some n \<Rightarrow> if n = 0 then 2 else n) * (4/5 :: rat)\<rfloor>"
    and io: "io = c * 5" and mem: "mem = \<lfloor>of_nat nbytes / 1073741824 * (7/10 :: rat)\<rfloor>"
    using assms by (auto simp: calculate_resource_limits_def Let_def)
  show "1 \<le> c" "io = 5 * c" "0 \<le> mem" using c io mem by simp_all
  have "of_int mem \<le> of_nat nbytes / 1073741824 * (7/10 :: rat)" unfolding mem by (rule of_int_floor_le)
  then show "of_int mem * 1073741824 \<le> (of_nat nbytes :: rat) * (7/10)" by simp
  show "c \<le> int n" if "cores = Some n" "2 \<le> n"
  proof -
    have "\<lfloor>of_nat n * (4/5 :: rat)\<rfloor> \<le> \<lfloor>of_nat n :: rat\<rfloor>" by (rule floor_mono) simp
    then show ?thesis using that c by simp
  qed
qed

text \<open>
  The admission test of the worker pool, for a monitor that exists: a task is admitted exactly when
  the fresh reading is below 85 percent of disk and 90 percent of memory and either the pool runs in
  process or the cluster is up and reports at least the stage's cost of CPU, I/O slots and memory. The
  memory cost is in gigabytes but the cluster reports bytes, so two bytes satisfy it for every stage.
\<close>

theorem capacity_admits:
  assumes "0 \<le> now"
  shows "(fst (has_capacity now (Some (Some d, Some m)) (Some mon) local_mode ray_up available s) \<longleftrightarrow>
      d < 85 \<and> m < 90 \<and> (local_mode \<or> ray_up \<and>
        (\<forall>(res, amt)\<in>set (get_workload_cost s). amt \<le> reported available (ray_resource_name res)))) \<and>
    (\<forall>amt. (R_MEM, amt) \<in> set (get_workload_cost s) \<longrightarrow> amt \<le> reported [(''memory'', 2)] (ray_resource_name R_MEM))"
proof (intro conjI allI impI)
  have rep: "fst (force_refresh now (Some (Some d, Some m)) (Some mon)) = Some (from_metrics d m)"
    using assms by (simp add: force_refresh_def sm_get_report_def sm_check_reading split: option.splits)
  have crit: "sh_disk (from_metrics d m) \<notin> {H_CRITICAL, H_BLOCKED} \<longleftrightarrow> d < 85"
    "sh_memory (from_metrics d m) \<notin> {H_CRITICAL, H_BLOCKED} \<longleftrightarrow> m < 90"
    unfolding at_least_critical by (auto simp: from_metrics_def)
  show "fst (has_capacity now (Some (Some d, Some m)) (Some mon) local_mode ray_up available s) \<longleftrightarrow>
      d < 85 \<and> m < 90 \<and> (local_mode \<or> ray_up \<and>
        (\<forall>(res, amt)\<in>set (get_workload_cost s). amt \<le> reported available (ray_resource_name res)))"
    using rep crit by (auto simp: has_capacity_def split_def Let_def list_all_iff not_less)
  show "amt \<le> reported [(''memory'', 2)] (ray_resource_name R_MEM)" if "(R_MEM, amt) \<in> set (get_workload_cost s)" for amt
    using that by (cases s) (auto simp: get_workload_cost_def reported_def)
qed

theorem capacity_admits_witness:
  "fst (has_capacity 5 (Some (Some 40, Some 50)) (Some (sm_init 0 None)) False True
     [(''CPU'', 8), (''IO'', 40), (''memory'', 2)] TRANSFORM)"
  using capacity_admits [of 5 40 50 "sm_init 0 None" False True "[(''CPU'', 8), (''IO'', 40), (''memory'', 2)]" TRANSFORM]
  by (simp add: get_workload_cost_def reported_def)

end
