(* ===== verification/Dispatch.thy ===== *)
theory Dispatch
  imports TaskQueueing Breaker SystemHealth
begin

text \<open>
  \<open>common/task/manager.py\<close>: the control loop of the orchestrator. Enqueueing a task, the dispatch tick
  over the queue in priority order, handing one task to a worker, and the reconciliation of finished
  workers, composed of the task cache, the queue, the service registry, the system monitor and the
  outcome policies of the other theories.
\<close>


section \<open>State\<close>

text \<open>
  \<open>'q\<close> is the queue back end, \<open>'c\<close> the task cache, \<open>'g\<close> the registry's cache, \<open>'h\<close> the worker handles.
  \<open>mg_submitted\<close> is the trace of remote calls: the step and the cache key the worker is given.
\<close>

record ('q, 'c, 'g, 'h) manager =
  mg_queue :: 'q
  mg_cache :: 'c
  mg_registry :: "'g registry"
  mg_system :: system_monitor
  mg_active :: "(string, 'h) dict"
  mg_submitted :: "(string \<times> string) list"

text \<open>The collaborators that stay fixed during a tick.\<close>

record ('q, 'a, 'c, 'g) wiring =
  wi_backend :: "('q, 'a) backend_ops"
  wi_codec :: "'a codec"
  wi_client :: "'c cache_client"
  wi_services :: "'g svc_server"
  wi_context :: "string \<Rightarrow> task_context option"
  wi_local :: bool

text \<open>
  What the environment answers while one message is looked at: the clock, the readings of the host, the
  outcome of a probe, the cluster, the stamp of the claim, and the handle of the worker.
\<close>

record 'h message_env =
  me_clock :: rat
  me_reading :: reading
  me_capacity_reading :: reading
  me_ping :: "bool option"
  me_ray_up :: bool
  me_available :: "(string, rat) dict"
  me_stamp :: queue_stamp
  me_handle :: 'h


section \<open>Is a task ready?\<close>

text \<open>
  \<open>DISK_FREE_STAGES\<close> holds stage classes while \<open>current_stage\<close> is a string, so no stage is exempt and the
  disk is checked for every task. The wait of a retry is over when the recorded time is \<open>not\<close> in the past.
\<close>

definition service_has_recovered ::
  "'g svc_server \<Rightarrow> bool option \<Rightarrow> task_metadata \<Rightarrow> 'g registry \<Rightarrow> bool \<times> 'g registry"
where
  "service_has_recovered srv ping m g =
    (case md_blocked_by m of
       None \<Rightarrow> (True, g)
     | Some svc \<Rightarrow> if svc = [] then (True, g) else probe srv svc ping g)"

definition is_task_ready ::
  "('q, 'a, 'c, 'g) wiring \<Rightarrow> 'h message_env \<Rightarrow> rat \<Rightarrow> task_metadata \<Rightarrow> ('q, 'c, 'g, 'h) manager \<Rightarrow>
   bool \<times> ('q, 'c, 'g, 'h) manager"
where
  "is_task_ready w e now m mg =
    (let (blocked, sys) = is_disk_blocked (me_clock e) (me_reading e) (mg_system mg);
         mg1 = mg\<lparr>mg_system := sys\<rparr>
     in if blocked then (False, mg1)
        else if md_status m \<noteq> status_value RETRY \<and> md_status m \<noteq> status_value BLOCKED then (True, mg1)
        else (case md_blocked_by m of
          Some (c # svc) \<Rightarrow>
            if is_healthy (wi_services w) (mg_registry mg1) (c # svc) then (True, mg1)
            else (let (ok, g) = service_has_recovered (wi_services w) (me_ping e) m (mg_registry mg1)
                  in (ok, mg1\<lparr>mg_registry := g\<rparr>))
        | _ \<Rightarrow> (case md_next_attempt_ts m of
            Some t \<Rightarrow> (\<not> t - now < 0, mg1)
          | None \<Rightarrow> (True, mg1))))"


section \<open>Handing a task to a worker\<close>

definition dispatch_task ::
  "('q, 'a, 'c, 'g) wiring \<Rightarrow> 'h message_env \<Rightarrow> task_metadata \<Rightarrow> string \<Rightarrow> ('q, 'c, 'g, 'h) manager \<Rightarrow>
   unit res \<times> ('q, 'c, 'g, 'h) manager"
where
  "dispatch_task w e m msg_id mg =
    (case transition_state (wi_client w) TASK_PREFIX (me_clock e) (mg_cache mg) m DISPATCHED None no_overrides of
       Inl err \<Rightarrow> (Inl err, mg)
     | Inr (new_key, m1, c1) \<Rightarrow>
        (case generate_cache_key m1 None of
           Inl err \<Rightarrow> (Inl err, mg\<lparr>mg_cache := c1\<rparr>)
         | Inr key \<Rightarrow>
            (Ok (), mg\<lparr>mg_cache := c1,
               mg_submitted := mg_submitted mg @ [(md_current_step_id m1, key)],
               mg_active := dict_put (md_run_id m1) (me_handle e) (mg_active mg),
               mg_queue := (if msg_id = [] then mg_queue mg else tq_ack (wi_backend w) msg_id (mg_queue mg))\<rparr>)))"


section \<open>The dispatch tick\<close>

text \<open>The queue's items sorted by priority; a priority that cannot be computed raises out of the tick.\<close>

fun scored :: "(string \<Rightarrow> task_context option) \<Rightarrow> (string \<times> task_metadata) list \<Rightarrow>
    (int \<times> string \<times> task_metadata) list res" where
  "scored ctx_of [] = Ok []"
| "scored ctx_of (x # xs) = res_bind (calculate_priority ctx_of (snd x)) (\<lambda>p.
     res_bind (scored ctx_of xs) (\<lambda>ys. Ok ((p, x) # ys)))"

definition in_priority_order ::
  "(string \<Rightarrow> task_context option) \<Rightarrow> (string \<times> task_metadata) list \<Rightarrow> (string \<times> task_metadata) list res"
where
  "in_priority_order ctx_of xs = res_bind (scored ctx_of xs) (\<lambda>ys. Ok (map snd (sort_key fst ys)))"

fun dispatch_loop ::
  "('q, 'a, 'c, 'g) wiring \<Rightarrow> (string \<Rightarrow> 'h message_env) \<Rightarrow> rat \<Rightarrow> (string \<times> task_metadata) list \<Rightarrow>
   ('q, 'c, 'g, 'h) manager \<Rightarrow> unit res \<times> ('q, 'c, 'g, 'h) manager"
where
  "dispatch_loop w env now [] mg = (Ok (), mg)"
| "dispatch_loop w env now ((key, m) # rest) mg =
    (if md_run_id m \<in> fst ` set (mg_active mg) then dispatch_loop w env now rest mg
     else
      (let (ready, mg1) = is_task_ready w (env key) now m mg in
       if \<not> ready then dispatch_loop w env now rest mg1
       else
        (case res_bind (current_stage (wi_context w) m) stage_from_string of
           Inl err \<Rightarrow> (Inl err, mg1)
         | Inr sg \<Rightarrow>
            (let (cap, inst) = has_capacity (me_clock (env key)) (me_capacity_reading (env key))
                    (Some (mg_system mg1)) (wi_local w) (me_ray_up (env key)) (me_available (env key)) sg;
                 mg2 = (case inst of None \<Rightarrow> mg1 | Some sys \<Rightarrow> mg1\<lparr>mg_system := sys\<rparr>)
             in if \<not> cap then (Ok (), mg2)
                else
                 (let (p, q) = tq_pop_by_key (wi_backend w) (wi_codec w) (me_stamp (env key)) key (mg_queue mg2);
                      mg3 = mg2\<lparr>mg_queue := q\<rparr>
                  in case p of
                       Inl err \<Rightarrow> (Inl err, mg3)
                     | Inr None \<Rightarrow> dispatch_loop w env now rest mg3
                     | Inr (Some (msg_id, pm)) \<Rightarrow>
                        (case dispatch_task w (env key) pm msg_id mg3 of
                           (Inl err, mg4) \<Rightarrow> (Inl err, mg4)
                         | (Inr _, mg4) \<Rightarrow> dispatch_loop w env now rest mg4))))))"

text \<open>The tick after finished workers have been reconciled.\<close>

definition dispatch_tick ::
  "('q, 'a, 'c, 'g) wiring \<Rightarrow> (string \<Rightarrow> 'h message_env) \<Rightarrow> rat \<Rightarrow> rat option \<Rightarrow>
   ('q, 'c, 'g, 'h) manager \<Rightarrow> unit res \<times> ('q, 'c, 'g, 'h) manager"
where
  "dispatch_tick w env now stop_at mg =
    (if stop_at \<noteq> None then (Ok (), mg)
     else if tq_is_empty (wi_backend w) (mg_queue mg) then (Ok (), mg)
     else (case in_priority_order (wi_context w) (tq_items (wi_backend w) (wi_codec w) (mg_queue mg)) of
       Inl err \<Rightarrow> (Inl err, mg)
     | Inr items \<Rightarrow> dispatch_loop w env now items mg))"


section \<open>What a tick does\<close>

text \<open>The entry of a dispatched task, and the part of the state a readiness check leaves alone.\<close>

definition dispatched_md :: "rat \<Rightarrow> task_metadata \<Rightarrow> task_metadata" where
  "dispatched_md now m = apply_overrides now DISPATCHED None no_overrides m"

definition same_jobs :: "('q, 'c, 'g, 'h) manager \<Rightarrow> ('q, 'c, 'g, 'h) manager \<Rightarrow> bool" where
  "same_jobs mg mg' \<longleftrightarrow> mg_queue mg' = mg_queue mg \<and> mg_cache mg' = mg_cache mg \<and>
     mg_active mg' = mg_active mg \<and> mg_submitted mg' = mg_submitted mg"

lemma is_task_ready_keeps: "same_jobs mg (snd (is_task_ready w e now m mg))"
  by (auto simp: is_task_ready_def same_jobs_def split_def Let_def split: option.splits list.splits)

lemma dispatched_md_simps [simp]:
  "md_run_id (dispatched_md now m) = md_run_id m"
  "md_status (dispatched_md now m) = status_value DISPATCHED"
  "md_current_step_id (dispatched_md now m) = md_current_step_id m"
  by (simp_all add: dispatched_md_def)

lemma dispatched_md_ok: "md_ok m \<Longrightarrow> md_ok (dispatched_md now m)"
  unfolding dispatched_md_def by (rule apply_overrides_ok) (simp_all add: step_free_def)

lemma run_id_of_key:
  assumes "md_ok m" "md_ok m'" "client_key_of m = client_key_of m'"
  shows "md_run_id m = md_run_id m'"
  using client_key_inj [OF assms] by (simp add: client_parts_def)

definition listed :: "('q, 'a, 'c, 'g) wiring \<Rightarrow> ('q, 'c, 'g, 'h) manager \<Rightarrow> (string \<times> task_metadata) set" where
  "listed w mg = set (tq_items (wi_backend w) (wi_codec w) (mg_queue mg))"

definition entry :: "('q, 'a, 'c, 'g) wiring \<Rightarrow> ('q, 'c, 'g, 'h) manager \<Rightarrow> task_metadata \<Rightarrow> task_metadata option" where
  "entry w mg m = cl_get (wi_client w) (mg_cache mg) (client_key_of m)"

text \<open>
  The outcome of a tick over a list of items, for the tasks \<open>ds\<close> it sent and the items \<open>rest\<close> it left:
  the items seen are sent, active or not ready; the first one left found no capacity; the messages of
  the sent tasks are gone and the others listed as before; the sent runs are new and distinct, each is
  active, stored as dispatched and submitted once, in order; no other run's entry changes.
\<close>

definition submission :: "(string \<Rightarrow> 'h message_env) \<Rightarrow> string \<times> task_metadata \<Rightarrow> string \<times> string" where
  "submission env x = (md_current_step_id (snd x),
     TASK_PREFIX @ client_key_of (dispatched_md (me_clock (env (fst x))) (snd x)))"

definition tick_jobs ::
  "('q, 'a, 'c, 'g) wiring \<Rightarrow> (string \<Rightarrow> 'h message_env) \<Rightarrow> ('q, 'c, 'g, 'h) manager \<Rightarrow>
   ('q, 'c, 'g, 'h) manager \<Rightarrow> (string \<times> task_metadata) list \<Rightarrow> bool"
where
  "tick_jobs w env mg mg' ds \<longleftrightarrow>
    listed w mg' = {x \<in> listed w mg. fst x \<notin> fst ` set ds} \<and>
    fst ` set (mg_active mg') = fst ` set (mg_active mg) \<union> (md_run_id \<circ> snd) ` set ds \<and>
    distinct (map (md_run_id \<circ> snd) ds) \<and> (md_run_id \<circ> snd) ` set ds \<inter> fst ` set (mg_active mg) = {} \<and>
    mg_submitted mg' = mg_submitted mg @ map (submission env) ds \<and>
    (\<forall>(k, m)\<in>set ds. entry w mg' (dispatched_md (me_clock (env k)) m) = Some (dispatched_md (me_clock (env k)) m)) \<and>
    (\<forall>x. md_ok x \<and> md_run_id x \<notin> (md_run_id \<circ> snd) ` set ds \<longrightarrow> entry w mg' x = entry w mg x)"

definition tick_seen ::
  "('q, 'a, 'c, 'g) wiring \<Rightarrow> (string \<Rightarrow> 'h message_env) \<Rightarrow> rat \<Rightarrow> ('q, 'c, 'g, 'h) manager \<Rightarrow>
   (string \<times> task_metadata) list \<Rightarrow> (string \<times> task_metadata) list \<Rightarrow> bool"
where
  "tick_seen w env now mg' seen ds \<longleftrightarrow> subseq ds seen \<and>
     (\<forall>x\<in>set seen - set ds. md_run_id (snd x) \<in> fst ` set (mg_active mg') \<or>
        (\<exists>s :: ('q, 'c, 'g, 'h) manager. \<not> fst (is_task_ready w (env (fst x)) now (snd x) s)))"

definition no_capacity :: "('q, 'a, 'c, 'g) wiring \<Rightarrow> (string \<Rightarrow> 'h message_env) \<Rightarrow> (string \<times> task_metadata) list \<Rightarrow> bool" where
  "no_capacity w env rest \<longleftrightarrow> rest = [] \<or>
     (\<exists>sg sys. \<not> fst (has_capacity (me_clock (env (fst (hd rest)))) (me_capacity_reading (env (fst (hd rest))))
        (Some sys) (wi_local w) (me_ray_up (env (fst (hd rest)))) (me_available (env (fst (hd rest)))) sg))"

lemma tick_jobs_none: "same_jobs mg mg' \<Longrightarrow> tick_jobs w env mg mg' []"
  by (simp add: tick_jobs_def same_jobs_def listed_def entry_def)

lemma tick_jobs_same: "same_jobs mg mg1 \<Longrightarrow> tick_jobs w env mg1 mg' ds = tick_jobs w env mg mg' ds"
  by (simp add: tick_jobs_def same_jobs_def listed_def entry_def)

lemma tick_jobs_sent:
  assumes l: "listed w mg1 = {x \<in> listed w mg. fst x \<noteq> key}"
    and a: "fst ` set (mg_active mg1) = insert (md_run_id m) (fst ` set (mg_active mg))"
    and n: "md_run_id m \<notin> fst ` set (mg_active mg)"
    and s: "mg_submitted mg1 = mg_submitted mg @ [submission env (key, m)]"
    and e: "entry w mg1 (dispatched_md (me_clock (env key)) m) = Some (dispatched_md (me_clock (env key)) m)"
    and o: "\<And>x. md_ok x \<Longrightarrow> md_run_id x \<noteq> md_run_id m \<Longrightarrow> entry w mg1 x = entry w mg x"
    and ok: "md_ok m" and r: "tick_jobs w env mg1 mg' ds"
  shows "tick_jobs w env mg mg' ((key, m) # ds)"
proof -
  have new: "md_run_id m \<notin> (md_run_id \<circ> snd) ` set ds" using r a by (auto simp: tick_jobs_def)
  have "entry w mg' (dispatched_md (me_clock (env key)) m) = entry w mg1 (dispatched_md (me_clock (env key)) m)"
    using r new dispatched_md_ok [OF ok] by (simp add: tick_jobs_def)
  then show ?thesis unfolding tick_jobs_def
    using r new n by (intro conjI) (auto simp: tick_jobs_def l a s e o)
qed

lemma tick_seen_unsent:
  "tick_seen w env now (mg' :: ('q, 'c, 'g, 'h) manager) seen ds \<Longrightarrow>
   md_run_id m \<in> fst ` set (mg_active mg') \<or>
     (\<exists>s :: ('q, 'c, 'g, 'h) manager. \<not> fst (is_task_ready w (env k) now m s)) \<Longrightarrow>
   tick_seen w env now mg' ((k, m) # seen) ds"
  unfolding tick_seen_def
proof (elim conjE, intro conjI ballI)
  fix x
  assume seen: "\<forall>x\<in>set seen - set ds. md_run_id (snd x) \<in> fst ` set (mg_active mg') \<or>
      (\<exists>s :: ('q, 'c, 'g, 'h) manager. \<not> fst (is_task_ready w (env (fst x)) now (snd x) s))"
    and k: "md_run_id m \<in> fst ` set (mg_active mg') \<or>
      (\<exists>s :: ('q, 'c, 'g, 'h) manager. \<not> fst (is_task_ready w (env k) now m s))"
    and x: "x \<in> set ((k, m) # seen) - set ds"
  show "md_run_id (snd x) \<in> fst ` set (mg_active mg') \<or>
      (\<exists>s :: ('q, 'c, 'g, 'h) manager. \<not> fst (is_task_ready w (env (fst x)) now (snd x) s))"
  proof (cases "x = (k, m)")
    case True
    then show ?thesis using k by simp
  next
    case False
    then show ?thesis using seen x by (intro bspec [OF seen]) simp
  qed
qed (auto intro: list_emb_Cons)

lemma tick_seen_sent: "tick_seen w env now mg' seen ds \<Longrightarrow> tick_seen w env now mg' (x # seen) (x # ds)"
  by (auto simp: tick_seen_def)

lemma same_jobs_trans: "same_jobs a b \<Longrightarrow> same_jobs b c \<Longrightarrow> same_jobs a c"
  by (simp add: same_jobs_def)

lemma same_jobs_simps:
  "same_jobs mg mg' \<Longrightarrow> listed w mg' = listed w mg"
  "same_jobs mg mg' \<Longrightarrow> mg_queue mg' = mg_queue mg"
  "same_jobs mg mg' \<Longrightarrow> mg_active mg' = mg_active mg"
  "same_jobs mg mg' \<Longrightarrow> mg_submitted mg' = mg_submitted mg"
  "same_jobs mg mg' \<Longrightarrow> entry w mg' x = entry w mg x"
  by (simp_all add: same_jobs_def listed_def entry_def)

lemma ex4I: "P a b c d \<Longrightarrow> \<exists>a b c d. P a b c d"
  by blast

text \<open>A queue back end together with the cache the tasks live in.\<close>
locale dispatcher = task_backend be inv fresh + task_cache_client nk lookup put del
  for be :: "('q, 'a) backend_ops" and inv :: "'q \<Rightarrow> bool" and fresh :: "queue_stamp \<Rightarrow> int \<Rightarrow> 'q \<Rightarrow> bool"
    and nk :: "string \<Rightarrow> string" and lookup :: "'c \<Rightarrow> string \<Rightarrow> task_metadata option"
    and put :: "'c \<Rightarrow> string \<Rightarrow> task_metadata \<Rightarrow> 'c" and del :: "'c \<Rightarrow> string \<Rightarrow> 'c" +
  assumes nk_inj: "md_ok x \<Longrightarrow> md_ok y \<Longrightarrow> nk (client_key_of x) = nk (client_key_of y) \<Longrightarrow>
    client_key_of x = client_key_of y"
begin

definition wired :: "('q, 'a, 'c, 'g) wiring \<Rightarrow> bool" where
  "wired w \<longleftrightarrow> wi_backend w = be \<and> wi_client w = client_of lookup put del"

lemma dispatch_one:
  assumes "wired w" "inv (mg_queue mg)" "(key, m) \<in> listed w mg" "md_ok m" "qs_uid (me_stamp e) \<noteq> []"
  obtains i q mg' where
    "tq_pop_by_key be (wi_codec w) (me_stamp e) key (mg_queue mg) = (Ok (Some (i, m)), q)"
    "dispatch_task w e m i (mg\<lparr>mg_queue := q\<rparr>) = (Ok (), mg')" "inv (mg_queue mg')"
    "listed w mg' = {x \<in> listed w mg. fst x \<noteq> key}"
    "fst ` set (mg_active mg') = insert (md_run_id m) (fst ` set (mg_active mg))"
    "mg_submitted mg' = mg_submitted mg @
       [(md_current_step_id m, TASK_PREFIX @ client_key_of (dispatched_md (me_clock e) m))]"
    "entry w mg' (dispatched_md (me_clock e) m) = Some (dispatched_md (me_clock e) m)"
    "\<And>x. md_ok x \<Longrightarrow> md_run_id x \<noteq> md_run_id m \<Longrightarrow> entry w mg' x = entry w mg x"
proof -
  let ?d = "dispatched_md (me_clock e) m"
  have be: "wi_backend w = be" and cl: "wi_client w = client_of lookup put del" using assms(1) by (auto simp: wired_def)
  have listed: "(key, m) \<in> set (tq_items be (wi_codec w) (mg_queue mg))" using assms(3) by (simp add: listed_def be)
  obtain i q where i: "i \<noteq> []" "tq_pop_by_key be (wi_codec w) (me_stamp e) key (mg_queue mg) = (Ok (Some (i, m)), q)"
    "inv (tq_ack be i q)" "set (tq_items be (wi_codec w) (tq_ack be i q)) =
       {x \<in> set (tq_items be (wi_codec w) (mg_queue mg)). fst x \<noteq> key}"
    by (rule tq_claim [OF assms(2) listed assms(5)])
  have free: "step_free None" by (simp add: step_free_def)
  obtain c1 where t: "transition_state (wi_client w) TASK_PREFIX (me_clock e) (mg_cache mg) m DISPATCHED None no_overrides =
      Ok (TASK_PREFIX @ client_key_of ?d, ?d, c1)"
    using transition_state_ok [OF assms(4) free, where cl = "wi_client w"] by (auto simp: dispatched_md_def)
  note l = transition_lookup [OF assms(4) free, OF t [unfolded cl]]
  have ok: "md_ok ?d" by (rule dispatched_md_ok [OF assms(4)])
  let ?mg = "mg\<lparr>mg_queue := tq_ack be i q, mg_cache := c1, mg_active := dict_put (md_run_id m) (me_handle e) (mg_active mg),
    mg_submitted := mg_submitted mg @ [(md_current_step_id m, TASK_PREFIX @ client_key_of ?d)]\<rparr>"
  have task: "dispatch_task w e m i (mg\<lparr>mg_queue := q\<rparr>) = (Ok (), ?mg)"
    using t i(1) assms(1) by (simp add: dispatch_task_def generate_cache_key_ok [OF ok] be)
  have others: "entry w ?mg x = entry w mg x" if x: "md_ok x" "md_run_id x \<noteq> md_run_id m" for x
    using x nk_inj [OF x(1) ok] nk_inj [OF x(1) assms(4)] run_id_of_key [OF x(1) ok] run_id_of_key [OF x(1) assms(4)]
    by (auto simp: entry_def l(4) cl client_of_def)
  show ?thesis
    by (rule that [OF i(2) task])
      (use i others in \<open>auto simp: listed_def entry_def l(4) dict_keys_put be cl client_of_def submission_def\<close>)
qed


lemma loop_outcome:
  assumes "wired w" "inv (mg_queue mg)" "set items \<subseteq> listed w mg" "distinct (map fst items)"
    and "\<forall>(k, m)\<in>set items. md_ok m \<and> qs_uid (me_stamp (env k)) \<noteq> [] \<and>
      (\<exists>sg. res_bind (current_stage (wi_context w) m) stage_from_string = Ok sg)"
  shows "\<exists>mg' seen ds rest. dispatch_loop w env now items mg = (Ok (), mg') \<and> inv (mg_queue mg') \<and>
    items = seen @ rest \<and> tick_seen w env now mg' seen ds \<and> no_capacity w env rest \<and> tick_jobs w env mg mg' ds"
  using assms
proof (induction items arbitrary: mg)
  case Nil
  show ?case
  proof (intro exI)
    show "dispatch_loop w env now [] mg = (Ok (), mg) \<and> inv (mg_queue mg) \<and> [] = [] @ [] \<and>
        tick_seen w env now mg [] [] \<and> no_capacity w env [] \<and> tick_jobs w env mg mg []"
      using Nil by (simp add: tick_seen_def no_capacity_def tick_jobs_none same_jobs_def)
  qed
next
  case (Cons x items)
  obtain key m where x: "x = (key, m)" by fastforce
  have m: "md_ok m" "qs_uid (me_stamp (env key)) \<noteq> []" "(key, m) \<in> listed w mg"
    and items: "set items \<subseteq> listed w mg" "distinct (map fst items)" "key \<notin> fst ` set items"
    using Cons.prems(3-5) x by auto
  obtain sg where sg: "res_bind (current_stage (wi_context w) m) stage_from_string = Ok sg"
    using Cons.prems(5) x by auto
  have rest: "\<forall>(k, m)\<in>set items. md_ok m \<and> qs_uid (me_stamp (env k)) \<noteq> [] \<and>
      (\<exists>sg. res_bind (current_stage (wi_context w) m) stage_from_string = Ok sg)" using Cons.prems(5) by simp
  note IH = Cons.IH [OF \<open>wired w\<close> _ _ items(2) rest]
  show ?case
  proof (cases "md_run_id m \<in> fst ` set (mg_active mg)")
    case True
    obtain mg' seen ds rst where r: "dispatch_loop w env now items mg = (Ok (), mg')" "inv (mg_queue mg')"
      "items = seen @ rst" "tick_seen w env now mg' seen ds" "no_capacity w env rst" "tick_jobs w env mg mg' ds"
      using IH [OF Cons.prems(2) items(1)] by blast
    have "tick_seen w env now mg' (x # seen) ds" unfolding x
      by (rule tick_seen_unsent [OF r(4)]) (use True r(6) in \<open>simp add: tick_jobs_def\<close>)
    then show ?thesis using r True x
      by (intro ex4I [of _ mg' "x # seen" ds rst]) simp
  next
    case False
    obtain ready mg1 where ready: "is_task_ready w (env key) now m mg = (ready, mg1)" by fastforce
    have s1: "same_jobs mg mg1" using is_task_ready_keeps [of mg w "env key" now m] ready by simp
    show ?thesis
    proof (cases ready)
      case r0: False
      obtain mg' seen ds rst where r: "dispatch_loop w env now items mg1 = (Ok (), mg')" "inv (mg_queue mg')"
        "items = seen @ rst" "tick_seen w env now mg' seen ds" "no_capacity w env rst" "tick_jobs w env mg1 mg' ds"
        using IH [of mg1] Cons.prems(2) items(1) same_jobs_simps(1) [OF s1, of w] same_jobs_simps(2) [OF s1]
        by auto
      have "\<not> fst (is_task_ready w (env key) now m mg)" using ready r0 by simp
      then have "tick_seen w env now mg' (x # seen) ds" unfolding x
        by (intro tick_seen_unsent [OF r(4)]) blast
      then show ?thesis using r False x ready r0
        by (intro ex4I [of _ mg' "x # seen" ds rst]) (simp add: tick_jobs_same [OF s1])
    next
      case r1: True
      obtain cap inst where cap: "has_capacity (me_clock (env key)) (me_capacity_reading (env key))
          (Some (mg_system mg1)) (wi_local w) (me_ray_up (env key)) (me_available (env key)) sg = (cap, inst)" by fastforce
      define mg2 where "mg2 = (case inst of None \<Rightarrow> mg1 | Some sys \<Rightarrow> mg1\<lparr>mg_system := sys\<rparr>)"
      have s2: "same_jobs mg mg2" using s1 by (auto simp: mg2_def same_jobs_def split: option.splits)
      show ?thesis
      proof (cases cap)
        case c0: False
        have "\<exists>sg sys. \<not> fst (has_capacity (me_clock (env key)) (me_capacity_reading (env key)) (Some sys)
            (wi_local w) (me_ray_up (env key)) (me_available (env key)) sg)" using cap c0 by (metis fst_conv)
        then have "no_capacity w env (x # items)" by (simp add: no_capacity_def x)
        then show ?thesis using False x ready r1 sg cap c0 Cons.prems(2) same_jobs_simps(2) [OF s2]
          by (intro ex4I [where a = mg2 and b = "[]" and c = "[]" and d = "x # items"])
            (simp add: mg2_def [symmetric] tick_seen_def Let_def tick_jobs_none [OF s2])
      next
        case c1: True
        have q2: "inv (mg_queue mg2)" "(key, m) \<in> listed w mg2"
          using Cons.prems(2) m(3) by (simp_all add: same_jobs_simps [OF s2])
        obtain i q mg4 where d: "tq_pop_by_key be (wi_codec w) (me_stamp (env key)) key (mg_queue mg2) = (Ok (Some (i, m)), q)"
            "dispatch_task w (env key) m i (mg2\<lparr>mg_queue := q\<rparr>) = (Ok (), mg4)" "inv (mg_queue mg4)"
            "listed w mg4 = {x \<in> listed w mg2. fst x \<noteq> key}"
            "fst ` set (mg_active mg4) = insert (md_run_id m) (fst ` set (mg_active mg2))"
            "mg_submitted mg4 = mg_submitted mg2 @ [submission env (key, m)]"
            "entry w mg4 (dispatched_md (me_clock (env key)) m) = Some (dispatched_md (me_clock (env key)) m)"
          and o: "\<And>x. md_ok x \<Longrightarrow> md_run_id x \<noteq> md_run_id m \<Longrightarrow> entry w mg4 x = entry w mg2 x"
          by (rule dispatch_one [OF \<open>wired w\<close> q2(1,2) m(1,2)]) (simp add: submission_def)
        have sub: "set items \<subseteq> listed w mg4" using items(1,3) unfolding d(4) same_jobs_simps(1) [OF s2] by force
        obtain mg' seen ds rst where r: "dispatch_loop w env now items mg4 = (Ok (), mg')" "inv (mg_queue mg')"
          "items = seen @ rst" "tick_seen w env now mg' seen ds" "no_capacity w env rst" "tick_jobs w env mg4 mg' ds"
          using IH [OF d(3) sub] by blast
        have "tick_jobs w env mg mg' (x # ds)" unfolding x
          by (rule tick_jobs_sent [OF _ _ False _ d(7) _ m(1) r(6)]) (use d o in \<open>simp_all add: same_jobs_simps [OF s2]\<close>)
        moreover have "dispatch_loop w env now (x # items) mg = (Ok (), mg')"
          using False x ready r1 sg cap c1 d(1,2) r(1) \<open>wired w\<close>
          by (simp add: mg2_def [symmetric] Let_def wired_def)
        ultimately show ?thesis using r tick_seen_sent [OF r(4)]
          by (intro ex4I [of _ mg' "x # seen" "x # ds" rst]) simp
      qed
    qed
  qed
qed

end


context cell_index
begin

lemma disk_dispatcher:
  "dispatcher (disk_backend ix visibility no_md) (cells_ok ix) (stamp_unused ix) (prefixed TASK_PREFIX)
     (mem_lookup now TASK_PREFIX) (mem_put now TASK_PREFIX) (mem_remove TASK_PREFIX)"
  by (intro dispatcher.intro dispatcher_axioms.intro tb.task_backend_axioms task_mem.task_cache_client_axioms)
    (rule prefixed_client_inj)

end

interpretation disk_disp: dispatcher "disk_backend insertion_ops visibility no_md" "cells_ok insertion_ops"
    "stamp_unused insertion_ops" "prefixed TASK_PREFIX" "mem_lookup now TASK_PREFIX" "mem_put now TASK_PREFIX"
    "mem_remove TASK_PREFIX"
  for visibility no_md now
  by (rule dins.disk_dispatcher)

lemma scored_Ok:
  assumes "scored ctx_of xs = Ok ys"
  shows "map snd ys = xs \<and> (\<forall>y\<in>set ys. calculate_priority ctx_of (snd (snd y)) = Ok (fst y))"
  using assms
proof (induction xs arbitrary: ys)
  case (Cons x xs)
  obtain p zs where z: "calculate_priority ctx_of (snd x) = Ok p" "scored ctx_of xs = Ok zs" "ys = (p, x) # zs"
    using Cons.prems by (auto simp: res_bind_Ok_iff)
  then show ?case using Cons.IH [OF z(2)] by simp
qed simp

lemma calculate_priority_stage:
  "calculate_priority ctx_of m = Ok p \<Longrightarrow> \<exists>sg. res_bind (current_stage ctx_of m) stage_from_string = Ok sg"
  by (auto simp: calculate_priority_def res_bind_Ok_iff)

lemma in_priority_order_Ok:
  assumes "in_priority_order ctx_of xs = Ok items"
  shows "mset items = mset xs"
    and "\<forall>x\<in>set items. \<exists>p. calculate_priority ctx_of (snd x) = Ok p"
    and "sorted_wrt (\<lambda>x y. \<exists>p q. calculate_priority ctx_of (snd x) = Ok p \<and>
      calculate_priority ctx_of (snd y) = Ok q \<and> p \<le> q) items"
proof -
  obtain ys where ys: "scored ctx_of xs = Ok ys" "items = map snd (sort_key fst ys)"
    using assms by (auto simp: in_priority_order_def res_bind_Ok_iff)
  note s = scored_Ok [OF ys(1)]
  have "mset items = mset (map snd ys)" by (simp add: ys(2))
  then show "mset items = mset xs" by (simp add: s)
  have sc: "\<forall>y\<in>set (sort_key fst ys). calculate_priority ctx_of (snd (snd y)) = Ok (fst y)" using s by auto
  then show "\<forall>x\<in>set items. \<exists>p. calculate_priority ctx_of (snd x) = Ok p" by (auto simp: ys(2))
  have "sorted_wrt (\<lambda>y z. fst y \<le> fst z) (sort_key fst ys)"
    using sorted_sort_key [of fst ys] by (simp add: sorted_map)
  then have "sorted_wrt (\<lambda>y z. \<exists>p q. calculate_priority ctx_of (snd (snd y)) = Ok p \<and>
      calculate_priority ctx_of (snd (snd z)) = Ok q \<and> p \<le> q) (sort_key fst ys)"
    by (rule sorted_wrt_mono_rel [rotated]) (use sc in auto)
  then show "sorted_wrt (\<lambda>x y. \<exists>p q. calculate_priority ctx_of (snd x) = Ok p \<and>
      calculate_priority ctx_of (snd y) = Ok q \<and> p \<le> q) items"
    by (simp add: ys(2) sorted_wrt_map)
qed


definition plain_codec :: "task_metadata codec" where
  "plain_codec = \<lparr>cd_enc = (\<lambda>m. m), cd_dec = Some\<rparr>"

definition demo_task :: task_metadata where
  "demo_task = waiting_at_step ''pull'' WAITING"

definition demo_stamp :: queue_stamp where
  "demo_stamp = \<lparr>qs_now = 5, qs_later = 6, qs_uid = ''u1''\<rparr>"

definition demo_wiring ::
  "((task_metadata, unit) cell cells disk_queue, task_metadata, (string, task_metadata \<times> int option) dict,
    (string, svc_value option \<times> int option) dict) wiring"
where
  "demo_wiring = \<lparr>wi_backend = disk_backend insertion_ops 30 (), wi_codec = plain_codec, wi_client = mem_client 0,
     wi_services = dict_server, wi_context = (\<lambda>_. Some two_steps), wi_local = True\<rparr>"

definition demo_env :: "string \<Rightarrow> nat message_env" where
  "demo_env k = \<lparr>me_clock = 100, me_reading = Some (Some 40, Some 50), me_capacity_reading = Some (Some 40, Some 50),
     me_ping = None, me_ray_up = False, me_available = [], me_stamp = demo_stamp, me_handle = 7\<rparr>"

definition demo_manager where
  "demo_manager = (\<lparr>mg_queue = disk_push insertion_ops 1 ''u0'' 2 232 (Some ''j1'') () demo_task empty_disk_queue,
     mg_cache = [], mg_registry = \<lparr>rg_cache = [], rg_signals = {}\<rparr>, mg_system = sm_init 0 None,
     mg_active = [], mg_submitted = []\<rparr> :: (_, (string, task_metadata \<times> int option) dict,
       (string, svc_value option \<times> int option) dict, nat) manager)"

lemma demo_items:
  "tq_items (wi_backend demo_wiring) (wi_codec demo_wiring) (mg_queue demo_manager) =
     [(make_queue_key 232 1 ''u0'', demo_task)]"
  by (simp add: tq_items_def demo_wiring_def disk_backend_def disk_items_def get_queue_keys_def demo_manager_def
      disk_push_def empty_disk_queue_def insertion_ops_def plain_codec_def List.map_filter_def cell_data_def)

lemma demo_task_ok: "md_ok demo_task"
  by (simp add: md_ok_def demo_task_def waiting_at_step_def from_ref_def mk_ref_def md_identity_def mk_identity_def
      two_steps_def identity_ok_def del: status_value.simps) blast

lemma demo_priority: "calculate_priority (wi_context demo_wiring) demo_task = Ok 232"
proof -
  have "current_stage (wi_context demo_wiring) demo_task = Ok (stage_value EXTRACT)"
    by (simp add: current_stage_def resolve_stage_def get_step_def demo_task_def waiting_at_step_def from_ref_def
        mk_ref_def two_steps_def demo_wiring_def)
  moreover have "md_status demo_task = status_value WAITING"
    by (simp add: demo_task_def waiting_at_step_def from_ref_def mk_ref_def)
  ultimately show ?thesis
    by (simp add: calculate_priority_def priority_of_exact del: stage_value.simps status_value.simps)
qed



text \<open>
  The wait of a retry is read the wrong way round. A retried task that is not blocked by a service is
  ready while its next attempt still lies ahead, if the disk is not blocked; once that time has passed it
  is never ready again, in any state of the host, and every tick leaves it where it is.
\<close>

theorem elapsed_retry_starves:
  assumes "md_status m = status_value RETRY" "md_blocked_by m = None" "md_next_attempt_ts m = Some t"
  shows "(now \<le> t \<and> \<not> fst (is_disk_blocked (me_clock e) (me_reading e) (mg_system mg)) \<longrightarrow>
      fst (is_task_ready w e now m mg)) \<and>
    (t < now \<longrightarrow> \<not> fst (is_task_ready w e now m mg) \<and>
      (\<exists>mg'. dispatch_loop w (\<lambda>_. e) now [(key, m)] mg = (Ok (), mg') \<and> same_jobs mg mg'))"
proof -
  have r: "fst (is_task_ready w e now m mg) \<longleftrightarrow>
      \<not> fst (is_disk_blocked (me_clock e) (me_reading e) (mg_system mg)) \<and> now \<le> t"
    using assms by (auto simp: is_task_ready_def split_def Let_def del: status_value.simps)
  have "\<exists>mg'. dispatch_loop w (\<lambda>_. e) now [(key, m)] mg = (Ok (), mg') \<and> same_jobs mg mg'" if "t < now"
  proof (cases "md_run_id m \<in> fst ` set (mg_active mg)")
    case False
    obtain ready mg1 where x: "is_task_ready w e now m mg = (ready, mg1)" by fastforce
    then have "\<not> ready" using r that by simp
    then show ?thesis using False x is_task_ready_keeps [of mg w e now m] by simp
  qed (simp add: same_jobs_def)
  then show ?thesis using r by auto
qed

theorem elapsed_retry_starves_witness:
  "\<not> fst (is_task_ready demo_wiring (demo_env []) 100
     (demo_task\<lparr>md_status := status_value RETRY, md_next_attempt_ts := Some 99\<rparr>) demo_manager) \<and>
   fst (is_task_ready demo_wiring (demo_env []) 98
     (demo_task\<lparr>md_status := status_value RETRY, md_next_attempt_ts := Some 99\<rparr>) demo_manager)"
proof -
  let ?m = "demo_task\<lparr>md_status := status_value RETRY, md_next_attempt_ts := Some 99\<rparr>"
  have m: "md_status ?m = status_value RETRY" "md_blocked_by ?m = None" "md_next_attempt_ts ?m = Some 99"
    by (simp_all add: demo_task_def waiting_at_step_def from_ref_def)
  have d: "\<not> fst (is_disk_blocked 100 (Some (Some 40, Some 50)) (sm_init 0 None))"
    by (simp add: is_disk_blocked_def sm_get_report_def sm_init_def sm_check_def from_metrics_def or_zero_def
        disk_verdict_def memory_verdict_def evaluate_def Let_def)
  show ?thesis
    using elapsed_retry_starves [OF m, of 100 "demo_env []" demo_manager demo_wiring]
      elapsed_retry_starves [OF m, of 98 "demo_env []" demo_manager demo_wiring] d
    by (simp add: demo_env_def demo_manager_def)
qed

end
