(* ===== verification/Execution.thy ===== *)
theory Execution
  imports Dispatch
begin

text \<open>
  The two ends of a worker run: \<open>common/task/executor.py\<close>, which turns a dispatched cache key into a
  running stage and a result, and the driver's side in \<open>common/task/manager.py\<close>, which reconciles the
  result with the outcome policies; and \<open>enqueue\<close>, which admits a task in the first place. The body of a
  stage (in process or as an external program) is an argument.
\<close>


section \<open>Enqueueing\<close>

definition contains :: "string \<Rightarrow> string \<Rightarrow> bool" where
  "contains pat s = list_ex (prefix pat) (suffixes s)"

text \<open>The entry of a new task: append loads expire at the end of the day.\<close>

definition new_entry :: "rat \<Rightarrow> rat \<Rightarrow> timeout_state \<Rightarrow> string \<Rightarrow> task_ref \<Rightarrow> task_metadata" where
  "new_entry now end_of_day ts config r =
    (from_ref now r config (if contains ''append'' (str_lower (job_id (identity r))) then Some end_of_day else None))
      \<lparr>md_scheduled_at := now, md_timeout_state := Some ts\<rparr>"

definition waiting_ref :: "task_ref \<Rightarrow> task_ref" where
  "waiting_ref r = (if ref_status r \<noteq> WAITING then with_updates r (Some WAITING) None else r)"

definition enqueue ::
  "('q, 'a) backend_ops \<Rightarrow> 'a codec \<Rightarrow> (string \<Rightarrow> task_context option) \<Rightarrow> fetcher \<Rightarrow>
   (task_metadata \<Rightarrow> 'c \<Rightarrow> bool res \<times> 'c) \<Rightarrow> rat \<Rightarrow> rat \<Rightarrow> queue_stamp \<Rightarrow> task_ref \<Rightarrow> string \<Rightarrow>
   'q \<times> 'c \<times> timeout_monitor \<Rightarrow> task_ref option res \<times> 'q \<times> 'c \<times> timeout_monitor"
where
  "enqueue be cd ctx_of fetch admit now end_of_day e r config s =
    (case s of (q, c, tm) \<Rightarrow>
      (let r1 = waiting_ref r;
           (ts, tm1) = create_timeout_state fetch now tm r1;
           m = new_entry now end_of_day ts config r1;
           (adm, c1) = admit m c
       in case adm of
            Inl err \<Rightarrow> (Inl err, q, c1, tm1)
          | Inr False \<Rightarrow> (Ok None, q, c1, tm1)
          | Inr True \<Rightarrow>
             (case tq_push be cd ctx_of e m q of
                (Inl err, q1) \<Rightarrow> (Inl err, q1, c1, tm1)
              | (Inr _, q1) \<Rightarrow> (Ok (Some r1), q1, c1, tm1))))"

text \<open>
  C16. Enqueueing over the disk-backed queue. An admitted task adds exactly one message, holding its
  entry in status \<open>WAITING\<close>, and is returned as a waiting reference; a refused one leaves the queue as it
  was. Either way the dataset's counter of active tasks goes up by one, so a refusal leaves a count
  nobody takes back.
\<close>

theorem enqueue_effect:
  fixes be :: "('s disk_queue, 'a) backend_ops" and adm :: "bool"
  assumes "cell_index ix contents" "be = disk_backend ix visibility no_md" "cells_ok ix q"
    and "m = new_entry now end_of_day (fst (create_timeout_state fetch now tm (waiting_ref r))) config (waiting_ref r)"
    and "calculate_priority ctx_of m = Ok p" "stamp_unused ix e p q" "cd_dec cd (cd_enc cd m) = Some m"
    and "admit m c = (Ok adm, c1)"
  shows "\<exists>q1 tm1. enqueue be cd ctx_of fetch admit now end_of_day e r config (q, c, tm) =
      (Ok (if adm then Some (waiting_ref r) else None), q1, c1, tm1) \<and>
    md_status m = status_value WAITING \<and> ref_status (waiting_ref r) = WAITING \<and>
    (if adm then cells_ok ix q1 \<and>
       (\<exists>key. key \<notin> fst ` set (tq_items be cd q) \<and> set (tq_items be cd q1) = insert (key, m) (set (tq_items be cd q)))
     else q1 = q) \<and>
    (\<forall>k. dict_get_or (tm_counts tm1) k 0 = dict_get_or (tm_counts tm) k 0 +
       (if k = tm_key (job_id (identity r)) (dataset_id (identity r)) then 1 else 0))"
proof -
  obtain ts tm1 where t: "create_timeout_state fetch now tm (waiting_ref r) = (ts, tm1)" by fastforce
  have ident: "identity (waiting_ref r) = identity r" "ref_status (waiting_ref r) = WAITING"
    by (auto simp: waiting_ref_def)
  have counts: "dict_get_or (tm_counts tm1) k 0 = dict_get_or (tm_counts tm) k 0 +
       (if k = tm_key (job_id (identity r)) (dataset_id (identity r)) then 1 else 0)" for k
    using create_counts [of fetch now tm "waiting_ref r" k] by (simp add: t ident)
  have st: "md_status m = status_value WAITING"
    by (simp add: assms(4) new_entry_def from_ref_def ident del: status_value.simps)
  note tb = dispatcher.axioms(1) [OF cell_index.disk_dispatcher [OF assms(1), of visibility no_md 0]]
  obtain key q1 where p: "tq_push be cd ctx_of e m q = (Ok (), q1)" "cells_ok ix q1"
    "key \<notin> fst ` set (tq_items be cd q)" "set (tq_items be cd q1) = insert (key, m) (set (tq_items be cd q))"
    unfolding assms(2) by (rule task_backend.tq_push_adds [OF tb assms(3,5,6,7)])
  have m: "new_entry now end_of_day ts config (waiting_ref r) = m" by (simp add: assms(4) t)
  show ?thesis
  proof (cases adm)
    case True
    have "enqueue be cd ctx_of fetch admit now end_of_day e r config (q, c, tm) = (Ok (Some (waiting_ref r)), q1, c1, tm1)"
      using True assms(8) p(1) by (simp add: enqueue_def t m)
    then show ?thesis using True st ident(2) p counts by auto
  next
    case False
    have "enqueue be cd ctx_of fetch admit now end_of_day e r config (q, c, tm) = (Ok None, q, c1, tm1)"
      using False assms(8) by (simp add: enqueue_def t m)
    then show ?thesis using False st ident(2) counts by auto
  qed
qed

theorem enqueue_effect_witness:
  "\<exists>q1 tm1. enqueue (disk_backend insertion_ops 30 ()) plain_codec (\<lambda>_. Some two_steps) (\<lambda>_ _ _. None)
      (\<lambda>m c. (Ok True, c)) 100 200 demo_stamp (mk_ref ''task'' RUNNING ''pull'' (ctx_identity two_steps)) ''cfg''
      (empty_disk_queue, (), tm_init) =
      (Ok (Some (waiting_ref (mk_ref ''task'' RUNNING ''pull'' (ctx_identity two_steps)))), q1, (), tm1) \<and>
    dict_get_or (tm_counts tm1) ''j1:ds'' 0 = 1"
proof -
  let ?r = "mk_ref ''task'' RUNNING ''pull'' (ctx_identity two_steps)"
  let ?m = "new_entry 100 200 (fst (create_timeout_state (\<lambda>_ _ _. None) 100 tm_init (waiting_ref ?r))) ''cfg'' (waiting_ref ?r)"
  have ok: "cells_ok insertion_ops (empty_disk_queue :: (task_metadata, unit) cell cells disk_queue)"
    by (simp add: cells_ok_def empty_disk_queue_def insertion_ops_def)
  have r: "ref_step_id (waiting_ref ?r) = ''pull''" "ref_status (waiting_ref ?r) = WAITING"
    by (simp_all add: waiting_ref_def mk_ref_def with_updates_def)
  have "current_stage (\<lambda>_. Some two_steps) ?m = Ok (stage_value EXTRACT)"
    by (simp add: current_stage_def resolve_stage_def get_step_def new_entry_def from_ref_def two_steps_def
        waiting_ref_def mk_ref_def with_updates_def)
  moreover have "md_status ?m = status_value WAITING"
    by (simp add: new_entry_def from_ref_def r del: status_value.simps)
  ultimately have p: "calculate_priority (\<lambda>_. Some two_steps) ?m = Ok (priority_of EXTRACT WAITING)"
    by (simp add: calculate_priority_def del: stage_value.simps status_value.simps)
  have f: "stamp_unused insertion_ops demo_stamp (priority_of EXTRACT WAITING)
      (empty_disk_queue :: (task_metadata, unit) cell cells disk_queue)"
    by (simp add: stamp_unused_def empty_disk_queue_def insertion_ops_def)
  have cd: "cd_dec plain_codec (cd_enc plain_codec ?m) = Some ?m" by (simp add: plain_codec_def)
  have k: "tm_key (job_id (identity ?r)) (dataset_id (identity ?r)) = ''j1:ds''"
    by (simp add: tm_key_def mk_ref_def two_steps_def mk_identity_def)
  have adm: "(\<lambda>m c. (Ok True, c)) ?m () = (Ok True, ())" by simp
  obtain q1 tm1 where q1: "enqueue (disk_backend insertion_ops 30 ()) plain_codec (\<lambda>_. Some two_steps) (\<lambda>_ _ _. None)
      (\<lambda>m c. (Ok True, c)) 100 200 demo_stamp ?r ''cfg'' (empty_disk_queue, (), tm_init) = (Ok (Some (waiting_ref ?r)), q1, (), tm1)"
    "\<forall>k. dict_get_or (tm_counts tm1) k 0 = dict_get_or (tm_counts tm_init) k 0 +
       (if k = tm_key (job_id (identity ?r)) (dataset_id (identity ?r)) then 1 else 0)"
    using enqueue_effect [OF dins.cell_index_axioms refl ok refl p f cd, where admit = "\<lambda>m c. (Ok True, c)" and visibility = 30 and no_md = "()",
      OF adm] unfolding if_True by (elim exE conjE) (rule that; assumption)
  from q1(2) have "dict_get_or (tm_counts tm1) ''j1:ds'' 0 = 1"
    unfolding k by (simp add: tm_init_def dict_get_or_def)
  with q1(1) show ?thesis by blast
qed


section \<open>A worker's run\<close>

text \<open>
  What a worker sends back: the entry it held, if it got that far, and the exception that stopped it.
  \<open>process_stage_task\<close> reports success exactly when there is none.
\<close>

record worker_result =
  wr_metadata :: "task_metadata option"
  wr_success :: bool
  wr_error :: "task_exc option"

definition raised :: "py_error \<Rightarrow> task_exc" where
  "raised e = \<lparr>ex_kind = (if e = TimeoutError then ETimeout else EOther), ex_type = '''', ex_message = ''''\<rparr>"

text \<open>The manifest a run without one starts from points to the step at hand.\<close>

definition first_manifest :: "clock \<Rightarrow> task_ref \<Rightarrow> workspace \<Rightarrow> task_manifest \<times> workspace" where
  "first_manifest ck r w =
    (case ws_file w of
       NoFile \<Rightarrow> (let m = (skeleton w)\<lparr>m_current_step_id := ref_step_id r, m_status := UNKNOWN\<rparr> in (m, save_manifest m w))
     | _ \<Rightarrow> load_manifest (ck_iso ck) w)"

text \<open>
  \<open>execute_stage\<close>: the entry is moved to \<open>RUNNING\<close>, then the time-out context and the session are entered
  and the body runs. \<open>t0\<close> and \<open>t1\<close> are the clock when the context opens and closes. The first component
  is the executor's \<open>current_metadata\<close>, whose timeout state the context updates in place.
\<close>

definition execute_stage ::
  "'c cache_client \<Rightarrow> clock \<Rightarrow> rat \<Rightarrow> rat \<Rightarrow> (task_manifest \<Rightarrow> workspace \<Rightarrow> task_exc option \<times> workspace) \<Rightarrow> string \<Rightarrow>
   'c \<times> workspace \<Rightarrow> task_metadata option \<times> task_exc option \<times> 'c \<times> workspace"
where
  "execute_stage cl ck t0 t1 body key s =
    (case s of (c, w) \<Rightarrow>
      let cache_key = sanitize_key TASK_PREFIX key in
      case from_key cache_key of
        Inl e \<Rightarrow> (None, Some (raised e), c, w)
      | Inr r \<Rightarrow>
         (case tc_get cl TASK_PREFIX None c cache_key of
            (Inl e, c1) \<Rightarrow> (None, Some (raised e), c1, w)
          | (Inr m, c1) \<Rightarrow>
             (case transition_state cl TASK_PREFIX (ck_epoch ck) c1 m RUNNING None no_overrides of
                Inl e \<Rightarrow> (Some m, Some (raised e), c1, w)
              | Inr (_, m1, c2) \<Rightarrow>
                 (let (mf, w1) = first_manifest ck r w in
                  case timeout_context_init t0 (md_timeout_state m1) of
                    Inl e \<Rightarrow> (Some m1, Some (raised e), c2, w1)
                  | Inr tc \<Rightarrow>
                     (let m2 = m1\<lparr>md_timeout_state := tc_state (tc_exit t1 (tc_enter t0 tc))\<rparr> in
                      case session_enter ck r mf w1 of
                        (Inl e, w2) \<Rightarrow> (Some m2, Some (raised e), c2, w2)
                      | (Inr _, w2) \<Rightarrow>
                         (let (mf2, w3) = load_manifest (ck_iso ck) w2; (ex, w4) = body mf2 w3
                          in (Some m2, ex, c2, w4)))))))"

definition process_stage_task ::
  "'c cache_client \<Rightarrow> clock \<Rightarrow> rat \<Rightarrow> rat \<Rightarrow> (task_manifest \<Rightarrow> workspace \<Rightarrow> task_exc option \<times> workspace) \<Rightarrow> string \<Rightarrow>
   'c \<times> workspace \<Rightarrow> worker_result \<times> 'c \<times> workspace"
where
  "process_stage_task cl ck t0 t1 body key s =
    (case execute_stage cl ck t0 t1 body key s of
       (md, ex, s') \<Rightarrow> (\<lparr>wr_metadata = md, wr_success = (ex = None), wr_error = ex\<rparr>, s'))"


section \<open>Reconciliation by the driver\<close>

text \<open>\<open>_conclude_outcome\<close> with its application; only a rollback looks the running entry up beforehand.\<close>

definition rollback_lookup ::
  "'c cache_client \<Rightarrow> (string \<Rightarrow> task_metadata option) option \<Rightarrow> task_ref \<Rightarrow> task_exc option \<Rightarrow> 'c \<Rightarrow>
   task_metadata res \<times> 'c"
where
  "rollback_lookup cl db r exc c =
    (case exc of
       None \<Rightarrow> (Inl LookupError, c)
     | Some e \<Rightarrow> (case ex_kind e of
         ERollback _ \<Rightarrow> tc_get cl TASK_PREFIX db c (running_key r)
       | _ \<Rightarrow> (Inl LookupError, c)))"

definition conclude_run ::
  "'c cache_client \<Rightarrow> (string \<Rightarrow> task_metadata option) option \<Rightarrow> clock \<Rightarrow> task_context res \<Rightarrow> task_ref \<Rightarrow>
   task_exc option \<Rightarrow> string \<Rightarrow> 'c driver \<times> workspace \<Rightarrow> unit res \<times> 'c driver \<times> workspace"
where
  "conclude_run cl db ck c_res r exc tb s =
    (case s of (dr, w) \<Rightarrow>
      let (g, c1) = rollback_lookup cl db r exc (dr_cache dr);
          dr1 = dr\<lparr>dr_cache := c1\<rparr>
      in case conclude_outcome ck c_res r w exc tb g of
           (Inl e, w1) \<Rightarrow> (Inl e, dr1, w1)
         | (Inr d, w1) \<Rightarrow> (let (u, dr2) = apply_outcome_resolution cl db ck dr1 r d in (u, dr2, w1)))"

text \<open>The reference a crashed bootstrap is failed under.\<close>

definition fallback_ref :: "string \<Rightarrow> task_ref" where
  "fallback_ref rid = mk_ref CACHE_TASK_NAMESPACE RUNNING ''start''
     (mk_identity ''unknown_job'' ''unknown_dataset'' ''unknown_date'' rid)"

definition bootstrap_crash :: task_exc where
  "bootstrap_crash = \<lparr>ex_kind = EOther, ex_type = ''RuntimeError'', ex_message = ''Worker bootstrap crash''\<rparr>"

text \<open>
  One finished worker. \<open>result\<close> is what \<open>ray.get\<close> returns for a handle, \<open>None\<close> when it raises; contexts
  and workspaces are those of the run. Every exception ends in a log line.
\<close>

definition reconcile_one ::
  "'c cache_client \<Rightarrow> (string \<Rightarrow> task_metadata option) option \<Rightarrow> clock \<Rightarrow> (task_ref \<Rightarrow> task_context res) \<Rightarrow>
   (task_exc \<Rightarrow> string) \<Rightarrow> ('h \<Rightarrow> worker_result option) \<Rightarrow> 'h \<Rightarrow>
   (string, 'h) dict \<times> 'c driver \<times> (task_identity \<Rightarrow> workspace) \<Rightarrow>
   (string, 'h) dict \<times> 'c driver \<times> (task_identity \<Rightarrow> workspace)"
where
  "reconcile_one cl db ck ctx tb result h s =
    (case s of (active, dr, ws) \<Rightarrow>
      case find (\<lambda>e. snd e = h) active of
        None \<Rightarrow> s
      | Some (rid, _) \<Rightarrow>
         (let active1 = dict_del rid active;
              conclude = (\<lambda>r exc. let (u, dr1, w1) = conclude_run cl db ck (ctx r) r exc
                    (case exc of None \<Rightarrow> '''' | Some e \<Rightarrow> tb e) (dr, ws (identity r))
                  in (active1, dr1, ws(identity r := w1)))
          in case result h of
               None \<Rightarrow> (active1, dr, ws)
             | Some res \<Rightarrow>
                (case wr_metadata res of
                   None \<Rightarrow> conclude (fallback_ref rid)
                      (Some (case wr_error res of None \<Rightarrow> bootstrap_crash | Some e \<Rightarrow> e))
                 | Some m \<Rightarrow>
                    (case res_bind (generate_cache_key m None) from_key of
                       Inl _ \<Rightarrow> (active1, dr, ws)
                     | Inr r \<Rightarrow> conclude r (if wr_success res then None else wr_error res)))))"

definition process_completed_steps ::
  "'c cache_client \<Rightarrow> (string \<Rightarrow> task_metadata option) option \<Rightarrow> clock \<Rightarrow> (task_ref \<Rightarrow> task_context res) \<Rightarrow>
   (task_exc \<Rightarrow> string) \<Rightarrow> ('h \<Rightarrow> worker_result option) \<Rightarrow> 'h list \<Rightarrow>
   (string, 'h) dict \<times> 'c driver \<times> (task_identity \<Rightarrow> workspace) \<Rightarrow>
   (string, 'h) dict \<times> 'c driver \<times> (task_identity \<Rightarrow> workspace)"
where
  "process_completed_steps cl db ck ctx tb result ready s =
    (if fst s = [] then s else fold (reconcile_one cl db ck ctx tb result) ready s)"


section \<open>A run from dispatch to the next queue entry\<close>

text \<open>The entry as a running worker stores it.\<close>

definition at_running :: "rat \<Rightarrow> task_metadata \<Rightarrow> task_metadata" where
  "at_running now m = apply_overrides now RUNNING None no_overrides m"

lemma at_running_simps [simp]:
  "md_status (at_running now m) = status_value RUNNING" "md_run_id (at_running now m) = md_run_id m"
  "md_current_step_id (at_running now m) = md_current_step_id m" "md_identity (at_running now m) = md_identity m"
  "md_timeout_state (at_running now m) = md_timeout_state m"
  by (simp_all add: at_running_def) (simp add: apply_overrides_def)

lemma at_running_ok: "md_ok m \<Longrightarrow> md_ok (at_running now m)"
  unfolding at_running_def by (rule apply_overrides_ok) (simp_all add: step_free_def)

text \<open>The timeout state is no part of the key.\<close>

lemma key_ignores_timeouts:
  "client_key_of (m\<lparr>md_timeout_state := ts\<rparr>) = client_key_of m"
  "md_ok (m\<lparr>md_timeout_state := ts\<rparr>) = md_ok m" "to_ref (m\<lparr>md_timeout_state := ts\<rparr>) = to_ref m"
  by (simp_all add: client_key_of_def client_parts_def md_ok_def md_identity_def to_ref_def)

lemma key_to_ref: "md_ok m \<Longrightarrow> res_bind (generate_cache_key m None) from_key = to_ref m"
  by (simp add: generate_cache_key_ok from_key_generated)

lemma running_ref:
  assumes "md_ok m"
  shows "\<exists>r. to_ref (at_running now m) = Ok r \<and> running_entry r (at_running now m)"
proof -
  have "to_ref (at_running now m) = Ok (mk_ref CACHE_TASK_NAMESPACE RUNNING (md_current_step_id m) (md_identity m))"
    by (simp add: to_ref_def del: status_value.simps)
  moreover have "running_entry (mk_ref CACHE_TASK_NAMESPACE RUNNING (md_current_step_id m) (md_identity m)) (at_running now m)"
    using at_running_ok [OF assms] by (simp add: running_entry_def mk_ref_def del: status_value.simps)
  ultimately show ?thesis by blast
qed

text \<open>Opening and closing the time-out context charges the elapsed time to the budget.\<close>

lemma context_charges:
  assumes "timeout_context_init t0 st = Ok tc"
  shows "tc_state (tc_exit t1 (tc_enter t0 tc)) =
    map_option (\<lambda>s. s\<lparr>budget_used := budget_used s + (t1 - t0), stage_start_time := 0\<rparr>) st"
proof (cases st)
  case (Some s)
  then show ?thesis using assms
    by (auto simp: timeout_context_init_def tc_exit_def tc_enter_def complete_stage_def start_stage_def split: if_splits)
qed (use assms in \<open>auto simp: timeout_context_init_def tc_exit_def tc_enter_def\<close>)

lemma running_transition:
  assumes "md_ok m" "mem_lookup t TASK_PREFIX c (client_key_of m) = Some m" "md_status m \<noteq> status_value RUNNING"
  obtains c1 where
    "tc_get (mem_client t) TASK_PREFIX None c (TASK_PREFIX @ client_key_of m) = (Ok m, c)"
    "transition_state (mem_client t) TASK_PREFIX now c m RUNNING None no_overrides =
       Ok (TASK_PREFIX @ client_key_of (at_running now m), at_running now m, c1)"
    "mem_lookup t TASK_PREFIX c1 (client_key_of (at_running now m)) = Some (at_running now m)"
    "mem_lookup t TASK_PREFIX c1 (client_key_of m) = None"
proof -
  have free: "step_free None" by (simp add: step_free_def)
  note ok = at_running_ok [OF assms(1), of now]
  have g: "tc_get (mem_client t) TASK_PREFIX None c (TASK_PREFIX @ client_key_of m) = (Ok m, c)"
    by (simp add: tc_get_ok [OF assms(1)] assms(2))
  obtain c1 where tr: "transition_state (mem_client t) TASK_PREFIX now c m RUNNING None no_overrides =
      Ok (TASK_PREFIX @ client_key_of (at_running now m), at_running now m, c1)"
    using transition_state_ok [OF assms(1) free, where cl = "mem_client t"] by (auto simp: at_running_def)
  note l = task_mem.transition_lookup(4) [OF assms(1) free tr [unfolded mem_client_def]]
  have "client_key_of m \<noteq> client_key_of (at_running now m)"
    using client_key_inj [OF assms(1) ok] assms(3) by (auto simp: client_parts_def)
  then have "prefixed TASK_PREFIX (client_key_of m) \<noteq> prefixed TASK_PREFIX (client_key_of (at_running now m))"
    using prefixed_client_inj [OF assms(1) ok] by auto
  then show ?thesis using that [OF g tr] by (simp add: l)
qed

lemma execute_known:
  assumes "md_ok m" "tc_get (mem_client t) TASK_PREFIX None c (TASK_PREFIX @ client_key_of m) = (Ok m, c)"
    and "transition_state (mem_client t) TASK_PREFIX (ck_epoch ck) c m RUNNING None no_overrides = Ok (k, m1, c1)"
    and "from_key (TASK_PREFIX @ client_key_of m) = Ok s0"
  obtains m2 ex w' where
    "execute_stage (mem_client t) ck t0 t1 body (TASK_PREFIX @ client_key_of m) (c, w) = (Some m2, ex, c1, w')"
    "\<exists>ts. m2 = m1\<lparr>md_timeout_state := ts\<rparr>"
    "case md_timeout_state m1 of None \<Rightarrow> md_timeout_state m2 = None
     | Some s \<Rightarrow> if is_budget_exceeded s then ex = Some (raised TimeoutError)
         else map_option budget_used (md_timeout_state m2) = Some (budget_used s + (t1 - t0))"
proof -
  obtain mf w1 where mf: "first_manifest ck s0 w = (mf, w1)" by fastforce
  note pre = assms(2-4) mf sanitize_generated [OF assms(1)]
  show ?thesis
  proof (cases "timeout_context_init t0 (md_timeout_state m1)")
    case (Inl e)
    then obtain s where s: "md_timeout_state m1 = Some s" "is_budget_exceeded s" "e = TimeoutError"
      by (auto simp: timeout_context_init_def split: option.splits if_splits)
    have "\<exists>ts. m1 = m1\<lparr>md_timeout_state := ts\<rparr>" by (rule exI [of _ "md_timeout_state m1"]) simp
    then show ?thesis using pre Inl s
      by (intro that [of m1 "Some (raised e)" w1]) (simp_all add: execute_stage_def)
  next
    case (Inr tc)
    let ?m2 = "m1\<lparr>md_timeout_state := tc_state (tc_exit t1 (tc_enter t0 tc))\<rparr>"
    have ts: "case md_timeout_state m1 of None \<Rightarrow> md_timeout_state ?m2 = None
       | Some s \<Rightarrow> if is_budget_exceeded s then ex = Some (raised TimeoutError)
           else map_option budget_used (md_timeout_state ?m2) = Some (budget_used s + (t1 - t0))" for ex
      using Inr context_charges [OF Inr, of t1] by (auto simp: timeout_context_init_def split: option.splits)
    have m2: "\<exists>ts. ?m2 = m1\<lparr>md_timeout_state := ts\<rparr>" by blast
    obtain u w2 where se: "session_enter ck s0 mf w1 = (u, w2)" by fastforce
    obtain mf2 w3 where lm: "load_manifest (ck_iso ck) w2 = (mf2, w3)" by fastforce
    obtain ex w4 where b: "body mf2 w3 = (ex, w4)" by fastforce
    show ?thesis
    proof (cases u)
      case e: (Inl e)
      show ?thesis using pre Inr se e
        by (intro that [OF _ m2 ts, of "Some (raised e)" w2]) (simp add: execute_stage_def)
    next
      case (Inr mf')
      show ?thesis using pre \<open>timeout_context_init t0 (md_timeout_state m1) = Inr tc\<close> se lm b Inr
        by (intro that [OF _ m2 ts, of ex w4]) (simp add: execute_stage_def)
    qed
  qed
qed

text \<open>
  A dispatched entry through a worker. Whatever the stage's body does, the dispatched entry is
  replaced by a running one, and what the worker returns parses to a reference whose running entry is
  exactly the one in the cache, so the driver will find it. A spent budget stops the run before the body.
  Otherwise the elapsed time is charged to the entry the worker returns, but not to the one in the cache.
\<close>

theorem worker_run:
  assumes "md_ok m" "mem_lookup t TASK_PREFIX c (client_key_of m) = Some m" "md_status m \<noteq> status_value RUNNING"
    and "process_stage_task (mem_client t) ck t0 t1 body (TASK_PREFIX @ client_key_of m) (c, w) = (res, c', w')"
  shows "\<exists>m2 r. wr_metadata res = Some m2 \<and> (wr_success res \<longleftrightarrow> wr_error res = None) \<and>
    res_bind (generate_cache_key m2 None) from_key = Ok r \<and> running_entry r (at_running (ck_epoch ck) m) \<and>
    mem_lookup t TASK_PREFIX c' (client_key_of (at_running (ck_epoch ck) m)) = Some (at_running (ck_epoch ck) m) \<and>
    mem_lookup t TASK_PREFIX c' (client_key_of m) = None \<and>
    (case md_timeout_state m of None \<Rightarrow> md_timeout_state m2 = None
     | Some s \<Rightarrow> if is_budget_exceeded s then wr_error res = Some (raised TimeoutError)
         else map_option budget_used (md_timeout_state m2) = Some (budget_used s + (t1 - t0)))"
proof -
  let ?m1 = "at_running (ck_epoch ck) m"
  obtain c1 where g: "tc_get (mem_client t) TASK_PREFIX None c (TASK_PREFIX @ client_key_of m) = (Ok m, c)"
    and tr: "transition_state (mem_client t) TASK_PREFIX (ck_epoch ck) c m RUNNING None no_overrides =
       Ok (TASK_PREFIX @ client_key_of ?m1, ?m1, c1)"
    and l: "mem_lookup t TASK_PREFIX c1 (client_key_of ?m1) = Some ?m1"
      "mem_lookup t TASK_PREFIX c1 (client_key_of m) = None"
    by (rule running_transition [OF assms(1-3)])
  obtain st0 where "to_ref m = Ok (mk_ref CACHE_TASK_NAMESPACE st0 (md_current_step_id m) (md_identity m))"
    by (rule to_ref_ok [OF assms(1)])
  then obtain s0 where r0: "from_key (TASK_PREFIX @ client_key_of m) = Ok s0"
    unfolding from_key_generated [OF assms(1)] by blast
  obtain r where r: "to_ref ?m1 = Ok r" "running_entry r ?m1" using running_ref [OF assms(1)] by blast
  have ok: "md_ok ?m1" by (rule at_running_ok [OF assms(1)])
  have ref: "res_bind (generate_cache_key (?m1\<lparr>md_timeout_state := ts\<rparr>) None) from_key = Ok r" for ts
    using ok r(1) by (simp add: key_to_ref key_ignores_timeouts)
  obtain m2 ex wz where x: "execute_stage (mem_client t) ck t0 t1 body (TASK_PREFIX @ client_key_of m) (c, w) = (Some m2, ex, c1, wz)"
    and m2: "\<exists>ts. m2 = ?m1\<lparr>md_timeout_state := ts\<rparr>"
    and ts: "case md_timeout_state ?m1 of None \<Rightarrow> md_timeout_state m2 = None
     | Some s \<Rightarrow> if is_budget_exceeded s then ex = Some (raised TimeoutError)
         else map_option budget_used (md_timeout_state m2) = Some (budget_used s + (t1 - t0))"
    by (rule execute_known [OF assms(1) g tr r0])
  have res: "res = \<lparr>wr_metadata = Some m2, wr_success = (ex = None), wr_error = ex\<rparr>" "c' = c1"
    using assms(4) x by (simp_all add: process_stage_task_def)
  have m2_ref: "res_bind (generate_cache_key m2 None) from_key = Ok r" using m2 ref by blast
  show ?thesis
    by (rule exI [of _ m2], rule exI [of _ r], intro conjI)
      (use ts in \<open>simp_all only: res l r m2_ref worker_result.simps at_running_simps\<close>)
qed

definition demo_entry :: task_metadata where
  "demo_entry = (dispatched_md 100 demo_task)\<lparr>md_timeout_state := Some default_timeout_state\<rparr>"

definition demo_cache :: "(string, task_metadata \<times> int option) dict" where
  "demo_cache = mem_put 0 TASK_PREFIX [] (client_key_of demo_entry) demo_entry"

definition demo_workspace :: workspace where
  "demo_workspace = mk_workspace (ctx_identity two_steps) ''active'' NoFile"

abbreviation demo_run where
  "demo_run \<equiv> process_stage_task (mem_client 0) sample_clock 10 17 (\<lambda>mf w. (None, w))
     (TASK_PREFIX @ client_key_of demo_entry) (demo_cache, demo_workspace)"

lemma demo_entry_facts:
  "md_ok demo_entry" "mem_lookup 0 TASK_PREFIX demo_cache (client_key_of demo_entry) = Some demo_entry"
  "md_status demo_entry \<noteq> status_value RUNNING" "md_timeout_state demo_entry = Some default_timeout_state"
  using dispatched_md_ok [OF demo_task_ok]
  by (simp_all add: demo_entry_def key_ignores_timeouts demo_cache_def mem.lookup_put)

theorem worker_run_witness:
  "\<exists>m2. wr_metadata (fst demo_run) = Some m2 \<and> map_option budget_used (md_timeout_state m2) = Some 7 \<and>
     mem_lookup 0 TASK_PREFIX (fst (snd demo_run)) (client_key_of demo_entry) = None"
proof -
  obtain res c' w' where r: "demo_run = (res, c', w')" by (rule prod_cases3)
  have b: "is_budget_exceeded default_timeout_state = False" "budget_used default_timeout_state = 0"
    by (simp_all add: is_budget_exceeded_def default_timeout_state_def)
  from worker_run [OF demo_entry_facts(1-3) r] obtain m2 where "wr_metadata res = Some m2"
    "mem_lookup 0 TASK_PREFIX c' (client_key_of demo_entry) = None"
    "map_option budget_used (md_timeout_state m2) = Some (0 + (17 - 10))"
    unfolding demo_entry_facts(4) option.case b if_False by (elim exE conjE) (rule that; simp)
  then show ?thesis by (simp add: r)
qed

lemma transition_md:
  "transition_state cl p now s m st step ov = Ok (k, m', s') \<Longrightarrow> m' = apply_overrides now st step ov m"
  by (auto simp: transition_state_def res_bind_Ok_iff Let_def)

lemma apply_overrides_timeouts [simp]: "md_timeout_state (apply_overrides now st step ov m) = md_timeout_state m"
  by (simp add: apply_overrides_def)

text \<open>A directive queues at most one entry, the looked-up one with a new status and step.\<close>

lemma apply_queues_one:
  assumes "running_entry r md" "mem_lookup now TASK_PREFIX (dr_cache dr) (client_key_of md) = Some md"
    and "apply_outcome_resolution (mem_client now) db ck dr r d = (u, dr')"
  shows "\<exists>qs. dr_queue dr' = dr_queue dr @ qs \<and> length qs \<le> 1 \<and> (u \<noteq> Ok () \<longrightarrow> qs = []) \<and>
    (\<forall>q\<in>set qs. md_run_id q = md_run_id md \<and> md_timeout_state q = md_timeout_state md)"
proof -
  have ok: "md_ok md" using assms(1) by (simp add: running_entry_def)
  have g: "tc_get (mem_client now) TASK_PREFIX db (dr_cache dr) (running_key r) = (Ok md, dr_cache dr)"
    unfolding running_key_entry [OF assms(1)] tc_get_ok [OF ok] by (simp add: assms(2))
  define dr3 where "dr3 = (let dr2 = (case rs_signal d of None \<Rightarrow> dr
        | Some sg \<Rightarrow> dr\<lparr>dr_signals := dr_signals dr @ [(run_id (identity r), sg, ref_step_id r)]\<rparr>)
      in if rs_release_dataset_lock d
         then dr2\<lparr>dr_timeouts := release_dataset_cache (dr_timeouts dr2) (run_id (identity r)) (dataset_id (identity r))\<rparr>
         else dr2)"
  have q3: "dr_queue dr3 = dr_queue dr" by (auto simp: dr3_def Let_def split: option.splits)
  have app: "(u, dr') = (if rs_release_cache d then (Ok (), dr3\<lparr>dr_cache := cl_pop (mem_client now) (dr_cache dr3) (running_key r)\<rparr>)
      else (case transition_state (mem_client now) TASK_PREFIX (ck_epoch ck) (dr_cache dr3) md (rs_status d)
                  (rs_next_step_id d) (resolution_overrides d) of
            Inl e \<Rightarrow> (Inl e, dr3)
          | Inr (_, md', c2) \<Rightarrow> (Ok (), dr3\<lparr>dr_cache := c2,
              dr_queue := (if rs_re_enqueue d then dr_queue dr3 @ [md'] else dr_queue dr3)\<rparr>)))"
    using assms(3) [symmetric]
    by (cases "rs_signal d"; cases "rs_release_dataset_lock d"; simp add: apply_outcome_resolution_def g dr3_def Let_def split: sum.split)
  show ?thesis
  proof (cases "rs_release_cache d")
    case True
    then show ?thesis using app q3 by simp
  next
    case False
    show ?thesis
    proof (cases "transition_state (mem_client now) TASK_PREFIX (ck_epoch ck) (dr_cache dr3) md (rs_status d)
        (rs_next_step_id d) (resolution_overrides d)")
      case (Inl e)
      then show ?thesis using app q3 False by simp
    next
      case (Inr x)
      obtain k md' c2 where x: "x = (k, md', c2)" by (cases x)
      note md' = transition_md [OF Inr [unfolded x]]
      show ?thesis using app q3 False Inr x
        by (intro exI [of _ "if rs_re_enqueue d then [md'] else []"]) (simp add: md')
    qed
  qed
qed

lemma conclude_queues_one:
  assumes "running_entry r md" "mem_lookup now TASK_PREFIX (dr_cache dr) (client_key_of md) = Some md"
    and "conclude_run (mem_client now) db ck c_res r exc tb (dr, w) = (u, dr', w')"
  shows "\<exists>qs. dr_queue dr' = dr_queue dr @ qs \<and> length qs \<le> 1 \<and> (u \<noteq> Ok () \<longrightarrow> qs = []) \<and>
    (\<forall>q\<in>set qs. md_run_id q = md_run_id md \<and> md_timeout_state q = md_timeout_state md)"
proof -
  have ok: "md_ok md" using assms(1) by (simp add: running_entry_def)
  have g: "tc_get (mem_client now) TASK_PREFIX db (dr_cache dr) (running_key r) = (Ok md, dr_cache dr)"
    unfolding running_key_entry [OF assms(1)] tc_get_ok [OF ok] by (simp add: assms(2))
  have "snd (rollback_lookup (mem_client now) db r exc (dr_cache dr)) = dr_cache dr"
    using g by (auto simp: rollback_lookup_def split: option.splits exc_kind.splits)
  then obtain g' where gc: "rollback_lookup (mem_client now) db r exc (dr_cache dr) = (g', dr_cache dr)"
    by (metis prod.collapse)
  have run: "conclude_run (mem_client now) db ck c_res r exc tb (dr, w) =
      (case conclude_outcome ck c_res r w exc tb g' of
         (Inl e, w1) \<Rightarrow> (Inl e, dr, w1)
       | (Inr d, w1) \<Rightarrow> (let (u, dr2) = apply_outcome_resolution (mem_client now) db ck dr r d in (u, dr2, w1)))"
    by (simp add: conclude_run_def gc)
  obtain o_res w1 where o_res: "conclude_outcome ck c_res r w exc tb g' = (o_res, w1)" by fastforce
  show ?thesis
  proof (cases o_res)
    case (Inl e)
    then show ?thesis using assms(3) unfolding run o_res by simp
  next
    case (Inr d)
    obtain u2 dr2 where a: "apply_outcome_resolution (mem_client now) db ck dr r d = (u2, dr2)" by fastforce
    then have "u2 = u" "dr2 = dr'" using assms(3) Inr unfolding run o_res by simp_all
    then show ?thesis using apply_queues_one [OF assms(1,2) a] by simp
  qed
qed

text \<open>
  C2. A whole stage cycle: a worker runs a dispatched entry and the driver reconciles its result. The run
  leaves the table of active runs, the workspaces of other runs are untouched, and at most one entry is
  queued, of the same run. If concluding the outcome raises, none is: the run is then neither active nor
  queued. The queued entry carries the time-out state the entry had at dispatch: what the stage spent is
  never charged to the job's budget.
\<close>

theorem stage_cycle:
  assumes "md_ok m" "mem_lookup t TASK_PREFIX c (client_key_of m) = Some m" "md_status m \<noteq> status_value RUNNING"
    and "process_stage_task (mem_client t) ck t0 t1 body (TASK_PREFIX @ client_key_of m) (c, w) = (res, dr_cache dr, w')"
    and "find (\<lambda>e. snd e = h) active = Some (rid, h)" "result h = Some res"
    and "reconcile_one (mem_client t) db ck' ctx tb result h (active, dr, ws) = (active', dr', ws')"
  shows "active' = dict_del rid active \<and> (\<forall>i. i \<noteq> md_identity m \<longrightarrow> ws' i = ws i) \<and>
    (\<exists>qs r u. dr_queue dr' = dr_queue dr @ qs \<and> length qs \<le> 1 \<and> identity r = md_identity m \<and>
      (\<forall>q\<in>set qs. md_run_id q = md_run_id m \<and> md_timeout_state q = md_timeout_state m) \<and>
      u = fst (conclude_run (mem_client t) db ck' (ctx r) r (wr_error res)
        (case wr_error res of None \<Rightarrow> [] | Some e \<Rightarrow> tb e) (dr, ws (identity r))) \<and>
      (u \<noteq> Ok () \<longrightarrow> qs = []))"
proof -
  let ?m1 = "at_running (ck_epoch ck) m"
  obtain m2 r where m2: "wr_metadata res = Some m2" "wr_success res \<longleftrightarrow> wr_error res = None"
    "res_bind (generate_cache_key m2 None) from_key = Ok r" "running_entry r ?m1"
    "mem_lookup t TASK_PREFIX (dr_cache dr) (client_key_of ?m1) = Some ?m1"
    using worker_run [OF assms(1-4)] by (elim exE conjE) (rule that; assumption)
  have i: "identity r = md_identity m" using m2(4) by (simp add: running_entry_def)
  let ?tb = "case wr_error res of None \<Rightarrow> [] | Some e \<Rightarrow> tb e"
  obtain u dr1 w1 where c: "conclude_run (mem_client t) db ck' (ctx r) r (wr_error res) ?tb (dr, ws (identity r)) = (u, dr1, w1)"
    by (rule prod_cases3)
  have exc: "(if wr_success res then None else wr_error res) = wr_error res" using m2(2) by auto
  have r: "reconcile_one (mem_client t) db ck' ctx tb result h (active, dr, ws) =
      (dict_del rid active, dr1, ws(identity r := w1))"
    using c by (simp add: reconcile_one_def assms(5,6) m2(1,3) exc)
  from conclude_queues_one [OF m2(4,5) c] obtain qs where qs: "dr_queue dr1 = dr_queue dr @ qs" "length qs \<le> 1"
    "u \<noteq> Ok () \<longrightarrow> qs = []" "\<forall>q\<in>set qs. md_run_id q = md_run_id ?m1 \<and> md_timeout_state q = md_timeout_state ?m1" by blast
  have a: "active' = dict_del rid active" "dr' = dr1" "ws' = ws(identity r := w1)" using assms(7) r by simp_all
  show ?thesis
    by (intro conjI allI impI exI [of _ qs] exI [of _ r] exI [of _ u]) (use a qs i c in auto)
qed

theorem stage_cycle_witness:
  "\<exists>qs. dr_queue (fst (snd (reconcile_one (mem_client 0) None sample_clock (\<lambda>_. Ok two_steps) (\<lambda>_. [])
      (\<lambda>h. Some (fst demo_run)) (7 :: nat) ([(''r7'', 7)],
       \<lparr>dr_cache = fst (snd demo_run), dr_timeouts = tm_init, dr_queue = [], dr_signals = []\<rparr>, \<lambda>_. demo_workspace)))) = qs \<and>
     length qs \<le> 1 \<and> (\<forall>q\<in>set qs. md_timeout_state q = Some default_timeout_state)"
proof -
  let ?dr = "\<lparr>dr_cache = fst (snd demo_run), dr_timeouts = tm_init, dr_queue = [], dr_signals = []\<rparr>"
  have run: "demo_run = (fst demo_run, dr_cache ?dr, snd (snd demo_run))" by simp
  have f: "find (\<lambda>e. snd e = (7 :: nat)) [(''r7'', 7)] = Some (''r7'', 7)" by simp
  obtain a d ws where r: "reconcile_one (mem_client 0) None sample_clock (\<lambda>_. Ok two_steps) (\<lambda>_. [])
      (\<lambda>h. Some (fst demo_run)) (7 :: nat) ([(''r7'', 7)], ?dr, \<lambda>_. demo_workspace) = (a, d, ws)"
    by (rule prod_cases3)
  obtain qs where "dr_queue d = dr_queue ?dr @ qs" "length qs \<le> 1"
    "\<forall>q\<in>set qs. md_run_id q = md_run_id demo_entry \<and> md_timeout_state q = md_timeout_state demo_entry"
    using stage_cycle [OF demo_entry_facts(1-3) run f refl r] by (elim exE conjE) (rule that; assumption)
  then show ?thesis unfolding r by (simp add: demo_entry_facts(4))
qed

end
