(* ===== verification/SqlText.thy ===== *)
theory SqlText
  imports Prelude "HOL-Library.Sublist"
begin

text \<open>
  The text layer of \<open>libs/database/sql\<close>: templates filled in by \<open>str.format\<close>, quoted identifiers,
  literals, predicates and SELECT blocks (\<open>compile.py\<close>, \<open>utils.py\<close>, \<open>enums.py\<close>), with the
  reader of SQL string literals that says what a compiled literal means.
\<close>


section \<open>String functions\<close>

definition is_space :: "char \<Rightarrow> bool" where
  "is_space c \<longleftrightarrow> (of_char c :: nat) \<in> {9, 10, 11, 12, 13, 28, 29, 30, 31, 32, 133, 160}"

definition py_strip :: "string \<Rightarrow> string" where
  "py_strip s = rev (dropWhile is_space (rev (dropWhile is_space s)))"

definition rstrip_char :: "char \<Rightarrow> string \<Rightarrow> string" where
  "rstrip_char c s = rev (dropWhile (\<lambda>x. x = c) (rev s))"

definition ends_with :: "string \<Rightarrow> string \<Rightarrow> bool" where
  "ends_with sfx s \<longleftrightarrow> prefix (rev sfx) (rev s)"

definition QUOTE :: char where "QUOTE = CHR 0x27"
definition DQUOTE :: char where "DQUOTE = CHR 0x22"
definition NEWLINE :: char where "NEWLINE = CHR 0x0A"

text \<open>\<open>s.replace(c, t)\<close> for a one-character pattern.\<close>

definition replace_char :: "char \<Rightarrow> string \<Rightarrow> string \<Rightarrow> string" where
  "replace_char c t s = concat (map (\<lambda>x. if x = c then t else [x]) s)"

lemma dropWhile_space_rev:
  "s = [] \<or> \<not> is_space (hd s) \<Longrightarrow> dropWhile is_space s = s"
  by (cases s) auto

lemma dropWhile_snoc_keep: "\<not> P x \<Longrightarrow> dropWhile P (xs @ [x]) \<noteq> []"
  by (induction xs) auto

lemma py_strip_ends:
  "py_strip s = [] \<or> \<not> is_space (hd (py_strip s)) \<and> \<not> is_space (last (py_strip s))"
proof (cases "dropWhile is_space s")
  case Nil
  then have "py_strip s = []" unfolding py_strip_def Nil by simp
  then show ?thesis by simp
next
  case (Cons x xs)
  then have x: "\<not> is_space x" by (metis dropWhile_eq_Cons_conv)
  let ?r = "dropWhile is_space (rev (x # xs))"
  obtain ys y where r: "?r = y # ys" using x dropWhile_snoc_keep [of is_space x "rev xs"] by (cases ?r) auto
  then have y: "\<not> is_space y" by (metis dropWhile_eq_Cons_conv)
  have "x = last ?r" using x
    by (metis append_is_Nil_conv dropWhile_append3 dropWhile_snoc_keep last_snoc rev.simps(2) takeWhile_dropWhile_id
        last_appendR list.distinct(1) r)
  moreover have "py_strip s = rev ?r" unfolding py_strip_def Cons ..
  ultimately show ?thesis using x y r by (metis hd_rev last_rev list.sel(1))
qed

lemma py_strip_id: "s = [] \<or> \<not> is_space (hd s) \<and> \<not> is_space (last s) \<Longrightarrow> py_strip s = s"
  by (cases s rule: rev_cases) (auto simp: py_strip_def dropWhile_space_rev hd_append split: if_splits)

lemma py_strip_idem [simp]: "py_strip (py_strip s) = py_strip s"
  by (rule py_strip_id [OF py_strip_ends])


section \<open>Templates\<close>

text \<open>
  \<open>template.format(**kwargs)\<close> for templates whose fields are plain names, as all of the program's are:
  doubled braces stand for one, a field without a value raises.
\<close>

fun split_brace :: "string \<Rightarrow> (string \<times> string) option" where
  "split_brace [] = None"
| "split_brace (c # s) = (if c = CHR ''}'' then Some ([], s) else map_option (\<lambda>(n, r). (c # n, r)) (split_brace s))"

lemma split_brace_length: "split_brace s = Some (n, r) \<Longrightarrow> length r < length s"
  by (induction s arbitrary: n) (auto split: if_splits)

lemma split_brace_length_Cons: "split_brace (d # s) = Some (n, r) \<Longrightarrow> length r < Suc (Suc (length s))"
  using split_brace_length by fastforce

function py_format :: "string \<Rightarrow> (string, string) dict \<Rightarrow> string res" where
  "py_format [] kw = Ok []"
| "py_format (c # s) kw =
    (if c = CHR ''{'' then
       (case s of
          [] \<Rightarrow> Err ValueError
        | d # s' \<Rightarrow>
           if d = CHR ''{'' then res_bind (py_format s' kw) (\<lambda>t. Ok (CHR ''{'' # t))
           else (case split_brace s of
             None \<Rightarrow> Err ValueError
           | Some (n, r) \<Rightarrow>
              (case dict_get kw n of
                 None \<Rightarrow> Err KeyError
               | Some v \<Rightarrow> res_bind (py_format r kw) (\<lambda>t. Ok (v @ t)))))
     else if c = CHR ''}'' then
       (case s of
          d # s' \<Rightarrow> if d = CHR ''}'' then res_bind (py_format s' kw) (\<lambda>t. Ok (CHR ''}'' # t)) else Err ValueError
        | [] \<Rightarrow> Err ValueError)
     else res_bind (py_format s kw) (\<lambda>t. Ok (c # t)))"
  by pat_completeness auto
termination
  by (relation "measure (\<lambda>(s, kw). length s)") (auto simp del: split_brace.simps dest: split_brace_length_Cons)

text \<open>The fields of a template, in order.\<close>

function fields_of :: "string \<Rightarrow> string list" where
  "fields_of [] = []"
| "fields_of (c # s) =
    (if c = CHR ''{'' then
       (case s of
          [] \<Rightarrow> []
        | d # s' \<Rightarrow> if d = CHR ''{'' then fields_of s'
            else (case split_brace s of None \<Rightarrow> [] | Some (n, r) \<Rightarrow> n # fields_of r))
     else if c = CHR ''}'' then (case s of d # s' \<Rightarrow> fields_of s' | [] \<Rightarrow> [])
     else fields_of s)"
  by pat_completeness auto
termination
  by (relation "measure length") (auto simp del: split_brace.simps dest: split_brace_length_Cons)

text \<open>A template can only be filled in when every field has a value.\<close>

lemma py_format_needs_fields:
  "py_format s kw = Ok t \<Longrightarrow> set (fields_of s) \<subseteq> dom (dict_get kw)"
proof (induction s arbitrary: t rule: fields_of.induct)
  case (2 c s)
  consider (lit) "c \<noteq> CHR ''{''" "c \<noteq> CHR ''}''" | (close) "c = CHR ''}''"
    | (open_end) "c = CHR ''{''" "s = []" | (open_two) s' where "c = CHR ''{''" "s = CHR ''{'' # s'"
    | (field) d s' where "c = CHR ''{''" "s = d # s'" "d \<noteq> CHR ''{''"
    by (cases s) auto
  then show ?case
  proof cases
    case lit
    then show ?thesis using 2 by (auto simp: res_bind_Ok_iff)
  next
    case close
    then show ?thesis using 2 by (cases s) (auto simp: res_bind_Ok_iff split: if_splits)
  next
    case open_end
    then show ?thesis by simp
  next
    case open_two
    then show ?thesis using 2(1) [OF open_two(1) open_two(2) refl] 2(5) by (auto simp: res_bind_Ok_iff)
  next
    case field
    obtain n r where nr: "split_brace s = Some (n, r)" using 2(5) field
      by (auto simp del: split_brace.simps split: option.splits)
    then obtain v t' where v: "dict_get kw n = Some v" and t': "py_format r kw = Ok t'"
      using 2(5) field by (auto simp: res_bind_Ok_iff simp del: split_brace.simps split: option.splits)
    have "set (fields_of r) \<subseteq> dom (dict_get kw)"
      by (rule 2(2) [OF field(1) field(2) field(3) nr refl t'])
    then show ?thesis using nr v field by (auto simp del: split_brace.simps)
  qed
qed simp


section \<open>Quoted identifiers\<close>

record quoting =
  q_open :: string
  q_close :: string

definition quote_part :: "quoting \<Rightarrow> string \<Rightarrow> string" where
  "quote_part q part =
    (let cleaned = py_strip part in
     if prefix (q_open q) cleaned \<and> ends_with (q_close q) cleaned then cleaned
     else q_open q @ cleaned @ q_close q)"

definition quote_identifier :: "quoting \<Rightarrow> string \<Rightarrow> string" where
  "quote_identifier q ident =
    (if ident = [] then []
     else if py_strip ident = ''*'' then ''*''
     else py_join ''.'' (map (quote_part q) (py_split CHR ''.'' ident)))"

text \<open>Quote marks of the dialects: no space, no dot and no star in them.\<close>

definition mark_ok :: "string \<Rightarrow> bool" where
  "mark_ok m \<longleftrightarrow> (\<forall>c\<in>set m. \<not> is_space c \<and> c \<noteq> CHR ''.'' \<and> c \<noteq> CHR ''*'')"


lemma py_strip_mem: "c \<in> set s \<Longrightarrow> \<not> is_space c \<Longrightarrow> c \<in> set (py_strip s)"
proof -
  have keep: "c \<in> set (dropWhile is_space t)" if "c \<in> set t" "\<not> is_space c" for t
    using that by (induction t) auto
  show "c \<in> set s \<Longrightarrow> \<not> is_space c \<Longrightarrow> c \<in> set (py_strip s)"
    by (simp add: py_strip_def keep)
qed

lemma set_py_strip: "set (py_strip s) \<subseteq> set s"
proof -
  have "set (dropWhile is_space t) \<subseteq> set t" for t by (auto dest: set_dropWhileD)
  then show ?thesis unfolding py_strip_def by (metis set_rev subset_trans)
qed

lemma ends_with_append [simp]: "ends_with t (s @ t)"
  by (simp add: ends_with_def)

lemma quote_part_keeps:
  assumes "mark_ok (q_open q)" "mark_ok (q_close q)"
  shows "py_strip (quote_part q p) = quote_part q p"
proof (cases "prefix (q_open q) (py_strip p) \<and> ends_with (q_close q) (py_strip p)")
  case True
  then show ?thesis by (simp add: quote_part_def Let_def)
next
  case False
  let ?w = "q_open q @ py_strip p @ q_close q"
  have w: "quote_part q p = ?w" using False by (auto simp: quote_part_def Let_def)
  have "?w = [] \<or> \<not> is_space (hd ?w)" if "q_open q \<noteq> [] \<or> py_strip p \<noteq> []"
    using that assms(1) py_strip_ends [of p]
    by (cases "q_open q") (auto simp: mark_ok_def hd_append)
  moreover have "?w = [] \<or> \<not> is_space (last ?w)" if "q_close q \<noteq> [] \<or> py_strip p \<noteq> []"
    using that assms(2) py_strip_ends [of p]
    by (cases "q_close q" rule: rev_cases) (auto simp: mark_ok_def last_append)
  moreover have "\<not> is_space c" if "c \<in> set ?w" "py_strip p = []" for c
    using that assms by (auto simp: mark_ok_def)
  ultimately have "?w = [] \<or> \<not> is_space (hd ?w) \<and> \<not> is_space (last ?w)"
    by (metis hd_in_set last_in_set)
  then show ?thesis unfolding w by (rule py_strip_id)
qed

lemma quote_part_idem:
  assumes "mark_ok (q_open q)" "mark_ok (q_close q)"
  shows "quote_part q (quote_part q p) = quote_part q p"
proof -
  have "prefix (q_open q) (quote_part q p) \<and> ends_with (q_close q) (quote_part q p)"
    unfolding quote_part_def Let_def by (auto simp flip: append_assoc)
  then show ?thesis
    using quote_part_keeps [OF assms, of p] by (subst quote_part_def) (simp add: Let_def)
qed

lemma quote_part_dot_free:
  assumes "mark_ok (q_open q)" "mark_ok (q_close q)" "CHR ''.'' \<notin> set p"
  shows "CHR ''.'' \<notin> set (quote_part q p)"
  using assms set_py_strip [of p] by (auto simp: quote_part_def Let_def mark_ok_def)

lemma quote_identifier_not_star:
  assumes "mark_ok (q_open q)" "mark_ok (q_close q)" "py_strip i \<noteq> ''*''"
  shows "py_strip (py_join ''.'' (map (quote_part q) (py_split CHR ''.'' i))) \<noteq> ''*''"
proof (cases "CHR ''.'' \<in> set i")
  case True
  then obtain u v where "i = u @ CHR ''.'' # v" "CHR ''.'' \<notin> set u" by (meson split_list_first)
  then have "CHR ''.'' \<in> set (py_join ''.'' (map (quote_part q) (py_split CHR ''.'' i)))"
    by (simp add: py_join_Cons)
  then have "CHR ''.'' \<in> set (py_strip (py_join ''.'' (map (quote_part q) (py_split CHR ''.'' i))))"
    by (rule py_strip_mem) (simp add: is_space_def)
  then show ?thesis by auto
next
  case False
  have "quote_part q i \<noteq> ''*''"
  proof
    assume star: "quote_part q i = ''*''"
    then have w: "q_open q @ py_strip i @ q_close q = ''*''"
      using assms(3) by (auto simp: quote_part_def Let_def split: if_splits)
    have "CHR ''*'' \<in> set (q_open q @ py_strip i @ q_close q)" unfolding w by simp
    then have "CHR ''*'' \<in> set (py_strip i)" using assms(1,2) by (auto simp: mark_ok_def)
    then have "0 < length (py_strip i)" by (cases "py_strip i") auto
    then have "q_open q = [] \<and> q_close q = []" using arg_cong [OF w, of length] by (cases "py_strip i") auto
    then show False using w assms(3) by simp
  qed
  then show ?thesis using False quote_part_keeps [OF assms(1,2), of i] by simp
qed

text \<open>Quoting an already quoted identifier changes nothing.\<close>

lemma quote_identifier_idem:
  assumes "mark_ok (q_open q)" "mark_ok (q_close q)"
  shows "quote_identifier q (quote_identifier q i) = quote_identifier q i"
proof (cases "i = [] \<or> py_strip i = ''*''")
  case True
  have "py_strip ''*'' = ''*''" by (simp add: py_strip_def is_space_def)
  then show ?thesis using True by (auto simp: quote_identifier_def)
next
  case False
  let ?ps = "map (quote_part q) (py_split CHR ''.'' i)"
  have "py_split CHR ''.'' (py_join ''.'' ?ps) = ?ps"
    using quote_part_dot_free [OF assms] py_split_parts_free
    by (intro py_split_join) auto
  moreover have "map (quote_part q) ?ps = ?ps" using quote_part_idem [OF assms] by (simp add: comp_def)
  ultimately show ?thesis
    using False quote_identifier_not_star [OF assms, of i]
    by (simp add: quote_identifier_def del: map_map)
qed


section \<open>Values and literals\<close>

text \<open>
  A Python value on its way into SQL: \<open>S_num\<close> is an int or float with its \<open>str()\<close>, \<open>S_date\<close> a date or
  datetime with its \<open>isoformat()\<close> and its \<open>str()\<close>, \<open>S_other\<close> an object of another type with its \<open>str()\<close>.
\<close>

datatype sval =
    S_none
  | S_bool bool
  | S_num string
  | S_str string
  | S_date string string
  | S_other string

fun sval_text :: "sval \<Rightarrow> string" where
  "sval_text S_none = ''None''"
| "sval_text (S_bool b) = (if b then ''True'' else ''False'')"
| "sval_text (S_num t) = t"
| "sval_text (S_str s) = s"
| "sval_text (S_date day t) = t"
| "sval_text (S_other t) = t"

definition in_quotes :: "string \<Rightarrow> string" where
  "in_quotes s = QUOTE # s @ [QUOTE]"

text \<open>\<open>_format_literal\<close> of the INSERT operation.\<close>

fun format_literal :: "sval \<Rightarrow> string" where
  "format_literal S_none = ''NULL''"
| "format_literal (S_str s) = in_quotes (replace_char QUOTE [QUOTE, QUOTE] s)"
| "format_literal (S_bool b) = (if b then ''TRUE'' else ''FALSE'')"
| "format_literal v = sval_text v"

text \<open>\<open>float(s)\<close> accepts \<open>s\<close>: sign, digits with single underscores between them, point, exponent.\<close>

fun digit_part :: "string \<Rightarrow> bool" where
  "digit_part [] = False"
| "digit_part [c] = is_digit c"
| "digit_part (c # d # s) =
    (is_digit c \<and> (if d = CHR ''_'' then digit_part s else digit_part (d # s)))"

definition drop_sign :: "string \<Rightarrow> string" where
  "drop_sign s = (case s of c # t \<Rightarrow> if c = CHR ''+'' \<or> c = CHR ''-'' then t else s | [] \<Rightarrow> s)"

definition point_part :: "string \<Rightarrow> bool" where
  "point_part s = (case py_split CHR ''.'' s of
     [w] \<Rightarrow> digit_part w
   | [w, f] \<Rightarrow> (digit_part w \<and> f = []) \<or> (w = [] \<and> digit_part f) \<or> (digit_part w \<and> digit_part f)
   | _ \<Rightarrow> False)"

definition is_numeric :: "string \<Rightarrow> bool" where
  "is_numeric s = (let t = drop_sign (str_lower (py_strip s)) in
     t \<in> {''inf'', ''infinity'', ''nan''} \<or>
     (case py_split CHR ''e'' t of
        [m] \<Rightarrow> point_part m
      | [m, e] \<Rightarrow> point_part m \<and> digit_part (drop_sign e)
      | _ \<Rightarrow> False))"

definition is_sql_keyword :: "string \<Rightarrow> bool" where
  "is_sql_keyword u \<longleftrightarrow>
     u \<in> {''TRUE'', ''FALSE'', ''NULL'', ''CURRENT_TIMESTAMP'', ''NOW()'', ''CURRENT_DATE''}"

definition is_quoted :: "string \<Rightarrow> bool" where
  "is_quoted s \<longleftrightarrow> 2 \<le> length s \<and> hd s = QUOTE \<and> last s = QUOTE"

text \<open>\<open>format_sql_value\<close>, used by SET clauses.\<close>

definition format_sql_text :: "string \<Rightarrow> string" where
  "format_sql_text raw =
    (let val_str = py_strip raw; upper_val = str_upper val_str in
     if is_numeric val_str \<or> is_sql_keyword upper_val \<or> is_quoted val_str
     then (if upper_val \<notin> {''TRUE'', ''FALSE'', ''NULL''} then val_str else upper_val)
     else in_quotes (replace_char QUOTE [QUOTE, QUOTE] val_str))"

fun format_sql_value :: "sval \<Rightarrow> string" where
  "format_sql_value S_none = ''NULL''"
| "format_sql_value (S_bool b) = (if b then ''TRUE'' else ''FALSE'')"
| "format_sql_value (S_num t) = t"
| "format_sql_value (S_date day t) = in_quotes day"
| "format_sql_value v = format_sql_text (sval_text v)"


section \<open>Reading literals back\<close>

text \<open>
  What a SQL server takes a string literal to be: after the opening quote, text up to the next
  quote that is not doubled.
\<close>

fun read_body :: "string \<Rightarrow> (string \<times> string) option" where
  "read_body [] = None"
| "read_body (c # s) =
    (if c = QUOTE then
       (case s of
          d # s' \<Rightarrow> if d = QUOTE then map_option (\<lambda>(b, r). (QUOTE # b, r)) (read_body s') else Some ([], s)
        | [] \<Rightarrow> Some ([], []))
     else map_option (\<lambda>(b, r). (c # b, r)) (read_body s))"

definition read_text :: "string \<Rightarrow> (string \<times> string) option" where
  "read_text s = (case s of c # t \<Rightarrow> if c = QUOTE then read_body t else None | [] \<Rightarrow> None)"

lemma read_body_escaped:
  "(\<forall>r'. r \<noteq> QUOTE # r') \<Longrightarrow>
   read_body (replace_char QUOTE [QUOTE, QUOTE] s @ QUOTE # r) = Some (s, r)"
  by (induction s) (auto simp: replace_char_def split: list.splits)

lemma read_text_escaped:
  "(\<forall>r'. r \<noteq> QUOTE # r') \<Longrightarrow>
   read_text (in_quotes (replace_char QUOTE [QUOTE, QUOTE] s) @ r) = Some (s, r)"
  by (simp add: read_text_def in_quotes_def read_body_escaped)

lemma read_body_plain:
  "QUOTE \<notin> set s \<Longrightarrow> (\<forall>r'. r \<noteq> QUOTE # r') \<Longrightarrow> read_body (s @ QUOTE # r) = Some (s, r)"
  by (induction s) (auto split: list.splits)

lemma read_body_length: "read_body s = Some (b, r) \<Longrightarrow> length b + length r < length s"
proof (induction s arbitrary: b r rule: length_induct)
  case (1 s)
  show ?case
  proof (cases s)
    case (Cons c t)
    show ?thesis
    proof (cases "c = QUOTE")
      case True
      show ?thesis
      proof (cases "\<exists>u. t = QUOTE # u")
        case u: True
        then obtain u b' where t: "t = QUOTE # u" "read_body u = Some (b', r)" "b = QUOTE # b'"
          using 1(2) Cons True by auto
        then show ?thesis using 1(1) [rule_format, of u b' r] Cons by simp
      next
        case False
        then show ?thesis using 1(2) Cons True by (cases t) auto
      qed
    next
      case False
      then obtain b' where "read_body t = Some (b', r)" "b = c # b'" using 1(2) Cons by auto
      then show ?thesis using 1(1) [rule_format, of t b' r] Cons by simp
    qed
  qed (use 1(2) in simp)
qed

lemma read_body_unescaped:
  "read_body (s @ [QUOTE]) = Some (s, []) \<Longrightarrow> QUOTE \<notin> set s"
proof (induction s rule: length_induct)
  case (1 s)
  show ?case
  proof (cases s)
    case (Cons c t)
    show ?thesis
    proof (cases "c = QUOTE")
      case True
      obtain d u where du: "t @ [QUOTE] = d # u" by (cases t) auto
      have False
      proof (cases "d = QUOTE")
        case True
        then have "t = [] \<or> (\<exists>t'. t = QUOTE # t')" using du by (cases t) auto
        then show False
        proof
          assume "t = []"
          then show False using 1(2) Cons \<open>c = QUOTE\<close> by simp
        next
          assume "\<exists>t'. t = QUOTE # t'"
          then obtain t' where t': "t = QUOTE # t'" ..
          then obtain b where "read_body (t' @ [QUOTE]) = Some (b, [])" "QUOTE # b = s"
            using 1(2) Cons \<open>c = QUOTE\<close> by auto
          then show False using Cons t' read_body_length [of "t' @ [QUOTE]" b "[]"] by auto
        qed
      next
        case False
        then show False using 1(2) Cons \<open>c = QUOTE\<close> du by simp
      qed
      then show ?thesis ..
    next
      case False
      then have "read_body (t @ [QUOTE]) = Some (t, [])" using 1(2) Cons by auto
      then show ?thesis using 1(1) Cons False by auto
    qed
  qed simp
qed

text \<open>A text put between quotes as it is reads back as itself exactly when it has no quote.\<close>

lemma read_text_plain_iff: "read_text (in_quotes s) = Some (s, []) \<longleftrightarrow> QUOTE \<notin> set s"
  using read_body_unescaped [of s] read_body_plain [of s "[]"]
  by (auto simp: read_text_def in_quotes_def)

end
