(* ===== verification/SqlCompile.thy ===== *)
theory SqlCompile
  imports SqlText
begin

text \<open>
  The SQL compiler of \<open>libs/database/sql/compile.py\<close>: dialects and their templates, predicates, SELECT
  blocks and contexts, table names, the data types of \<open>libs/database/dtypes.py\<close>, and the formatting
  helpers of \<open>operations/utils.py\<close>. The YAML templates are a parameter, a function from dialect names.
\<close>


section \<open>Dialects and templates\<close>

datatype dialect = D_ansi | D_clickhouse | D_postgres | D_duckdb | D_oracle | D_snowflake

fun dialect_name :: "dialect \<Rightarrow> string" where
  "dialect_name D_ansi = ''ansi''"
| "dialect_name D_clickhouse = ''clickhouse''"
| "dialect_name D_postgres = ''postgres''"
| "dialect_name D_duckdb = ''duckdb''"
| "dialect_name D_oracle = ''oracle''"
| "dialect_name D_snowflake = ''snowflake''"

definition all_dialects :: "dialect list" where
  "all_dialects = [D_ansi, D_clickhouse, D_postgres, D_duckdb, D_oracle, D_snowflake]"

text \<open>\<open>Dialect(name)\<close> raises on a name that is not a member.\<close>

definition dialect_of :: "string \<Rightarrow> dialect res" where
  "dialect_of s = (case find (\<lambda>d. dialect_name d = s) all_dialects of
     None \<Rightarrow> Err ValueError | Some d \<Rightarrow> Ok d)"

text \<open>One dialect's template file, by section.\<close>

record sql_template =
  t_quote :: quoting
  t_depths :: "nat list"
  t_core :: "(string, string) dict"
  t_merge :: "(string, string) dict"
  t_metadata :: "(string, string) dict"
  t_analysis :: "(string, string) dict"
  t_function :: "(string, string) dict"
  t_general_types :: "(string, string) dict"
  t_native_types :: "(string, string) dict"

text \<open>
  The template directory (\<open>None\<close>: no such file). The overrides of a user are a template of the same
  shape; each of its sections is merged into the file's, key by key.
\<close>

type_synonym template_dir = "string \<Rightarrow> sql_template option"

definition dict_overlay :: "('k, 'v) dict \<Rightarrow> ('k, 'v) dict \<Rightarrow> ('k, 'v) dict" where
  "dict_overlay b u = foldl (\<lambda>d (k, v). dict_put k v d) b u"

record template_overrides =
  o_quote_open :: "string option"
  o_quote_close :: "string option"
  o_depths :: "nat list option"
  o_core :: "(string, string) dict"
  o_merge :: "(string, string) dict"
  o_metadata :: "(string, string) dict"
  o_analysis :: "(string, string) dict"
  o_function :: "(string, string) dict"
  o_general_types :: "(string, string) dict"
  o_native_types :: "(string, string) dict"

definition template_build :: "template_dir \<Rightarrow> dialect \<Rightarrow> template_overrides option \<Rightarrow> sql_template res" where
  "template_build dir d overrides =
    (case dir (dialect_name d) of
       None \<Rightarrow> Err FileNotFoundError
     | Some t \<Rightarrow> Ok (case overrides of
           None \<Rightarrow> t
         | Some u \<Rightarrow> t\<lparr>
             t_quote := \<lparr>q_open = case_option (q_open (t_quote t)) id (o_quote_open u),
               q_close = case_option (q_close (t_quote t)) id (o_quote_close u)\<rparr>,
             t_depths := case_option (t_depths t) id (o_depths u),
             t_core := dict_overlay (t_core t) (o_core u),
             t_merge := dict_overlay (t_merge t) (o_merge u),
             t_metadata := dict_overlay (t_metadata t) (o_metadata u),
             t_analysis := dict_overlay (t_analysis t) (o_analysis u),
             t_function := dict_overlay (t_function t) (o_function u),
             t_general_types := dict_overlay (t_general_types t) (o_general_types u),
             t_native_types := dict_overlay (t_native_types t) (o_native_types u)\<rparr>))"

record compiler =
  c_dialect :: string
  c_enum :: dialect
  c_template :: sql_template

text \<open>\<open>SQLCompiler.__init__\<close>: an unregistered dialect falls back to ANSI, keeping its own name.\<close>

definition sql_compiler :: "template_dir \<Rightarrow> string \<Rightarrow> template_overrides option \<Rightarrow> compiler res" where
  "sql_compiler dir name overrides =
    (let d = (case dialect_of (str_lower name) of Inl _ \<Rightarrow> D_ansi | Inr d \<Rightarrow> d) in
     res_bind (template_build dir d overrides)
       (\<lambda>t. Ok \<lparr>c_dialect = name, c_enum = d, c_template = t\<rparr>))"

abbreviation quote :: "compiler \<Rightarrow> string \<Rightarrow> string" where
  "quote c \<equiv> quote_identifier (t_quote (c_template c))"

text \<open>\<open>d.get(k)\<close> followed by a truth test: a missing and an empty template are the same.\<close>

definition get_nonempty :: "(string, string) dict \<Rightarrow> string \<Rightarrow> string option" where
  "get_nonempty d k = (case dict_get d k of None \<Rightarrow> None | Some s \<Rightarrow> if s = [] then None else Some s)"


section \<open>Predicates\<close>

text \<open>
  An element of a predicate tuple is a scalar or a list, tuple or set of scalars (\<open>PSeq\<close>, with its
  \<open>str()\<close>). \<open>P_other\<close> is a predicate of a type no case covers, with its truth value.
\<close>

datatype pval = PVal sval | PSeq string "sval list"

datatype predicate =
    P_none
  | P_str string
  | P_dict "(string \<times> sval) list"
  | P_seq "pval list"
  | P_other bool

datatype conditions = One predicate | Many "predicate list"

fun pred_truthy :: "predicate \<Rightarrow> bool" where
  "pred_truthy P_none = False"
| "pred_truthy (P_str s) = (s \<noteq> [])"
| "pred_truthy (P_dict m) = (m \<noteq> [])"
| "pred_truthy (P_seq vs) = (vs \<noteq> [])"
| "pred_truthy (P_other b) = b"

fun conds_truthy :: "conditions \<Rightarrow> bool" where
  "conds_truthy (One p) = pred_truthy p"
| "conds_truthy (Many ps) = (ps \<noteq> [])"

fun pval_text :: "pval \<Rightarrow> string" where
  "pval_text (PVal v) = sval_text v"
| "pval_text (PSeq t vs) = t"

text \<open>\<open>re.search(r"[()%+\-/*]|\s", expr)\<close>.\<close>

definition is_raw_expr :: "string \<Rightarrow> bool" where
  "is_raw_expr s \<longleftrightarrow> (\<exists>c\<in>set s. c \<in> set ''()%+-/*'' \<or> is_space c)"

definition format_operand :: "compiler \<Rightarrow> pval \<Rightarrow> string" where
  "format_operand c v =
    (case v of
       PVal (S_str s) \<Rightarrow> if \<not> is_raw_expr s then quote c s else s
     | _ \<Rightarrow> pval_text v)"

text \<open>The right-hand side of a comparison: strings between quotes as they are, the rest by \<open>str()\<close>.\<close>

definition cond_value :: "pval \<Rightarrow> string" where
  "cond_value v = (case v of PVal (S_str s) \<Rightarrow> in_quotes s | _ \<Rightarrow> pval_text v)"

definition op_text :: "string \<Rightarrow> string" where
  "op_text s = py_strip (str_upper s)"

definition subquery_text :: "string \<Rightarrow> string" where
  "subquery_text s = rstrip_char CHR '';'' (py_strip s)"

definition wrap_parens :: "string \<Rightarrow> string" where
  "wrap_parens s =
    (if prefix ''('' s \<and> ends_with '')'' s then s else ''('' @ s @ '')'')"

fun cond_fragment :: "compiler \<Rightarrow> predicate \<Rightarrow> string res" where
  "cond_fragment c (P_str raw) = Ok (py_strip raw)"
| "cond_fragment c (P_dict m) =
    Ok (py_join '' AND '' (map (\<lambda>(k, v).
      format_operand c (PVal (S_str k)) @ '' = '' @ cond_value (PVal v)) m))"
| "cond_fragment c (P_seq [PVal (S_str op), PVal (S_str sub)]) =
    (if op_text op \<in> {''EXISTS'', ''NOT EXISTS''}
     then Ok (op_text op @ '' ('' @ subquery_text sub @ '')'')
     else Err SQLCompilationError)"
| "cond_fragment c (P_seq [col, PVal (S_str op), v]) =
    (let lhs = format_operand c col in
     if op_text op \<in> {''IN'', ''NOT IN''}
     then (case v of
         PSeq t vs \<Rightarrow>
           Ok (lhs @ '' '' @ op_text op @ '' ('' @ py_join '', '' (map (\<lambda>x. cond_value (PVal x)) vs) @ '')'')
       | PVal (S_str sub) \<Rightarrow> Ok (lhs @ '' '' @ op_text op @ '' '' @ wrap_parens (subquery_text sub))
       | _ \<Rightarrow> Ok (lhs @ '' '' @ op_text op @ '' '' @ cond_value v))
     else Ok (lhs @ '' '' @ op_text op @ '' '' @ cond_value v))"
| "cond_fragment c _ = Err SQLCompilationError"

definition conds_list :: "conditions \<Rightarrow> predicate list" where
  "conds_list cs = (case cs of One p \<Rightarrow> [p] | Many ps \<Rightarrow> ps)"

definition compile_conditions :: "compiler \<Rightarrow> conditions \<Rightarrow> string \<Rightarrow> string res" where
  "compile_conditions c cs clause =
    (if \<not> conds_truthy cs then Ok []
     else res_bind (res_map (cond_fragment c) (filter pred_truthy (conds_list cs)))
       (\<lambda>fragments.
          if fragments = [] then Ok []
          else Ok (clause @ '' '' @ py_join '' AND '' (map (\<lambda>f. ''('' @ f @ '')'') fragments))))"



section \<open>SELECT blocks\<close>

datatype join_type = J_inner | J_left | J_right | J_full | J_cross

fun join_type_name :: "join_type \<Rightarrow> string" where
  "join_type_name J_inner = ''inner''"
| "join_type_name J_left = ''left''"
| "join_type_name J_right = ''right''"
| "join_type_name J_full = ''full''"
| "join_type_name J_cross = ''cross''"

record join_config =
  j_type :: join_type
  j_to_table :: string
  j_on :: string

record select_block =
  sb_name :: "string option"
  sb_from_table :: "string option"
  sb_select :: "string list option"
  sb_joins :: "join_config list option"
  sb_where :: conditions
  sb_group_by :: "string list option"
  sb_having :: conditions
  sb_qualify :: conditions
  sb_order_by :: "string list option"
  sb_limit :: "int option"
  sb_sql :: "string option"

definition has_clauses :: "select_block \<Rightarrow> bool" where
  "has_clauses b \<longleftrightarrow>
     sb_select b \<noteq> None \<or> sb_joins b \<noteq> None \<or> sb_where b \<noteq> One P_none \<or> sb_group_by b \<noteq> None \<or>
     sb_having b \<noteq> One P_none \<or> sb_qualify b \<noteq> One P_none \<or> sb_order_by b \<noteq> None \<or> sb_limit b \<noteq> None"

text \<open>An optional string or list that is neither \<open>None\<close> nor empty.\<close>

definition filled :: "'a list option \<Rightarrow> bool" where
  "filled x \<longleftrightarrow> x \<noteq> None \<and> x \<noteq> Some []"

definition build_list_clause :: "compiler \<Rightarrow> string \<Rightarrow> string list option \<Rightarrow> string" where
  "build_list_clause c keyword items =
    (if \<not> filled items then []
     else keyword @ '' '' @ py_join '', ''
       (map (\<lambda>i. if (i \<noteq> [] \<and> list_all is_digit i) \<or> CHR ''('' \<in> set i \<or> CHR '' '' \<in> set i
                 then i else quote c i) (the items)))"

definition build_joins :: "compiler \<Rightarrow> join_config list option \<Rightarrow> string" where
  "build_joins c joins =
    (if \<not> filled joins then []
     else py_join [NEWLINE] (map (\<lambda>j. str_upper (join_type_name (j_type j)) @ '' JOIN '' @
       quote c (j_to_table j) @ '' ON '' @ j_on j) (the joins)))"

definition select_cols :: "compiler \<Rightarrow> string list option \<Rightarrow> string" where
  "select_cols c sel =
    (if filled sel
     then py_join '', '' (map (\<lambda>x. if CHR ''('' \<in> set x \<or> CHR '' '' \<in> set x then x else quote c x) (the sel))
     else ''*'')"

definition from_clause :: "compiler \<Rightarrow> select_block \<Rightarrow> string" where
  "from_clause c b =
    (if filled (sb_sql b) then
       ''FROM ('' @ subquery_text (the (sb_sql b)) @ '') AS '' @
       (if filled (sb_from_table b) then quote c (the (sb_from_table b)) else ''_subquery'')
     else if filled (sb_from_table b) then ''FROM '' @ quote c (the (sb_from_table b))
     else [])"

definition compile_select_block :: "compiler \<Rightarrow> select_block \<Rightarrow> string res" where
  "compile_select_block c b =
    (if \<not> filled (sb_from_table b) \<and> \<not> filled (sb_sql b) then Err SQLCompilationError
     else if filled (sb_sql b) \<and> \<not> has_clauses b \<and> \<not> filled (sb_from_table b)
     then Ok (subquery_text (the (sb_sql b)))
     else
       res_bind (compile_conditions c (sb_where b) ''WHERE'') (\<lambda>wh.
       res_bind (compile_conditions c (sb_having b) ''HAVING'') (\<lambda>hv.
       res_bind (compile_conditions c (sb_qualify b) ''QUALIFY'') (\<lambda>ql.
         Ok (py_join [NEWLINE] (filter (\<lambda>p. p \<noteq> [])
           [''SELECT '' @ select_cols c (sb_select b),
            from_clause c b,
            build_joins c (sb_joins b),
            wh,
            build_list_clause c ''GROUP BY'' (sb_group_by b),
            hv,
            ql,
            build_list_clause c ''ORDER BY'' (sb_order_by b),
            (case sb_limit b of None \<Rightarrow> [] | Some n \<Rightarrow> ''LIMIT '' @ show_int n)]))))))"

record sql_context =
  ctx_ctes :: "select_block list"
  ctx_main :: "select_block option"
  ctx_sql :: "string option"
  ctx_sql_file :: "string option"

datatype file_state = F_missing | F_not_a_file | F_unreadable | F_text string

text \<open>\<open>SQLContext.__post_init__\<close>; \<open>fs\<close> is the file system.\<close>

definition sql_context_init :: "(string \<Rightarrow> file_state) \<Rightarrow> sql_context \<Rightarrow> sql_context res" where
  "sql_context_init fs ctx =
    (case ctx_sql_file ctx of
       None \<Rightarrow> Ok ctx
     | Some path \<Rightarrow>
        if ctx_sql ctx \<noteq> None then Err ValueError
        else if ctx_ctes ctx \<noteq> [] \<or> ctx_main ctx \<noteq> None then Err ValueError
        else (case fs path of
            F_missing \<Rightarrow> Err FileNotFoundError
          | F_not_a_file \<Rightarrow> Err ValueError
          | F_unreadable \<Rightarrow> Err OSError
          | F_text t \<Rightarrow> if py_strip t = [] then Err ValueError
              else Ok (ctx\<lparr>ctx_sql := Some (py_strip t)\<rparr>)))"

definition compile_cte :: "compiler \<Rightarrow> select_block \<Rightarrow> string res" where
  "compile_cte c b =
    (if \<not> filled (sb_name b) then Err SQLCompilationError
     else res_bind (compile_select_block c b) (\<lambda>sql.
       Ok (quote c (the (sb_name b)) @ '' AS ('' @ [NEWLINE] @ sql @ [NEWLINE] @ '')'')))"

definition compile_context :: "compiler \<Rightarrow> sql_context \<Rightarrow> string res" where
  "compile_context c ctx =
    (if filled (ctx_sql ctx) then Ok (subquery_text (the (ctx_sql ctx)))
     else res_bind (res_map (compile_cte c) (ctx_ctes ctx)) (\<lambda>parts.
       let with_clause = (if parts = [] then []
             else ''WITH '' @ py_join ('','' @ [NEWLINE]) parts @ [NEWLINE]) in
       res_bind
         (case ctx_main ctx of
            Some b \<Rightarrow> compile_select_block c b
          | None \<Rightarrow>
             if ctx_ctes ctx \<noteq> [] \<and> filled (sb_name (last (ctx_ctes ctx)))
             then Ok (''SELECT * FROM '' @ quote c (the (sb_name (last (ctx_ctes ctx)))))
             else Err SQLCompilationError)
         (\<lambda>main_sql. Ok (with_clause @ main_sql))))"


section \<open>Function templates\<close>

datatype expr_arg = A_list "sval list" | A_val sval

fun format_expr_arg :: "compiler \<Rightarrow> expr_arg \<Rightarrow> string" where
  "format_expr_arg c (A_list vs) = py_join '', '' (map (\<lambda>v. quote c (sval_text v)) vs)"
| "format_expr_arg c (A_val (S_str s)) = quote c s"
| "format_expr_arg c (A_val v) = sval_text v"

definition compile_expr :: "compiler \<Rightarrow> string \<Rightarrow> (string, expr_arg) dict \<Rightarrow> string res" where
  "compile_expr c func kwargs =
    (case get_nonempty (t_function (c_template c)) func of
       None \<Rightarrow> Err SQLCompilationError
     | Some tpl \<Rightarrow>
        (case py_format tpl (map (\<lambda>(k, v). (k, format_expr_arg c v)) kwargs) of
           Inl e \<Rightarrow> Err (if e = KeyError then SQLCompilationError else e)
         | Inr t \<Rightarrow> Ok t))"


section \<open>Table names\<close>

text \<open>Split at the dots with an even number of double quotes after them.\<close>

fun quoted_split :: "string \<Rightarrow> string list" where
  "quoted_split [] = [[]]"
| "quoted_split (x # xs) =
    (if x = CHR ''.'' \<and> even (length (filter (\<lambda>c. c = DQUOTE) xs)) then [] # quoted_split xs
     else (case quoted_split xs of [] \<Rightarrow> [[x]] | w # ws \<Rightarrow> (x # w) # ws))"

record table_name =
  tn_database :: "string option"
  tn_schema :: "string option"
  tn_table :: "string option"

definition validate_identifier :: "compiler \<Rightarrow> string \<Rightarrow> table_name res" where
  "validate_identifier c ident =
    (let parts = quoted_split ident in
     if length parts \<notin> set (t_depths (c_template c)) then Err ConfigurationValidationError
     else if c_dialect c = ''oracle'' then
       Ok \<lparr>tn_database = None, tn_schema = Some (parts ! 0),
         tn_table = (if 1 < length parts then Some (parts ! 1) else None)\<rparr>
     else
       let n = length parts; last3 = drop (n - 3) parts in
       Ok (case last3 of
           [t] \<Rightarrow> \<lparr>tn_database = None, tn_schema = None, tn_table = Some t\<rparr>
         | [s, t] \<Rightarrow> \<lparr>tn_database = None, tn_schema = Some s, tn_table = Some t\<rparr>
         | [d, s, t] \<Rightarrow> \<lparr>tn_database = Some d, tn_schema = Some s, tn_table = Some t\<rparr>
         | _ \<Rightarrow> \<lparr>tn_database = None, tn_schema = None, tn_table = None\<rparr>))"

definition or_else :: "string option \<Rightarrow> string \<Rightarrow> string" where
  "or_else x d = (case x of None \<Rightarrow> d | Some s \<Rightarrow> if s = [] then d else s)"

definition parse_table_components :: "compiler \<Rightarrow> string \<Rightarrow> string \<Rightarrow> (string, string) dict res" where
  "parse_table_components c name default_schema =
    res_bind (validate_identifier c name) (\<lambda>tn.
      let schema = or_else (tn_schema tn) (or_else (tn_database tn) default_schema);
          table = or_else (tn_table tn) name;
          db = or_else (tn_database tn) schema
      in Ok [(''db'', db), (''schema'', schema), (''table'', table)])"



section \<open>Data types\<close>

fun has_sub :: "string \<Rightarrow> string \<Rightarrow> bool" where
  "has_sub p [] = (p = [])"
| "has_sub p (x # xs) = (prefix p (x # xs) \<or> has_sub p xs)"

text \<open>\<open>s.split()\<close>: the words of a string.\<close>

definition py_words :: "string \<Rightarrow> string list" where
  "py_words s = filter (\<lambda>w. w \<noteq> []) (py_split CHR '' '' (map (\<lambda>c. if is_space c then CHR '' '' else c) s))"

text \<open>The loop of \<open>_normalize_type\<close>, which opens \<open>Nullable(...)\<close> and \<open>LowCardinality(...)\<close>.\<close>

definition wrapped_type :: "string \<Rightarrow> bool" where
  "wrapped_type raw \<longleftrightarrow> prefix ''nullable('' raw \<or> prefix ''lowcardinality('' raw"

definition unwrap_once :: "string \<Rightarrow> string" where
  "unwrap_once raw = py_strip (butlast (tl (dropWhile (\<lambda>c. c \<noteq> CHR ''('') raw)))"

lemma length_py_strip: "length (py_strip s) \<le> length s"
  unfolding py_strip_def by (metis length_dropWhile_le length_rev le_trans)

lemma unwrap_once_shorter:
  assumes "raw \<noteq> []"
  shows "length (unwrap_once raw) < length raw"
proof -
  let ?d = "dropWhile (\<lambda>c. c \<noteq> CHR ''('') raw"
  have "length (unwrap_once raw) \<le> length ?d - 1 - 1"
    using length_py_strip [of "butlast (tl ?d)"] by (simp add: unwrap_once_def)
  moreover have "length ?d \<le> length raw" by (rule length_dropWhile_le)
  moreover have "0 < length raw" using assms by simp
  ultimately show ?thesis by arith
qed

function unwrap_type :: "string \<Rightarrow> string" where
  "unwrap_type raw = (if wrapped_type raw then unwrap_type (unwrap_once raw) else raw)"
  by pat_completeness auto
termination
  by (relation "measure length") (auto simp: wrapped_type_def intro!: unwrap_once_shorter)

declare unwrap_type.simps [simp del]

definition normalize_type :: "string \<Rightarrow> string" where
  "normalize_type raw_type =
    (if raw_type = [] then [] else unwrap_type (str_lower (py_strip raw_type)))"

definition db_to_generic_type :: "template_dir \<Rightarrow> string \<Rightarrow> string \<Rightarrow> string res" where
  "db_to_generic_type dir dialect raw_type =
    res_bind (dialect_of (str_lower dialect)) (\<lambda>d.
    res_bind (template_build dir d None) (\<lambda>t.
      let cleaned = normalize_type raw_type in
      Ok (case get_nonempty (t_native_types t) cleaned of
          Some g \<Rightarrow> g
        | None \<Rightarrow> (case dict_get (t_native_types t) (py_strip (hd (py_split CHR ''('' cleaned))) of
              Some g \<Rightarrow> g | None \<Rightarrow> ''string''))))"

definition generic_to_db_type :: "template_dir \<Rightarrow> string \<Rightarrow> string \<Rightarrow> string res" where
  "generic_to_db_type dir dialect generic =
    res_bind (dialect_of (str_lower dialect)) (\<lambda>d.
    res_bind (template_build dir d None) (\<lambda>t.
      Ok (case get_nonempty (t_general_types t) (str_lower (py_strip generic)) of
          Some n \<Rightarrow> n
        | None \<Rightarrow> if d = D_clickhouse then ''String'' else ''VARCHAR'')))"

definition map_generic_type :: "template_dir \<Rightarrow> compiler \<Rightarrow> string \<Rightarrow> string res" where
  "map_generic_type dir c raw_type =
    (case py_words (py_strip raw_type) of
       [] \<Rightarrow> Err SQLCompilationError
     | raw_base # rest \<Rightarrow>
        res_bind (db_to_generic_type dir (c_dialect c) raw_base) (\<lambda>g.
        res_bind (generic_to_db_type dir (c_dialect c) g) (\<lambda>native.
          let full = str_lower (py_join '' '' rest);
              modifiers =
                (if has_sub ''primary key'' full \<and> c_dialect c \<in> {''postgres'', ''snowflake''}
                 then [''PRIMARY KEY''] else []) @
                (if has_sub ''not null'' full \<or> has_sub ''not_null'' full then [''NOT NULL''] else []) @
                (if has_sub ''unique'' full then [''UNIQUE''] else [])
          in Ok (py_strip (native @ '' '' @ py_join '' '' modifiers)))))"

datatype type_group = G_numeric | G_text | G_temporal | G_boolean | G_binary | G_object | G_null

definition generic_groups :: "(string, type_group) dict" where
  "generic_groups =
    [(''string'', G_text), (''integer'', G_numeric), (''decimal'', G_numeric), (''float'', G_numeric),
     (''boolean'', G_boolean), (''date'', G_temporal), (''time'', G_temporal), (''datetime'', G_temporal),
     (''json'', G_object), (''binary'', G_binary)]"

definition resolve_to_group :: "template_dir \<Rightarrow> string \<Rightarrow> string \<Rightarrow> type_group res" where
  "resolve_to_group dir dialect raw_type =
    res_bind (db_to_generic_type dir dialect raw_type) (\<lambda>g.
      Ok (case dict_get generic_groups g of Some k \<Rightarrow> k | None \<Rightarrow> G_text))"

text \<open>The Polars types the pipeline reads and writes, and the two maps between them and generic types.\<close>

datatype polars_type =
    PL_utf8 | PL_categorical
  | PL_int8 | PL_int16 | PL_int32 | PL_int64 | PL_uint8 | PL_uint16 | PL_uint32 | PL_uint64
  | PL_float32 | PL_float64 | PL_decimal
  | PL_boolean
  | PL_date | PL_time | PL_datetime | PL_duration
  | PL_struct | PL_list | PL_array | PL_object
  | PL_binary | PL_null | PL_unlisted

fun polars_to_generic_type :: "polars_type \<Rightarrow> string" where
  "polars_to_generic_type t =
    (if t \<in> {PL_utf8, PL_categorical} then ''string''
     else if t \<in> {PL_int8, PL_int16, PL_int32, PL_int64, PL_uint8, PL_uint16, PL_uint32, PL_uint64} then ''integer''
     else if t \<in> {PL_float32, PL_float64} then ''float''
     else if t = PL_decimal then ''decimal''
     else if t = PL_boolean then ''boolean''
     else if t = PL_date then ''date''
     else if t = PL_time then ''time''
     else if t \<in> {PL_datetime, PL_duration} then ''datetime''
     else if t \<in> {PL_struct, PL_list, PL_array, PL_object} then ''json''
     else if t = PL_binary then ''binary''
     else ''string'')"

fun group_to_polars :: "type_group \<Rightarrow> polars_type" where
  "group_to_polars G_numeric = PL_float64"
| "group_to_polars G_text = PL_utf8"
| "group_to_polars G_temporal = PL_datetime"
| "group_to_polars G_boolean = PL_boolean"
| "group_to_polars G_binary = PL_binary"
| "group_to_polars G_object = PL_utf8"
| "group_to_polars G_null = PL_null"

definition resolve_to_polars :: "template_dir \<Rightarrow> string \<Rightarrow> string \<Rightarrow> polars_type res" where
  "resolve_to_polars dir dialect raw_type =
    res_bind (resolve_to_group dir dialect raw_type) (\<lambda>g. Ok (group_to_polars g))"

definition polars_to_db_type :: "template_dir \<Rightarrow> string \<Rightarrow> polars_type \<Rightarrow> string res" where
  "polars_to_db_type dir dialect t = generic_to_db_type dir dialect (polars_to_generic_type t)"


section \<open>Formatting helpers of the operations\<close>

definition is_word_char :: "char \<Rightarrow> bool" where
  "is_word_char c = (let n = (of_char c :: nat) in
     48 \<le> n \<and> n \<le> 57 \<or> 65 \<le> n \<and> n \<le> 90 \<or> n = 95 \<or> 97 \<le> n \<and> n \<le> 122 \<or>
     n \<in> {170, 178, 179, 181, 185, 186, 188, 189, 190} \<or> 192 \<le> n \<and> n \<noteq> 215 \<and> n \<noteq> 247)"

text \<open>\<open>re.match(r"^\s*\(?\s*select\b", s, re.IGNORECASE)\<close>.\<close>

definition starts_select :: "string \<Rightarrow> bool" where
  "starts_select s =
    (let t = dropWhile is_space s;
         u = (case t of c # r \<Rightarrow> if c = CHR ''('' then r else t | [] \<Rightarrow> t);
         v = dropWhile is_space u
     in prefix ''select'' (str_lower v) \<and> (length v = 6 \<or> \<not> is_word_char (v ! 6)))"

definition format_table_ref :: "compiler \<Rightarrow> string \<Rightarrow> string \<Rightarrow> bool \<Rightarrow> string res" where
  "format_table_ref c table_or_query alias enforce_qualified =
    (if table_or_query = [] then Ok []
     else
       let cleaned = py_strip table_or_query in
       if starts_select cleaned then
         let sub = wrap_parens cleaned in
         Ok (if alias \<noteq> [] then sub @ '' AS '' @ quote c alias else sub)
       else if enforce_qualified \<and> length (py_split CHR ''.'' cleaned) < 2
       then Err ConfigurationValidationError
       else Ok (quote c cleaned))"

text \<open>A column projection: \<open>None\<close>, a text or a collection of names.\<close>

datatype fields = All_fields | Fields_text string | Fields_list "string list"

fun fields_empty :: "fields \<Rightarrow> bool" where
  "fields_empty All_fields = True"
| "fields_empty (Fields_text s) = (s = [])"
| "fields_empty (Fields_list fs) = (fs = [])"

fun format_fields :: "compiler \<Rightarrow> fields \<Rightarrow> string" where
  "format_fields c All_fields = ''*''"
| "format_fields c (Fields_text s) = (if s = [] \<or> s = ''*'' then ''*'' else py_strip s)"
| "format_fields c (Fields_list fs) = (if fs = [] then ''*'' else py_join '', '' (map (quote c) fs))"

definition append_where_clause :: "compiler \<Rightarrow> string \<Rightarrow> conditions \<Rightarrow> string \<Rightarrow> bool \<Rightarrow> string res" where
  "append_where_clause c sql where_cond clause newline =
    (if \<not> conds_truthy where_cond then Ok sql
     else res_bind (compile_conditions c where_cond clause) (\<lambda>w.
       if w = [] then Ok sql else Ok (sql @ (if newline then [NEWLINE] else '' '') @ w)))"

text \<open>A join condition: SQL text, or the key columns, each one name or a pair of names.\<close>

datatype join_cond = J_text string | J_keys "(string \<times> string) list"

fun format_join_cond :: "compiler \<Rightarrow> join_cond \<Rightarrow> string" where
  "format_join_cond c (J_text s) = s"
| "format_join_cond c (J_keys ks) =
    py_join '' AND '' (map (\<lambda>(t, s). ''tgt.'' @ quote c t @ '' = src.'' @ quote c s) ks)"

datatype set_values = Set_none | Set_text string | Set_list "string list" | Set_dict "(string, sval) dict"

definition set_from_src :: "compiler \<Rightarrow> string list \<Rightarrow> string" where
  "set_from_src c fs = py_join '', '' (map (\<lambda>f. quote c f @ '' = src.'' @ quote c f) fs)"

fun format_set_values :: "compiler \<Rightarrow> set_values \<Rightarrow> fields \<Rightarrow> string" where
  "format_set_values c (Set_dict m) fs =
    py_join '', '' (map (\<lambda>(k, v). quote c k @ '' = '' @ format_sql_value v) m)"
| "format_set_values c (Set_list ks) fs = set_from_src c ks"
| "format_set_values c (Set_text s) fs = s"
| "format_set_values c Set_none fs =
    (if fields_empty fs then []
     else set_from_src c (case fs of
         Fields_list ks \<Rightarrow> ks
       | Fields_text s \<Rightarrow> map py_strip (filter (\<lambda>f. py_strip f \<noteq> ''*'') (py_split CHR '','' s))
       | All_fields \<Rightarrow> []))"

end
