(* ===== verification/SqlOps.thy ===== *)
theory SqlOps
  imports SqlCompile
begin

text \<open>
  The SQL operations of \<open>libs/database/sql/operations\<close> (\<open>core.py\<close>, \<open>merge.py\<close>, \<open>metadata.py\<close>,
  \<open>analysis.py\<close>) and their dispatch, \<open>SQLOperation.compile\<close>; the theorems on what the compiled text
  means and on the templates an operation can fill.
\<close>


section \<open>Core operations\<close>

text \<open>\<open>template.get(name)\<close> or the operation's error, then \<open>format\<close>.\<close>

definition with_template ::
  "(string, string) dict \<Rightarrow> string \<Rightarrow> (string \<Rightarrow> string res) \<Rightarrow> string res" where
  "with_template sec name k =
    (case get_nonempty sec name of None \<Rightarrow> Err SQLCompilationError | Some tpl \<Rightarrow> k tpl)"

definition compile_truncate :: "compiler \<Rightarrow> string \<Rightarrow> string res" where
  "compile_truncate c table_name = with_template (t_core (c_template c)) ''truncate'' (\<lambda>tpl.
     py_format tpl [(''table'', quote c table_name)])"

definition compile_update ::
  "compiler \<Rightarrow> string \<Rightarrow> set_values \<Rightarrow> fields \<Rightarrow> string option \<Rightarrow> string res" where
  "compile_update c table_name set_vals fs where_cond =
    with_template (t_core (c_template c)) ''update'' (\<lambda>tpl.
      let formatted = format_set_values c set_vals fs;
          wh = or_else where_cond ''1=1''
      in if formatted = [] then Err SQLCompilationError
         else py_format tpl [(''table'', quote c table_name), (''set_values'', formatted),
           (''where_cond'', wh), (''join_cond'', wh)])"

definition record_literal :: "(string, sval) dict \<Rightarrow> string \<Rightarrow> string" where
  "record_literal r col = format_literal (case dict_get r col of None \<Rightarrow> S_none | Some v \<Rightarrow> v)"

definition row_tuple :: "string list \<Rightarrow> (string, sval) dict \<Rightarrow> string" where
  "row_tuple cols r = ''('' @ py_join '', '' (map (record_literal r) cols) @ '')''"

definition values_clause :: "(string, sval) dict list \<Rightarrow> string" where
  "values_clause rs = py_join '', '' (map (row_tuple (map fst (hd rs))) rs)"

definition compile_insert ::
  "compiler \<Rightarrow> string \<Rightarrow> (string, sval) dict list \<Rightarrow> string option \<Rightarrow> fields \<Rightarrow> string res" where
  "compile_insert c table_name records select_query target_columns =
    (let quoted = quote c table_name in
     if records \<noteq> [] then
       Ok (''INSERT INTO '' @ quoted @ '' ('' @ format_fields c (Fields_list (map fst (hd records))) @
         '') VALUES '' @ values_clause records)
     else if filled select_query then
       let cleaned = py_strip (the select_query) in
       if \<not> fields_empty target_columns
       then Ok (''INSERT INTO '' @ quoted @ '' ('' @ format_fields c target_columns @ '') '' @ cleaned)
       else Ok (''INSERT INTO '' @ quoted @ '' '' @ cleaned)
     else Err SQLCompilationError)"

definition compile_create_table ::
  "template_dir \<Rightarrow> compiler \<Rightarrow> string \<Rightarrow> (string, string) dict \<Rightarrow> string res" where
  "compile_create_table dir c table_name columns =
    with_template (t_core (c_template c)) ''create_table'' (\<lambda>tpl.
      if columns = [] then Err SQLCompilationError
      else res_bind (res_map (\<lambda>(col, ty).
            res_bind (map_generic_type dir c ty) (\<lambda>t. Ok (quote c col @ '' '' @ t))) columns)
          (\<lambda>decls. py_format tpl
             [(''table'', quote c table_name), (''col_types'', py_join '', '' decls)]))"

definition compile_drop_table :: "compiler \<Rightarrow> string \<Rightarrow> string res" where
  "compile_drop_table c table_name = with_template (t_core (c_template c)) ''drop_table'' (\<lambda>tpl.
     py_format tpl [(''table'', quote c table_name)])"

definition compile_describe_table :: "compiler \<Rightarrow> string \<Rightarrow> string \<Rightarrow> string res" where
  "compile_describe_table c table_name default_schema =
    with_template (t_core (c_template c)) ''describe_table'' (\<lambda>tpl.
      res_bind (parse_table_components c table_name default_schema) (py_format tpl))"

definition compile_like_table :: "compiler \<Rightarrow> string \<Rightarrow> string \<Rightarrow> string res" where
  "compile_like_table c tgt src = with_template (t_core (c_template c)) ''like_table'' (\<lambda>tpl.
     py_format tpl [(''tgt_table'', quote c tgt), (''src_table'', quote c src)])"

definition compile_clone_table :: "compiler \<Rightarrow> string \<Rightarrow> string \<Rightarrow> string res" where
  "compile_clone_table c tgt src = with_template (t_core (c_template c)) ''clone_table'' (\<lambda>tpl.
     py_format tpl [(''tgt_table'', quote c tgt), (''src_table'', quote c src)])"

definition compile_add_column ::
  "template_dir \<Rightarrow> compiler \<Rightarrow> string \<Rightarrow> string \<Rightarrow> string \<Rightarrow> string res" where
  "compile_add_column dir c table_name column_name data_type =
    with_template (t_core (c_template c)) ''add_column'' (\<lambda>tpl.
      res_bind (map_generic_type dir c data_type) (\<lambda>t.
        py_format tpl [(''table'', quote c table_name), (''column_name'', quote c column_name),
          (''data_type'', t)]))"


section \<open>Merge operations\<close>

abbreviation plain_ref :: "compiler \<Rightarrow> string \<Rightarrow> string \<Rightarrow> string res" where
  "plain_ref c t alias \<equiv> format_table_ref c t alias False"

definition compile_merge_upsert ::
  "compiler \<Rightarrow> string \<Rightarrow> string \<Rightarrow> string \<Rightarrow> fields \<Rightarrow> string res" where
  "compile_merge_upsert c tgt src join fs =
    with_template (t_merge (c_template c)) ''merge_upsert'' (\<lambda>tpl.
      res_bind (plain_ref c tgt ''tgt'') (\<lambda>t.
      res_bind (plain_ref c src ''src'') (\<lambda>s.
        py_format tpl [(''tgt_table'', t), (''src_table'', s), (''join_cond'', join),
          (''insert_fields'', format_fields c fs), (''src_fields'', format_fields c fs)])))"

definition compile_merge_insert ::
  "compiler \<Rightarrow> string \<Rightarrow> string \<Rightarrow> fields \<Rightarrow> conditions \<Rightarrow> string res" where
  "compile_merge_insert c tgt src fs where_cond =
    with_template (t_merge (c_template c)) ''merge_insert'' (\<lambda>tpl.
      res_bind (plain_ref c tgt ''tgt'') (\<lambda>t.
      res_bind (plain_ref c src ''src'') (\<lambda>s.
      res_bind (py_format tpl [(''tgt_table'', t), (''src_table'', s),
          (''insert_fields'', format_fields c fs), (''src_fields'', format_fields c fs)]) (\<lambda>sql.
        append_where_clause c sql where_cond ''WHERE'' True))))"

definition delete_where :: "compiler \<Rightarrow> conditions \<Rightarrow> string res" where
  "delete_where c where_cond =
    (case where_cond of
       One (P_str s) \<Rightarrow> Ok (if prefix ''WHERE'' (str_upper s) then s else ''WHERE '' @ s)
     | _ \<Rightarrow> if conds_truthy where_cond then compile_conditions c where_cond [] else Ok [])"

definition compile_merge_delete :: "compiler \<Rightarrow> string \<Rightarrow> conditions \<Rightarrow> string res" where
  "compile_merge_delete c tgt where_cond =
    with_template (t_merge (c_template c)) ''merge_delete'' (\<lambda>tpl.
      res_bind (plain_ref c tgt ''tgt'') (\<lambda>t.
      res_bind (delete_where c where_cond) (\<lambda>w.
      res_bind (py_format tpl [(''tgt_table'', t), (''where_cond'', w)]) (\<lambda>sql. Ok (py_strip sql)))))"

definition compile_merge_update ::
  "compiler \<Rightarrow> string \<Rightarrow> string \<Rightarrow> join_cond \<Rightarrow> set_values \<Rightarrow> fields \<Rightarrow> conditions \<Rightarrow> string res" where
  "compile_merge_update c tgt src join set_vals fs where_cond =
    with_template (t_merge (c_template c)) ''merge_update'' (\<lambda>tpl.
      res_bind (plain_ref c tgt ''tgt'') (\<lambda>t.
      res_bind (plain_ref c src ''src'') (\<lambda>s.
      res_bind (py_format tpl [(''tgt_table'', t), (''src_table'', s),
          (''join_cond'', format_join_cond c join), (''set_values'', format_set_values c set_vals fs)]) (\<lambda>sql.
        append_where_clause c (py_strip sql) where_cond ''AND'' True))))"


section \<open>Metadata and analysis\<close>

definition compile_table_exists :: "compiler \<Rightarrow> string \<Rightarrow> string \<Rightarrow> string res" where
  "compile_table_exists c table_name default_schema =
    res_bind (parse_table_components c table_name default_schema) (\<lambda>comp.
      with_template (t_metadata (c_template c)) ''table_exists'' (\<lambda>tpl. py_format tpl comp))"

definition compile_get_columns :: "compiler \<Rightarrow> string \<Rightarrow> string res" where
  "compile_get_columns c fq_table =
    res_bind (parse_table_components c fq_table ''default'') (\<lambda>comp.
      with_template (t_metadata (c_template c)) ''columns'' (\<lambda>tpl. py_format tpl comp))"

text \<open>\<open>s.split(p)[0]\<close>: the text before the first occurrence of \<open>p\<close>.\<close>

fun before_sub :: "string \<Rightarrow> string \<Rightarrow> string" where
  "before_sub p [] = []"
| "before_sub p (x # xs) = (if prefix p (x # xs) then [] else x # before_sub p xs)"

definition compile_select :: "compiler \<Rightarrow> string \<Rightarrow> fields \<Rightarrow> conditions \<Rightarrow> string res" where
  "compile_select c table fs where_cond =
    res_bind (plain_ref c table ''src'') (\<lambda>t.
    with_template (t_analysis (c_template c)) ''select'' (\<lambda>tpl.
      res_bind (py_format (py_strip (before_sub ''where'' tpl))
          [(''fields'', format_fields c fs), (''table'', t)]) (\<lambda>sql.
        append_where_clause c sql where_cond ''WHERE'' False)))"

definition compile_count :: "compiler \<Rightarrow> string \<Rightarrow> conditions \<Rightarrow> string \<Rightarrow> string res" where
  "compile_count c table where_cond alias =
    res_bind (plain_ref c table ''src'') (\<lambda>t.
    with_template (t_analysis (c_template c)) ''count'' (\<lambda>tpl.
      let head = py_strip (before_sub ''where'' tpl) in
      res_bind
        (case py_format head [(''table'', t), (''alias'', quote c alias)] of
           Inl KeyError \<Rightarrow> py_format head [(''table'', t)]
         | r \<Rightarrow> r)
        (\<lambda>sql. append_where_clause c sql where_cond ''WHERE'' False)))"

definition compile_minus :: "compiler \<Rightarrow> string \<Rightarrow> string \<Rightarrow> fields \<Rightarrow> string res" where
  "compile_minus c ref other fs =
    with_template (t_analysis (c_template c)) ''minus'' (\<lambda>tpl.
      res_bind (plain_ref c ref ''ref_src'') (\<lambda>r.
      res_bind (plain_ref c other ''other_src'') (\<lambda>s.
        py_format tpl [(''fields'', format_fields c fs), (''ref_table'', r), (''other_table'', s)])))"


section \<open>Dispatch\<close>

text \<open>
  A call of \<open>compile(operation, ...)\<close> with the arguments of its handler. \<open>Op_unregistered\<close> is a key no
  handler is registered for; \<open>create_schema\<close>, \<open>drop_view\<close>, \<open>drop_schema\<close> and \<open>upsert\<close> of
  \<open>SQLOperationType\<close> are such keys.
\<close>

datatype sql_request =
    Op_truncate string
  | Op_update string set_values fields "string option"
  | Op_insert string "(string, sval) dict list" "string option" fields
  | Op_create_table string "(string, string) dict"
  | Op_drop_table string
  | Op_describe_table string string
  | Op_like_table string string
  | Op_clone_table string string
  | Op_add_column string string string
  | Op_merge_upsert string string string fields
  | Op_merge_insert string string fields conditions
  | Op_merge_delete string conditions
  | Op_merge_update string string join_cond set_values fields conditions
  | Op_exist string string
  | Op_columns string
  | Op_select string fields conditions
  | Op_count string conditions string
  | Op_minus string string fields
  | Op_unregistered string

fun invoke_operation :: "template_dir \<Rightarrow> compiler \<Rightarrow> sql_request \<Rightarrow> string res" where
  "invoke_operation dir c (Op_truncate t) = compile_truncate c t"
| "invoke_operation dir c (Op_update t sv fs w) = compile_update c t sv fs w"
| "invoke_operation dir c (Op_insert t rs q fs) = compile_insert c t rs q fs"
| "invoke_operation dir c (Op_create_table t cols) = compile_create_table dir c t cols"
| "invoke_operation dir c (Op_drop_table t) = compile_drop_table c t"
| "invoke_operation dir c (Op_describe_table t s) = compile_describe_table c t s"
| "invoke_operation dir c (Op_like_table t s) = compile_like_table c t s"
| "invoke_operation dir c (Op_clone_table t s) = compile_clone_table c t s"
| "invoke_operation dir c (Op_add_column t col ty) = compile_add_column dir c t col ty"
| "invoke_operation dir c (Op_merge_upsert t s j fs) = compile_merge_upsert c t s j fs"
| "invoke_operation dir c (Op_merge_insert t s fs w) = compile_merge_insert c t s fs w"
| "invoke_operation dir c (Op_merge_delete t w) = compile_merge_delete c t w"
| "invoke_operation dir c (Op_merge_update t s j sv fs w) = compile_merge_update c t s j sv fs w"
| "invoke_operation dir c (Op_exist t s) = compile_table_exists c t s"
| "invoke_operation dir c (Op_columns t) = compile_get_columns c t"
| "invoke_operation dir c (Op_select t fs w) = compile_select c t fs w"
| "invoke_operation dir c (Op_count t w alias) = compile_count c t w alias"
| "invoke_operation dir c (Op_minus r s fs) = compile_minus c r s fs"
| "invoke_operation dir c (Op_unregistered key) = Err KeyError"

text \<open>\<open>SQLOperation.compile\<close>: every \<open>KeyError\<close> is reported as an unsupported operation.\<close>

definition sql_compile :: "template_dir \<Rightarrow> compiler \<Rightarrow> sql_request \<Rightarrow> string res" where
  "sql_compile dir c req =
    (case invoke_operation dir c req of
       Inl KeyError \<Rightarrow> Err SQLCompilationError
     | r \<Rightarrow> r)"



section \<open>Reading an INSERT back\<close>

text \<open>What a server reads from a VALUES list: quoted texts and bare words, row by row.\<close>

datatype sql_cell = C_text string | C_bare string

definition cell_end :: "char \<Rightarrow> bool" where
  "cell_end c \<longleftrightarrow> c = CHR '','' \<or> c = CHR '')''"

definition read_cell :: "string \<Rightarrow> (sql_cell \<times> string) option" where
  "read_cell s = (case s of
     [] \<Rightarrow> None
   | c # t \<Rightarrow> if c = QUOTE then map_option (\<lambda>(b, r). (C_text b, r)) (read_body t)
       else Some (C_bare (takeWhile (\<lambda>x. \<not> cell_end x) s), dropWhile (\<lambda>x. \<not> cell_end x) s))"

lemma read_cell_length: "read_cell s = Some (x, r) \<Longrightarrow> length r \<le> length s"
proof (cases s)
  case (Cons c t)
  assume "read_cell s = Some (x, r)"
  then consider b where "read_body t = Some (b, r)" | "r = dropWhile (\<lambda>x. \<not> cell_end x) s"
    using Cons by (auto simp: read_cell_def split: if_splits)
  then show ?thesis using Cons 
    by cases (auto dest: read_body_length simp del: dropWhile.simps simp: length_dropWhile_le
        intro: le_trans [OF length_dropWhile_le])
qed (simp add: read_cell_def)

definition after_comma :: "string \<Rightarrow> string option" where
  "after_comma r = (case r of c # d # r' \<Rightarrow> if c = CHR '','' \<and> d = CHR '' '' then Some r' else None | _ \<Rightarrow> None)"

lemma after_comma_length: "after_comma r = Some r' \<Longrightarrow> length r' < length r"
  by (auto simp: after_comma_def split: list.splits if_splits)

function read_cells :: "string \<Rightarrow> (sql_cell list \<times> string) option" where
  "read_cells s =
    (case read_cell s of
       None \<Rightarrow> None
     | Some (x, r) \<Rightarrow>
        (case after_comma r of
           Some r' \<Rightarrow> map_option (\<lambda>(xs, q). (x # xs, q)) (read_cells r')
         | None \<Rightarrow> (case r of c # q \<Rightarrow> if c = CHR '')'' then Some ([x], q) else None | [] \<Rightarrow> None)))"
  by pat_completeness auto
termination
  by (relation "measure length")
    (auto dest!: read_cell_length after_comma_length intro: less_le_trans)

declare read_cells.simps [simp del]

lemma read_cells_length: "read_cells s = Some (xs, q) \<Longrightarrow> length q < length s"
proof (induction s arbitrary: xs q rule: read_cells.induct)
  case (1 s)
  then obtain x r where r: "read_cell s = Some (x, r)"
    by (subst (asm) read_cells.simps) (auto split: option.splits)
  show ?case
  proof (cases "after_comma r")
    case None
    then have "length q < length r"
      using 1(2) r by (subst (asm) read_cells.simps) (auto split: list.splits if_splits)
    then show ?thesis using read_cell_length [OF r] by simp
  next
    case (Some r')
    then obtain ys where "read_cells r' = Some (ys, q)"
      using 1(2) r by (subst (asm) read_cells.simps) auto
    then have "length q < length r'" by (rule 1(1) [OF r refl Some])
    then show ?thesis using read_cell_length [OF r] after_comma_length [OF Some] by simp
  qed
qed

function read_rows :: "string \<Rightarrow> sql_cell list list option" where
  "read_rows [] = None"
| "read_rows (c # s) =
    (if c \<noteq> CHR ''('' then None
     else (case read_cells s of
         None \<Rightarrow> None
       | Some (xs, q) \<Rightarrow>
          if q = [] then Some [xs]
          else (case after_comma q of
              None \<Rightarrow> None
            | Some q' \<Rightarrow> map_option (\<lambda>rs. xs # rs) (read_rows q'))))"
  by pat_completeness auto
termination
  by (relation "measure length") (auto dest!: read_cells_length after_comma_length)

fun cell_of :: "sval \<Rightarrow> sql_cell" where
  "cell_of (S_str s) = C_text s"
| "cell_of v = C_bare (format_literal v)"

text \<open>None, bools, numbers (their text has no comma, parenthesis or leading quote) and strings.\<close>

fun plain_value :: "sval \<Rightarrow> bool" where
  "plain_value (S_num t) = (t \<noteq> [] \<and> hd t \<noteq> QUOTE \<and> (\<forall>c\<in>set t. \<not> cell_end c))"
| "plain_value (S_date day t) = False"
| "plain_value (S_other t) = False"
| "plain_value _ = True"

lemma takeWhile_stop: "(\<forall>c\<in>set t. \<not> P c) \<Longrightarrow> P x \<Longrightarrow> takeWhile (\<lambda>c. \<not> P c) (t @ x # r) = t"
  by (induction t) auto

lemma dropWhile_stop: "(\<forall>c\<in>set t. \<not> P c) \<Longrightarrow> P x \<Longrightarrow> dropWhile (\<lambda>c. \<not> P c) (t @ x # r) = x # r"
  by (induction t) auto

lemma read_bare:
  assumes "t \<noteq> []" "hd t \<noteq> QUOTE" "\<forall>c\<in>set t. \<not> cell_end c" "cell_end x"
  shows "read_cell (t @ x # r) = Some (C_bare t, x # r)"
proof -
  obtain c u where t: "t = c # u" using assms(1) by (cases t) auto
  show ?thesis
    using assms takeWhile_stop [of t cell_end x r] dropWhile_stop [of t cell_end x r]
    unfolding t read_cell_def by simp
qed

lemma read_cell_literal:
  assumes "plain_value v" "cell_end x"
  shows "read_cell (format_literal v @ x # r) = Some (cell_of v, x # r)"
proof (cases v)
  case (S_str s)
  have "\<forall>r'. x # r \<noteq> QUOTE # r'" using assms(2) by (auto simp: cell_end_def QUOTE_def)
  then show ?thesis
    using read_text_escaped [of "x # r" s] S_str
    by (auto simp: read_cell_def read_text_def in_quotes_def split: option.splits)
next
  case (S_num t)
  then show ?thesis using assms by (simp add: read_bare)
next
  case S_none
  then show ?thesis using assms(2) by (auto simp: read_cell_def QUOTE_def cell_end_def)
next
  case (S_bool b)
  then show ?thesis using assms(2) by (auto simp: read_cell_def QUOTE_def cell_end_def)
qed (use assms in simp_all)

lemma read_cells_row:
  assumes "vs \<noteq> []" "\<forall>v\<in>set vs. plain_value v"
  shows "read_cells (py_join '', '' (map format_literal vs) @ CHR '')'' # r) = Some (map cell_of vs, r)"
  using assms
proof (induction vs rule: list_nonempty_induct)
  case (single v)
  then show ?case
    by (subst read_cells.simps) (simp add: read_cell_literal cell_end_def after_comma_def split: list.split)
next
  case (cons v vs)
  let ?rest = "py_join '', '' (map format_literal vs) @ CHR '')'' # r"
  have "py_join '', '' (map format_literal (v # vs)) @ CHR '')'' # r
      = format_literal v @ CHR '','' # CHR '' '' # ?rest"
    using cons(1) by (simp add: py_join_Cons)
  moreover have "read_cell (format_literal v @ CHR '','' # CHR '' '' # ?rest)
      = Some (cell_of v, CHR '','' # CHR '' '' # ?rest)"
    using cons(3) by (intro read_cell_literal) (auto simp: cell_end_def)
  ultimately show ?case
    using cons by (subst read_cells.simps) (simp add: after_comma_def)
qed

lemma read_rows_values:
  assumes "rows \<noteq> []" "\<forall>vs\<in>set rows. vs \<noteq> [] \<and> (\<forall>v\<in>set vs. plain_value v)"
  shows "read_rows (py_join '', '' (map (\<lambda>vs. ''('' @ py_join '', '' (map format_literal vs) @ '')'') rows))
    = Some (map (map cell_of) rows)"
  using assms
proof (induction rows rule: list_nonempty_induct)
  case (single vs)
  then show ?case by (simp add: read_cells_row [of vs "[]", simplified])
next
  case (cons vs rows)
  then show ?case by (simp add: py_join_Cons read_cells_row after_comma_def)
qed

definition row_values :: "string list \<Rightarrow> (string, sval) dict \<Rightarrow> sval list" where
  "row_values cols r = map (\<lambda>col. case dict_get r col of None \<Rightarrow> S_none | Some v \<Rightarrow> v) cols"

lemma row_tuple_values: "row_tuple cols r = ''('' @ py_join '', '' (map format_literal (row_values cols r)) @ '')''"
  by (simp add: row_tuple_def record_literal_def [abs_def] row_values_def comp_def)

lemma row_values_plain:
  "(\<forall>v\<in>snd ` set r. plain_value v) \<Longrightarrow> v \<in> set (row_values cols r) \<Longrightarrow> plain_value v"
  by (force simp: row_values_def split: option.splits dest: map_of_SomeD)




text \<open>A two-row sample: quotes in a text, a missing key, a boolean and a number.\<close>

definition demo_records :: "(string, sval) dict list" where
  "demo_records =
    [[(''id'', S_num ''1''), (''name'', S_str [CHR ''O'', QUOTE, CHR ''B'']), (''ok'', S_bool True)],
     [(''id'', S_num ''2''), (''ok'', S_none)]]"



section \<open>Comparisons\<close>

text \<open>
  A comparison compiled from a tuple carries its text value between quotes as it is, so a server
  reads the value back exactly when the text has no quote in it.
\<close>

theorem comparison_value_boundary:
  assumes "op_text op \<notin> {''IN'', ''NOT IN'', ''EXISTS'', ''NOT EXISTS''}"
  shows "\<exists>lhs lit. compile_conditions c (One (P_seq [PVal (S_str col), PVal (S_str op), PVal (S_str v)])) ''WHERE''
      = Ok (''WHERE ('' @ lhs @ '' '' @ op_text op @ '' '' @ lit @ '')'') \<and>
    (read_text lit = Some (v, []) \<longleftrightarrow> QUOTE \<notin> set v)"
  using assms read_text_plain_iff [of v]
  by (intro exI [of _ "format_operand c (PVal (S_str col))"] exI [of _ "in_quotes v"])
    (simp add: compile_conditions_def conds_list_def cond_value_def Let_def)

theorem comparison_value_boundary_witness:
  "\<forall>c. \<exists>lhs lit. compile_conditions c (One (P_seq [PVal (S_str ''day''), PVal (S_str ''=''), PVal (S_str ''x'')])) ''WHERE''
      = Ok (''WHERE ('' @ lhs @ '' = '' @ lit @ '')'') \<and>
    (read_text lit = Some (''x'', []) \<longleftrightarrow> QUOTE \<notin> set ''x'')"
  using comparison_value_boundary [of "''=''" _ "''day''" "''x''"]
  by (simp add: op_text_def py_strip_def is_space_def char_upper_def)


section \<open>Templates and their fields\<close>

lemma py_format_keys:
  "py_format tpl kw = Ok t \<Longrightarrow> f \<in> set (fields_of tpl) \<Longrightarrow> f \<in> fst ` set kw"
  using py_format_needs_fields [of tpl kw t] by (auto simp: dom_map_of_conv_image_fst)

lemma not_Ok_Err: "(\<And>t. r \<noteq> Ok t) \<Longrightarrow> \<exists>e. r = Err e"
  by (cases r) auto

lemma format_table_ref_ok: "\<exists>t. format_table_ref c q alias False = Ok t"
  by (simp add: format_table_ref_def Let_def)

text \<open>
  The insert and delete steps of a merge cannot be compiled for a dialect whose template has a
  \<open>join_cond\<close> field: the handlers never give that field a value, so every call fails.
\<close>

theorem merge_needs_join_fails:
  assumes "get_nonempty (t_merge (c_template c)) ''merge_insert'' = Some ins"
    and "''join_cond'' \<in> set (fields_of ins)"
    and "get_nonempty (t_merge (c_template c)) ''merge_delete'' = Some del"
    and "''join_cond'' \<in> set (fields_of del)"
  shows "(\<exists>e. sql_compile dir c (Op_merge_insert tgt src fs w) = Err e) \<and>
    (\<exists>e. sql_compile dir c (Op_merge_delete tgt w') = Err e)"
proof -
  have "\<exists>e. compile_merge_insert c tgt src fs w = Err e"
    using assms(1) py_format_keys [OF _ assms(2)]
    by (intro not_Ok_Err) (fastforce simp: compile_merge_insert_def with_template_def res_bind_Ok_iff)
  moreover have "\<exists>e. compile_merge_delete c tgt w' = Err e"
    using assms(3) py_format_keys [OF _ assms(4)]
    by (intro not_Ok_Err) (fastforce simp: compile_merge_delete_def with_template_def res_bind_Ok_iff)
  ultimately show ?thesis by (auto simp: sql_compile_def split: py_error.splits)
qed


text \<open>The two templates as \<open>postgres.yaml\<close> has them.\<close>

definition postgres_merge_insert :: string where
  "postgres_merge_insert = py_join [NEWLINE]
    [''insert into {tgt_table} ({insert_fields})'', ''select {src_fields}'', ''from {src_table} src'',
     ''where not exists ('', ''  select 1'', ''  from {tgt_table} tgt'', ''  where {join_cond}'', '')'', []]"

definition postgres_merge_delete :: string where
  "postgres_merge_delete = py_join [NEWLINE]
    [''delete from {tgt_table} tgt'', ''using {src_table} src'', ''where {join_cond}'', []]"

definition bare_template :: sql_template where
  "bare_template = \<lparr>t_quote = \<lparr>q_open = [DQUOTE], q_close = [DQUOTE]\<rparr>, t_depths = [1, 2, 3], t_core = [],
     t_merge = [], t_metadata = [], t_analysis = [], t_function = [], t_general_types = [], t_native_types = []\<rparr>"

definition postgres_compiler :: compiler where
  "postgres_compiler = \<lparr>c_dialect = ''postgres'', c_enum = D_postgres,
     c_template = bare_template\<lparr>t_merge :=
       [(''merge_insert'', postgres_merge_insert), (''merge_delete'', postgres_merge_delete)]\<rparr>\<rparr>"

lemma postgres_fields:
  "''join_cond'' \<in> set (fields_of postgres_merge_insert)"
  "''join_cond'' \<in> set (fields_of postgres_merge_delete)"
  by code_simp+

theorem merge_needs_join_fails_witness:
  "(\<exists>e. sql_compile (\<lambda>_. None) postgres_compiler (Op_merge_insert ''t'' ''s'' All_fields (One P_none)) = Err e) \<and>
   (\<exists>e. sql_compile (\<lambda>_. None) postgres_compiler (Op_merge_delete ''t'' (One (P_str ''d = 1''))) = Err e)"
  using merge_needs_join_fails [OF _ postgres_fields(1) _ postgres_fields(2), of postgres_compiler]
  by (simp add: postgres_compiler_def bare_template_def get_nonempty_def postgres_merge_insert_def
      postgres_merge_delete_def)


section \<open>Data types\<close>

lemma is_space_lower [simp]: "is_space (char_lower c) = is_space c"
  by (auto simp: is_space_def char_lower_def Let_def of_char_of)

lemma py_strip_map_lower: "py_strip (str_lower s) = str_lower (py_strip s)"
  by (simp add: py_strip_def dropWhile_map comp_def rev_map)

lemma char_lower_idem [simp]: "char_lower (char_lower c) = char_lower c"
  by (auto simp: char_lower_def Let_def of_char_of)

lemma unwrap_type_normal: "\<not> wrapped_type (unwrap_type raw)"
  by (induction raw rule: unwrap_type.induct) (subst unwrap_type.simps, auto)

lemma unwrap_type_id: "\<not> wrapped_type raw \<Longrightarrow> unwrap_type raw = raw"
  by (subst unwrap_type.simps) simp

lemma set_unwrap_once: "set (unwrap_once raw) \<subseteq> set raw"
proof -
  let ?d = "dropWhile (\<lambda>c. c \<noteq> CHR ''('') raw"
  have tl: "set (tl xs) \<subseteq> set xs" for xs :: string by (cases xs) auto
  have "set (butlast (tl ?d)) \<subseteq> set (tl ?d)" by (auto dest: in_set_butlastD)
  also have "\<dots> \<subseteq> set ?d" by (rule tl)
  also have "\<dots> \<subseteq> set raw" by (auto dest: set_dropWhileD)
  finally show ?thesis using set_py_strip unfolding unwrap_once_def by blast
qed

lemma unwrap_type_clean:
  "py_strip raw = raw \<Longrightarrow> \<forall>c\<in>set raw. char_lower c = c \<Longrightarrow>
   py_strip (unwrap_type raw) = unwrap_type raw \<and> (\<forall>c\<in>set (unwrap_type raw). char_lower c = c)"
proof (induction raw rule: unwrap_type.induct)
  case (1 raw)
  show ?case
  proof (cases "wrapped_type raw")
    case True
    have "py_strip (unwrap_once raw) = unwrap_once raw" by (simp add: unwrap_once_def)
    then show ?thesis using 1 True set_unwrap_once [of raw] by (subst (1 2 3) unwrap_type.simps) auto
  next
    case False
    then show ?thesis using 1 by (simp add: unwrap_type_id)
  qed
qed

lemma normalize_type_idem: "normalize_type (normalize_type t) = normalize_type t"
proof (cases "t = []")
  case False
  let ?n = "unwrap_type (str_lower (py_strip t))"
  have "py_strip ?n = ?n \<and> (\<forall>c\<in>set ?n. char_lower c = c)"
    by (rule unwrap_type_clean) (auto simp: py_strip_map_lower)
  then have "str_lower (py_strip ?n) = ?n" by (simp add: map_idI)
  moreover have "unwrap_type ?n = ?n" by (rule unwrap_type_id [OF unwrap_type_normal])
  moreover have "normalize_type t = ?n" using False by (simp add: normalize_type_def)
  ultimately show ?thesis by (metis normalize_type_def)
qed (simp add: normalize_type_def)

lemma lower_wrappers:
  "str_lower ''Nullable('' = ''nullable(''" "str_lower ''LowCardinality('' = ''lowcardinality(''"
  "str_lower '')'' = '')''"
  by code_simp+

lemma normalize_type_alt: "normalize_type t = unwrap_type (str_lower (py_strip t))"
  by (cases "t = []") (simp_all add: normalize_type_def py_strip_def unwrap_type_id wrapped_type_def)

lemma normalize_nullable: "normalize_type (''Nullable('' @ t @ '')'') = normalize_type t"
proof -
  let ?w = "''Nullable('' @ t @ '')''"
  have "py_strip ?w = ?w" by (rule py_strip_id) (simp add: is_space_def)
  then have w: "str_lower (py_strip ?w) = ''nullable('' @ str_lower t @ '')''"
    by (simp only: map_append lower_wrappers)
  have "unwrap_once (''nullable('' @ str_lower t @ '')'') = str_lower (py_strip t)"
    by (simp add: unwrap_once_def butlast_append py_strip_map_lower)
  then have "unwrap_type (str_lower (py_strip ?w)) = unwrap_type (str_lower (py_strip t))"
    unfolding w by (subst unwrap_type.simps) (simp add: wrapped_type_def)
  then show ?thesis by (simp only: normalize_type_alt)
qed

lemma normalize_lowcardinality: "normalize_type (''LowCardinality('' @ t @ '')'') = normalize_type t"
proof -
  let ?w = "''LowCardinality('' @ t @ '')''"
  have "py_strip ?w = ?w" by (rule py_strip_id) (simp add: is_space_def)
  then have w: "str_lower (py_strip ?w) = ''lowcardinality('' @ str_lower t @ '')''"
    by (simp only: map_append lower_wrappers)
  have "unwrap_once (''lowcardinality('' @ str_lower t @ '')'') = str_lower (py_strip t)"
    by (simp add: unwrap_once_def butlast_append py_strip_map_lower)
  then have "unwrap_type (str_lower (py_strip ?w)) = unwrap_type (str_lower (py_strip t))"
    unfolding w by (subst unwrap_type.simps) (simp add: wrapped_type_def)
  then show ?thesis by (simp only: normalize_type_alt)
qed

text \<open>
  ClickHouse's wrappers do not change what a type means: under any nesting of \<open>Nullable\<close> and
  \<open>LowCardinality\<close> a declaration resolves to the same generic type, and its normal form is final.
\<close>

theorem type_wrappers_invisible:
  "db_to_generic_type dir dialect (foldr (\<lambda>low s. (if low then ''LowCardinality('' else ''Nullable('') @ s @ '')'') ws t)
     = db_to_generic_type dir dialect t \<and>
   normalize_type (normalize_type t) = normalize_type t \<and>
   \<not> wrapped_type (normalize_type t)"
proof -
  let ?wrap = "\<lambda>low s. (if low then ''LowCardinality('' else ''Nullable('') @ s @ '')''"
  have "normalize_type (foldr ?wrap ws t) = normalize_type t"
    by (induction ws)
      (simp_all add: normalize_nullable [simplified] normalize_lowcardinality [simplified])
  moreover have "\<not> wrapped_type (normalize_type t)"
    using unwrap_type_normal by (simp add: normalize_type_def wrapped_type_def)
  ultimately show ?thesis by (simp add: db_to_generic_type_def normalize_type_idem)
qed


text \<open>
  A dialect name that is not registered compiles with the ANSI templates, but no table can be
  created under it: the type mapping looks the name up again and raises.
\<close>

theorem unregistered_dialect_types:
  assumes "dialect_of (str_lower name) = Err ValueError"
    and "sql_compiler dir name overrides = Ok c"
    and "get_nonempty (t_core (c_template c)) ''create_table'' = Some tpl"
    and "py_words (py_strip ty) \<noteq> []"
  shows "c_enum c = D_ansi \<and>
    sql_compile dir c (Op_create_table table_name ((col, ty) # cols)) = Err ValueError"
proof -
  have c: "c_enum c = D_ansi" "c_dialect c = name"
    using assms(1,2) by (auto simp: sql_compiler_def res_bind_Ok_iff)
  have "map_generic_type dir c ty = Err ValueError"
    using assms(1,4) c by (auto simp: map_generic_type_def db_to_generic_type_def split: list.splits)
  then have "invoke_operation dir c (Op_create_table table_name ((col, ty) # cols)) = Err ValueError"
    using assms(3) by (simp add: compile_create_table_def with_template_def)
  then show ?thesis using c by (simp add: sql_compile_def)
qed

definition ansi_dir :: template_dir where
  "ansi_dir name = (if name = ''ansi'' then Some (bare_template\<lparr>t_core :=
     [(''create_table'', ''create table if not exists {table} ({col_types})'')]\<rparr>) else None)"

theorem unregistered_dialect_types_witness:
  "\<exists>c. sql_compiler ansi_dir ''mysql'' None = Ok c \<and> c_enum c = D_ansi \<and>
     sql_compile ansi_dir c (Op_create_table ''t'' [(''id'', ''integer'')]) = Err ValueError"
proof -
  have d: "dialect_of (str_lower ''mysql'') = Err ValueError" by code_simp
  have w: "py_words (py_strip ''integer'') \<noteq> []" by code_simp
  obtain c where c: "sql_compiler ansi_dir ''mysql'' None = Ok c"
      "get_nonempty (t_core (c_template c)) ''create_table'' =
        Some ''create table if not exists {table} ({col_types})''"
    using d by (auto simp: sql_compiler_def template_build_def ansi_dir_def bare_template_def get_nonempty_def)
  show ?thesis using unregistered_dialect_types [OF d c w, of "''t''" "''id''" "[]"] c(1) by blast
qed


section \<open>Which queries compile\<close>

text \<open>The predicates with a rendering: the ones the match statement has a case for.\<close>

fun pred_supported :: "predicate \<Rightarrow> bool" where
  "pred_supported (P_str s) = True"
| "pred_supported (P_dict m) = True"
| "pred_supported (P_seq [PVal (S_str op), PVal (S_str sub)]) = (op_text op \<in> {''EXISTS'', ''NOT EXISTS''})"
| "pred_supported (P_seq [col, PVal (S_str op), v]) = True"
| "pred_supported _ = False"

definition conds_supported :: "conditions \<Rightarrow> bool" where
  "conds_supported cs = list_all (\<lambda>p. pred_truthy p \<longrightarrow> pred_supported p) (conds_list cs)"

definition block_supported :: "select_block \<Rightarrow> bool" where
  "block_supported b \<longleftrightarrow>
     (filled (sb_from_table b) \<or> filled (sb_sql b)) \<and>
     conds_supported (sb_where b) \<and> conds_supported (sb_having b) \<and> conds_supported (sb_qualify b)"

definition context_supported :: "sql_context \<Rightarrow> bool" where
  "context_supported ctx \<longleftrightarrow>
     filled (ctx_sql ctx) \<or>
     list_all (\<lambda>b. filled (sb_name b) \<and> block_supported b) (ctx_ctes ctx) \<and>
     (case ctx_main ctx of None \<Rightarrow> ctx_ctes ctx \<noteq> [] | Some b \<Rightarrow> block_supported b)"

lemma cond_fragment_res:
  "(\<exists>t. cond_fragment c p = Ok t) \<and> pred_supported p \<or>
   cond_fragment c p = Err SQLCompilationError \<and> \<not> pred_supported p"
  by (cases "(c, p)" rule: cond_fragment.cases)
    (auto simp: Let_def split: pval.splits sval.splits)

lemma res_map_res:
  assumes "\<And>x. x \<in> set xs \<Longrightarrow> (\<exists>t. f x = Ok t) \<and> P x \<or> f x = Err e \<and> \<not> P x"
  shows "(\<exists>ts. res_map f xs = Ok ts) \<and> list_all P xs \<or> res_map f xs = Err e \<and> \<not> list_all P xs"
  using assms by (induction xs) (fastforce simp: res_bind_def split: sum.splits)+

lemma conds_supported_filter:
  "list_all pred_supported (filter pred_truthy (conds_list cs)) = conds_supported cs"
  by (auto simp: conds_supported_def list_all_iff)

lemma compile_conditions_res:
  "(\<exists>t. compile_conditions c cs clause = Ok t) \<and> conds_supported cs \<or>
   compile_conditions c cs clause = Err SQLCompilationError \<and> \<not> conds_supported cs"
proof (cases "conds_truthy cs")
  case False
  then have "conds_supported cs" by (cases cs) (auto simp: conds_supported_def conds_list_def)
  then show ?thesis using False by (simp add: compile_conditions_def)
next
  case True
  have "(\<exists>ts. res_map (cond_fragment c) (filter pred_truthy (conds_list cs)) = Ok ts) \<and> conds_supported cs \<or>
      res_map (cond_fragment c) (filter pred_truthy (conds_list cs)) = Err SQLCompilationError \<and> \<not> conds_supported cs"
    unfolding conds_supported_filter [symmetric] by (rule res_map_res) (rule cond_fragment_res)
  then show ?thesis using True by (auto simp: compile_conditions_def)
qed

lemma compile_select_block_res:
  "(\<exists>t. compile_select_block c b = Ok t) \<and> block_supported b \<or>
   compile_select_block c b = Err SQLCompilationError \<and> \<not> block_supported b"
proof -
  have plain: "conds_supported (sb_where b) \<and> conds_supported (sb_having b) \<and> conds_supported (sb_qualify b)"
    if "\<not> has_clauses b"
    using that by (auto simp: has_clauses_def conds_supported_def conds_list_def)
  show ?thesis
    using plain compile_conditions_res [of c "sb_where b" "''WHERE''"]
      compile_conditions_res [of c "sb_having b" "''HAVING''"]
      compile_conditions_res [of c "sb_qualify b" "''QUALIFY''"]
    unfolding compile_select_block_def block_supported_def by (auto simp: res_bind_def)
qed

text \<open>
  C29. A context compiles exactly when it is raw SQL, or every CTE is named, every block has a table or
  SQL to read from and only predicates of the supported shapes, and there is a last query to run;
  anything else is an \<open>SQLCompilationError\<close>, never another exception.
\<close>

theorem compile_context_total:
  "(\<exists>t. compile_context c ctx = Ok t) \<and> context_supported ctx \<or>
   compile_context c ctx = Err SQLCompilationError \<and> context_supported ctx = False"
proof -
  have ctes: "(\<exists>ts. res_map (compile_cte c) (ctx_ctes ctx) = Ok ts) \<and>
        list_all (\<lambda>b. filled (sb_name b) \<and> block_supported b) (ctx_ctes ctx) \<or>
      res_map (compile_cte c) (ctx_ctes ctx) = Err SQLCompilationError \<and>
        \<not> list_all (\<lambda>b. filled (sb_name b) \<and> block_supported b) (ctx_ctes ctx)"
  proof (rule res_map_res)
    fix b
    show "(\<exists>t. compile_cte c b = Ok t) \<and> filled (sb_name b) \<and> block_supported b \<or>
        compile_cte c b = Err SQLCompilationError \<and> \<not> (filled (sb_name b) \<and> block_supported b)"
      using compile_select_block_res [of c b] by (auto simp: compile_cte_def)
  qed
  have named: "filled (sb_name (last (ctx_ctes ctx)))"
    if "list_all (\<lambda>b. filled (sb_name b) \<and> block_supported b) (ctx_ctes ctx)" "ctx_ctes ctx \<noteq> []"
    using that by (auto simp: list_all_iff)
  show ?thesis
  proof (cases "ctx_main ctx")
    case None
    then show ?thesis using ctes named
      by (auto simp: compile_context_def context_supported_def Let_def)
  next
    case (Some b)
    then show ?thesis using ctes compile_select_block_res [of c b]
      by (auto simp: compile_context_def context_supported_def Let_def)
  qed
qed

text \<open>
  Quoting is idempotent for every dialect's marks: an identifier that is already quoted, path or
  not, comes back unchanged.
\<close>

theorem quoting_idempotent:
  assumes "mark_ok (q_open q)" "mark_ok (q_close q)"
  shows "quote_identifier q (quote_identifier q i) = quote_identifier q i"
  by (rule quote_identifier_idem [OF assms])

theorem quoting_idempotent_witness:
  "quote_identifier (t_quote bare_template) (quote_identifier (t_quote bare_template) ''a.b'')
    = quote_identifier (t_quote bare_template) ''a.b''"
  by (rule quoting_idempotent) (simp_all add: bare_template_def mark_ok_def DQUOTE_def is_space_def)

end
