(* ===== verification/SqlService.thy ===== *)
theory SqlService
  imports SqlOps
begin

text \<open>
  The database service of \<open>services/database.py\<close> on the compiled SQL: counting, staging, the merge steps of
  a promotion with their verification, table comparison, and the split of an extraction into partition
  queries (with \<open>libs/database/connector.py\<close>). The server is a parameter, a record of what its statements and
  queries do to an abstract state; nothing is assumed of it unless a lemma says so.
\<close>


section \<open>Server and state\<close>

record 'd dbms =
  db_run :: "string \<Rightarrow> 'd \<Rightarrow> unit res \<times> 'd"
  db_schema :: "string \<Rightarrow> 'd \<Rightarrow> (nat \<times> string list option) res"
  db_scalar :: "string \<Rightarrow> 'd \<Rightarrow> int option res"
  db_first :: "string \<Rightarrow> 'd \<Rightarrow> string option res"
  db_names :: "string \<Rightarrow> 'd \<Rightarrow> string list res"
  db_load :: "string \<Rightarrow> string list \<Rightarrow> 'd \<Rightarrow> unit res \<times> 'd"

text \<open>
  \<open>db_schema\<close> answers a metadata query with its height and its \<open>column_name\<close> column (\<open>None\<close>: it has none),
  \<open>db_scalar\<close> and \<open>db_first\<close> give the first cell of the first row (\<open>None\<close>: no row), \<open>db_names\<close> the
  first column.
\<close>

record 'd sql_service =
  sv_dir :: template_dir
  sv_compiler :: compiler
  sv_db :: "'d dbms"

text \<open>State passing with errors: a failed step keeps what the steps before it did.\<close>

definition st_lift :: "'a res \<Rightarrow> 'd \<Rightarrow> 'a res \<times> 'd" where
  "st_lift r d = (r, d)"

definition st_bind :: "('d \<Rightarrow> 'a res \<times> 'd) \<Rightarrow> ('a \<Rightarrow> 'd \<Rightarrow> 'b res \<times> 'd) \<Rightarrow> 'd \<Rightarrow> 'b res \<times> 'd" where
  "st_bind m k d = (case m d of (Inl e, d') \<Rightarrow> (Inl e, d') | (Inr x, d') \<Rightarrow> k x d')"

lemma st_bind_lift [simp]:
  "st_bind (st_lift (Inr x)) k = k x"
  "st_bind (st_lift (Inl e)) k = st_lift (Inl e)"
  by (simp_all add: st_bind_def st_lift_def fun_eq_iff)

lemma st_bind_Ok_iff:
  "st_bind m k d = (Inr y, d'') \<longleftrightarrow> (\<exists>x d'. m d = (Inr x, d') \<and> k x d' = (Inr y, d''))"
  by (auto simp: st_bind_def split: prod.split sum.split)

abbreviation build_sql :: "'d sql_service \<Rightarrow> sql_request \<Rightarrow> string res" where
  "build_sql sv req \<equiv> sql_compile (sv_dir sv) (sv_compiler sv) req"

abbreviation svc_quote :: "'d sql_service \<Rightarrow> string \<Rightarrow> string" where
  "svc_quote sv \<equiv> quote (sv_compiler sv)"

text \<open>\<open>connector.where(...)\<close> and \<open>connector.select(...)\<close>.\<close>

definition svc_where :: "'d sql_service \<Rightarrow> conditions \<Rightarrow> string res" where
  "svc_where sv cs = compile_conditions (sv_compiler sv) cs []"

definition svc_select :: "'d sql_service \<Rightarrow> string \<Rightarrow> fields \<Rightarrow> conditions \<Rightarrow> string res" where
  "svc_select sv table fs w = build_sql sv (Op_select table fs w)"

definition svc_command :: "'d sql_service \<Rightarrow> sql_request \<Rightarrow> 'd \<Rightarrow> unit res \<times> 'd" where
  "svc_command sv req = st_bind (st_lift (build_sql sv req)) (db_run (sv_db sv))"


section \<open>Counting, schema, tables\<close>

text \<open>\<open>_count_rows\<close>: a count that fails, or returns no row, is zero.\<close>

definition count_rows :: "'d sql_service \<Rightarrow> string \<Rightarrow> 'd \<Rightarrow> int res" where
  "count_rows sv query d =
    res_bind (build_sql sv (Op_count (subquery_text query) (One P_none) ''cnt'')) (\<lambda>sql.
      Ok (case db_scalar (sv_db sv) sql d of Inr (Some n) \<Rightarrow> n | _ \<Rightarrow> 0))"

text \<open>\<open>re.sub(r"(?i)^where\s+", "", s)\<close>.\<close>

definition drop_where :: "string \<Rightarrow> string" where
  "drop_where s =
    (if prefix ''where'' (str_lower s) \<and> 5 < length s \<and> is_space (s ! 5)
     then dropWhile is_space (drop 5 s) else s)"

definition count_units :: "'d sql_service \<Rightarrow> string \<Rightarrow> string option \<Rightarrow> 'd \<Rightarrow> int res" where
  "count_units sv target filter_condition d =
    (let wh = (if filled filter_condition then drop_where (py_strip (the filter_condition)) else ''1=1'') in
     res_bind (svc_where sv (One (P_str wh))) (\<lambda>w.
     res_bind (svc_select sv target (Fields_text ''*'') (One (P_str w))) (\<lambda>q. count_rows sv q d)))"

definition svc_exists :: "'d sql_service \<Rightarrow> string \<Rightarrow> 'd \<Rightarrow> bool res" where
  "svc_exists sv target d =
    res_bind (build_sql sv (Op_exist target ''default'')) (\<lambda>sql.
    res_bind (db_scalar (sv_db sv) sql d) (\<lambda>row. Ok (case row of None \<Rightarrow> False | Some n \<Rightarrow> n \<noteq> 0)))"

text \<open>\<open>setup_resource\<close>: a given DDL text is run on the client and then once more on the connector.\<close>

definition setup_resource ::
  "'d sql_service \<Rightarrow> string \<Rightarrow> string option \<Rightarrow> (string, string) dict \<Rightarrow> 'd \<Rightarrow> unit res \<times> 'd" where
  "setup_resource sv target ddl columns =
    (case ddl of
       Some s \<Rightarrow> st_bind (db_run (sv_db sv) s) (\<lambda>_. db_run (sv_db sv) s)
     | None \<Rightarrow> svc_command sv (Op_create_table target columns))"

definition svc_add_column :: "'d sql_service \<Rightarrow> string \<Rightarrow> string \<Rightarrow> string \<Rightarrow> 'd \<Rightarrow> unit res \<times> 'd" where
  "svc_add_column sv target col ty = svc_command sv (Op_add_column target col ty)"

definition svc_delete :: "'d sql_service \<Rightarrow> string \<Rightarrow> 'd \<Rightarrow> unit res \<times> 'd" where
  "svc_delete sv target = svc_command sv (Op_drop_table target)"

definition svc_clone :: "'d sql_service \<Rightarrow> string \<Rightarrow> string \<Rightarrow> 'd \<Rightarrow> unit res \<times> 'd" where
  "svc_clone sv src dest = svc_command sv (Op_like_table dest src)"

definition get_schema :: "'d sql_service \<Rightarrow> string \<Rightarrow> 'd \<Rightarrow> (nat \<times> string list option) res" where
  "get_schema sv fq d = res_bind (build_sql sv (Op_columns fq)) (\<lambda>sql. db_schema (sv_db sv) sql d)"

text \<open>\<open>get_schema(t)["column_name"]\<close> raises when the frame has no such column.\<close>

definition schema_names :: "'d sql_service \<Rightarrow> string \<Rightarrow> 'd \<Rightarrow> string list res" where
  "schema_names sv fq d =
    res_bind (get_schema sv fq d) (\<lambda>(n, cols). case cols of None \<Rightarrow> Err ColumnNotFoundError | Some cs \<Rightarrow> Ok cs)"

definition schema_names_or_empty :: "'d sql_service \<Rightarrow> string \<Rightarrow> 'd \<Rightarrow> string list res" where
  "schema_names_or_empty sv fq d =
    res_bind (get_schema sv fq d) (\<lambda>(n, cols). Ok (case cols of None \<Rightarrow> [] | Some cs \<Rightarrow> cs))"


section \<open>Staging\<close>

text \<open>
  \<open>copy_from_file\<close>: a directory or file given by name is expanded by \<open>files\<close>; a list of sources leaves
  the variable the loop runs over unset.
\<close>

datatype load_source = One_source string | Source_list "string list"

definition copy_from_file ::
  "'d sql_service \<Rightarrow> (string \<Rightarrow> string list) \<Rightarrow> string \<Rightarrow> load_source \<Rightarrow> 'd \<Rightarrow> unit res \<times> 'd" where
  "copy_from_file sv files table src =
    (case src of
       Source_list _ \<Rightarrow> st_lift (Err UnboundLocalError)
     | One_source dir \<Rightarrow> if files dir = [] then st_lift (Ok ()) else db_load (sv_db sv) table (files dir))"

definition stage_table ::
  "'d sql_service \<Rightarrow> (string \<Rightarrow> string list) \<Rightarrow> load_source \<Rightarrow> string \<Rightarrow> int \<Rightarrow> 'd \<Rightarrow> (string \<times> int) res \<times> 'd" where
  "stage_table sv files src target expected =
    st_bind (copy_from_file sv files target src) (\<lambda>_.
    st_bind (\<lambda>d. st_lift (res_bind (svc_select sv target (Fields_text ''*'') (One P_none))
          (\<lambda>q. count_rows sv q d)) d) (\<lambda>rows.
      st_lift (if rows \<noteq> expected then Err ValueError else Ok (target, rows))))"


section \<open>Promotion\<close>

definition validate_schema_compatibility :: "'d sql_service \<Rightarrow> string \<Rightarrow> string \<Rightarrow> 'd \<Rightarrow> unit res" where
  "validate_schema_compatibility sv src dest d =
    res_bind (svc_exists sv dest d) (\<lambda>ex.
      if \<not> ex then Err ValueError
      else res_bind (schema_names sv src d) (\<lambda>src_cols.
           res_bind (schema_names sv dest d) (\<lambda>tgt_cols.
             if set tgt_cols \<subseteq> set src_cols then Ok () else Err ValueError)))"

definition build_join_condition :: "'d sql_service \<Rightarrow> string \<Rightarrow> string list \<Rightarrow> string" where
  "build_join_condition sv src pks =
    py_join '' AND '' (map (\<lambda>pk. ''tgt.'' @ svc_quote sv pk @ '' = '' @ svc_quote sv src @ ''.'' @ svc_quote sv pk) pks)"

text \<open>What a promotion is asked to do.\<close>

record promotion =
  pr_source :: string
  pr_dest :: string
  pr_expected :: int
  pr_ops :: "string list"
  pr_update_key :: "string option"
  pr_partition :: "sval option"
  pr_pks :: "string list"
  pr_soft_delete :: bool
  pr_soft_column :: "string option"

definition key_conds :: "promotion \<Rightarrow> predicate" where
  "key_conds p = P_seq [PVal (S_str (the (pr_update_key p))), PVal (S_str ''=''), PVal (the (pr_partition p))]"

definition keyed :: "promotion \<Rightarrow> bool" where
  "keyed p \<longleftrightarrow> filled (pr_update_key p) \<and> pr_partition p \<noteq> None"

text \<open>The statement of one merge step; \<open>sdc\<close> and \<open>ts\<close> are the soft-delete column and its new value.\<close>

definition merge_step_sql ::
  "'d sql_service \<Rightarrow> promotion \<Rightarrow> string list \<Rightarrow> string list \<Rightarrow> string \<Rightarrow> string \<Rightarrow> string \<Rightarrow> string res" where
  "merge_step_sql sv p ops cols sdc ts op =
    (let pks = pr_pks p; src = pr_source p; tgt = pr_dest p in
     if op = ''truncate'' then build_sql sv (Op_truncate tgt)
     else if op = ''delete'' then
       (if \<not> keyed p then Err ValueError
        else res_bind (svc_where sv (One (key_conds p))) (\<lambda>w.
          build_sql sv (Op_merge_delete tgt (One (P_str w)))))
     else if op = ''update'' then
       (if pks = [] then Err ValueError
        else build_sql sv (Op_merge_update tgt src (J_keys (map (\<lambda>k. (k, k)) pks))
          (Set_list (filter (\<lambda>col. col \<notin> set pks) cols)) All_fields (One P_none)))
     else if op = ''insert'' then
       build_sql sv (Op_merge_insert tgt src (Fields_list cols)
         (One (if ''update'' \<in> set ops \<and> pks \<noteq> []
               then P_seq [PVal (S_str ''NOT EXISTS''), PVal (S_str (''SELECT 1 FROM '' @ svc_quote sv tgt @
                      '' AS tgt WHERE '' @ build_join_condition sv src pks))]
               else P_none)))
     else if op = ''soft_delete'' then
       (if pks = [] \<or> \<not> keyed p then Err ValueError
        else res_bind (svc_select sv src (Fields_list pks) (One P_none)) (\<lambda>sub.
          let pk_expr = (if length pks = 1 then svc_quote sv (hd pks)
                else ''('' @ py_join '', '' (map (svc_quote sv) pks) @ '')'') in
          res_bind (svc_where sv (Many
              [key_conds p,
               P_str (svc_quote sv sdc @ '' IS NULL''),
               P_str (pk_expr @ '' NOT IN ('' @ sub @ '')'')])) (\<lambda>w.
            build_sql sv (Op_update tgt (Set_dict [(sdc, S_str ts)]) All_fields (Some w)))))
     else Err NotImplementedError)"

fun merge_loop ::
  "'d sql_service \<Rightarrow> promotion \<Rightarrow> string list \<Rightarrow> string list \<Rightarrow> string \<Rightarrow> string \<Rightarrow> string list \<Rightarrow> 'd \<Rightarrow> unit res \<times> 'd" where
  "merge_loop sv p ops cols sdc ts [] = st_lift (Ok ())"
| "merge_loop sv p ops cols sdc ts (op # rest) =
    st_bind (st_lift (merge_step_sql sv p ops cols sdc ts op)) (\<lambda>sql.
    st_bind (db_run (sv_db sv) sql) (\<lambda>_. merge_loop sv p ops cols sdc ts rest))"

definition apply_merge :: "'d sql_service \<Rightarrow> promotion \<Rightarrow> string list \<Rightarrow> string \<Rightarrow> 'd \<Rightarrow> unit res \<times> 'd" where
  "apply_merge sv p ops ts d =
    st_bind (st_lift (schema_names_or_empty sv (pr_source p) d)) (\<lambda>cols.
      merge_loop sv p ops cols (case pr_soft_column p of None \<Rightarrow> ''None'' | Some c \<Rightarrow> c) ts ops) d"

text \<open>
  \<open>_verify_promotion\<close>. \<open>pks\<close> is its own parameter: \<open>promote\<close> leaves it out, so it is empty there.
\<close>

definition upsert_check_sql :: "'d sql_service \<Rightarrow> promotion \<Rightarrow> string list \<Rightarrow> string" where
  "upsert_check_sql sv p pks =
    [NEWLINE] @ ''                SELECT COUNT(1)'' @ [NEWLINE] @
    ''                FROM '' @ svc_quote sv (pr_dest p) @ '' AS tgt'' @ [NEWLINE] @
    ''                WHERE EXISTS ('' @ [NEWLINE] @
    ''                    SELECT 1 FROM '' @ svc_quote sv (pr_source p) @ '' AS '' @ svc_quote sv (pr_source p) @ [NEWLINE] @
    ''                    WHERE '' @ build_join_condition sv (pr_source p) pks @ [NEWLINE] @
    ''                )'' @ [NEWLINE] @ ''            ''"

definition expect_count :: "'d sql_service \<Rightarrow> string res \<Rightarrow> int \<Rightarrow> 'd \<Rightarrow> unit res" where
  "expect_count sv query expected d =
    res_bind query (\<lambda>q. res_bind (count_rows sv q d) (\<lambda>n. if n \<noteq> expected then Err ValueError else Ok ()))"

definition verify_promotion :: "'d sql_service \<Rightarrow> promotion \<Rightarrow> string list \<Rightarrow> string list \<Rightarrow> 'd \<Rightarrow> unit res" where
  "verify_promotion sv p ops pks d =
    (if ''truncate'' \<in> set ops then
       expect_count sv (svc_select sv (pr_dest p) (Fields_text ''*'') (One P_none)) (pr_expected p) d
     else if ''update'' \<in> set ops \<and> ''insert'' \<in> set ops then
       (if pks = [] then Err ValueError
        else expect_count sv (Ok (upsert_check_sql sv p pks)) (pr_expected p) d)
     else if keyed p then
       expect_count sv
         (res_bind (svc_where sv (Many (key_conds p #
             (if ''soft_delete'' \<in> set ops \<and> filled (pr_soft_column p)
              then [P_str (svc_quote sv (the (pr_soft_column p)) @ '' IS NULL'')] else []))))
           (\<lambda>w. svc_select sv (pr_dest p) (Fields_text ''*'') (One (P_str w))))
         (pr_expected p) d
     else Ok ())"

definition promotion_ops :: "promotion \<Rightarrow> string list" where
  "promotion_ops p =
    (if pr_soft_delete p \<and> ''soft_delete'' \<notin> set (pr_ops p) then pr_ops p @ [''soft_delete''] else pr_ops p)"

definition soft_delete_guard :: "'d sql_service \<Rightarrow> promotion \<Rightarrow> 'd \<Rightarrow> unit res" where
  "soft_delete_guard sv p d =
    (if pr_soft_delete p
     then res_bind (schema_names_or_empty sv (pr_dest p) d) (\<lambda>cols.
            if pr_soft_column p \<in> Some ` set cols then Ok () else Err ValueError)
     else Ok ())"

definition promote :: "'d sql_service \<Rightarrow> promotion \<Rightarrow> string \<Rightarrow> 'd \<Rightarrow> unit res \<times> 'd" where
  "promote sv p ts d =
    (if pr_ops p = [] then (Err ValueError, d)
     else
       st_bind (st_lift (validate_schema_compatibility sv (pr_source p) (pr_dest p) d)) (\<lambda>_.
       st_bind (st_lift (soft_delete_guard sv p d)) (\<lambda>_.
       st_bind (apply_merge sv p (promotion_ops p) ts) (\<lambda>_.
       st_bind (\<lambda>d'. st_lift (verify_promotion sv p (promotion_ops p) [] d') d') (\<lambda>_.
         svc_delete sv (pr_source p))))) d)"



section \<open>Comparing tables\<close>

text \<open>
  \<open>_get_checksum\<close>: called without columns, so the template's field is filled with \<open>str(None)\<close>. Any failure
  is the text ERROR, which is compared like a checksum.
\<close>

definition get_checksum :: "'d sql_service \<Rightarrow> string \<Rightarrow> 'd \<Rightarrow> string" where
  "get_checksum sv name d =
    (case res_bind (compile_expr (sv_compiler sv) ''hash'' [(''fields'', A_val S_none)]) (\<lambda>field.
          res_bind (svc_select sv name (Fields_list [field]) (One P_none)) (\<lambda>q.
            db_first (sv_db sv) q d)) of
       Inl _ \<Rightarrow> ''ERROR''
     | Inr None \<Rightarrow> ''0''
     | Inr (Some s) \<Rightarrow> s)"

text \<open>\<open>_minus\<close>; \<open>sorted_names\<close> is Python's order of the common columns.\<close>

definition minus_rows ::
  "'d sql_service \<Rightarrow> (string set \<Rightarrow> string list) \<Rightarrow> string \<Rightarrow> string \<Rightarrow> string set \<Rightarrow> 'd \<Rightarrow> int res" where
  "minus_rows sv sorted_names ref other exclude d =
    res_bind (build_sql sv (Op_describe_table ref ''default'')) (\<lambda>q1.
    res_bind (build_sql sv (Op_describe_table other ''default'')) (\<lambda>q2.
    res_bind (db_names (sv_db sv) q1 d) (\<lambda>cols_ref.
    res_bind (db_names (sv_db sv) q2 d) (\<lambda>cols_other.
      let common = (set cols_ref \<inter> set cols_other) - exclude in
      if common = {} then Err ValueError
      else res_bind (build_sql sv (Op_minus ref other (Fields_list (sorted_names common)))) (\<lambda>m.
           res_bind (build_sql sv (Op_count m (One P_none) ''cnt'')) (\<lambda>q.
           res_bind (db_scalar (sv_db sv) q d) (\<lambda>row. Ok (case row of None \<Rightarrow> 0 | Some n \<Rightarrow> n))))))))"

definition is_equal ::
  "'d sql_service \<Rightarrow> (string set \<Rightarrow> string list) \<Rightarrow> string \<Rightarrow> string \<Rightarrow> string set \<Rightarrow> 'd \<Rightarrow> bool res" where
  "is_equal sv sorted_names ref other exclude d =
    res_bind (res_bind (svc_select sv ref (Fields_text ''*'') (One P_none)) (\<lambda>q. count_rows sv q d)) (\<lambda>ref_rows.
    res_bind (res_bind (svc_select sv other (Fields_text ''*'') (One P_none)) (\<lambda>q. count_rows sv q d)) (\<lambda>other_rows.
      if ref_rows \<noteq> other_rows then Ok False
      else if get_checksum sv ref d = get_checksum sv other d then Ok True
      else res_bind (minus_rows sv sorted_names ref other exclude d) (\<lambda>n. Ok (n = 0))))"


section \<open>Partitioned extraction\<close>

definition MAX_CELLS_PER_WORKER :: int where "MAX_CELLS_PER_WORKER = 20000000"
definition MIN_ROWS_PER_WORKER :: int where "MIN_ROWS_PER_WORKER = 50000"

text \<open>The worker count \<open>parallelize\<close> settles on; \<open>None\<close> or zero workers are computed from the cells.\<close>

definition worker_count :: "int \<Rightarrow> int \<Rightarrow> int option \<Rightarrow> int" where
  "worker_count total_rows num_columns requested =
    (let total_cells = total_rows * num_columns;
         n = (case requested of
                Some w \<Rightarrow> if w \<noteq> 0 then w else total_cells div MAX_CELLS_PER_WORKER
              | None \<Rightarrow> total_cells div MAX_CELLS_PER_WORKER);
         m = (if 0 < n \<and> total_rows div n < MIN_ROWS_PER_WORKER
              then total_rows div MIN_ROWS_PER_WORKER else n)
     in max 1 m)"

definition partition_query :: "'d sql_service \<Rightarrow> string \<Rightarrow> string \<Rightarrow> int \<Rightarrow> int \<Rightarrow> string res" where
  "partition_query sv query hash n i =
    res_bind (svc_where sv (One (P_dict [(hash @ '' % '' @ show_int n, S_num (show_int i))]))) (\<lambda>w.
      svc_select sv query (Fields_text ''*'') (One (P_str w)))"

definition partition_load ::
  "'d sql_service \<Rightarrow> string \<Rightarrow> int \<Rightarrow> string list \<Rightarrow> string list res" where
  "partition_load sv table_or_query num_workers partition_fields =
    (if num_workers \<le> 0 then Err ValueError
     else
       let clean = subquery_text table_or_query;
           arg = (if partition_fields \<noteq> [] then A_list (map S_str partition_fields) else A_val (S_str ''*''))
       in res_bind (compile_expr (sv_compiler sv) ''hash'' [(''fields'', arg)]) (\<lambda>hash.
            res_map (partition_query sv clean hash num_workers) (map int [0..<nat num_workers])))"

text \<open>
  \<open>parallelize\<close> with the incremental predicate it is handed (\<open>str()\<close> of it, \<open>''None''\<close> when missing). A
  structured main query whose WHERE is not text has no \<open>strip\<close>.
\<close>

definition merge_predicate :: "conditions \<Rightarrow> string option \<Rightarrow> conditions res" where
  "merge_predicate existing pred =
    (let text = (case pred of None \<Rightarrow> ''None'' | Some s \<Rightarrow> s);
         plain = (case pred of None \<Rightarrow> One P_none | Some s \<Rightarrow> One (P_str s)) in
     if \<not> conds_truthy existing then Ok plain
     else (case existing of
         One (P_str w) \<Rightarrow>
           if py_strip w \<noteq> ''1=1'' then Ok (One (P_str (''('' @ w @ '') AND ('' @ text @ '')''))) else Ok plain
       | _ \<Rightarrow> Err AttributeError))"

definition column_count :: "'d sql_service \<Rightarrow> string \<Rightarrow> 'd \<Rightarrow> int res" where
  "column_count sv target d =
    res_bind (get_schema sv target d) (\<lambda>(n, cols). Ok (int n))"

definition plain_source :: "string \<Rightarrow> string option \<Rightarrow> string" where
  "plain_source target pred =
    (let text = (case pred of None \<Rightarrow> ''None'' | Some s \<Rightarrow> s) in
     py_strip (''SELECT * FROM '' @ target @ '' '' @ (if pred \<noteq> Some ''1=1'' then ''WHERE '' @ text else [])))"

definition source_query ::
  "'d sql_service \<Rightarrow> string \<Rightarrow> sql_context option \<Rightarrow> string option \<Rightarrow> 'd \<Rightarrow> (string \<times> int) res" where
  "source_query sv target ctx pred d =
    (case ctx of
       Some cx \<Rightarrow>
        (case ctx_main cx of
           Some b \<Rightarrow>
             res_bind (merge_predicate (sb_where b) pred) (\<lambda>w.
             let b' = b\<lparr>sb_where := w\<rparr> in
             res_bind (compile_context (sv_compiler sv) (cx\<lparr>ctx_main := Some b'\<rparr>)) (\<lambda>q.
             res_bind (if filled (sb_select b) then Ok (int (length (the (sb_select b)))) else column_count sv target d)
               (\<lambda>n. Ok (q, n))))
         | None \<Rightarrow> res_bind (column_count sv target d) (\<lambda>n. Ok (plain_source target pred, n)))
     | None \<Rightarrow> res_bind (column_count sv target d) (\<lambda>n. Ok (plain_source target pred, n)))"

definition parallelize ::
  "'d sql_service \<Rightarrow> string \<Rightarrow> sql_context option \<Rightarrow> int option \<Rightarrow> string option \<Rightarrow> string list \<Rightarrow> 'd \<Rightarrow> string list res" where
  "parallelize sv target ctx num_workers pred primary_keys d =
    res_bind (source_query sv target ctx pred d) (\<lambda>(q, num_columns).
    res_bind (count_rows sv q d) (\<lambda>total_rows.
      partition_load sv q (worker_count total_rows num_columns num_workers) primary_keys))"



section \<open>How an extraction is split\<close>

lemma worker_count_shape:
  obtains n where "worker_count total_rows num_columns requested =
    max 1 (if 0 < n \<and> total_rows div n < 50000 then total_rows div 50000 else n)"
  unfolding worker_count_def Let_def MIN_ROWS_PER_WORKER_def by blast

lemma floor_of_quotient:
  fixes r :: int
  assumes "1 < r div 50000"
  shows "50000 \<le> r div (r div 50000)"
proof -
  let ?q = "r div 50000"
  have "50000 * ?q \<le> r" by linarith
  then have "50000 * ?q div ?q \<le> r div ?q" using assms by (intro zdiv_mono1) auto
  then show ?thesis using assms by simp
qed

text \<open>
  The worker count is at least one; more than one worker only ever means at least 50,000 rows for
  each; and workers computed from the data that keep that floor hold less than twice the cell budget.
\<close>

theorem worker_count_bounds:
  assumes "0 \<le> total_rows" "0 \<le> num_columns"
  shows "1 \<le> worker_count total_rows num_columns requested \<and>
    (1 < worker_count total_rows num_columns requested \<longrightarrow>
       MIN_ROWS_PER_WORKER \<le> total_rows div worker_count total_rows num_columns requested) \<and>
    (let n = total_rows * num_columns div MAX_CELLS_PER_WORKER in
     1 \<le> n \<and> MIN_ROWS_PER_WORKER \<le> total_rows div n \<longrightarrow>
       worker_count total_rows num_columns None = n \<and>
       total_rows * num_columns < 2 * n * MAX_CELLS_PER_WORKER)"
proof -
  obtain n where n: "worker_count total_rows num_columns requested =
      max 1 (if 0 < n \<and> total_rows div n < 50000 then total_rows div 50000 else n)"
    by (rule worker_count_shape)
  have "50000 \<le> total_rows div worker_count total_rows num_columns requested"
    if big: "1 < worker_count total_rows num_columns requested"
  proof (cases "0 < n \<and> total_rows div n < 50000")
    case True
    then have w: "worker_count total_rows num_columns requested = max 1 (total_rows div 50000)" using n by simp
    then have "1 < total_rows div 50000" using big by simp
    then show ?thesis using floor_of_quotient w by simp
  next
    case False
    then have w: "worker_count total_rows num_columns requested = max 1 n" using n by (simp only: if_False)
    then have "1 < n" using big by simp
    then show ?thesis using False w by simp
  qed
  moreover have "1 \<le> worker_count total_rows num_columns requested" using n by simp
  moreover have "worker_count total_rows num_columns None = k \<and> total_rows * num_columns < 2 * k * 20000000"
    if "k = total_rows * num_columns div 20000000" "1 \<le> k" "50000 \<le> total_rows div k" for k
  proof -
    have "worker_count total_rows num_columns None = k"
      using that(2,3) unfolding worker_count_def Let_def MAX_CELLS_PER_WORKER_def MIN_ROWS_PER_WORKER_def
        that(1) [symmetric] by simp
    moreover have "c < (c div 20000000 + 1) * 20000000" for c :: int by presburger
    then have "total_rows * num_columns < (k + 1) * 20000000" using that(1) by blast
    ultimately show ?thesis using that(2) by auto
  qed
  ultimately show ?thesis
    unfolding Let_def MAX_CELLS_PER_WORKER_def MIN_ROWS_PER_WORKER_def by blast
qed

theorem worker_count_bounds_witness:
  "1 \<le> worker_count 10000000 20 None \<and> MIN_ROWS_PER_WORKER \<le> 10000000 div worker_count 10000000 20 None \<and>
   worker_count 10000000 20 None = 10"
  using worker_count_bounds [of 10000000 20 None]
  by (simp add: MAX_CELLS_PER_WORKER_def MIN_ROWS_PER_WORKER_def)

lemma partition_query_text:
  assumes "partition_query sv query hash n i = Ok q"
  shows "\<exists>tpl t base. get_nonempty (t_analysis (c_template (sv_compiler sv))) ''select'' = Some tpl \<and>
    plain_ref (sv_compiler sv) query ''src'' = Ok t \<and>
    py_format (py_strip (before_sub ''where'' tpl))
      [(''fields'', ''*''), (''table'', t)] = Ok base \<and>
    q = base @ '' WHERE (('' @ hash @ '' % '' @ show_int n @ '' = '' @ show_int i @ ''))''"
proof -
  let ?c = "sv_compiler sv"
  let ?w = "hash @ '' % '' @ show_int n @ '' = '' @ show_int i"
  have "is_raw_expr (hash @ '' % '' @ show_int n)" by (simp add: is_raw_expr_def)
  then have "svc_where sv (One (P_dict [(hash @ '' % '' @ show_int n, S_num (show_int i))])) = Ok ('' ('' @ ?w @ '')'')"
    by (simp add: svc_where_def compile_conditions_def conds_list_def format_operand_def cond_value_def)
  then have "svc_select sv query (Fields_text ''*'') (One (P_str ('' ('' @ ?w @ '')''))) = Ok q"
    using assms by (simp add: partition_query_def)
  then have "compile_select ?c query (Fields_text ''*'') (One (P_str ('' ('' @ ?w @ '')''))) = Ok q"
    by (auto simp: svc_select_def sql_compile_def split: sum.splits py_error.splits)
  moreover have "py_strip ('' ('' @ ?w @ '')'') = ''('' @ ?w @ '')''"
    by (simp add: py_strip_def is_space_def)
  ultimately show ?thesis
    by (auto simp: compile_select_def with_template_def append_where_clause_def compile_conditions_def
        conds_list_def res_bind_Ok_iff split: option.splits)
qed


text \<open>
  C28. The partition queries of an extraction are one per worker, all the same but for the remainder they
  select, so a row, whatever its hash, is read by exactly one of them.
\<close>

theorem partitions_cover_once:
  assumes "partition_load sv query n pks = Ok qs"
  shows "1 \<le> n \<and> length qs = nat n \<and>
    (\<exists>base hash. \<forall>i<nat n. qs ! i = base @ '' WHERE (('' @ hash @ '' % '' @ show_int n @ '' = '' @ show_int (int i) @ ''))'') \<and>
    (\<forall>h::nat. \<exists>!i. i < length qs \<and> int h mod n = int i)"
proof -
  let ?c = "sv_compiler sv"
  have n: "1 \<le> n" using assms by (auto simp: partition_load_def split: if_splits)
  obtain hash where map: "res_map (partition_query sv (subquery_text query) hash n) (map int [0..<nat n]) = Ok qs"
    using assms by (auto simp: partition_load_def Let_def res_bind_Ok_iff split: if_splits)
  have len: "length qs = nat n" using res_map_length [OF map] by simp
  have pick: "partition_query sv (subquery_text query) hash n (int i) = Ok (qs ! i)" if "i < nat n" for i
    using res_map_nth [OF map, of i] that by simp
  obtain tpl t base where base:
    "get_nonempty (t_analysis (c_template ?c)) ''select'' = Some tpl"
    "plain_ref ?c (subquery_text query) ''src'' = Ok t"
    "py_format (py_strip (before_sub ''where'' tpl)) [(''fields'', ''*''), (''table'', t)] = Ok base"
    using partition_query_text [OF pick [of 0]] n by auto
  have "\<forall>i<nat n. qs ! i = base @ '' WHERE (('' @ hash @ '' % '' @ show_int n @ '' = '' @ show_int (int i) @ ''))''"
  proof (intro allI impI)
    fix i assume "i < nat n"
    from partition_query_text [OF pick [OF this]] base
    show "qs ! i = base @ '' WHERE (('' @ hash @ '' % '' @ show_int n @ '' = '' @ show_int (int i) @ ''))''"
      by auto
  qed
  moreover have "\<exists>!i. i < length qs \<and> int h mod n = int i" for h :: nat
  proof (rule ex1I)
    have "0 \<le> int h mod n" "int h mod n < n" using n by simp_all
    then show "nat (int h mod n) < length qs \<and> int h mod n = int (nat (int h mod n))" using len by simp
  qed auto
  ultimately show ?thesis using n len by blast
qed

text \<open>A ClickHouse-like service over a server that stores nothing.\<close>

definition click_compiler :: compiler where
  "click_compiler = \<lparr>c_dialect = ''clickhouse'', c_enum = D_clickhouse,
     c_template = bare_template\<lparr>t_quote := \<lparr>q_open = [], q_close = []\<rparr>,
       t_function := [(''hash'', ''cityHash64({fields})'')],
       t_analysis := [(''count'', ''select count(*) as cnt from {table}''),
         (''select'', ''select {fields} from {table} where {where_cond}'')]\<rparr>\<rparr>"

definition idle_db :: "'d dbms" where
  "idle_db = \<lparr>db_run = \<lambda>_ d. (Ok (), d), db_schema = \<lambda>_ _. Ok (0, None), db_scalar = \<lambda>_ _. Ok None,
     db_first = \<lambda>_ _. Err RuntimeError, db_names = \<lambda>_ _. Ok [], db_load = \<lambda>_ _ d. (Ok (), d)\<rparr>"

definition click_service :: "'d sql_service" where
  "click_service = \<lparr>sv_dir = \<lambda>_. None, sv_compiler = click_compiler, sv_db = idle_db\<rparr>"

lemma click_partitions:
  "partition_load (click_service :: unit sql_service) ''t;'' 2 [''id''] = Ok
    [''select * from t WHERE ((cityHash64(id) % 2 = 0))'', ''select * from t WHERE ((cityHash64(id) % 2 = 1))'']"
  by code_simp

theorem partitions_cover_once_witness:
  "\<exists>qs. partition_load (click_service :: unit sql_service) ''t;'' 2 [''id''] = Ok qs \<and> length qs = 2 \<and>
     (\<forall>h::nat. \<exists>!i. i < length qs \<and> int h mod 2 = int i)"
  by (rule exI, rule conjI [OF click_partitions], rule conjI)
    (simp, use partitions_cover_once [OF click_partitions] in blast)



section \<open>What a promotion guarantees\<close>

text \<open>A promotion by its phases: checks that change nothing, the merge, the verification, the drop.\<close>

lemma promote_phases:
  obtains (refused) e where "promote sv p ts d = (Err e, d)"
  | (merge_failed) e d2 where "apply_merge sv p (promotion_ops p) ts d = (Err e, d2)" "promote sv p ts d = (Err e, d2)"
  | (unverified) e d2 where "apply_merge sv p (promotion_ops p) ts d = (Ok (), d2)"
      "verify_promotion sv p (promotion_ops p) [] d2 = Err e" "promote sv p ts d = (Err e, d2)"
  | (verified) d2 where "apply_merge sv p (promotion_ops p) ts d = (Ok (), d2)"
      "verify_promotion sv p (promotion_ops p) [] d2 = Ok ()"
      "promote sv p ts d = svc_delete sv (pr_source p) d2"
proof (cases "pr_ops p = []")
  case True
  then show ?thesis by (intro refused) (simp add: promote_def)
next
  case ops: False
  show ?thesis
  proof (cases "validate_schema_compatibility sv (pr_source p) (pr_dest p) d")
    case (Inl e)
    then show ?thesis using ops by (intro refused) (simp add: promote_def st_lift_def)
  next
    case v: (Inr u)
    show ?thesis
    proof (cases "soft_delete_guard sv p d")
      case (Inl e)
      then show ?thesis using ops v by (intro refused) (simp add: promote_def st_lift_def)
    next
      case g: (Inr w)
      obtain r d2 where m: "apply_merge sv p (promotion_ops p) ts d = (r, d2)" by fastforce
      have eq: "promote sv p ts d = (case r of Inl e \<Rightarrow> (Inl e, d2) | Inr _ \<Rightarrow>
          st_bind (\<lambda>d'. st_lift (verify_promotion sv p (promotion_ops p) [] d') d')
            (\<lambda>_. svc_delete sv (pr_source p)) d2)"
        using ops v g m by (simp add: promote_def st_bind_def split: sum.split)
      show ?thesis
      proof (cases r)
        case (Inl e)
        then show ?thesis using merge_failed m eq by simp
      next
        case (Inr x)
        show ?thesis
        proof (cases "verify_promotion sv p (promotion_ops p) [] d2")
          case ve: (Inl e)
          then show ?thesis using unverified m eq Inr by (simp add: st_bind_def st_lift_def)
        next
          case (Inr y)
          then show ?thesis using verified m eq \<open>r = Inr x\<close> by (simp add: st_bind_def st_lift_def)
        qed
      qed
    qed
  qed
qed

lemma expect_count_Ok:
  "expect_count sv query n d = Ok () \<longleftrightarrow> (\<exists>q. query = Ok q \<and> count_rows sv q d = Ok n)"
  by (auto simp: expect_count_def res_bind_Ok_iff split: if_splits)


text \<open>Sample templates in the style of ClickHouse's for a full refresh, over a server that logs the statements it runs.\<close>

definition refresh_service :: "string list sql_service" where
  "refresh_service = \<lparr>sv_dir = \<lambda>_. None,
     sv_compiler = click_compiler\<lparr>c_template := (c_template click_compiler)\<lparr>
       t_core := [(''truncate'', ''truncate table {table}''), (''drop_table'', ''drop table if exists {table}'')],
       t_merge := [(''merge_insert'', ''insert into {tgt_table} ({insert_fields}) select {src_fields} from {src_table}'')],
       t_metadata := [(''table_exists'', ''exists {table}''), (''columns'', ''columns of {table}'')]\<rparr>\<rparr>,
     sv_db = \<lparr>db_run = \<lambda>s d. (Ok (), d @ [s]), db_schema = \<lambda>_ _. Ok (1, Some [''id'']),
       db_scalar = \<lambda>_ _. Ok (Some 1), db_first = \<lambda>_ _. Ok None, db_names = \<lambda>_ _. Ok [''id''],
       db_load = \<lambda>_ _ d. (Ok (), d)\<rparr>\<rparr>"

definition refresh :: promotion where
  "refresh = \<lparr>pr_source = ''t_stg'', pr_dest = ''t'', pr_expected = 1, pr_ops = [''truncate'', ''insert''],
     pr_update_key = None, pr_partition = None, pr_pks = [], pr_soft_delete = False, pr_soft_column = None\<rparr>"

lemma refresh_runs: "promote refresh_service refresh ''now'' [] = (Ok (),
    [''truncate table t'', ''insert into t (id) select id from t_stg'', ''drop table if exists t_stg''])"
  by code_simp


text \<open>
  A promotion by update and insert never succeeds: its verification is not handed the primary keys
  and raises, after the merge has been applied and with the staging table left behind.
\<close>

theorem upsert_promotion_fails:
  assumes "''update'' \<in> set (pr_ops p)" "''insert'' \<in> set (pr_ops p)" "''truncate'' \<notin> set (pr_ops p)"
  shows "\<exists>e d'. promote sv p ts d = (Err e, d') \<and>
    (\<forall>d2. apply_merge sv p (promotion_ops p) ts d = (Ok (), d2) \<longrightarrow> d' = d \<or> e = ValueError \<and> d' = d2)"
proof -
  have v: "verify_promotion sv p (promotion_ops p) [] d2 = Err ValueError" for d2
    using assms by (simp add: verify_promotion_def promotion_ops_def)
  show ?thesis
    by (cases rule: promote_phases [of sv p ts d]) (use v in auto)
qed

theorem upsert_promotion_fails_witness:
  "\<exists>e d'. promote refresh_service (refresh\<lparr>pr_ops := [''update'', ''insert''], pr_pks := [''id'']\<rparr>) ''now'' [] = (Err e, d')"
  using upsert_promotion_fails [of "refresh\<lparr>pr_ops := [''update'', ''insert''], pr_pks := [''id'']\<rparr>" refresh_service "''now''" "[]"]
  by (auto simp: refresh_def)

text \<open>
  Two tables with the same number of rows are reported equal, whatever they hold, when the server
  rejects the checksum statement, which names the column None instead of the tables' columns: the two
  failures are compared as if they were checksums.
\<close>

theorem comparison_ignores_content:
  assumes "compile_expr (sv_compiler sv) ''hash'' [(''fields'', A_val S_none)] = Ok field"
    and "svc_select sv ref (Fields_list [field]) (One P_none) = Ok q1"
    and "svc_select sv other (Fields_list [field]) (One P_none) = Ok q2"
    and "db_first (sv_db sv) q1 d = Err e1" "db_first (sv_db sv) q2 d = Err e2"
    and "svc_select sv ref (Fields_text ''*'') (One P_none) = Ok c1" "count_rows sv c1 d = Ok n"
    and "svc_select sv other (Fields_text ''*'') (One P_none) = Ok c2" "count_rows sv c2 d = Ok n"
  shows "is_equal sv sorted_names ref other exclude d = Ok True"
  using assms by (simp add: is_equal_def get_checksum_def)

theorem comparison_ignores_content_witness:
  "is_equal (click_service :: unit sql_service) (\<lambda>_. []) ''a'' ''b'' {} () = Ok True \<and>
   svc_select (click_service :: unit sql_service) ''a'' (Fields_list [''cityHash64(None)'']) (One P_none)
     = Ok ''select cityHash64(None) from a''"
proof -
  let ?s = "click_service :: unit sql_service"
  have q: "compile_expr (sv_compiler ?s) ''hash'' [(''fields'', A_val S_none)] = Ok ''cityHash64(None)''"
    "svc_select ?s ''a'' (Fields_list [''cityHash64(None)'']) (One P_none) = Ok ''select cityHash64(None) from a''"
    "svc_select ?s ''b'' (Fields_list [''cityHash64(None)'']) (One P_none) = Ok ''select cityHash64(None) from b''"
    "svc_select ?s ''a'' (Fields_text ''*'') (One P_none) = Ok ''select * from a''"
    "svc_select ?s ''b'' (Fields_text ''*'') (One P_none) = Ok ''select * from b''"
    by code_simp+
  have n: "count_rows ?s ''select * from a'' () = Ok 0" "count_rows ?s ''select * from b'' () = Ok 0"
    by code_simp+
  have f: "db_first (sv_db ?s) t () = Err RuntimeError" for t by (simp add: click_service_def idle_db_def)
  show ?thesis using comparison_ignores_content [OF q(1,2,3) f f q(4) n(1) q(5) n(2)] q(2) by blast
qed

end
