(* ===== verification/Loading.thy ===== *)
theory Loading
  imports Manifest SqlService
begin

text \<open>
  The write and publish stages (\<open>core/stages/write\<close>, \<open>core/stages/publish\<close>): column naming, metadata
  columns, partition selection, schema evolution of the target, the staging loop, and the promotion of the
  staged partitions under a publish policy.
\<close>


section \<open>Column names\<close>

datatype case_type = CT_lower | CT_upper | CT_caps | CT_title | CT_none
datatype case_style = CS_snake | CS_kebab | CS_camel | CS_none

definition is_upper :: "char \<Rightarrow> bool" where
  "is_upper c = (let n = (of_char c :: nat) in 65 \<le> n \<and> n \<le> 90)"

definition is_lower :: "char \<Rightarrow> bool" where
  "is_lower c = (let n = (of_char c :: nat) in 97 \<le> n \<and> n \<le> 122)"

definition is_alnum :: "char \<Rightarrow> bool" where
  "is_alnum c \<longleftrightarrow> is_digit c \<or> is_upper c \<or> is_lower c"

text \<open>\<open>re.sub(r"([a-z0-9])([A-Z])", r"\1 \2", s)\<close>.\<close>

fun space_camel :: "string \<Rightarrow> string" where
  "space_camel (a # b # s) =
    (if (is_lower a \<or> is_digit a) \<and> is_upper b then a # CHR '' '' # space_camel (b # s)
     else a # space_camel (b # s))"
| "space_camel s = s"

text \<open>\<open>re.sub(r"([A-Z]+)([A-Z][a-z])", r"\1 \2", s)\<close>: before the last capital of a run that a lower-case letter follows.\<close>

fun space_acronym :: "string \<Rightarrow> string" where
  "space_acronym (a # b # c # s) =
    (if is_upper a \<and> is_upper b \<and> is_lower c then a # CHR '' '' # space_acronym (b # c # s)
     else a # space_acronym (b # c # s))"
| "space_acronym s = s"

definition alnum_words :: "string \<Rightarrow> string list" where
  "alnum_words s = py_words (map (\<lambda>c. if is_alnum c then c else CHR '' '') s)"

definition py_capitalize :: "string \<Rightarrow> string" where
  "py_capitalize s = (case s of [] \<Rightarrow> [] | c # t \<Rightarrow> char_upper c # str_lower t)"

text \<open>\<open>s.title()\<close>: a letter after a non-letter is a capital.\<close>

fun py_title :: "bool \<Rightarrow> string \<Rightarrow> string" where
  "py_title after_letter [] = []"
| "py_title after_letter (c # s) =
    (let letter = is_upper c \<or> is_lower c in
     (if after_letter then char_lower c else char_upper c) # py_title letter s)"

definition name_words :: "string \<Rightarrow> string list" where
  "name_words name =
    (let ws = alnum_words (space_acronym (space_camel name)) in if ws = [] then [name] else ws)"

definition style_words :: "case_style \<Rightarrow> string \<Rightarrow> string list \<Rightarrow> string" where
  "style_words st name ws =
    (case st of
       CS_snake \<Rightarrow> py_join ''_'' ws
     | CS_kebab \<Rightarrow> py_join ''-'' ws
     | CS_camel \<Rightarrow> str_lower (hd ws) @ concat (map py_capitalize (tl ws))
     | CS_none \<Rightarrow> name)"

definition format_column_name :: "string \<Rightarrow> case_type \<Rightarrow> case_style \<Rightarrow> string" where
  "format_column_name name ct st =
    (let formatted = style_words st name (name_words name) in
     case ct of
       CT_lower \<Rightarrow> str_lower formatted
     | CT_upper \<Rightarrow> str_upper formatted
     | CT_caps \<Rightarrow> py_capitalize formatted
     | CT_title \<Rightarrow> py_title False formatted
     | CT_none \<Rightarrow> formatted)"

text \<open>
  The \<open>while new_col in seen\<close> loop: the first of base, base\_1, base\_2, ... that is not taken. It needs at
  most one step per name taken, which is its fuel.
\<close>

definition numbered :: "string \<Rightarrow> nat \<Rightarrow> string" where
  "numbered base k = (if k = 0 then base else base @ ''_'' @ show_nat k)"

fun free_name :: "nat \<Rightarrow> string list \<Rightarrow> string \<Rightarrow> nat \<Rightarrow> string option" where
  "free_name 0 seen base k = None"
| "free_name (Suc fuel) seen base k =
    (if numbered base k \<in> set seen then free_name fuel seen base (Suc k) else Some (numbered base k))"

definition pick_name :: "string list \<Rightarrow> string \<Rightarrow> string" where
  "pick_name seen base = the (free_name (Suc (length seen)) seen base 0)"

fun rename_columns :: "case_type \<Rightarrow> case_style \<Rightarrow> string list \<Rightarrow> string list \<Rightarrow> (string \<times> string) list" where
  "rename_columns ct st seen [] = []"
| "rename_columns ct st seen (col # cols) =
    (let new_col = pick_name seen (format_column_name col ct st) in
     (col, new_col) # rename_columns ct st (new_col # seen) cols)"

definition system_column :: "string \<Rightarrow> bool" where
  "system_column c \<longleftrightarrow> prefix ''_'' c"

text \<open>The column names after \<open>_apply_casing\<close>.\<close>

definition apply_casing :: "case_type \<Rightarrow> case_style \<Rightarrow> string list \<Rightarrow> string list" where
  "apply_casing ct st cols =
    (if ct = CT_none \<and> st = CS_none then cols
     else
       let ren = rename_columns ct st [] (filter (\<lambda>c. \<not> system_column c) cols) in
       map (\<lambda>c. case map_of ren c of None \<Rightarrow> c | Some n \<Rightarrow> n) cols)"


subsection \<open>Renamed columns stay distinct\<close>

lemma numbered_inj: "numbered base j = numbered base k \<Longrightarrow> j = k"
  by (auto simp: numbered_def show_nat_inj split: if_splits)

lemma free_name_None:
  "free_name fuel seen base k = None \<Longrightarrow> i < fuel \<Longrightarrow> numbered base (k + i) \<in> set seen"
proof (induction fuel arbitrary: k i)
  case (Suc fuel)
  then have k: "numbered base k \<in> set seen" "free_name fuel seen base (Suc k) = None"
    by (auto split: if_splits)
  show ?case
  proof (cases i)
    case 0
    then show ?thesis using k by simp
  next
    case (Suc j)
    then show ?thesis using Suc.IH [OF k(2), of j] Suc.prems(2) by simp
  qed
qed simp

lemma free_name_found: "\<exists>n. free_name (Suc (length seen)) seen base 0 = Some n"
proof (cases "free_name (Suc (length seen)) seen base 0")
  case None
  have "numbered base ` {..<Suc (length seen)} \<subseteq> set seen"
    using free_name_None [OF None] by (auto simp del: free_name.simps)
  then have "card (numbered base ` {..<Suc (length seen)}) \<le> card (set seen)" by (intro card_mono) simp
  moreover have "inj_on (numbered base) {..<Suc (length seen)}" by (rule inj_onI) (rule numbered_inj)
  then have "card (numbered base ` {..<Suc (length seen)}) = Suc (length seen)" by (simp add: card_image)
  ultimately show ?thesis using card_length [of seen] by simp
qed simp

lemma free_name_fresh: "free_name fuel seen base k = Some n \<Longrightarrow> n \<notin> set seen"
  by (induction fuel arbitrary: k) (auto split: if_splits)

lemma free_name_numbered: "free_name fuel seen base k = Some n \<Longrightarrow> \<exists>j. n = numbered base j"
  by (induction fuel arbitrary: k) (auto split: if_splits)

lemma pick_name_fresh: "pick_name seen base \<notin> set seen \<and> (\<exists>j. pick_name seen base = numbered base j)"
  using free_name_found [of seen base] free_name_fresh free_name_numbered
  unfolding pick_name_def by (metis option.sel)

lemma rename_columns_fst [simp]: "map fst (rename_columns ct st seen cols) = cols"
  by (induction cols arbitrary: seen) (simp_all add: Let_def)

lemma rename_columns_snd:
  "distinct (map snd (rename_columns ct st seen cols)) \<and>
   set (map snd (rename_columns ct st seen cols)) \<inter> set seen = {}"
proof (induction cols arbitrary: seen)
  case (Cons col cols)
  let ?n = "pick_name seen (format_column_name col ct st)"
  show ?case using Cons [of "?n # seen"] pick_name_fresh [of seen "format_column_name col ct st"]
    unfolding rename_columns.simps Let_def by auto
qed simp


lemma py_split_parts_set: "w \<in> set (py_split c s) \<Longrightarrow> set w \<subseteq> set s"
proof (induction s arbitrary: w)
  case (Cons x s)
  obtain v vs where "py_split c s = v # vs" by (rule py_split_Cons_cases)
  then show ?case using Cons.IH [of v] Cons.IH [of w] Cons.prems by (fastforce split: if_splits)
qed simp

lemma py_words_part:
  assumes "w \<in> set (py_words s)"
  shows "w \<noteq> []" "c \<in> set w \<Longrightarrow> c \<in> set s \<and> \<not> is_space c"
proof -
  let ?m = "map (\<lambda>c. if is_space c then CHR '' '' else c) s"
  have w: "w \<noteq> []" "w \<in> set (py_split CHR '' '' ?m)" using assms by (simp_all add: py_words_def)
  show "w \<noteq> []" by (rule w)
  show "c \<in> set w \<Longrightarrow> c \<in> set s \<and> \<not> is_space c"
    using py_split_parts_set [OF w(2)] py_split_parts_free [OF w(2)] by (fastforce split: if_splits)
qed

lemma name_words_ok:
  assumes "name \<noteq> []" "hd name \<noteq> CHR ''_''"
  shows "name_words name \<noteq> [] \<and> (\<forall>w\<in>set (name_words name). w \<noteq> [] \<and> hd w \<noteq> CHR ''_'')"
proof -
  have "w \<noteq> [] \<and> hd w \<noteq> CHR ''_''" if w: "w \<in> set (alnum_words t)" for w t
  proof -
    have ne: "w \<noteq> []" using w py_words_part(1) by (auto simp: alnum_words_def)
    then have "hd w \<in> set (map (\<lambda>c. if is_alnum c then c else CHR '' '') t) \<and> \<not> is_space (hd w)"
      using py_words_part(2) [OF w [unfolded alnum_words_def] hd_in_set] by blast
    moreover have "is_space CHR '' ''" "\<not> is_alnum CHR ''_''"
      by (simp_all add: is_space_def is_alnum_def is_digit_def is_upper_def is_lower_def)
    ultimately show ?thesis using ne by (auto split: if_splits)
  qed
  then show ?thesis using assms by (auto simp: name_words_def Let_def)
qed

lemma char_case_mark: "char_lower c = CHR ''_'' \<longleftrightarrow> c = CHR ''_''" "char_upper c = CHR ''_'' \<longleftrightarrow> c = CHR ''_''"
proof -
  have eq: "d = CHR ''_'' \<longleftrightarrow> (of_char d :: nat) = 95" for d
    by (subst of_char_eq_iff [where ?'a = nat, symmetric]) simp
  show "char_lower c = CHR ''_'' \<longleftrightarrow> c = CHR ''_''" "char_upper c = CHR ''_'' \<longleftrightarrow> c = CHR ''_''"
    unfolding eq by (auto simp: char_lower_def char_upper_def Let_def of_char_of)
qed


lemma py_join_hd: "ws \<noteq> [] \<Longrightarrow> hd ws \<noteq> [] \<Longrightarrow> py_join sep ws \<noteq> [] \<and> hd (py_join sep ws) = hd (hd ws)"
  by (cases ws; cases "tl ws") (simp_all add: hd_append)

lemma format_column_name_mark:
  assumes "name \<noteq> []" "hd name \<noteq> CHR ''_''"
  shows "format_column_name name ct st \<noteq> [] \<and> hd (format_column_name name ct st) \<noteq> CHR ''_''"
proof -
  let ?ws = "name_words name"
  have ws: "?ws \<noteq> []" "hd ?ws \<noteq> []" "hd (hd ?ws) \<noteq> CHR ''_''" using name_words_ok [OF assms] by auto
  have f: "style_words st name ?ws \<noteq> [] \<and> hd (style_words st name ?ws) \<noteq> CHR ''_''"
    using ws assms py_join_hd [OF ws(1,2)]
    by (cases st) (auto simp: style_words_def hd_append hd_map char_case_mark)
  then obtain c t where "style_words st name ?ws = c # t" "c \<noteq> CHR ''_''"
    by (cases "style_words st name ?ws") auto
  then show ?thesis
    by (cases ct) (auto simp: format_column_name_def Let_def py_capitalize_def char_case_mark)
qed

lemma rename_columns_user:
  assumes "\<forall>c\<in>set cols. c \<noteq> [] \<and> \<not> system_column c"
  shows "\<forall>n\<in>snd ` set (rename_columns ct st seen cols). n \<noteq> [] \<and> \<not> system_column n"
  using assms
proof (induction cols arbitrary: seen)
  case (Cons col cols)
  let ?b = "format_column_name col ct st"
  have "col \<noteq> [] \<and> \<not> system_column col" using Cons.prems by simp
  then have "hd col \<noteq> CHR ''_''" "col \<noteq> []" by (cases col, auto simp: system_column_def)+
  then have b: "?b \<noteq> []" "hd ?b \<noteq> CHR ''_''" using format_column_name_mark by auto
  obtain j where "pick_name seen ?b = numbered ?b j" using pick_name_fresh by blast
  then have "pick_name seen ?b \<noteq> [] \<and> \<not> system_column (pick_name seen ?b)"
    using b by (cases ?b) (auto simp: numbered_def system_column_def)
  moreover have "\<forall>n\<in>snd ` set (rename_columns ct st (pick_name seen ?b # seen) cols). n \<noteq> [] \<and> \<not> system_column n"
    using Cons.prems by (intro Cons.IH) simp
  ultimately show ?case unfolding rename_columns.simps Let_def by simp
qed simp

text \<open>
  Renaming the columns keeps the frame well formed: distinct column names stay distinct, whatever they
  normalise to, and the system columns (leading underscore) keep their names.
\<close>

theorem casing_keeps_columns_distinct:
  assumes "distinct cols" "[] \<notin> set cols"
  shows "distinct (apply_casing ct st cols) \<and> length (apply_casing ct st cols) = length cols \<and>
    filter system_column (apply_casing ct st cols) = filter system_column cols"
proof (cases "ct = CT_none \<and> st = CS_none")
  case True
  then show ?thesis using assms by (simp add: apply_casing_def)
next
  case False
  let ?user = "filter (\<lambda>c. \<not> system_column c) cols"
  define ren where "ren = rename_columns ct st [] ?user"
  define f where "f = (\<lambda>c. case map_of ren c of None \<Rightarrow> c | Some n \<Rightarrow> n)"
  have eq: "apply_casing ct st cols = map f cols"
    by (simp only: apply_casing_def Let_def False if_False f_def ren_def)
  have keys: "fst ` set ren = set ?user" unfolding ren_def by (metis rename_columns_fst set_map)
  have vals: "\<forall>n\<in>snd ` set ren. n \<noteq> [] \<and> \<not> system_column n"
    unfolding ren_def using assms(2) by (intro rename_columns_user) auto
  have dist: "distinct (map snd ren)" unfolding ren_def using rename_columns_snd by blast
  have sys: "f c = c" if "system_column c" for c
  proof -
    have "map_of ren c = None" using that keys by (simp add: map_of_eq_None_iff)
    then show ?thesis by (simp add: f_def)
  qed
  have user: "map_of ren c = Some (f c) \<and> \<not> system_column (f c)" if c: "c \<in> set cols" "\<not> system_column c" for c
  proof -
    have "c \<in> fst ` set ren" using keys c by simp
    then obtain n where "map_of ren c = Some n" by (metis map_of_eq_None_iff not_None_eq)
    moreover from this have "n \<in> snd ` set ren" by (metis map_of_SomeD image_eqI snd_conv)
    moreover from this have "\<not> system_column n" using vals by blast
    ultimately show ?thesis by (simp add: f_def)
  qed
  have inj: "inj_on f (set cols)"
  proof (rule inj_onI)
    fix a b assume ab: "a \<in> set cols" "b \<in> set cols" "f a = f b"
    consider "system_column a" "system_column b" | "\<not> system_column a" "\<not> system_column b"
      using ab sys user by metis
    then show "a = b"
    proof cases
      case 1
      then show ?thesis using ab(3) sys by simp
    next
      case 2
      have "(a, f a) \<in> set ren" "(b, f a) \<in> set ren"
        using user [OF ab(1) 2(1)] user [OF ab(2) 2(2)] ab(3) by (metis map_of_SomeD)+
      then show ?thesis using dist by (metis distinct_map inj_on_eq_iff prod.inject snd_conv)
    qed
  qed
  have filt: "filter system_column (map f cs) = filter system_column cs" if "set cs \<subseteq> set cols" for cs
    using that sys user by (induction cs) auto
  show ?thesis unfolding eq using assms(1) inj filt [of cols] by (simp add: distinct_map)
qed

theorem casing_keeps_columns_distinct_witness:
  "distinct (apply_casing CT_upper CS_snake [''orderDate'', ''Order_Date'', ''_run_id'']) \<and>
   apply_casing CT_upper CS_snake [''orderDate'', ''Order_Date'', ''_run_id''] = [''ORDER_DATE'', ''ORDER_DATE_1'', ''_run_id'']"
proof -
  have "apply_casing CT_upper CS_snake [''orderDate'', ''Order_Date'', ''_run_id''] = [''ORDER_DATE'', ''ORDER_DATE_1'', ''_run_id'']"
    by code_simp
  then show ?thesis
    using casing_keeps_columns_distinct [of "[''orderDate'', ''Order_Date'', ''_run_id'']" CT_upper CS_snake] by simp
qed



section \<open>Metadata columns\<close>

record metadata_spec =
  ms_key :: string
  ms_default_name :: string
  ms_name_override :: "string option"

definition target_name :: "metadata_spec \<Rightarrow> string" where
  "target_name s = or_else (ms_name_override s) (ms_default_name s)"

definition default_metadata :: "(string, string) dict" where
  "default_metadata = [(''run_id'', ''_run_id''), (''partition_date'', ''_partition_date''), (''source'', ''_source''),
     (''loaded_at'', ''_loaded_at''), (''deleted'', ''_is_deleted'')]"

text \<open>A configured value: a flag or a column name; \<open>False\<close>, \<open>None\<close> and the empty name leave the column out.\<close>

datatype meta_choice = Meta_flag bool | Meta_name string

fun meta_truthy :: "meta_choice \<Rightarrow> bool" where
  "meta_truthy (Meta_flag b) = b"
| "meta_truthy (Meta_name s) = (s \<noteq> [])"

definition meta_spec_for :: "string \<times> meta_choice \<Rightarrow> metadata_spec res" where
  "meta_spec_for kv = (case kv of (key, val) \<Rightarrow>
     (case dict_get default_metadata key of
        None \<Rightarrow> Err ValueError
      | Some d \<Rightarrow> Ok \<lparr>ms_key = key, ms_default_name = d,
          ms_name_override = (case val of Meta_name s \<Rightarrow> Some s | Meta_flag _ \<Rightarrow> None)\<rparr>))"

definition resolve_meta_columns :: "(string, meta_choice) dict \<Rightarrow> bool \<Rightarrow> metadata_spec list res" where
  "resolve_meta_columns meta_columns soft_delete_missing =
    (let effective = (if soft_delete_missing then dict_put ''deleted'' (Meta_flag True) meta_columns else meta_columns) in
     res_map meta_spec_for (filter (\<lambda>(k, v). meta_truthy v) effective))"

text \<open>The columns \<open>_inject_metadata\<close> adds to a frame that has \<open>cols\<close>.\<close>

definition injected_columns :: "string list \<Rightarrow> metadata_spec list \<Rightarrow> string list" where
  "injected_columns cols specs = filter (\<lambda>n. n \<notin> set cols) (map target_name specs)"

lemma res_map_keys:
  "(\<And>x y. f x = Ok y \<Longrightarrow> h y = g x) \<Longrightarrow> res_map f xs = Ok ys \<Longrightarrow> map h ys = map g xs"
  by (induction xs arbitrary: ys) (auto simp: res_bind_Ok_iff)

text \<open>
  With soft deletes on, the deletion marker is always in the target and always under its default
  name: a name configured for it is discarded.
\<close>

theorem soft_delete_name_is_fixed:
  assumes "dict_ok meta_columns" "resolve_meta_columns meta_columns True = Ok specs"
  shows "\<exists>s\<in>set specs. ms_key s = ''deleted'' \<and> target_name s = ''_is_deleted'' \<and>
    filter (\<lambda>s. ms_key s = ''deleted'') specs = [s]"
proof -
  let ?e = "dict_put ''deleted'' (Meta_flag True) meta_columns"
  let ?kvs = "filter (\<lambda>(k, v). meta_truthy v) ?e"
  have ok: "res_map meta_spec_for ?kvs = Ok specs" using assms(2) by (simp add: resolve_meta_columns_def)
  have "distinct (map fst ?e)" using assms(1) by (rule dict_ok_put)
  then have d: "distinct (map fst ?kvs)" by (rule distinct_map_filter)
  have keys: "map ms_key specs = map fst ?kvs"
    by (rule res_map_keys [OF _ ok])
      (auto simp: meta_spec_for_def split: prod.splits option.splits)
  have "(''deleted'', Meta_flag True) \<in> set ?e"
    by (rule map_of_SomeD) (simp add: update_conv')
  then have "(''deleted'', Meta_flag True) \<in> set ?kvs" by simp
  then obtain i where i: "i < length ?kvs" "?kvs ! i = (''deleted'', Meta_flag True)" by (metis in_set_conv_nth)
  have si: "meta_spec_for (''deleted'', Meta_flag True) = Ok (specs ! i)" using res_map_nth [OF ok i(1)] i(2) by simp
  then have "specs ! i = \<lparr>ms_key = ''deleted'', ms_default_name = ''_is_deleted'', ms_name_override = None\<rparr>"
    by (simp add: meta_spec_for_def default_metadata_def)
  then have s: "ms_key (specs ! i) = ''deleted''" "target_name (specs ! i) = ''_is_deleted''"
    by (simp_all add: target_name_def or_else_def)
  have len: "i < length specs" using res_map_length [OF ok] i(1) by simp
  have "distinct (map ms_key specs)" using d keys by simp
  then have "filter (\<lambda>s. ms_key s = ''deleted'') specs = [specs ! i]" if "i < length specs"
    using that s(1)
  proof (induction specs arbitrary: i)
    case (Cons a l)
    show ?case
    proof (cases i)
      case 0
      then have "ms_key a = ''deleted''" using Cons.prems by simp
      then have "filter (\<lambda>s. ms_key s = ''deleted'') l = []"
        using Cons.prems(1) by (auto simp: filter_empty_conv) (metis imageI)
      then show ?thesis using 0 Cons.prems by simp
    next
      case (Suc j)
      then have "ms_key a \<noteq> ''deleted''" using Cons.prems by (metis distinct.simps(2) length_Cons
            list.simps(9) not_less_eq nth_Cons_Suc nth_map nth_mem length_map)
      then show ?thesis using Suc Cons by simp
    qed
  qed simp
  then show ?thesis using s len nth_mem [OF len] by blast
qed


theorem soft_delete_name_is_fixed_witness:
  "\<exists>s specs. resolve_meta_columns [(''run_id'', Meta_flag True), (''deleted'', Meta_name ''is_archived'')] True = Ok specs \<and>
     s \<in> set specs \<and> target_name s = ''_is_deleted''"
proof -
  let ?m = "[(''run_id'', Meta_flag True), (''deleted'', Meta_name ''is_archived'')]"
  obtain specs where "resolve_meta_columns ?m True = Ok specs"
    by (simp add: resolve_meta_columns_def meta_spec_for_def default_metadata_def)
  then show ?thesis using soft_delete_name_is_fixed [of ?m specs] by auto
qed


section \<open>Partition selection\<close>

text \<open>
  A lazy frame is its column names and rows. \<open>day\<close> truncates a timestamp to its date, and the temporal
  columns are known from the schema (\<open>fr_temporal\<close>).
\<close>

record 'v frame =
  fr_names :: "string list"
  fr_temporal :: "string list"
  fr_rows :: "(string \<Rightarrow> 'v) list"

definition prepare_partitions :: "'v frame \<Rightarrow> 'v frame" where
  "prepare_partitions f =
    (if ''partition_date'' \<in> set (fr_names f) then
       f\<lparr>fr_names := map (\<lambda>c. if c = ''partition_date'' then ''__partition'' else c) (fr_names f),
         fr_temporal := map (\<lambda>c. if c = ''partition_date'' then ''__partition'' else c) (fr_temporal f),
         fr_rows := map (\<lambda>r c. if c = ''__partition'' then r ''partition_date'' else r c) (fr_rows f)\<rparr>
     else f)"

text \<open>\<open>unique()\<close> keeps one of each; no key at all stands for the whole frame.\<close>

definition extract_partition_keys ::
  "('v \<Rightarrow> 'v) \<Rightarrow> 'v frame \<Rightarrow> string option \<Rightarrow> 'v option list \<times> bool" where
  "extract_partition_keys day f update_key =
    (let has_key = filled update_key \<and> the update_key \<in> set (fr_names f);
         is_dt = has_key \<and> the update_key \<in> set (fr_temporal f);
         keys = (if ''__partition'' \<in> set (fr_names f) then map (\<lambda>r. r ''__partition'') (fr_rows f)
                 else map (\<lambda>r. (if is_dt then day else id) (r (the update_key))) (fr_rows f))
     in if ''__partition'' \<notin> set (fr_names f) \<and> \<not> has_key then ([None], False)
        else (if keys = [] then [None] else map Some (remdups keys), is_dt))"

definition filter_partition ::
  "('v \<Rightarrow> 'v) \<Rightarrow> 'v frame \<Rightarrow> 'v option \<Rightarrow> bool \<Rightarrow> 'v frame" where
  "filter_partition day f val is_dt =
    (case val of
       None \<Rightarrow> f
     | Some v \<Rightarrow>
        if ''__partition'' \<notin> set (fr_names f) then f
        else
          let trunc = (if ''__partition'' \<in> set (fr_temporal f) \<and> is_dt then day else id)
          in f\<lparr>fr_rows := filter (\<lambda>r. trunc (r ''__partition'') = v) (fr_rows f)\<rparr>)"

lemma mset_filter_remdups:
  "(\<Sum>k\<leftarrow>ks. mset (filter (\<lambda>r. f r = k) rs)) = mset (filter (\<lambda>r. f r \<in> set ks) rs)" if "distinct ks"
  using that
proof (induction ks)
  case (Cons k ks)
  have "mset (filter (\<lambda>r. f r \<in> set (k # ks)) rs)
      = mset (filter (\<lambda>r. f r = k) rs) + mset (filter (\<lambda>r. f r \<in> set ks) rs)"
    using Cons.prems by (induction rs) auto
  then show ?case using Cons by simp
qed simp

text \<open>
  Over a partitioned frame the partitions cover every row once: the selected parts together are a
  rearrangement of the frame (its partition values being dates, which truncation keeps). Without a
  partition column but with an update key, each of the keys selects the whole frame, so it is loaded once
  per key.
\<close>

theorem partition_selection:
  assumes "extract_partition_keys day f key = (keys, is_dt)"
    and "\<forall>r\<in>set (fr_rows f). day (r ''__partition'') = r ''__partition''"
  shows "(\<Sum>k\<leftarrow>keys. mset (fr_rows (filter_partition day f k is_dt)))
     = (if ''__partition'' \<in> set (fr_names f) then mset (fr_rows f)
        else repeat_mset (length keys) (mset (fr_rows f)))"
proof (cases "''__partition'' \<in> set (fr_names f)")
  case True
  let ?vals = "map (\<lambda>r. r ''__partition'') (fr_rows f)"
  have sel: "fr_rows (filter_partition day f (Some k) is_dt) = filter (\<lambda>r. r ''__partition'' = k) (fr_rows f)" for k
    using True assms(2) by (auto simp: filter_partition_def Let_def intro!: filter_cong)
  show ?thesis
  proof (cases "fr_rows f = []")
    case empty: True
    then show ?thesis using True assms(1)
      by (auto simp: extract_partition_keys_def Let_def filter_partition_def)
  next
    case False
    have "keys = map Some (remdups ?vals)"
      using True False assms(1) by (auto simp: extract_partition_keys_def Let_def)
    then have "(\<Sum>k\<leftarrow>keys. mset (fr_rows (filter_partition day f k is_dt)))
        = (\<Sum>k\<leftarrow>remdups ?vals. mset (filter (\<lambda>r. r ''__partition'' = k) (fr_rows f)))"
      by (simp add: comp_def sel)
    also have "\<dots> = mset (filter (\<lambda>r. r ''__partition'' \<in> set (remdups ?vals)) (fr_rows f))"
      by (rule mset_filter_remdups) simp
    also have "filter (\<lambda>r. r ''__partition'' \<in> set (remdups ?vals)) (fr_rows f) = fr_rows f"
      by (rule filter_True) simp
    finally show ?thesis using True by simp
  qed
next
  case False
  have "filter_partition day f k is_dt = f" for k
    using False by (cases k) (simp_all add: filter_partition_def)
  then have "(\<Sum>k\<leftarrow>ks. mset (fr_rows (filter_partition day f k is_dt))) = repeat_mset (length ks) (mset (fr_rows f))" for ks
    by (induction ks) simp_all
  then show ?thesis using False by simp
qed

definition two_days :: "nat frame" where
  "two_days = \<lparr>fr_names = [''id'', ''day''], fr_temporal = [],
     fr_rows = [(\<lambda>c. if c = ''day'' then 1 else 0), (\<lambda>c. if c = ''day'' then 2 else 0)]\<rparr>"

theorem partition_selection_witness:
  "\<exists>keys. extract_partition_keys id two_days (Some ''day'') = (keys, False) \<and> length keys = 2 \<and>
     (\<Sum>k\<leftarrow>keys. mset (fr_rows (filter_partition id two_days k False))) = repeat_mset 2 (mset (fr_rows two_days))"
proof -
  have k: "extract_partition_keys id two_days (Some ''day'') = ([Some 1, Some 2], False)"
    by (simp add: extract_partition_keys_def two_days_def filled_def)
  have n: "''__partition'' \<notin> set (fr_names two_days)" by (simp add: two_days_def)
  have "(\<Sum>k\<leftarrow>[Some 1, Some 2]. mset (fr_rows (filter_partition id two_days k False)))
      = repeat_mset (length [Some (1::nat), Some 2]) (mset (fr_rows two_days))"
    using partition_selection [OF k] n by (simp only: if_False id_apply) simp
  moreover have "length [Some (1::nat), Some 2] = 2" by simp
  ultimately show ?thesis using k by metis
qed



section \<open>Schema evolution\<close>

datatype schema_change =
    Create_table string "(string, string) dict"
  | Add_column string string string

text \<open>\<open>recorder\<close> is the effect of \<open>record_schema_change\<close> of the metadata repository.\<close>

type_synonym 'd recorder = "schema_change \<Rightarrow> 'd \<Rightarrow> unit res \<times> 'd"

definition create_if_missing ::
  "'d sql_service \<Rightarrow> 'd recorder \<Rightarrow> string \<Rightarrow> string option \<Rightarrow> (string, polars_type) dict \<Rightarrow> 'd \<Rightarrow> unit res \<times> 'd" where
  "create_if_missing sv recorder target ddl incoming =
    st_bind (\<lambda>d. st_lift (svc_exists sv target d) d) (\<lambda>ex.
      if ex then st_lift (Ok ())
      else st_bind (st_lift (res_map (\<lambda>(col, ty). res_bind (polars_to_db_type (sv_dir sv) (c_dialect (sv_compiler sv)) ty)
                (\<lambda>t. Ok (col, t))) incoming)) (\<lambda>schema.
           st_bind (setup_resource sv target ddl schema) (\<lambda>_. recorder (Create_table target schema))))"

definition add_column_to_sink ::
  "'d sql_service \<Rightarrow> 'd recorder \<Rightarrow> string \<Rightarrow> (string, polars_type) dict \<Rightarrow> string \<Rightarrow> 'd \<Rightarrow> unit res \<times> 'd" where
  "add_column_to_sink sv recorder target incoming col =
    st_bind (st_lift (polars_to_db_type (sv_dir sv) (c_dialect (sv_compiler sv)) (the (dict_get incoming col)))) (\<lambda>ty.
    st_bind (svc_add_column sv target col ty) (\<lambda>_. recorder (Add_column target col ty)))"

fun st_each :: "('a \<Rightarrow> 'd \<Rightarrow> unit res \<times> 'd) \<Rightarrow> 'a list \<Rightarrow> 'd \<Rightarrow> unit res \<times> 'd" where
  "st_each f [] = st_lift (Ok ())"
| "st_each f (x # xs) = st_bind (f x) (\<lambda>_. st_each f xs)"

definition reconcile_schema ::
  "'d sql_service \<Rightarrow> 'd recorder \<Rightarrow> string \<Rightarrow> string option \<Rightarrow> bool \<Rightarrow> (string, polars_type) dict \<Rightarrow> string set \<Rightarrow>
   'd \<Rightarrow> string list res \<times> 'd" where
  "reconcile_schema sv recorder target ddl add_new incoming meta_cols =
    st_bind (create_if_missing sv recorder target ddl incoming) (\<lambda>_.
    st_bind (\<lambda>d. st_lift (schema_names_or_empty sv target d) d) (\<lambda>existing.
      let names = map fst incoming;
          new_cols = filter (\<lambda>c. c \<notin> set existing) names;
          new_meta = filter (\<lambda>c. c \<in> meta_cols) new_cols;
          new_user = filter (\<lambda>c. c \<notin> meta_cols) new_cols;
          add = add_column_to_sink sv recorder target incoming
      in if \<not> set existing \<subseteq> set names then st_lift (Err MissingColumns)
         else if new_cols = [] then st_lift (Ok names)
         else st_bind (st_each add new_meta) (\<lambda>_.
              if new_user = [] then st_lift (Ok names)
              else if add_new then st_bind (st_each add new_user) (\<lambda>_. st_lift (Ok names))
              else st_lift (Ok (filter (\<lambda>c. c \<notin> set new_user) names)))))"

text \<open>
  Schema evolution accepts a frame only when it has every column of the target, and the columns it
  lets through are, in order, those the target had, the metadata columns, and the other new ones exactly
  when adding columns is allowed.
\<close>

theorem reconcile_schema_columns:
  assumes "reconcile_schema sv recorder target ddl add_new incoming meta_cols d = (Ok cols, d')"
  shows "\<exists>d1 existing. create_if_missing sv recorder target ddl incoming d = (Ok (), d1) \<and>
    schema_names_or_empty sv target d1 = Ok existing \<and> set existing \<subseteq> set (map fst incoming) \<and>
    cols = filter (\<lambda>c. c \<in> set existing \<or> c \<in> meta_cols \<or> add_new) (map fst incoming)"
proof -
  let ?names = "map fst incoming"
  obtain d1 existing where ce: "create_if_missing sv recorder target ddl incoming d = (Ok (), d1)"
      "schema_names_or_empty sv target d1 = Ok existing"
    using assms by (auto simp: reconcile_schema_def st_bind_Ok_iff st_lift_def)
  have sub: "set existing \<subseteq> set ?names"
    using assms ce by (auto simp: reconcile_schema_def st_bind_def st_lift_def Let_def split: if_splits)
  let ?new = "filter (\<lambda>c. c \<notin> set existing) ?names"
  let ?user = "filter (\<lambda>c. c \<notin> meta_cols) ?new"
  have "cols = (if ?new = [] \<or> ?user = [] \<or> add_new then ?names else filter (\<lambda>c. c \<notin> set ?user) ?names)"
    using assms ce sub
    by (auto simp: reconcile_schema_def Let_def st_lift_def st_bind_Ok_iff simp del: filter_filter split: if_splits)
  also have "\<dots> = filter (\<lambda>c. c \<in> set existing \<or> c \<in> meta_cols \<or> add_new) ?names"
  proof (cases "?new = [] \<or> ?user = [] \<or> add_new")
    case True
    then have "c \<in> set existing \<or> c \<in> meta_cols \<or> add_new" if "c \<in> set ?names" for c
      using that by (auto simp: filter_empty_conv)
    then show ?thesis using True by (metis (mono_tags, lifting) filter_True)
  next
    case False
    then show ?thesis by (auto intro!: filter_cong)
  qed
  finally show ?thesis using ce sub by blast
qed


theorem reconcile_schema_columns_witness:
  "\<exists>d' existing. reconcile_schema refresh_service (\<lambda>_ d. (Ok (), d)) ''t'' None False
      [(''id'', PL_int64), (''x'', PL_utf8)] {} [] = (Ok [''id''], d') \<and>
    schema_names_or_empty refresh_service ''t'' d' = Ok existing \<and> set existing \<subseteq> {''id'', ''x''}"
proof -
  have r: "reconcile_schema refresh_service (\<lambda>_ d. (Ok (), d)) ''t'' None False
      [(''id'', PL_int64), (''x'', PL_utf8)] {} [] = (Ok [''id''], [])" by code_simp
  have c: "create_if_missing refresh_service (\<lambda>_ d. (Ok (), d)) ''t'' None
      [(''id'', PL_int64), (''x'', PL_utf8)] [] = (Ok (), [])" by code_simp
  show ?thesis using reconcile_schema_columns [OF r] r c by auto
qed


section \<open>Staging the partitions\<close>

datatype write_strategy = WS_direct | WS_clone | WS_staging

record write_context =
  wc_target :: string
  wc_source :: load_source
  wc_expected :: int
  wc_strategy :: write_strategy
  wc_working :: "string option"

definition dest_table :: "write_context \<Rightarrow> string \<Rightarrow> string" where
  "dest_table wc ts =
    (case wc_strategy wc of
       WS_direct \<Rightarrow> wc_target wc
     | _ \<Rightarrow> or_else (wc_working wc) (wc_target wc @ ''_stg_'' @ ts))"

text \<open>A try statement with an except branch.\<close>

definition st_catch :: "('d \<Rightarrow> 'a res \<times> 'd) \<Rightarrow> (py_error \<Rightarrow> 'd \<Rightarrow> 'a res \<times> 'd) \<Rightarrow> 'd \<Rightarrow> 'a res \<times> 'd" where
  "st_catch m h d = (case m d of (Inl e, d') \<Rightarrow> h e d' | (Inr x, d') \<Rightarrow> (Inr x, d'))"

lemma st_catch_Ok_iff:
  "st_catch m h d = (Inr y, d'') \<longleftrightarrow>
     m d = (Inr y, d'') \<or> (\<exists>e d'. m d = (Inl e, d') \<and> h e d' = (Inr y, d''))"
  by (auto simp: st_catch_def split: prod.split sum.split)

text \<open>\<open>DataWriter.write\<close>; \<open>ts\<close> is the time stamp of a generated table name.\<close>

definition data_write ::
  "'d sql_service \<Rightarrow> (string \<Rightarrow> string list) \<Rightarrow> write_context \<Rightarrow> string \<Rightarrow> 'd \<Rightarrow> (string \<times> int) res \<times> 'd" where
  "data_write sv files wc ts =
    (let dest = dest_table wc ts in
     st_bind (if wc_strategy wc = WS_clone then svc_clone sv (wc_target wc) dest else st_lift (Ok ())) (\<lambda>_ d.
       st_catch (stage_table sv files (wc_source wc) dest (wc_expected wc)) (\<lambda>e.
         if wc_strategy wc = WS_clone then st_bind (svc_delete sv dest) (\<lambda>_. st_lift (Err e)) else st_lift (Err e)) d))"

text \<open>
  The loop of \<open>WriteStage._execute\<close> over the selected partitions: a partition is its value, the height of
  its rows, the files its rows are saved to and the time stamp of its turn. Every turn is given the same
  expected count, the row count of the whole run.
\<close>

record part =
  pa_value :: string
  pa_height :: nat
  pa_files :: "string \<Rightarrow> string list"
  pa_stamp :: string

fun write_loop ::
  "'d sql_service \<Rightarrow> write_context \<Rightarrow> part list \<Rightarrow> int \<times> partition_staged list \<times> string \<Rightarrow> 'd \<Rightarrow>
   (int \<times> partition_staged list \<times> string) res \<times> 'd" where
  "write_loop sv wc [] acc = st_lift (Ok acc)"
| "write_loop sv wc (p # ps) (total_rows, metrics, last_id) =
    (if pa_height p = 0 then write_loop sv wc ps (total_rows, metrics, last_id)
     else st_bind (data_write sv (pa_files p) wc (pa_stamp p)) (\<lambda>(dest, rows).
       write_loop sv wc ps
         (total_rows + rows, metrics @ [\<lparr>ps_partition_date = pa_value p, ps_rows_processed = rows\<rparr>], dest)))"

lemma stage_table_rows: "stage_table sv files src t n d = (Ok (t', rows), d') \<Longrightarrow> rows = n \<and> t' = t"
  by (auto simp: stage_table_def st_bind_Ok_iff st_lift_def split: if_splits)

lemma data_write_rows:
  assumes "data_write sv files wc ts d = (Ok (t, rows), d')"
  shows "rows = wc_expected wc \<and> t = dest_table wc ts"
proof -
  obtain d1 where "st_catch (stage_table sv files (wc_source wc) (dest_table wc ts) (wc_expected wc)) (\<lambda>e.
      if wc_strategy wc = WS_clone then st_bind (svc_delete sv (dest_table wc ts)) (\<lambda>_. st_lift (Err e))
      else st_lift (Err e)) d1 = (Ok (t, rows), d')"
    using assms unfolding data_write_def Let_def st_bind_Ok_iff by blast
  then have "stage_table sv files (wc_source wc) (dest_table wc ts) (wc_expected wc) d1 = (Ok (t, rows), d')"
    unfolding st_catch_Ok_iff by (elim disjE exE conjE) (simp_all add: st_bind_Ok_iff st_lift_def split: if_splits)
  then show ?thesis by (rule stage_table_rows)
qed

lemma write_loop_totals:
  "write_loop sv wc ps (total_rows, metrics, last_id) d = (Ok (t, ms, l), d') \<Longrightarrow>
   (let k = length (filter (\<lambda>p. pa_height p \<noteq> 0) ps) in
    t = total_rows + int k * wc_expected wc \<and>
    ms = metrics @ map (\<lambda>p. \<lparr>ps_partition_date = pa_value p, ps_rows_processed = wc_expected wc\<rparr>)
           (filter (\<lambda>p. pa_height p \<noteq> 0) ps))"
proof (induction ps arbitrary: total_rows metrics last_id d)
  case Nil
  then show ?case by (simp add: st_lift_def)
next
  case (Cons p ps)
  show ?case
  proof (cases "pa_height p = 0")
    case True
    then show ?thesis using Cons by simp
  next
    case False
    then obtain dest rows d1 where w: "data_write sv (pa_files p) wc (pa_stamp p) d = (Ok (dest, rows), d1)"
      and l: "write_loop sv wc ps (total_rows + rows,
        metrics @ [\<lparr>ps_partition_date = pa_value p, ps_rows_processed = rows\<rparr>], dest) d1 = (Ok (t, ms, l), d')"
      using Cons.prems by (auto simp: st_bind_Ok_iff)
    show ?thesis using Cons.IH [OF l] data_write_rows [OF w] False
      by (simp add: Let_def algebra_simps)
  qed
qed

text \<open>
  The row counts a write reports are not measured per partition: every staged partition is checked
  against, and recorded with, the row count of the whole run, and the total is that count times the
  number of partitions.
\<close>

theorem write_totals_multiply:
  assumes "write_loop sv wc ps (0, [], []) d = (Ok (total_rows, metrics, last_id), d')"
  shows "total_rows = int (length metrics) * wc_expected wc \<and>
    map ps_partition_date metrics = map pa_value (filter (\<lambda>p. pa_height p \<noteq> 0) ps) \<and>
    list_all (\<lambda>m. ps_rows_processed m = wc_expected wc) metrics"
  using write_loop_totals [OF assms] by (auto simp: Let_def list_all_iff comp_def)

definition two_parts :: "part list" where
  "two_parts = [\<lparr>pa_value = ''d1'', pa_height = 1, pa_files = \<lambda>_. [''f''], pa_stamp = ''1''\<rparr>,
     \<lparr>pa_value = ''d2'', pa_height = 1, pa_files = \<lambda>_. [''f''], pa_stamp = ''2''\<rparr>]"

definition staging_ctx :: write_context where
  "staging_ctx = \<lparr>wc_target = ''t'', wc_source = One_source ''dir'', wc_expected = 1, wc_strategy = WS_staging, wc_working = None\<rparr>"

theorem write_totals_multiply_witness:
  "\<exists>metrics d'. write_loop refresh_service staging_ctx two_parts (0, [], []) [] = (Ok (2, metrics, ''t_stg_2''), d') \<and>
     (2::int) = int (length metrics) * 1"
proof -
  have w: "write_loop refresh_service staging_ctx two_parts (0, [], []) [] = (Ok (2,
      [\<lparr>ps_partition_date = ''d1'', ps_rows_processed = 1\<rparr>, \<lparr>ps_partition_date = ''d2'', ps_rows_processed = 1\<rparr>],
      ''t_stg_2''), [])" by code_simp
  show ?thesis using write_totals_multiply [OF w] w by (auto simp: staging_ctx_def)
qed



section \<open>Publishing\<close>

datatype write_mode = WM_delta | WM_snapshot | WM_full_refresh | WM_cdc
datatype delta_merge = DM_delete_insert | DM_update_insert | DM_update

record publish_policy =
  pp_ops :: "string list"
  pp_requires_pks :: bool
  pp_requires_update_key :: bool

fun publish_policies :: "write_mode \<Rightarrow> delta_merge option \<Rightarrow> publish_policy option" where
  "publish_policies WM_full_refresh None =
     Some \<lparr>pp_ops = [''truncate'', ''insert''], pp_requires_pks = False, pp_requires_update_key = False\<rparr>"
| "publish_policies WM_snapshot None =
     Some \<lparr>pp_ops = [''delete'', ''insert''], pp_requires_pks = False, pp_requires_update_key = True\<rparr>"
| "publish_policies WM_cdc None =
     Some \<lparr>pp_ops = [''update'', ''insert''], pp_requires_pks = True, pp_requires_update_key = False\<rparr>"
| "publish_policies WM_delta (Some DM_delete_insert) =
     Some \<lparr>pp_ops = [''delete'', ''insert''], pp_requires_pks = False, pp_requires_update_key = True\<rparr>"
| "publish_policies WM_delta (Some DM_update_insert) =
     Some \<lparr>pp_ops = [''update'', ''insert''], pp_requires_pks = True, pp_requires_update_key = False\<rparr>"
| "publish_policies WM_delta (Some DM_update) =
     Some \<lparr>pp_ops = [''update''], pp_requires_pks = True, pp_requires_update_key = False\<rparr>"
| "publish_policies _ _ = None"

record publish_config =
  pc_target :: string
  pc_mode :: write_mode
  pc_merge :: delta_merge
  pc_pks :: "string list"
  pc_update_key :: "string option"
  pc_soft_delete :: bool
  pc_soft_column :: string

definition get_publish_policy :: "publish_config \<Rightarrow> publish_policy res" where
  "get_publish_policy cfg =
    (case publish_policies (pc_mode cfg) (if pc_mode cfg = WM_delta then Some (pc_merge cfg) else None) of
       None \<Rightarrow> Err NotImplementedError
     | Some pol \<Rightarrow>
        if pp_requires_pks pol \<and> pc_pks cfg = [] then Err ValueError
        else if pp_requires_update_key pol \<and> \<not> filled (pc_update_key cfg) then Err ValueError
        else Ok pol)"

definition promotion_for :: "publish_config \<Rightarrow> publish_policy \<Rightarrow> string \<Rightarrow> partition_staged \<Rightarrow> promotion" where
  "promotion_for cfg pol src m =
    \<lparr>pr_source = src, pr_dest = pc_target cfg, pr_expected = ps_rows_processed m, pr_ops = pp_ops pol,
     pr_update_key = pc_update_key cfg, pr_partition = Some (S_str (ps_partition_date m)), pr_pks = pc_pks cfg,
     pr_soft_delete = pc_soft_delete cfg, pr_soft_column = Some (pc_soft_column cfg)\<rparr>"

fun publish_loop ::
  "'d sql_service \<Rightarrow> publish_config \<Rightarrow> publish_policy \<Rightarrow> string \<Rightarrow> string \<Rightarrow> partition_staged list \<Rightarrow> int \<Rightarrow> 'd \<Rightarrow> int res \<times> 'd" where
  "publish_loop sv cfg pol src ts [] total_rows = st_lift (Ok total_rows)"
| "publish_loop sv cfg pol src ts (m # ms) total_rows =
    st_bind (promote sv (promotion_for cfg pol src m) ts) (\<lambda>_.
      publish_loop sv cfg pol src ts ms (total_rows + ps_rows_processed m))"

text \<open>
  The body of \<open>PublishStage._execute\<close>: the number of rows promoted; the outcome is checkpointed by
  \<open>save_stage_outcome\<close> of the manifest, an error included.
\<close>

definition publish_execute ::
  "'d sql_service \<Rightarrow> publish_config \<Rightarrow> string \<Rightarrow> string \<Rightarrow> bool \<Rightarrow> partition_staged list \<Rightarrow> 'd \<Rightarrow> int res \<times> 'd" where
  "publish_execute sv cfg src ts empty_result metrics =
    (if empty_result then st_lift (Ok 0)
     else st_bind (st_lift (get_publish_policy cfg)) (\<lambda>pol. publish_loop sv cfg pol src ts metrics 0))"

text \<open>
  \<open>_execute\<close> with its checkpoints, the failure of a checkpoint included; \<open>describe\<close> gives an exception's
  class name, message and traceback.
\<close>

definition publish_step ::
  "'d sql_service \<Rightarrow> publish_config \<Rightarrow> step_context \<Rightarrow> string \<Rightarrow> string \<Rightarrow> workspace \<Rightarrow> task_manifest \<Rightarrow>
   partition_staged list \<Rightarrow> string \<Rightarrow> (py_error \<Rightarrow> string \<times> string \<times> string) \<Rightarrow> 'd \<Rightarrow> (unit res \<times> workspace) \<times> 'd" where
  "publish_step sv cfg step src ts w m metrics now describe d =
    (let (r, d') = publish_execute sv cfg src ts (m_is_empty_result_set m) metrics d;
         (r', w') = (case r of
            Inr n \<Rightarrow> save_stage_outcome now w m (Some (PublishPayload (step_id step) (pc_target cfg) n))
          | Inl e \<Rightarrow> (Err e, w))
     in case r' of
          Inr _ \<Rightarrow> ((Ok (), w'), d')
        | Inl e \<Rightarrow> (case describe e of (cls, msg, tb) \<Rightarrow>
            ((Err e, snd (save_stage_error now w' step cls msg tb)), d')))"

lemma promotion_for_simps [simp]:
  "pr_source (promotion_for cfg pol src m) = src" "pr_dest (promotion_for cfg pol src m) = pc_target cfg"
  "pr_ops (promotion_for cfg pol src m) = pp_ops pol"
  by (simp_all add: promotion_for_def)

lemma promote_Ok_validates:
  "promote sv p ts d = (Ok (), d') \<Longrightarrow> validate_schema_compatibility sv (pr_source p) (pr_dest p) d = Ok ()"
  by (auto simp: promote_def st_bind_Ok_iff st_lift_def split: if_splits)

lemma promote_Ok_drops:
  "promote sv p ts d = (Ok (), d') \<Longrightarrow> \<exists>d2. svc_delete sv (pr_source p) d2 = (Ok (), d')"
  by (cases rule: promote_phases [of sv p ts d]) auto

text \<open>
  At most one partition is ever published: the first promotion drops the staging table the others are
  to be read from, so with two or more the stage fails, provided a server has no columns to show for a
  table it has dropped and some for the target.
\<close>

theorem second_partition_never_published:
  assumes "\<And>d d' cols. svc_delete sv src d = (Ok (), d') \<Longrightarrow> schema_names sv src d' = Ok cols \<Longrightarrow> cols = []"
    and "\<And>d cols. schema_names sv (pc_target cfg) d = Ok cols \<Longrightarrow> cols \<noteq> []"
    and "2 \<le> length metrics"
  shows "\<exists>e d'. publish_execute sv cfg src ts False metrics d = (Err e, d')"
proof -
  obtain m1 m2 ms where ms: "metrics = m1 # m2 # ms" using assms(3) by (cases metrics; cases "tl metrics") auto
  have False if ok: "publish_execute sv cfg src ts False metrics d = (Ok n, d')" for n d'
  proof -
    obtain pol d1 d2 where pr: "promote sv (promotion_for cfg pol src m1) ts d = (Ok (), d1)"
      "promote sv (promotion_for cfg pol src m2) ts d1 = (Ok (), d2)"
      using ok ms by (auto simp: publish_execute_def st_bind_Ok_iff st_lift_def)
    obtain d0 where "svc_delete sv src d0 = (Ok (), d1)"
      using promote_Ok_drops [OF pr(1)] by auto
    moreover have "validate_schema_compatibility sv src (pc_target cfg) d1 = Ok ()"
      using promote_Ok_validates [OF pr(2)] by simp
    then obtain src_cols tgt_cols where "schema_names sv src d1 = Ok src_cols"
      "schema_names sv (pc_target cfg) d1 = Ok tgt_cols" "set tgt_cols \<subseteq> set src_cols"
      by (auto simp: validate_schema_compatibility_def res_bind_Ok_iff split: if_splits)
    ultimately show False using assms(1) [of d0 d1 src_cols] assms(2) [of d1 tgt_cols] by simp
  qed
  then show ?thesis by (metis obj_sumE prod.exhaust)
qed

text \<open>
  Change data capture and update-insert deltas cannot be published: as soon as there is a partition
  to promote, the stage fails.
\<close>

theorem upserts_never_published:
  assumes "pc_mode cfg = WM_cdc \<or> pc_mode cfg = WM_delta \<and> pc_merge cfg = DM_update_insert"
    and "metrics \<noteq> []"
  shows "\<exists>e d'. publish_execute sv cfg src ts False metrics d = (Err e, d')"
proof (cases "get_publish_policy cfg")
  case (Inl e)
  then show ?thesis by (simp add: publish_execute_def st_lift_def)
next
  case (Inr pol)
  then have "pp_ops pol = [''update'', ''insert'']"
    using assms(1) by (auto simp: get_publish_policy_def split: if_splits option.splits)
  moreover obtain m ms where "metrics = m # ms" using assms(2) by (cases metrics) auto
  ultimately show ?thesis
    using Inr upsert_promotion_fails [of "promotion_for cfg pol src m" sv ts d]
    by (auto simp: publish_execute_def st_bind_def)
qed

text \<open>A server that knows which tables it has dropped.\<close>

definition drop_service :: "string list sql_service" where
  "drop_service = refresh_service\<lparr>sv_db := (sv_db refresh_service)\<lparr>
     db_schema := \<lambda>q d. Ok (1, Some (if q = ''columns of t_stg'' \<and> ''drop table if exists t_stg'' \<in> set d
        then [] else [''id'']))\<rparr>\<rparr>"

definition refresh_config :: publish_config where
  "refresh_config = \<lparr>pc_target = ''t'', pc_mode = WM_full_refresh, pc_merge = DM_delete_insert, pc_pks = [],
     pc_update_key = None, pc_soft_delete = False, pc_soft_column = ''_is_deleted''\<rparr>"

definition two_metrics :: "partition_staged list" where
  "two_metrics = [\<lparr>ps_partition_date = ''d1'', ps_rows_processed = 1\<rparr>, \<lparr>ps_partition_date = ''d2'', ps_rows_processed = 1\<rparr>]"

lemma drop_service_sql:
  "build_sql drop_service (Op_drop_table ''t_stg'') = Ok ''drop table if exists t_stg''"
  "build_sql drop_service (Op_columns ''t_stg'') = Ok ''columns of t_stg''"
  "build_sql drop_service (Op_columns ''t'') = Ok ''columns of t''"
  by code_simp+

theorem second_partition_never_published_witness:
  "(\<exists>e d'. publish_execute drop_service refresh_config ''t_stg'' ''now'' False two_metrics [] = (Err e, d')) \<and>
   (\<exists>d'. publish_execute drop_service refresh_config ''t_stg'' ''now'' False (take 1 two_metrics) [] = (Ok 1, d'))"
proof
  show "\<exists>e d'. publish_execute drop_service refresh_config ''t_stg'' ''now'' False two_metrics [] = (Err e, d')"
  proof (rule second_partition_never_published)
    fix d d' cols
    assume "svc_delete drop_service ''t_stg'' d = (Ok (), d')"
    then have "''drop table if exists t_stg'' \<in> set d'"
      by (auto simp: svc_delete_def svc_command_def drop_service_sql st_bind_Ok_iff st_lift_def)
        (auto simp: drop_service_def refresh_service_def)
    then show "schema_names drop_service ''t_stg'' d' = Ok cols \<Longrightarrow> cols = []"
      by (simp add: schema_names_def get_schema_def drop_service_sql) (simp add: drop_service_def)
  next
    fix d cols
    show "schema_names drop_service (pc_target refresh_config) d = Ok cols \<Longrightarrow> cols \<noteq> []"
      by (simp add: schema_names_def get_schema_def refresh_config_def drop_service_sql)
        (auto simp: drop_service_def)
  qed (simp add: two_metrics_def)
  have "publish_execute drop_service refresh_config ''t_stg'' ''now'' False (take 1 two_metrics) [] = (Ok 1,
      [''truncate table t'', ''insert into t (id) select id from t_stg'', ''drop table if exists t_stg''])"
    by code_simp
  then show "\<exists>d'. publish_execute drop_service refresh_config ''t_stg'' ''now'' False (take 1 two_metrics) [] = (Ok 1, d')"
    by blast
qed

theorem upserts_never_published_witness:
  "\<exists>e d'. publish_execute drop_service (refresh_config\<lparr>pc_mode := WM_cdc, pc_pks := [''id'']\<rparr>) ''t_stg'' ''now'' False
     two_metrics [] = (Err e, d')"
  by (rule upserts_never_published) (simp_all add: two_metrics_def)

end
