(* ===== verification/FileStore.thy ===== *)
theory FileStore
  imports Loading
begin

text \<open>
  The file services (\<open>services/file.py\<close>) and the part of the storage client they rest on
  (\<open>libs/file/clients/base.py\<close>, \<open>libs/file/utils.py\<close>, \<open>libs/file/skills/archive.py\<close>): path texts, archive detection,
  file selection, the distribution of files over workers and batches, staging and promotion. The file system
  itself (fsspec) is a record of operations on an abstract state.
\<close>


section \<open>Path texts\<close>

text \<open>The components of \<open>Path(s)\<close>: empty ones and dots disappear.\<close>

definition path_parts :: "string \<Rightarrow> string list" where
  "path_parts s = filter (\<lambda>p. p \<noteq> [] \<and> p \<noteq> ''.'') (py_split CHR ''/'' s)"

definition path_name :: "string \<Rightarrow> string" where
  "path_name s = (if path_parts s = [] then [] else last (path_parts s))"

definition path_parent :: "string \<Rightarrow> string" where
  "path_parent s =
    (let up = py_join ''/'' (butlast (path_parts s)) in
     if prefix ''/'' s then CHR ''/'' # up else if up = [] then ''.'' else up)"

text \<open>\<open>Path(s).suffix\<close>: from the last dot of the name, unless that is its first or its last character.\<close>

definition path_suffix :: "string \<Rightarrow> string" where
  "path_suffix s =
    (let r = rev (path_name s);
         ext = rev (takeWhile (\<lambda>c. c \<noteq> CHR ''.'') r);
         stem = drop (Suc (length ext)) r
     in if CHR ''.'' \<in> set r \<and> ext \<noteq> [] \<and> stem \<noteq> [] then CHR ''.'' # ext else [])"

text \<open>\<open>s.replace(old, "")\<close> and \<open>s.split(sep)\<close> for longer patterns.\<close>

function cut_sub :: "string \<Rightarrow> string \<Rightarrow> string list" where
  "cut_sub sep [] = [[]]"
| "cut_sub sep (c # s) =
    (if sep \<noteq> [] \<and> prefix sep (c # s) then [] # cut_sub sep (drop (length sep) (c # s))
     else (case cut_sub sep s of [] \<Rightarrow> [[c]] | w # ws \<Rightarrow> (c # w) # ws))"
  by pat_completeness auto
termination by (relation "measure (length \<circ> snd)") (auto simp: length_greater_0_conv [symmetric] simp del: length_greater_0_conv)

definition drop_sub :: "string \<Rightarrow> string \<Rightarrow> string" where
  "drop_sub old s = concat (cut_sub old s)"

lemma cut_sub_ne [simp]: "cut_sub sep s \<noteq> []"
  by (cases s) (auto split: list.split)

lemma cut_sub_join: "sep \<noteq> [] \<Longrightarrow> py_join sep (cut_sub sep s) = s"
proof (induction sep s rule: cut_sub.induct)
  case (2 sep c s)
  show ?case
  proof (cases "prefix sep (c # s)")
    case True
    then show ?thesis using 2(1,3) by (auto simp: py_join_Cons prefix_def)
  next
    case False
    obtain w ws where "cut_sub sep s = w # ws" using cut_sub_ne [of sep s] by (cases "cut_sub sep s") auto
    then show ?thesis using 2(2) [of] 2(3) False by (simp add: py_join_Cons_char)
  qed
qed simp

definition strip_protocol :: "string \<Rightarrow> string" where
  "strip_protocol s = drop_sub ''archive://'' (drop_sub ''zip://'' s)"


subsection \<open>Archives\<close>

definition ARCHIVE_EXTS :: "string list" where
  "ARCHIVE_EXTS = [''.tar'', ''.tar.gz'', ''.tgz'', ''.tar.bz2'', ''.tar.xz'']"

definition is_archive :: "string \<Rightarrow> bool" where
  "is_archive path =
    (let p = str_lower path in list_ex (\<lambda>e. ends_with e p) ARCHIVE_EXTS \<or> has_sub ''archive://'' p)"

definition is_zip :: "string \<Rightarrow> bool" where
  "is_zip path = (let p = str_lower path in ends_with ''.zip'' p \<or> has_sub ''zip://'' p)"

definition is_supported_archive :: "string \<Rightarrow> bool" where
  "is_supported_archive path \<longleftrightarrow> is_archive path \<or> is_zip path"

text \<open>
  \<open>get_file_ext\<close>; \<open>is_dir\<close> and \<open>exists\<close> ask the file system about a path and a child of it. Their errors fall
  back to the suffix, which is what remains without a directory.
\<close>

definition get_file_ext :: "(string \<Rightarrow> bool) \<Rightarrow> (string \<Rightarrow> string \<Rightarrow> bool) \<Rightarrow> string \<Rightarrow> string" where
  "get_file_ext is_dir has_child file_path =
    (let bare = strip_protocol file_path;
         inner = (if has_sub ''!!'' bare then last (cut_sub ''!!'' bare) else bare);
         path = rstrip_char CHR ''*'' inner
     in if is_dir path \<and> has_child path ''_delta_log'' then ''delta''
        else if has_sub ''metadata.json'' (path_name path) \<or> is_dir path \<and> has_child path ''metadata'' then ''iceberg''
        else str_lower (dropWhile (\<lambda>c. c = CHR ''.'') (path_suffix path)))"


subsection \<open>Choosing files\<close>

text \<open>
  \<open>fnmatch\<close>: a star for any text, a question mark for any character, a bracketed set for one of it; a bracket
  that is not closed stands for itself.
\<close>

fun in_ranges :: "string \<Rightarrow> char \<Rightarrow> bool" where
  "in_ranges (a # b # d # rest) c =
    (if b = CHR ''-''
     then (of_char a :: nat) \<le> of_char c \<and> (of_char c :: nat) \<le> of_char d \<or> in_ranges rest c
     else a = c \<or> in_ranges (b # d # rest) c)"
| "in_ranges s c = (c \<in> set s)"

text \<open>The part after an opening bracket: is it negated, its characters, and what follows the closing one.\<close>

definition bracket :: "string \<Rightarrow> (bool \<times> string \<times> string) option" where
  "bracket p =
    (let neg = prefix ''!'' p;
         body = (if neg then tl p else p);
         lead = (if prefix '']'' body then '']'' else []);
         rest = drop (length lead) body
     in if CHR '']'' \<in> set rest
        then Some (neg, lead @ takeWhile (\<lambda>c. c \<noteq> CHR '']'') rest, tl (dropWhile (\<lambda>c. c \<noteq> CHR '']'') rest))
        else None)"

lemma bracket_shorter: "bracket p = Some (neg, cs, rest) \<Longrightarrow> length rest < length p"
proof -
  assume b: "bracket p = Some (neg, cs, rest)"
  let ?body = "if prefix ''!'' p then tl p else p"
  let ?r = "drop (length (if prefix '']'' ?body then '']'' else [])) ?body"
  have r: "CHR '']'' \<in> set ?r" "rest = tl (dropWhile (\<lambda>c. c \<noteq> CHR '']'') ?r)"
    using b by (auto simp: bracket_def Let_def split: if_splits)
  have "dropWhile (\<lambda>c. c \<noteq> CHR '']'') ?r \<noteq> []" using r(1) by (auto simp: dropWhile_eq_Nil_conv)
  then have "length rest < length (dropWhile (\<lambda>c. c \<noteq> CHR '']'') ?r)" using r(2) by simp
  also have "\<dots> \<le> length ?r" by (rule length_dropWhile_le)
  also have "\<dots> \<le> length p" by simp
  finally show ?thesis .
qed

function glob_match :: "string \<Rightarrow> string \<Rightarrow> bool" where
  "glob_match [] s = (s = [])"
| "glob_match (p # ps) s =
    (if p = CHR ''*'' then glob_match ps s \<or> (if s = [] then False else glob_match (p # ps) (tl s))
     else if s = [] then False
     else if p = CHR ''?'' then glob_match ps (tl s)
     else (case (if p = CHR ''['' then bracket ps else None) of
         Some (neg, cs, rest) \<Rightarrow> in_ranges cs (hd s) \<noteq> neg \<and> glob_match rest (tl s)
       | None \<Rightarrow> p = hd s \<and> glob_match ps (tl s)))"
  by pat_completeness auto
termination
  by (relation "measure (\<lambda>(p, s). length p + length s)")
    (auto dest!: bracket_shorter split: if_splits simp: length_greater_0_conv [symmetric] simp del: length_greater_0_conv)

declare glob_match.simps [simp del] cut_sub.simps [simp del]

lemma glob_match_star: "glob_match (CHR ''*'' # ps) s \<longleftrightarrow> (\<exists>u v. s = u @ v \<and> glob_match ps v)"
proof (induction s)
  case Nil
  then show ?case by (subst glob_match.simps) simp
next
  case (Cons c s)
  have "glob_match (CHR ''*'' # ps) (c # s) \<longleftrightarrow> glob_match ps (c # s) \<or> (\<exists>u v. s = u @ v \<and> glob_match ps v)"
    using Cons by (subst glob_match.simps) simp
  also have "\<dots> \<longleftrightarrow> (\<exists>u v. c # s = u @ v \<and> glob_match ps v)"
    by (metis append_Cons append_Nil append_eq_Cons_conv)
  finally show ?case .
qed

definition plain_char :: "char \<Rightarrow> bool" where
  "plain_char c \<longleftrightarrow> c \<notin> {CHR ''*'', CHR ''?'', CHR ''[''}"

lemma glob_match_plain: "list_all plain_char p \<Longrightarrow> glob_match (p @ r) s \<longleftrightarrow> (\<exists>v. s = p @ v \<and> glob_match r v)"
proof (induction p arbitrary: s)
  case (Cons c p)
  then have c: "c \<noteq> CHR ''*''" "c \<noteq> CHR ''?''" "c \<noteq> CHR ''[''" by (simp_all add: plain_char_def)
  show ?case using Cons.IH [of "tl s"] Cons.prems c
    by (cases s) (simp_all add: glob_match.simps(2), metis)
qed simp

lemma has_sub_iff: "has_sub p s \<longleftrightarrow> (\<exists>u v. s = u @ p @ v)"
proof (induction s)
  case (Cons c s)
  have "prefix p (c # s) \<longleftrightarrow> (\<exists>v. c # s = [] @ p @ v)" by (simp add: prefix_def)
  then show ?case using Cons by (simp add: append_eq_Cons_conv) (metis append_Cons append_Nil append_eq_Cons_conv)
qed simp

text \<open>\<open>filter_files\<close>; \<open>exts\<close> are the registered format extensions.\<close>

definition filter_files :: "string list \<Rightarrow> string list \<Rightarrow> string option \<Rightarrow> string list res" where
  "filter_files exts all_files pattern =
    (let chosen = (if filled pattern then filter (glob_match (CHR ''*'' # the pattern @ ''*'')) all_files
          else filter (\<lambda>f. list_ex (\<lambda>e. ends_with (CHR ''.'' # e) (str_lower f)) exts) all_files)
     in if chosen = [] then Err FileNotFoundError else Ok chosen)"

text \<open>
  A file pattern without wild cards selects by content of the whole path: exactly the files whose path has
  it as a substring, in their order, directories included.
\<close>

theorem plain_pattern_is_substring:
  assumes "p \<noteq> []" "list_all plain_char p"
  shows "filter_files exts files (Some p) =
    (let chosen = filter (has_sub p) files in if chosen = [] then Err FileNotFoundError else Ok chosen)"
proof -
  have "glob_match (CHR ''*'' # p @ ''*'') f \<longleftrightarrow> has_sub p f" for f
    using assms(2) by (simp add: glob_match_star glob_match_plain has_sub_iff glob_match.simps(1)) metis
  then have "glob_match (CHR ''*'' # p @ ''*'') = has_sub p" by (intro ext)
  then show ?thesis using assms(1) by (simp add: filter_files_def filled_def)
qed

theorem plain_pattern_is_substring_witness:
  "filter_files [''csv''] [''/orders/a.csv'', ''/in/b.csv''] (Some ''orders'') = Ok [''/orders/a.csv'']"
proof -
  have "list_all plain_char ''orders''" by (simp add: plain_char_def)
  moreover have "filter (has_sub ''orders'') [''/orders/a.csv'', ''/in/b.csv''] = [''/orders/a.csv'']" by code_simp
  ultimately show ?thesis using plain_pattern_is_substring [of "''orders''"] by simp
qed


section \<open>Batches by size\<close>

text \<open>The packing loop of \<open>split_by_size\<close> over files sorted by size, largest first.\<close>

fun pack :: "int \<Rightarrow> (string \<times> int) list \<Rightarrow> string list list \<Rightarrow> string list \<Rightarrow> int \<Rightarrow> string list list" where
  "pack limit [] batches batch held = (if batch = [] then batches else batches @ [batch])"
| "pack limit ((f, s) # rest) batches batch held =
    (if limit < s \<and> batch = [] then pack limit rest (batches @ [[f]]) batch held
     else if limit < held + s \<and> batch \<noteq> [] then pack limit rest (batches @ [batch]) [f] s
     else pack limit rest batches (batch @ [f]) (held + s))"

definition largest_first :: "(string \<times> int) list \<Rightarrow> (string \<times> int) list" where
  "largest_first = sort_key (\<lambda>x. - snd x)"

text \<open>\<open>match\<close> is \<open>Path(f).match(pattern)\<close>, \<open>listing\<close> and \<open>size_of\<close> the client's.\<close>

definition taken :: "(string \<Rightarrow> int) \<Rightarrow> (string \<Rightarrow> string \<Rightarrow> bool) \<Rightarrow> string option \<Rightarrow> string \<Rightarrow> bool" where
  "taken size_of match pattern f = (if filled pattern then match f (the pattern) \<and> 0 < size_of f else True)"

definition split_by_size ::
  "(string \<Rightarrow> string list) \<Rightarrow> (string \<Rightarrow> int) \<Rightarrow> (string \<Rightarrow> string \<Rightarrow> bool) \<Rightarrow> string \<Rightarrow> string option \<Rightarrow> int \<Rightarrow> string list list" where
  "split_by_size listing size_of match path pattern limit =
    pack limit
      (largest_first (map (\<lambda>f. (f, size_of f))
        (filter (taken size_of match pattern) (listing path))))
      [] [] 0"

lemma largest_first_mset [simp]: "mset (largest_first xs) = mset xs"
  by (simp add: largest_first_def)

lemma largest_first_sorted: "sorted_wrt (\<lambda>x y. snd y \<le> snd x) (largest_first xs)"
proof -
  have "sorted (map (\<lambda>x. - snd x) (largest_first xs))" by (simp add: largest_first_def)
  then show ?thesis by (simp add: sorted_map)
qed

lemma pack_files: "mset (concat (pack limit xs batches batch held)) = mset (concat batches @ batch @ map fst xs)"
  by (induction limit xs batches batch held rule: pack.induct) auto

lemma pack_nonempty: "[] \<notin> set batches \<Longrightarrow> [] \<notin> set (pack limit xs batches batch held)"
  by (induction limit xs batches batch held rule: pack.induct) auto

definition fits :: "(string \<Rightarrow> int) \<Rightarrow> int \<Rightarrow> string list \<Rightarrow> bool" where
  "fits sz limit b \<longleftrightarrow> sum_list (map sz b) \<le> limit \<or> length b = 1"

lemma pack_fits:
  assumes "sorted_wrt (\<lambda>x y. snd y \<le> snd x) xs" "list_all (\<lambda>(f, s). sz f = s) xs"
    and "list_all (fits sz limit) batches" "batch \<noteq> [] \<longrightarrow> held \<le> limit \<and> list_all (\<lambda>x. snd x \<le> limit) xs"
    and "held = sum_list (map sz batch)"
  shows "list_all (fits sz limit) (pack limit xs batches batch held)"
  using assms
proof (induction limit xs batches batch held rule: pack.induct)
  case (1 limit batches batch held)
  then show ?case by (simp add: fits_def)
next
  case (2 limit f s rest batches batch held)
  have sorted: "sorted_wrt (\<lambda>x y. snd y \<le> snd x) rest" "\<forall>x\<in>set rest. snd x \<le> s" using 2(4) by auto
  have sz: "list_all (\<lambda>(f, s). sz f = s) rest" "sz f = s" using 2(5) by auto
  consider (alone) "limit < s" "batch = []" | (full) "\<not> (limit < s \<and> batch = [])" "limit < held + s" "batch \<noteq> []"
    | (add) "\<not> (limit < s \<and> batch = [])" "\<not> (limit < held + s \<and> batch \<noteq> [])" by blast
  then show ?case
  proof cases
    case alone
    have "list_all (fits sz limit) (pack limit rest (batches @ [[f]]) batch held)"
      using alone 2(6,8) sorted(1) sz by (intro 2(1)) (auto simp: fits_def)
    then show ?thesis using alone by simp
  next
    case full
    then have le: "s \<le> limit" "list_all (\<lambda>x. snd x \<le> limit) rest" using 2(7) by auto
    have "list_all (fits sz limit) (pack limit rest (batches @ [batch]) [f] s)"
      using full 2(6,7,8) sorted(1) sz le by (intro 2(2)) (auto simp: fits_def)
    then show ?thesis using full by auto
  next
    case add
    have le: "s \<le> limit" "held + s \<le> limit" using add 2(7,8) by (auto simp: not_less)
    have "list_all (fits sz limit) (pack limit rest batches (batch @ [f]) (held + s))"
      using add 2(6,8) sorted sz le by (intro 2(3)) (auto simp: list_all_iff)
    then show ?thesis using add by auto
  qed
qed

text \<open>
  Splitting by size neither loses nor repeats a file, makes no empty batch, and keeps every batch within
  the limit unless it is one file that alone exceeds it.
\<close>

theorem split_by_size_batches:
  "mset (concat (split_by_size listing size_of match path pattern limit)) =
     mset (filter (taken size_of match pattern) (listing path)) \<and>
   list_all (\<lambda>b. b \<noteq> [] \<and> (sum_list (map size_of b) \<le> limit \<or> length b = 1))
     (split_by_size listing size_of match path pattern limit)"
proof -
  let ?fs = "filter (taken size_of match pattern) (listing path)"
  let ?xs = "largest_first (map (\<lambda>f. (f, size_of f)) ?fs)"
  have set: "set ?xs = (\<lambda>f. (f, size_of f)) ` set ?fs"
    by (metis largest_first_mset set_map set_mset_mset)
  have "list_all (fits size_of limit) (pack limit ?xs [] [] 0)"
    by (rule pack_fits [OF largest_first_sorted]) (auto simp: list_all_iff set)
  moreover have "[] \<notin> set (pack limit ?xs [] [] 0)" by (rule pack_nonempty) simp
  moreover have "mset (map fst ?xs) = mset ?fs"
    by (metis (no_types, lifting) comp_apply fst_conv largest_first_mset list.map_ident_strong map_map mset_map)
  ultimately show ?thesis
    unfolding split_by_size_def by (auto simp: pack_files list_all_iff fits_def)
qed



section \<open>Balancing files over workers\<close>

record bucket =
  bk_files :: "string list"
  bk_load :: int

text \<open>\<open>min(buckets, key=load)\<close>: the first bucket of least load.\<close>

fun lightest :: "bucket list \<Rightarrow> nat" where
  "lightest (b # c # bs) = (let j = lightest (c # bs) in if bk_load b \<le> bk_load ((c # bs) ! j) then 0 else Suc j)"
| "lightest bs = 0"

fun assign_files :: "(string \<times> int) list \<Rightarrow> bucket list \<Rightarrow> bucket list" where
  "assign_files [] bs = bs"
| "assign_files ((path, s) # rest) bs =
    (let i = lightest bs in
     assign_files rest (bs[i := \<lparr>bk_files = bk_files (bs ! i) @ [path], bk_load = bk_load (bs ! i) + s\<rparr>]))"

definition balance_buckets :: "(string \<times> int) list \<Rightarrow> int \<Rightarrow> bucket list" where
  "balance_buckets sized num_workers =
    assign_files (largest_first sized) (replicate (nat num_workers) \<lparr>bk_files = [], bk_load = 0\<rparr>)"

definition balance_workload :: "(string \<Rightarrow> int res) \<Rightarrow> string list \<Rightarrow> int \<Rightarrow> string list list res" where
  "balance_workload size_of files num_workers =
    (if files = [] \<or> num_workers \<le> 0 then Ok []
     else res_bind (res_map (\<lambda>f. res_bind (size_of f) (\<lambda>n. Ok (f, n))) files) (\<lambda>sized.
       Ok (filter (\<lambda>fs. fs \<noteq> []) (map bk_files (balance_buckets sized num_workers)))))"

lemma lightest_least: "bs \<noteq> [] \<Longrightarrow> lightest bs < length bs \<and> (\<forall>b\<in>set bs. bk_load (bs ! lightest bs) \<le> bk_load b)"
  by (induction bs rule: lightest.induct) (auto simp: Let_def)

lemma sum_list_least: "(\<forall>x\<in>set xs. m \<le> x) \<Longrightarrow> int (length xs) * m \<le> sum_list xs" for m :: int
proof (induction xs)
  case (Cons x xs)
  then have "int (length xs) * m \<le> sum_list xs" "m \<le> x" by simp_all
  then show ?case by (simp add: distrib_right)
qed simp

lemma assign_files_length [simp]: "length (assign_files xs bs) = length bs"
  by (induction xs bs rule: assign_files.induct) (simp_all add: Let_def)

lemma concat_update:
  "i < length xss \<Longrightarrow> mset (concat (xss[i := xss ! i @ [x]])) = add_mset x (mset (concat xss))"
  by (induction xss arbitrary: i) (auto split: nat.split)

lemma sum_update: "i < length xs \<Longrightarrow> sum_list (xs[i := xs ! i + d]) = sum_list xs + d" for d :: int
  by (induction xs arbitrary: i) (auto split: nat.split)

lemma assign_files_mset:
  "bs \<noteq> [] \<Longrightarrow> mset (concat (map bk_files (assign_files xs bs))) =
     mset (concat (map bk_files bs)) + mset (map fst xs)"
proof (induction xs bs rule: assign_files.induct)
  case (2 path s rest bs)
  let ?i = "lightest bs"
  have i: "?i < length bs" using lightest_least [OF 2(2)] by simp
  then have "map bk_files (bs[?i := \<lparr>bk_files = bk_files (bs ! ?i) @ [path], bk_load = bk_load (bs ! ?i) + s\<rparr>]) =
      (map bk_files bs)[?i := map bk_files bs ! ?i @ [path]]" by (simp add: map_update)
  then show ?case using 2 i concat_update [of ?i "map bk_files bs" path] by (simp add: Let_def)
qed simp

text \<open>A load never exceeds the mean of everything assigned by more than one file.\<close>

definition balanced :: "int \<Rightarrow> bucket list \<Rightarrow> bool" where
  "balanced m bs \<longleftrightarrow>
     (\<forall>b\<in>set bs. int (length bs) * bk_load b \<le> sum_list (map bk_load bs) + (int (length bs) - 1) * m)"

lemma assign_files_balanced:
  assumes "bs \<noteq> []" "balanced m bs" "\<forall>x\<in>set xs. 0 \<le> snd x \<and> snd x \<le> m"
  shows "balanced m (assign_files xs bs) \<and>
    sum_list (map bk_load (assign_files xs bs)) = sum_list (map bk_load bs) + sum_list (map snd xs)"
  using assms
proof (induction xs bs rule: assign_files.induct)
  case (2 path s rest bs)
  let ?i = "lightest bs"
  let ?new = "\<lparr>bk_files = bk_files (bs ! ?i) @ [path], bk_load = bk_load (bs ! ?i) + s\<rparr>"
  let ?n = "int (length bs)"
  have i: "?i < length bs" and least: "\<forall>b\<in>set bs. bk_load (bs ! ?i) \<le> bk_load b"
    using lightest_least [OF 2(2)] by auto
  have s: "0 \<le> s" "s \<le> m" using 2(4) by auto
  have "map bk_load (bs[?i := ?new]) = (map bk_load bs)[?i := map bk_load bs ! ?i + s]" using i by (simp add: map_update)
  then have total: "sum_list (map bk_load (bs[?i := ?new])) = sum_list (map bk_load bs) + s"
    using i sum_update [of ?i "map bk_load bs" s] by simp
  have mean: "?n * bk_load (bs ! ?i) \<le> sum_list (map bk_load bs)"
    using sum_list_least [of "map bk_load bs" "bk_load (bs ! ?i)"] least by simp
  have "(?n - 1) * s \<le> (?n - 1) * m" using s 2(2) by (intro mult_left_mono) (auto simp: Suc_le_eq)
  then have new: "?n * bk_load ?new \<le> sum_list (map bk_load bs) + s + (?n - 1) * m"
    using mean by (simp add: algebra_simps)
  have "balanced m (bs[?i := ?new])"
    unfolding balanced_def total
  proof
    fix b assume "b \<in> set (bs[?i := ?new])"
    then have "b = ?new \<or> b \<in> set bs" by (meson insertE set_update_subset_insert subsetD)
    then show "int (length (bs[?i := ?new])) * bk_load b \<le>
        sum_list (map bk_load bs) + s + (int (length (bs[?i := ?new])) - 1) * m"
      using new 2(3) s by (fastforce simp: balanced_def)
  qed
  then show ?case using 2(1) [of ?i] 2(2,4) total by (simp add: Let_def)
qed simp

definition bucket_true :: "(string \<Rightarrow> int) \<Rightarrow> bucket \<Rightarrow> bool" where
  "bucket_true sz b \<longleftrightarrow> bk_load b = sum_list (map sz (bk_files b))"

lemma assign_files_true:
  "bs \<noteq> [] \<Longrightarrow> \<forall>b\<in>set bs. bucket_true sz b \<Longrightarrow> \<forall>x\<in>set xs. sz (fst x) = snd x \<Longrightarrow>
   \<forall>b\<in>set (assign_files xs bs). bucket_true sz b"
proof (induction xs bs rule: assign_files.induct)
  case (2 path s rest bs)
  let ?i = "lightest bs"
  let ?new = "\<lparr>bk_files = bk_files (bs ! ?i) @ [path], bk_load = bk_load (bs ! ?i) + s\<rparr>"
  have "?i < length bs" using lightest_least [OF 2(2)] by simp
  then have "bucket_true sz (bs ! ?i)" using 2(3) by simp
  then have "bucket_true sz ?new" using 2(4) by (simp add: bucket_true_def)
  then have "\<forall>b\<in>set (bs[?i := ?new]). bucket_true sz b"
    using 2(3) set_update_subset_insert [of bs ?i ?new] by blast
  then show ?case using 2(1) [of ?i] 2(2,4) by (simp add: Let_def)
qed simp

lemma res_map_sized:
  "res_map (\<lambda>f. res_bind (g f) (\<lambda>n. Ok (f, n))) files = Ok sized \<Longrightarrow>
   map fst sized = files \<and> (\<forall>x\<in>set sized. g (fst x) = Ok (snd x))"
  by (induction files arbitrary: sized) (fastforce simp: res_bind_Ok_iff)+

lemma concat_nonempty: "concat (filter (\<lambda>fs. fs \<noteq> []) xss) = concat xss"
  by (induction xss) auto

lemma balance_workload_Ok:
  assumes "balance_workload size_of files w = Ok units" "files \<noteq> []" "0 < w"
  obtains sized where "map fst sized = files" "\<forall>x\<in>set sized. size_of (fst x) = Ok (snd x)"
    "units = filter (\<lambda>fs. fs \<noteq> []) (map bk_files (balance_buckets sized w))"
    "mset (concat units) = mset files" "length units \<le> nat w"
proof -
  obtain sized where sized: "res_map (\<lambda>f. res_bind (size_of f) (\<lambda>n. Ok (f, n))) files = Ok sized"
    and units: "units = filter (\<lambda>fs. fs \<noteq> []) (map bk_files (balance_buckets sized w))"
    using assms by (auto simp: balance_workload_def res_bind_Ok_iff)
  have fs: "map fst sized = files" "\<forall>x\<in>set sized. size_of (fst x) = Ok (snd x)"
    using res_map_sized [OF sized] by auto
  have "mset (map fst (largest_first sized)) = mset files" using fs(1) by (metis largest_first_mset mset_map)
  then have "mset (concat units) = mset files"
    unfolding units concat_nonempty balance_buckets_def using assms(3) by (subst assign_files_mset) simp_all
  moreover have "length units \<le> nat w"
    unfolding units by (rule order_trans [OF length_filter_le]) (simp add: balance_buckets_def)
  ultimately show ?thesis using that fs units by blast
qed

definition unit_load :: "(string \<Rightarrow> int res) \<Rightarrow> string list \<Rightarrow> int" where
  "unit_load size_of fs = sum_list (map (\<lambda>f. projr (size_of f)) fs)"

text \<open>
  C26. The greedy distribution hands every file to exactly one worker, gives no worker an empty list, and is
  fair: no load is above the mean by more than one largest file.
\<close>

theorem balance_workload_fair:
  assumes "balance_workload size_of files w = Ok units" "files \<noteq> []" "0 < w"
    and "\<forall>f\<in>set files. \<forall>n. size_of f = Ok n \<longrightarrow> 0 \<le> n \<and> n \<le> m"
  shows "mset (concat units) = mset files \<and> [] \<notin> set units \<and> length units \<le> nat w \<and>
    (\<forall>u\<in>set units. w * unit_load size_of u \<le> unit_load size_of files + (w - 1) * m)"
proof -
  obtain sized where fs: "map fst sized = files" "\<forall>x\<in>set sized. size_of (fst x) = Ok (snd x)"
    and units: "units = filter (\<lambda>fs. fs \<noteq> []) (map bk_files (balance_buckets sized w))"
    and shape: "mset (concat units) = mset files" "length units \<le> nat w"
    by (rule balance_workload_Ok [OF assms(1-3)])
  let ?empty = "replicate (nat w) \<lparr>bk_files = [], bk_load = 0\<rparr>"
  let ?bs = "balance_buckets sized w"
  let ?sz = "\<lambda>f. projr (size_of f)"
  have set: "set (largest_first sized) = set sized" by (metis largest_first_mset set_mset_mset)
  have ne: "?empty \<noteq> []" using assms(3) by simp
  have range: "\<forall>x\<in>set (largest_first sized). 0 \<le> snd x \<and> snd x \<le> m"
    unfolding set using fs assms(4) by fastforce
  have zero: "sum_list (map bk_load ?empty) = 0" "concat (map bk_files ?empty) = []" by (simp_all add: sum_list_replicate)
  have "m \<ge> 0" using assms(2) fs range unfolding set by (cases sized) auto
  then have "balanced m ?empty" using assms(3) by (auto simp: balanced_def sum_list_replicate)
  then have bal: "balanced m ?bs" "sum_list (map bk_load ?bs) = sum_list (map snd (largest_first sized))"
    using assign_files_balanced [OF ne _ range] zero by (simp_all add: balance_buckets_def)
  have true: "\<forall>b\<in>set ?bs. bucket_true ?sz b"
    unfolding balance_buckets_def using ne fs(2) by (intro assign_files_true) (auto simp: bucket_true_def set)
  have "sum_list (map snd (largest_first sized)) = sum_list (map snd sized)"
    by (metis largest_first_mset mset_map sum_mset_sum_list)
  also have "map snd sized = map ?sz (map fst sized)" using fs(2) by simp
  also note fs(1)
  finally have total: "sum_list (map bk_load ?bs) = unit_load size_of files" by (simp add: bal(2) unit_load_def)
  have "w * unit_load size_of u \<le> unit_load size_of files + (w - 1) * m" if "u \<in> set units" for u
  proof -
    obtain b where b: "b \<in> set ?bs" "u = bk_files b" using \<open>u \<in> set units\<close> by (auto simp: units)
    have "int (length ?bs) = w" using assms(3) by (simp add: balance_buckets_def)
    then have "w * bk_load b \<le> unit_load size_of files + (w - 1) * m"
      using bal(1) b(1) total by (simp add: balanced_def)
    moreover have "bk_load b = unit_load size_of u" using true b by (simp add: bucket_true_def unit_load_def)
    ultimately show ?thesis by simp
  qed
  then show ?thesis using shape by (auto simp: units)
qed

definition four_sizes :: "string \<Rightarrow> int res" where
  "four_sizes f = (if f = ''a'' then Ok 9 else if f = ''b'' then Ok 5 else if f = ''c'' then Ok 4 else Ok 3)"

theorem balance_workload_fair_witness:
  "balance_workload four_sizes [''d'', ''a'', ''c'', ''b''] 2 = Ok [[''a'', ''d''], [''b'', ''c'']] \<and>
   2 * unit_load four_sizes [''a'', ''d''] \<le> 21 + (2 - 1) * 9 \<and> 2 * unit_load four_sizes [''b'', ''c''] \<le> 21 + (2 - 1) * 9"
proof -
  have r: "balance_workload four_sizes [''d'', ''a'', ''c'', ''b''] 2 = Ok [[''a'', ''d''], [''b'', ''c'']]" by code_simp
  have l: "unit_load four_sizes [''d'', ''a'', ''c'', ''b''] = 21" by code_simp
  have "\<forall>u\<in>set [[''a'', ''d''], [''b'', ''c'']]. 2 * unit_load four_sizes u \<le> unit_load four_sizes [''d'', ''a'', ''c'', ''b''] + (2 - 1) * 9"
    using balance_workload_fair [OF r, of 9] by (auto simp: four_sizes_def split: if_splits)
  then show ?thesis unfolding l using r by simp
qed


section \<open>The storage client\<close>

text \<open>
  The operations of the file system behind a client, on its state \<open>'d\<close>. \<open>fc_info\<close> gives the text of the
  modification time and the size, \<open>fc_members\<close> the files of an archive with their sizes.
\<close>

record 'd file_client =
  fc_url :: string
  fc_resolve :: "string \<Rightarrow> string"
  fc_find :: "string \<Rightarrow> 'd \<Rightarrow> string list res"
  fc_isfile :: "string \<Rightarrow> 'd \<Rightarrow> bool"
  fc_exists :: "string \<Rightarrow> 'd \<Rightarrow> bool"
  fc_info :: "string \<Rightarrow> 'd \<Rightarrow> (string \<times> int) res"
  fc_size :: "string \<Rightarrow> 'd \<Rightarrow> int res"
  fc_members :: "string \<Rightarrow> 'd \<Rightarrow> (string \<times> int) list res"
  fc_rm :: "string \<Rightarrow> 'd \<Rightarrow> unit res \<times> 'd"
  fc_move :: "string \<Rightarrow> string \<Rightarrow> 'd \<Rightarrow> unit res \<times> 'd"
  fc_copy :: "string \<Rightarrow> string \<Rightarrow> bool \<Rightarrow> 'd \<Rightarrow> unit res \<times> 'd"
  fc_get :: "string \<Rightarrow> string \<Rightarrow> bool \<Rightarrow> 'd \<Rightarrow> unit res \<times> 'd"
  fc_put :: "string \<Rightarrow> string \<Rightarrow> bool \<Rightarrow> 'd \<Rightarrow> unit res \<times> 'd"
  fc_copytree :: "string \<Rightarrow> string \<Rightarrow> 'd \<Rightarrow> unit res \<times> 'd"
  fc_copy_file :: "string \<Rightarrow> string \<Rightarrow> 'd \<Rightarrow> unit res \<times> 'd"

text \<open>\<open>get_client\<close>: the registry key of a URL.\<close>

definition client_scheme :: "string \<Rightarrow> string" where
  "client_scheme url =
    (if has_sub ''://'' url
     then let scheme = str_lower (hd (cut_sub ''://'' url)) in
          if scheme \<in> {''abfs'', ''az''} then ''azure'' else scheme
     else ''local'')"

definition client_exists :: "'d file_client \<Rightarrow> string \<Rightarrow> 'd \<Rightarrow> bool" where
  "client_exists fc path d = fc_exists fc (fc_resolve fc path) d"

definition client_rm :: "'d file_client \<Rightarrow> string \<Rightarrow> 'd \<Rightarrow> unit res \<times> 'd" where
  "client_rm fc path = fc_rm fc (fc_resolve fc path)"

definition client_mv :: "'d file_client \<Rightarrow> string \<Rightarrow> string \<Rightarrow> 'd \<Rightarrow> unit res \<times> 'd" where
  "client_mv fc src dst = fc_move fc (fc_resolve fc src) (fc_resolve fc dst)"

text \<open>A transfer through a fresh local directory \<open>tmp\<close>, which is removed in every case.\<close>

definition transfer_via_local ::
  "'d file_client \<Rightarrow> string \<Rightarrow> string \<Rightarrow> string \<Rightarrow> bool \<Rightarrow> 'd \<Rightarrow> unit res \<times> 'd" where
  "transfer_via_local fc tmp src dst recursive d =
    (let (r, d') = st_bind (fc_get fc src tmp recursive) (\<lambda>_. fc_put fc tmp dst recursive) d
     in (r, snd (fc_rm fc tmp d')))"

definition client_cp :: "'d file_client \<Rightarrow> string \<Rightarrow> string \<Rightarrow> string \<Rightarrow> bool \<Rightarrow> 'd \<Rightarrow> unit res \<times> 'd" where
  "client_cp fc tmp src dst recursive =
    (if has_sub ''://'' src \<and> has_sub ''://'' dst then
       st_catch (fc_copy fc src dst recursive) (\<lambda>e.
         if e = NotImplementedError then transfer_via_local fc tmp src dst recursive else st_lift (Err e))
     else if has_sub ''://'' src then fc_get fc src dst recursive
     else if has_sub ''://'' dst then fc_put fc src dst recursive
     else if recursive then fc_copytree fc src dst
     else fc_copy_file fc src dst)"

text \<open>The search text of \<open>glob\<close>.\<close>

fun replace_first :: "string \<Rightarrow> string \<Rightarrow> string \<Rightarrow> string" where
  "replace_first old new [] = []"
| "replace_first old new (c # s) =
    (if prefix old (c # s) then new @ drop (length old) (c # s) else c # replace_first old new s)"

definition glob_search :: "string \<Rightarrow> string option \<Rightarrow> bool \<Rightarrow> string" where
  "glob_search resolved pattern recursive =
    (let base = rstrip_char CHR ''/'' resolved;
         leaf = dropWhile (\<lambda>c. c = CHR ''/'') (the pattern);
         search = (if filled pattern
                   then if base \<noteq> [] \<and> leaf \<noteq> [] then base @ ''/'' @ leaf else if base \<noteq> [] then base else leaf
                   else resolved)
     in if recursive \<and> \<not> has_sub ''/**/'' search
        then if has_sub ''/*'' search then replace_first ''/*'' ''/**/'' search
             else rstrip_char CHR ''/'' search @ ''/**/*''
        else search)"

lemma replace_first_here: "\<not> has_sub old s \<Longrightarrow> CHR ''/'' \<notin> set s \<or> CHR ''*'' \<notin> set s \<Longrightarrow> old = ''/*'' \<Longrightarrow>
    replace_first old new (s @ ''/*'' @ rest) = s @ new @ rest"
  by (induction s) (auto simp: prefix_def Cons_eq_append_conv)

text \<open>
  A recursive search by a wild card loses the wild card: the star after the last slash is swallowed by the
  inserted \<open>**\<close>, so that \<open>*.csv\<close> below a directory becomes a search for files called \<open>.csv\<close>.
\<close>

theorem recursive_glob_loses_star:
  assumes "base \<noteq> []" "last base \<noteq> CHR ''/''" "CHR ''*'' \<notin> set base" "CHR ''*'' \<notin> set ext"
  shows "glob_search base (Some (CHR ''*'' # ext)) True = base @ ''/**/'' @ ext"
proof -
  have b: "rstrip_char CHR ''/'' base = base"
    using assms(1,2) by (cases base rule: rev_cases) (simp_all add: rstrip_char_def)
  have no: "\<not> has_sub p base" if "CHR ''*'' \<in> set p" for p
    using assms(3) that by (auto simp: has_sub_iff)
  have stars: "\<not> has_sub ''/**/'' (base @ ''/*'' @ ext)"
  proof
    assume "has_sub ''/**/'' (base @ ''/*'' @ ext)"
    then obtain u v where "base @ ''/*'' @ ext = u @ ''/**/'' @ v" unfolding has_sub_iff by blast
    then have "count_list (base @ ''/*'' @ ext) CHR ''*'' = count_list (u @ ''/**/'' @ v) CHR ''*''" by (rule arg_cong)
    then show False using assms(3,4) by (simp add: count_list_0_iff)
  qed
  have "has_sub ''/*'' (base @ ''/*'' @ ext)" unfolding has_sub_iff by blast
  moreover have "replace_first ''/*'' ''/**/'' (base @ ''/*'' @ ext) = base @ ''/**/'' @ ext"
    by (rule replace_first_here) (use no assms(3) in auto)
  ultimately show ?thesis using b assms(1) stars by (simp add: glob_search_def filled_def Let_def)
qed

theorem recursive_glob_loses_star_witness:
  "glob_search ''/data/in'' (Some ''*.csv'') True = ''/data/in/**/.csv''"
  using recursive_glob_loses_star [of "''/data/in''" "''.csv''"] by simp

text \<open>\<open>is_readable\<close>; a size that cannot be had is an error.\<close>

definition is_readable :: "'d file_client \<Rightarrow> string \<Rightarrow> 'd \<Rightarrow> bool res" where
  "is_readable fc path d =
    (if \<not> fc_exists fc path d then Ok False
     else res_bind (fc_size fc path d) (\<lambda>n. Ok (n \<noteq> 0)))"


section \<open>File sources\<close>

definition count_files :: "'d file_client \<Rightarrow> string list \<Rightarrow> string \<Rightarrow> string option \<Rightarrow> 'd \<Rightarrow> int res" where
  "count_files fc exts target pattern d =
    (let full_path = fc_resolve fc target in
     case (if fc_isfile fc full_path d then Ok 1
           else res_bind (fc_find fc full_path d) (\<lambda>all_files.
                res_bind (filter_files exts all_files pattern) (\<lambda>fs. Ok (int (length fs))))) of
       Inl e \<Rightarrow> if e \<in> {FileNotFoundError, RuntimeError} then Ok 0 else Err e
     | Inr n \<Rightarrow> Ok n)"

definition file_probe :: "'d file_client \<Rightarrow> string option \<Rightarrow> 'd \<Rightarrow> bool" where
  "file_probe fc target d =
    (let path = (if filled target then the target else ''/'') in
     client_exists fc (if path = ''/'' \<and> fc_url fc \<noteq> [] then fc_url fc else path) d)"

text \<open>The label of a resource for the audit.\<close>

definition resolve_identity :: "'d file_client \<Rightarrow> string \<Rightarrow> string list \<Rightarrow> string option \<Rightarrow> 'd \<Rightarrow> string" where
  "resolve_identity fc target items glob d =
    (let clean_target = strip_protocol target in
     if has_sub ''!!'' clean_target \<or> is_supported_archive clean_target then
       let parts = cut_sub ''!!'' clean_target;
           archive_path = (if has_sub ''!!'' clean_target then hd parts else clean_target);
           inner_spec = (if has_sub ''!!'' clean_target then py_join ''!!'' (tl parts) else or_else glob ''*'')
       in archive_path @ ''::'' @
          (if length items = 1 then path_name (last (cut_sub ''!!'' (hd items))) else inner_spec)
     else if length items = 1 \<and> \<not> filled glob \<and> fc_isfile fc (fc_resolve fc (hd items)) d then hd items
     else
       let folder = rstrip_char CHR ''/'' clean_target in
       folder @ ''/'' @
         (if length items = 1 then path_name (hd items)
          else if filled glob then dropWhile (\<lambda>c. c = CHR ''/'') (the glob)
          else ''*''))"

record file_meta =
  fm_path :: string
  fm_name :: string
  fm_modified :: string
  fm_size :: int

text \<open>
  \<open>sql\<close> evaluates a WHERE text over the metadata table and \<open>rx\<close> a regular expression search; both are Polars.
\<close>

definition list_files_metadata ::
  "'d file_client \<Rightarrow> (string \<Rightarrow> file_meta list \<Rightarrow> file_meta list res) \<Rightarrow> string \<Rightarrow> string option \<Rightarrow> 'd \<Rightarrow> file_meta list res" where
  "list_files_metadata fc sql target sql_where d =
    (let resolved = fc_resolve fc target in
     res_bind (if fc_isfile fc resolved d then Ok [resolved] else fc_find fc resolved d) (\<lambda>paths.
     res_bind (res_map (\<lambda>p. res_bind (fc_info fc p d) (\<lambda>(mtime, n).
         Ok \<lparr>fm_path = p, fm_name = path_name p, fm_modified = mtime, fm_size = n\<rparr>)) paths) (\<lambda>records.
       if records = [] then Ok []
       else if filled sql_where then sql (the sql_where) records
       else Ok records)))"

definition archive_metadata :: "string \<Rightarrow> (string \<times> int) list \<Rightarrow> file_meta list" where
  "archive_metadata resolved members =
    map (\<lambda>(f, n). \<lparr>fm_path = ''zip://'' @ resolved @ ''!!'' @ f, fm_name = path_name f,
      fm_modified = ''0.0'', fm_size = n\<rparr>) members"

definition selected_files ::
  "'d file_client \<Rightarrow> (string \<Rightarrow> file_meta list \<Rightarrow> file_meta list res) \<Rightarrow> (string \<Rightarrow> (string \<Rightarrow> bool) res) \<Rightarrow>
   string \<Rightarrow> string option \<Rightarrow> string option \<Rightarrow> 'd \<Rightarrow> file_meta list res" where
  "selected_files fc sql rx target filter_condition sql_where d =
    (let resolved = fc_resolve fc target in
     if is_supported_archive resolved then
       res_bind (fc_members fc resolved d) (\<lambda>members.
       if members = [] then Err ColumnNotFoundError
       else
         res_bind (if filled filter_condition
             then res_bind (rx (replace_char CHR ''*'' ''.*'' (the filter_condition))) (\<lambda>m.
               Ok (filter (\<lambda>f. m (fm_name f)) (archive_metadata resolved members)))
             else Ok (archive_metadata resolved members)) (\<lambda>metas.
         if filled sql_where then sql (the sql_where) metas else Ok metas))
     else
       res_bind (list_files_metadata fc sql target sql_where d) (\<lambda>metas.
       if filled filter_condition \<and> metas \<noteq> []
       then res_bind (rx (replace_char CHR ''*'' ''.*''
              (replace_char CHR ''.'' [CHR 0x5C, CHR ''.''] (the filter_condition)))) (\<lambda>m.
            Ok (filter (\<lambda>f. m (fm_path f)) metas))
       else Ok metas))"

definition MIN_BYTES_PER_WORKER :: int where "MIN_BYTES_PER_WORKER = 104857600"

definition file_workers :: "int option \<Rightarrow> file_meta list \<Rightarrow> int" where
  "file_workers num_workers metas =
    max 1 (case num_workers of
        Some n \<Rightarrow> if n \<noteq> 0 then n else sum_list (map fm_size metas) div MIN_BYTES_PER_WORKER
      | None \<Rightarrow> sum_list (map fm_size metas) div MIN_BYTES_PER_WORKER)"

definition file_parallelize ::
  "'d file_client \<Rightarrow> (string \<Rightarrow> file_meta list \<Rightarrow> file_meta list res) \<Rightarrow> (string \<Rightarrow> (string \<Rightarrow> bool) res) \<Rightarrow>
   string \<Rightarrow> int option \<Rightarrow> string option \<Rightarrow> string option \<Rightarrow> 'd \<Rightarrow> string list list res" where
  "file_parallelize fc sql rx target num_workers filter_condition sql_where d =
    res_bind (selected_files fc sql rx target filter_condition sql_where d) (\<lambda>metas.
      if metas = [] then Err TryAgainLater
      else balance_workload (\<lambda>f. fc_size fc f d) (map fm_path metas)
             (min (file_workers num_workers metas) (int (length metas))))"

text \<open>
  An extraction from files is split completely: the work units hold exactly the selected files, each in
  one unit; there is a unit, no unit is empty, and there are no more than files or workers. Without a
  selected file the task is asked to try again later.
\<close>

theorem file_units_partition_selection:
  assumes "selected_files fc sql rx target filter_condition sql_where d = Ok metas"
  shows "if metas = [] then file_parallelize fc sql rx target num_workers filter_condition sql_where d = Err TryAgainLater
    else \<forall>units. file_parallelize fc sql rx target num_workers filter_condition sql_where d = Ok units \<longrightarrow>
      mset (concat units) = mset (map fm_path metas) \<and> units \<noteq> [] \<and> [] \<notin> set units \<and>
      int (length units) \<le> min (file_workers num_workers metas) (int (length metas))"
proof (cases "metas = []")
  case True
  then show ?thesis using assms by (simp add: file_parallelize_def)
next
  case False
  let ?w = "min (file_workers num_workers metas) (int (length metas))"
  have w: "0 < ?w" using False by (auto simp: file_workers_def)
  have "mset (concat units) = mset (map fm_path metas) \<and> units \<noteq> [] \<and> [] \<notin> set units \<and> int (length units) \<le> ?w"
    if u: "file_parallelize fc sql rx target num_workers filter_condition sql_where d = Ok units" for units
  proof -
    have "balance_workload (\<lambda>f. fc_size fc f d) (map fm_path metas) ?w = Ok units"
      using u assms False by (simp add: file_parallelize_def)
    then obtain sized where units: "units = filter (\<lambda>fs. fs \<noteq> []) (map bk_files (balance_buckets sized ?w))"
      and shape: "mset (concat units) = mset (map fm_path metas)" "length units \<le> nat ?w"
      using False w by (auto elim: balance_workload_Ok)
    have "units \<noteq> []" using shape(1) False by auto
    moreover have "[] \<notin> set units" by (simp add: units)
    ultimately show ?thesis using w shape by auto
  qed
  then show ?thesis using False by simp
qed


section \<open>File sinks and archives\<close>

text \<open>A try statement with a finally branch, whose own error replaces the outcome.\<close>

definition st_finally :: "('d \<Rightarrow> 'a res \<times> 'd) \<Rightarrow> ('d \<Rightarrow> unit res \<times> 'd) \<Rightarrow> 'd \<Rightarrow> 'a res \<times> 'd" where
  "st_finally m f d =
    (let (r, d') = m d in
     case f d' of (Inl e, d'') \<Rightarrow> (Err e, d'') | (Inr _, d'') \<Rightarrow> (r, d''))"

definition enough :: "int \<Rightarrow> nat \<Rightarrow> bool" where
  "enough expected n \<longleftrightarrow> 0 < expected \<longrightarrow> expected \<le> int n"

text \<open>
  \<open>FileSink.stage\<close>; \<open>ext_of\<close> is \<open>get_file_ext\<close> on this storage, \<open>convert\<close> the DuckDB conversion (source path,
  target path, formats), \<open>now\<close> the second of the call and \<open>tmp\<close> the directory of a relayed transfer.
\<close>

definition staging_dir :: "string \<Rightarrow> string \<Rightarrow> string" where
  "staging_dir target now = ''tmp/staging/'' @ rstrip_char CHR ''/'' target @ ''_'' @ now"

definition file_stage ::
  "'d file_client \<Rightarrow> (string \<Rightarrow> string) \<Rightarrow> (string \<Rightarrow> string \<Rightarrow> string \<Rightarrow> string \<Rightarrow> 'd \<Rightarrow> unit res \<times> 'd) \<Rightarrow> string \<Rightarrow> string \<Rightarrow>
   string \<Rightarrow> string \<Rightarrow> int \<Rightarrow> string \<Rightarrow> 'd \<Rightarrow> (string \<times> int) res \<times> 'd" where
  "file_stage fc ext_of convert tmp now source_dir target expected file_format d0 =
    (let staging = staging_dir target now;
         resolved_source = fc_resolve fc source_dir;
         resolved_staging = fc_resolve fc staging in
     st_bind (st_lift (fc_find fc resolved_source d0)) (\<lambda>source_files.
       if source_files = [] then st_lift (Err FileNotFoundError)
       else
         let src_format = ext_of (hd source_files);
             tgt_format = dropWhile (\<lambda>c. c = CHR ''.'') (str_lower file_format) in
         st_bind (if src_format = tgt_format then client_cp fc tmp resolved_source resolved_staging True
                  else convert resolved_source (resolved_staging @ ''/data_0.'' @ tgt_format) src_format tgt_format)
           (\<lambda>_ d. st_bind (st_lift (fc_find fc resolved_staging d)) (\<lambda>staged_files.
              if enough expected (length staged_files) then st_lift (Ok (staging, int (length staged_files)))
              else st_lift (Err RuntimeError)) d)) d0)"

definition hive_target :: "string \<Rightarrow> string option \<Rightarrow> string option \<Rightarrow> string" where
  "hive_target destination partition_on partition_value =
    (if filled partition_on \<and> filled partition_value
     then rstrip_char CHR ''/'' destination @ ''/'' @ the partition_on @ ''='' @ the partition_value
     else destination)"

definition swap_in :: "'d file_client \<Rightarrow> string \<Rightarrow> string \<Rightarrow> 'd \<Rightarrow> unit res \<times> 'd" where
  "swap_in fc resolved_staging resolved_target =
    st_bind (\<lambda>d. if client_exists fc resolved_target d then client_rm fc resolved_target d else (Ok (), d))
      (\<lambda>_. client_mv fc resolved_staging resolved_target)"

definition clean_staging :: "'d file_client \<Rightarrow> string \<Rightarrow> 'd \<Rightarrow> unit res \<times> 'd" where
  "clean_staging fc resolved_staging d =
    (if client_exists fc resolved_staging d then client_rm fc resolved_staging d else (Ok (), d))"

definition file_promote ::
  "'d file_client \<Rightarrow> string \<Rightarrow> string \<Rightarrow> int \<Rightarrow> string option \<Rightarrow> string option \<Rightarrow> 'd \<Rightarrow> unit res \<times> 'd" where
  "file_promote fc source destination expected partition_on partition_value d0 =
    (let resolved_staging = fc_resolve fc source;
         resolved_target = fc_resolve fc (hive_target destination partition_on partition_value) in
     st_bind (st_lift (fc_find fc resolved_staging d0)) (\<lambda>staged_files.
       if staged_files = [] \<or> \<not> enough expected (length staged_files) then st_lift (Err RuntimeError)
       else st_finally (swap_in fc resolved_staging resolved_target) (clean_staging fc resolved_staging)) d0)"

definition file_clone :: "'d file_client \<Rightarrow> string \<Rightarrow> string \<Rightarrow> string \<Rightarrow> 'd \<Rightarrow> unit res \<times> 'd" where
  "file_clone fc tmp source dest = client_cp fc tmp source dest True"

definition file_delete :: "'d file_client \<Rightarrow> string \<Rightarrow> 'd \<Rightarrow> unit res \<times> 'd" where
  "file_delete fc target d = (if client_exists fc target d then client_rm fc target d else (Ok (), d))"

definition archive_store :: "'d file_client \<Rightarrow> string \<Rightarrow> string \<Rightarrow> string \<Rightarrow> 'd \<Rightarrow> unit res \<times> 'd" where
  "archive_store fc tmp source dest =
    client_cp fc tmp source (if has_sub ''://'' dest then dest else fc_url fc @ ''/'' @ dest) True"

text \<open>
  The file sink counts files where its caller counts rows: staging succeeds only with at least as many files
  as rows are expected, and reports the number of files as the number of rows.
\<close>

theorem stage_counts_files:
  assumes "file_stage fc ext_of convert tmp now source_dir target expected file_format d = (Ok (dir, n), d')"
  shows "dir = staging_dir target now \<and>
    (\<exists>files. fc_find fc (fc_resolve fc dir) d' = Ok files \<and> n = int (length files) \<and> (0 < expected \<longrightarrow> expected \<le> n))"
  using assms
  by (auto simp: file_stage_def Let_def st_bind_Ok_iff st_lift_def enough_def split: if_splits)

text \<open>
  The promotion of a staged directory is not atomic: when the move fails after the old target was removed,
  the clean-up of the finally branch removes the staged files too, and nothing is left at either place.
  (Of the storage: after a removal nothing is found at the place, and a removal adds nothing elsewhere.)
\<close>

theorem failed_swap_loses_both:
  assumes "fc_resolve fc source = staging" "fc_resolve fc (hive_target destination partition_on partition_value) = target"
    and "fc_find fc staging d = Ok files" "files \<noteq> []" "enough expected (length files)"
    and "client_exists fc target d" "client_rm fc target d = (Ok (), d1)"
    and "client_mv fc staging target d1 = (Err e, d1)"
    and "client_exists fc staging d1" "client_rm fc staging d1 = (Ok (), d2)"
    and removed: "\<And>p d d'. client_rm fc p d = (Ok (), d') \<Longrightarrow> fc_find fc p d' = Ok []"
    and elsewhere: "\<And>p q d d'. client_rm fc p d = (Ok (), d') \<Longrightarrow> fc_find fc q d = Ok [] \<Longrightarrow> fc_find fc q d' = Ok []"
  shows "file_promote fc source destination expected partition_on partition_value d = (Err e, d2) \<and>
    fc_find fc target d2 = Ok [] \<and> fc_find fc staging d2 = Ok []"
proof -
  have "file_promote fc source destination expected partition_on partition_value d = (Err e, d2)"
    using assms(1-10)
    by (simp add: file_promote_def st_bind_def st_lift_def
        st_finally_def swap_in_def clean_staging_def)
  moreover have "fc_find fc target d2 = Ok []" by (rule elsewhere [OF assms(10) removed [OF assms(7)]])
  moreover have "fc_find fc staging d2 = Ok []" by (rule removed [OF assms(10)])
  ultimately show ?thesis by blast
qed


subsection \<open>Publishing to a file target\<close>

text \<open>
  A call with keywords a function does not take is refused before its body runs. The keywords are those of the
  publish stage and those \<open>FileSink.promote\<close> declares.
\<close>

definition publish_keywords :: "string list" where
  "publish_keywords = [''source'', ''destination'', ''expected_count'', ''update_key'', ''partition_value'', ''primary_keys'',
     ''merge_ops'', ''soft_delete_missing'', ''soft_delete_column'']"

definition file_promote_keywords :: "string list" where
  "file_promote_keywords = [''source'', ''destination'', ''expected_count'', ''partition_on'', ''partition_value'']"

definition file_promote_call ::
  "'d file_client \<Rightarrow> string list \<Rightarrow> string \<Rightarrow> string \<Rightarrow> partition_staged \<Rightarrow> 'd \<Rightarrow> unit res \<times> 'd" where
  "file_promote_call fc keywords source destination m =
    (if set keywords \<subseteq> set file_promote_keywords
     then file_promote fc source destination (ps_rows_processed m) None (Some (ps_partition_date m))
     else st_lift (Err TypeError))"

fun file_publish_loop ::
  "'d file_client \<Rightarrow> string \<Rightarrow> string \<Rightarrow> partition_staged list \<Rightarrow> int \<Rightarrow> 'd \<Rightarrow> int res \<times> 'd" where
  "file_publish_loop fc source destination [] total_rows = st_lift (Ok total_rows)"
| "file_publish_loop fc source destination (m # ms) total_rows =
    st_bind (file_promote_call fc publish_keywords source destination m) (\<lambda>_.
      file_publish_loop fc source destination ms (total_rows + ps_rows_processed m))"

text \<open>
  Nothing is ever published to a file target: the first partition's promotion is refused for keywords the
  file sink does not take, and the storage is left as it was.
\<close>

theorem file_target_never_published:
  "file_publish_loop fc source destination metrics total_rows d =
    (case metrics of [] \<Rightarrow> (Ok total_rows, d) | _ \<Rightarrow> (Err TypeError, d))"
  by (cases metrics)
    (auto simp: file_promote_call_def publish_keywords_def file_promote_keywords_def st_lift_def st_bind_def)

text \<open>A storage of flat names whose moves fail, for the concrete cases.\<close>

definition flat_client :: "string list file_client" where
  "flat_client = \<lparr>fc_url = ''/data'', fc_resolve = id, fc_find = (\<lambda>p d. Ok (filter (\<lambda>x. x = p) d)),
     fc_isfile = (\<lambda>p d. False), fc_exists = (\<lambda>p d. p \<in> set d), fc_info = (\<lambda>p d. Ok (''0.0'', 1)), fc_size = (\<lambda>p d. Ok 1),
     fc_members = (\<lambda>p d. Ok []), fc_rm = (\<lambda>p d. (Ok (), filter (\<lambda>x. x \<noteq> p) d)),
     fc_move = (\<lambda>p q d. (Err OSError, d)), fc_copy = (\<lambda>p q r d. (Ok (), d)), fc_get = (\<lambda>p q r d. (Ok (), d)),
     fc_put = (\<lambda>p q r d. (Ok (), d)), fc_copytree = (\<lambda>p q d. (Ok (), d @ map (\<lambda>_. q) (filter (\<lambda>x. x = p) d))),
     fc_copy_file = (\<lambda>p q d. (Ok (), d))\<rparr>"

theorem failed_swap_loses_both_witness:
  "file_promote flat_client ''stg'' ''prod'' 1 None None [''stg'', ''prod'', ''other''] = (Err OSError, [''other'']) \<and>
   fc_find flat_client ''prod'' [''other''] = Ok [] \<and> fc_find flat_client ''stg'' [''other''] = Ok []"
  by (rule failed_swap_loses_both [where files = "[''stg'']" and ?d1.0 = "[''stg'', ''other'']"])
    (auto simp: flat_client_def hive_target_def filled_def enough_def client_exists_def client_rm_def client_mv_def
      filter_empty_conv)

theorem stage_counts_files_witness:
  "\<exists>d'. file_stage flat_client (\<lambda>_. ''parquet'') (\<lambda>_ _ _ _ d. (Ok (), d)) ''tmp'' ''7'' ''src'' ''t/'' 2 ''.Parquet'' [''src'', ''src''] =
     (Ok (''tmp/staging/t_7'', 2), d') \<and> (\<exists>files. fc_find flat_client ''tmp/staging/t_7'' d' = Ok files \<and> length files = 2)"
proof -
  let ?d = "[''src'', ''src'', ''tmp/staging/t_7'', ''tmp/staging/t_7'']"
  have r: "file_stage flat_client (\<lambda>_. ''parquet'') (\<lambda>_ _ _ _ d. (Ok (), d)) ''tmp'' ''7'' ''src'' ''t/'' 2 ''.Parquet'' [''src'', ''src''] =
     (Ok (''tmp/staging/t_7'', 2), ?d)" by code_simp
  have "\<exists>files. fc_find flat_client (fc_resolve flat_client ''tmp/staging/t_7'') ?d = Ok files \<and> (2::int) = int (length files)"
    using stage_counts_files [OF r] by blast
  moreover have "fc_resolve flat_client ''tmp/staging/t_7'' = ''tmp/staging/t_7''" by (simp add: flat_client_def)
  ultimately show ?thesis using r by auto
qed

theorem file_units_partition_selection_witness:
  "file_parallelize flat_client (\<lambda>_ fs. Ok fs) (\<lambda>_. Ok (\<lambda>_. True)) ''in'' (Some 3) None None [''in'', ''in'', ''x''] = Ok [[''in''], [''in'']] \<and>
   mset (concat [[''in''], [''in'']]) = mset [''in'', ''in'']"
proof -
  let ?m = "\<lparr>fm_path = ''in'', fm_name = ''in'', fm_modified = ''0.0'', fm_size = 1\<rparr>"
  have s: "selected_files flat_client (\<lambda>_ fs. Ok fs) (\<lambda>_. Ok (\<lambda>_. True)) ''in'' None None [''in'', ''in'', ''x''] = Ok [?m, ?m]"
    by code_simp
  have u: "file_parallelize flat_client (\<lambda>_ fs. Ok fs) (\<lambda>_. Ok (\<lambda>_. True)) ''in'' (Some 3) None None [''in'', ''in'', ''x''] = Ok [[''in''], [''in'']]"
    by code_simp
  show ?thesis using file_units_partition_selection [OF s, of "Some 3"] u by simp
qed

end
