(* ===== verification/Calendar.thy ===== *)
theory Calendar
  imports Prelude
begin

text \<open>
  Dates as the program uses them: \<open>datetime.strptime(s, "%Y-%m-%d")\<close>, \<open>strftime\<close>, comparison and steps of one
  day. Used by the checkpoints and by the catch-up of the extract stage.
\<close>


section \<open>Days\<close>

type_synonym day = "nat \<times> nat \<times> nat"

definition leap_year :: "nat \<Rightarrow> bool" where
  "leap_year y \<longleftrightarrow> 4 dvd y \<and> (\<not> 100 dvd y \<or> 400 dvd y)"

definition month_length :: "nat \<Rightarrow> nat \<Rightarrow> nat" where
  "month_length y m =
    (if m = 2 then (if leap_year y then 29 else 28) else if m \<in> {4, 6, 9, 11} then 30 else 31)"

fun valid_day :: "day \<Rightarrow> bool" where
  "valid_day (y, m, d) = (1 \<le> y \<and> y \<le> 9999 \<and> 1 \<le> m \<and> m \<le> 12 \<and> 1 \<le> d \<and> d \<le> month_length y m)"

text \<open>The day after; 9999-12-31 has none in Python (\<open>OverflowError\<close>).\<close>

fun next_day :: "day \<Rightarrow> day res" where
  "next_day (y, m, d) =
    (if d < month_length y m then Ok (y, m, d + 1)
     else if m < 12 then Ok (y, m + 1, 1)
     else if y < 9999 then Ok (y + 1, 1, 1)
     else Err OverflowError)"

text \<open>A number that orders the days; every day of a year lies below \<open>372\<close> of them.\<close>

fun day_index :: "day \<Rightarrow> nat" where
  "day_index (y, m, d) = 372 * y + 31 * m + d"

definition day_le :: "day \<Rightarrow> day \<Rightarrow> bool" where
  "day_le a b \<longleftrightarrow> day_index a \<le> day_index b"

lemma month_length_le: "month_length y m \<le> 31"
  by (simp add: month_length_def)

lemma month_length_lt [simp]: "month_length y m < 32"
  by (simp add: month_length_def)

lemma month_length_pos: "Suc 0 \<le> month_length y m"
  by (simp add: month_length_def)

lemma next_day_valid: "valid_day a \<Longrightarrow> next_day a = Ok b \<Longrightarrow> valid_day b"
  by (cases a; cases b) (auto simp: month_length_pos split: if_splits)

lemma next_day_index: "valid_day a \<Longrightarrow> next_day a = Ok b \<Longrightarrow> day_index a < day_index b"
  by (cases a; cases b) (auto split: if_splits)

lemma day_index_inj: "valid_day a \<Longrightarrow> valid_day b \<Longrightarrow> day_index a = day_index b \<Longrightarrow> a = b"
proof -
  assume "valid_day a" "valid_day b" "day_index a = day_index b"
  moreover obtain y m d y' m' d' where "a = (y, m, d)" "b = (y', m', d')" by (cases a; cases b)
  moreover have "d \<le> 31 \<and> d' \<le> 31" using calculation month_length_le
    by (metis le_trans valid_day.simps)
  ultimately have b: "372 * y + 31 * m + d = 372 * y' + 31 * m' + d'" "1 \<le> m" "m \<le> 12" "1 \<le> m'" "m' \<le> 12"
      "1 \<le> d" "1 \<le> d'" "d \<le> 31" "d' \<le> 31" by auto
  have y: "y = y'" using b by (cases y y' rule: linorder_cases) auto
  have m: "m = m'" using b y by (cases m m' rule: linorder_cases) auto
  show "a = b" using b y m \<open>a = (y, m, d)\<close> \<open>b = (y', m', d')\<close> by simp
qed

text \<open>No day lies between a day and the next.\<close>

lemma next_day_tight:
  assumes "valid_day a" "next_day a = Ok b" "valid_day c" "day_index a < day_index c"
  shows "day_index b \<le> day_index c"
proof -
  obtain y m d where a: "a = (y, m, d)" by (cases a)
  obtain y' m' d' where c: "c = (y', m', d')" by (cases c)
  have d31: "d \<le> 31" "d' \<le> 31" using assms(1,3) month_length_le unfolding a c
    by (metis le_trans valid_day.simps)+
  have bounds: "1 \<le> m" "m \<le> 12" "1 \<le> d" "1 \<le> m'" "m' \<le> 12" "1 \<le> d'" "d' \<le> month_length y' m'"
    using assms(1,3) unfolding a c by auto
  consider (day) "d < month_length y m" | (month) "\<not> d < month_length y m" "m < 12"
    | (year) "\<not> d < month_length y m" "m = 12" using bounds by linarith
  then show ?thesis
  proof cases
    case day
    then have "b = (y, m, d + 1)" using assms(2) a by simp
    then show ?thesis using assms(4) a c by simp
  next
    case month
    then have b: "b = (y, m + 1, 1)" using assms(2) a by simp
    have "\<not> (y' = y \<and> m' = m)" using month bounds assms(4) a c by auto
    then have "y < y' \<or> y' = y \<and> m < m'"
      using assms(4) bounds d31 unfolding a c by auto
    then show ?thesis using b c bounds month by auto
  next
    case year
    then have b: "b = (y + 1, 1, 1)" using assms(2) a by (simp split: if_splits)
    have "\<not> (y' = y \<and> m' = m)" using year bounds assms(4) a c by auto
    then have "y < y'" using assms(4) bounds d31 year unfolding a c by auto
    then show ?thesis using b c bounds by auto
  qed
qed


section \<open>Texts of days\<close>

definition two_digits :: "nat \<Rightarrow> string" where
  "two_digits n = (if n < 10 then CHR ''0'' # show_nat n else show_nat n)"

text \<open>\<open>strftime("%Y-%m-%d")\<close>.\<close>

fun show_day :: "day \<Rightarrow> string" where
  "show_day (y, m, d) = show_nat y @ ''-'' @ two_digits m @ ''-'' @ two_digits d"

text \<open>
  \<open>strptime(s, "%Y-%m-%d")\<close>: four digits, a month and a day of one or two digits (the day may have a leading
  space in place of the zero), and the date has to exist.
\<close>

definition read_small :: "string \<Rightarrow> nat option" where
  "read_small s = (if length s \<in> {1, 2} then read_nat s else None)"

definition read_day_field :: "string \<Rightarrow> nat option" where
  "read_day_field s =
    (case s of [c, x] \<Rightarrow> if c = CHR '' '' then read_small [x] else read_small s | _ \<Rightarrow> read_small s)"

definition parse_day :: "string \<Rightarrow> day res" where
  "parse_day s =
    (case py_split CHR ''-'' s of
       [ys, ms, ds] \<Rightarrow>
        (case (if length ys = 4 then read_nat ys else None, read_small ms, read_day_field ds) of
           (Some y, Some m, Some d) \<Rightarrow> if valid_day (y, m, d) then Ok (y, m, d) else Err ValueError
         | _ \<Rightarrow> Err ValueError)
     | _ \<Rightarrow> Err ValueError)"

lemma parse_day_valid: "parse_day s = Ok a \<Longrightarrow> valid_day a"
  by (auto simp: parse_day_def split: list.splits option.splits if_splits)

lemma show_nat_small: "n < 10 \<Longrightarrow> show_nat n = [char_of (48 + n)]"
  by (subst show_nat.simps) simp

lemma show_nat_length_step: "10 \<le> n \<Longrightarrow> length (show_nat n) = Suc (length (show_nat (n div 10)))"
  by (subst show_nat.simps) simp

lemma show_nat_length1: "n < 10 \<Longrightarrow> length (show_nat n) = 1"
  by (simp add: show_nat_small)

lemma show_nat_length2: "10 \<le> n \<Longrightarrow> n < 100 \<Longrightarrow> length (show_nat n) = 2"
  by (subst show_nat_length_step) (auto simp: show_nat_length1)

lemma show_nat_length4: "1000 \<le> n \<Longrightarrow> n \<le> 9999 \<Longrightarrow> length (show_nat n) = 4"
  by (simp add: show_nat_length_step show_nat_length1)

lemma two_digits_length: "n < 100 \<Longrightarrow> length (two_digits n) = 2"
  by (simp add: two_digits_def show_nat_length1 show_nat_length2)

lemma two_digits_digits: "list_all is_digit (two_digits n)"
  by (auto simp: two_digits_def show_nat_digits is_digit_def)

lemma read_two_digits: "n < 100 \<Longrightarrow> read_nat (two_digits n) = Some n"
proof (cases "n < 10")
  case True
  have "digit_val CHR ''0'' = 0" by (simp add: digit_val_def)
  then have "foldl (\<lambda>n c. 10 * n + digit_val c) 0 (two_digits n) = n"
    using True show_nat_value [of n] by (simp add: two_digits_def)
  then show ?thesis using two_digits_digits by (simp add: read_nat_def two_digits_def)
qed (simp add: two_digits_def)

lemma digits_no_mark: "list_all is_digit s \<Longrightarrow> \<not> is_digit c \<Longrightarrow> c \<notin> set s"
  by (auto simp: list_all_iff)

lemma parse_show_day:
  assumes "valid_day (y, m, d)" "1000 \<le> y"
  shows "parse_day (show_day (y, m, d)) = Ok (y, m, d)"
proof -
  have md: "m < 100" "d < 100" using assms month_length_le [of y m] by auto
  have mark: "\<not> is_digit CHR ''-''" "\<not> is_digit CHR '' ''" by (simp_all add: is_digit_def)
  have split: "py_split CHR ''-'' (show_day (y, m, d)) = [show_nat y, two_digits m, two_digits d]"
    using digits_no_mark [OF show_nat_digits mark(1)] digits_no_mark [OF two_digits_digits mark(1)] by simp
  obtain a b where ab: "two_digits d = [a, b]"
    using two_digits_length [OF md(2)] by (auto simp: length_Suc_conv numeral_2_eq_2)
  have "a \<noteq> CHR '' ''" using digits_no_mark [OF two_digits_digits mark(2), of d] ab by auto
  then have "read_day_field (two_digits d) = Some d" "read_small (two_digits m) = Some m"
    using read_two_digits [OF md(2)] read_two_digits [OF md(1)] two_digits_length [OF md(1)] ab
    by (simp_all add: read_day_field_def read_small_def)
  then show ?thesis using assms split show_nat_length4 [of y] by (simp add: parse_day_def)
qed


section \<open>Ranges of days\<close>

text \<open>The loop \<open>while curr <= end: append; curr += 1 day\<close>.\<close>

function days_until :: "day \<Rightarrow> day \<Rightarrow> day list res" where
  "days_until cur last_day =
    (if valid_day cur \<and> day_le cur last_day then
       (case next_day cur of
          Inl e \<Rightarrow> Err e
        | Inr nxt \<Rightarrow> res_bind (days_until nxt last_day) (\<lambda>ds. Ok (cur # ds)))
     else Ok [])"
  by pat_completeness auto
termination
  by (relation "measure (\<lambda>(c, l). Suc (day_index l) - day_index c)")
    (auto simp: day_le_def dest!: next_day_index)

declare days_until.simps [simp del]

text \<open>The range holds exactly the days from one to the other, in order.\<close>

lemma days_until_days:
  "valid_day a \<Longrightarrow> days_until a b = Ok ds \<Longrightarrow>
   set ds = {c. valid_day c \<and> day_le a c \<and> day_le c b} \<and> sorted_wrt (\<lambda>x y. day_index x < day_index y) ds"
proof (induction a b arbitrary: ds rule: days_until.induct)
  case (1 a b)
  show ?case
  proof (cases "day_le a b")
    case False
    then have "ds = []" using 1(3) by (subst (asm) days_until.simps) simp
    moreover have "{c. valid_day c \<and> day_le a c \<and> day_le c b} = {}" using False by (auto simp: day_le_def)
    ultimately show ?thesis by simp
  next
    case True
    then obtain n es where n: "next_day a = Ok n" and es: "days_until n b = Ok es" and ds: "ds = a # es"
      using 1(2,3) by (subst (asm) days_until.simps) (auto simp: res_bind_Ok_iff split: sum.splits)
    have vn: "valid_day n" by (rule next_day_valid [OF 1(2) n])
    have IH: "set es = {c. valid_day c \<and> day_le n c \<and> day_le c b}" "sorted_wrt (\<lambda>x y. day_index x < day_index y) es"
      using 1(1) [OF conjI [OF 1(2) True] n vn es] by auto
    have lt: "day_index a < day_index n" by (rule next_day_index [OF 1(2) n])
    have "c = a \<or> day_le n c" if "valid_day c" "day_le a c" for c
      using that next_day_tight [OF 1(2) n that(1)] day_index_inj [OF 1(2) that(1)]
      by (auto simp: day_le_def le_less)
    then have "set ds = {c. valid_day c \<and> day_le a c \<and> day_le c b}"
      using IH(1) ds lt 1(2) True by (auto simp: day_le_def)
    moreover have "sorted_wrt (\<lambda>x y. day_index x < day_index y) ds"
      using IH ds lt by (auto simp: day_le_def)
    ultimately show ?thesis by blast
  qed
qed

text \<open>The days after one up to another.\<close>

lemma gap_days:
  assumes "valid_day a" "next_day a = Ok n" "days_until n b = Ok ds"
  shows "set ds = {d. valid_day d \<and> day_index a < day_index d \<and> day_index d \<le> day_index b} \<and>
    sorted_wrt (\<lambda>x y. day_index x < day_index y) ds"
proof -
  have vn: "valid_day n" and lt: "day_index a < day_index n"
    using next_day_valid [OF assms(1,2)] next_day_index [OF assms(1,2)] by auto
  have "day_le n d \<longleftrightarrow> day_index a < day_index d" if "valid_day d" for d
    using lt next_day_tight [OF assms(1,2) that] by (auto simp: day_le_def)
  then show ?thesis using days_until_days [OF vn assms(3)] by (auto simp: day_le_def)
qed

text \<open>Concrete dates are computed by simplification; unary code evaluation of years would be slow.\<close>

lemmas show_day_compute = two_digits_def show_nat.simps char_of_def bit_Suc_0_iff

lemma parse_text_of_day:
  "show_day (y, m, d) = s \<Longrightarrow> valid_day (y, m, d) \<Longrightarrow> 1000 \<le> y \<Longrightarrow> parse_day s = Ok (y, m, d)"
  using parse_show_day by blast

end
