(* ===== verification/Checkpoints.thy ===== *)
theory Checkpoints
  imports Calendar SqlText "HOL-Library.List_Lexorder" "HOL-Library.Char_ord"
begin

text \<open>
  The watermarks of \<open>extras/checkpoints/checkpoint.py\<close>: loading, advancing, and the SQL predicate they
  stand for.
\<close>


section \<open>Watermarks\<close>

datatype checkpoint_type = CK_update_key | CK_lsn_offset | CK_cursor | CK_page_offset

fun checkpoint_type_name :: "checkpoint_type \<Rightarrow> string" where
  "checkpoint_type_name CK_update_key = ''UPDATE_KEY''"
| "checkpoint_type_name CK_lsn_offset = ''LSN_OFFSET''"
| "checkpoint_type_name CK_cursor = ''CURSOR''"
| "checkpoint_type_name CK_page_offset = ''PAGE_OFFSET''"

definition checkpoint_type_of :: "string \<Rightarrow> checkpoint_type \<Rightarrow> checkpoint_type" where
  "checkpoint_type_of s default_type =
    (case find (\<lambda>t. checkpoint_type_name t = s) [CK_update_key, CK_lsn_offset, CK_cursor, CK_page_offset] of
       None \<Rightarrow> default_type | Some t \<Rightarrow> t)"

type_synonym state_payload = "(string, string option) dict"

record checkpoint =
  ck_type :: checkpoint_type
  ck_start :: "string option"
  ck_end :: "string option"
  ck_payload :: "state_payload option"

text \<open>The stored record; \<open>decode\<close> reads its JSON payload (\<open>None\<close> where that fails).\<close>

record checkpoint_record =
  cr_type :: string
  cr_end :: "string option"
  cr_payload :: "string option"

definition filled_text :: "string option \<Rightarrow> bool" where
  "filled_text s \<longleftrightarrow> s \<noteq> None \<and> s \<noteq> Some []"

definition load_latest :: "(string \<Rightarrow> state_payload option) \<Rightarrow> checkpoint_record option \<Rightarrow> checkpoint" where
  "load_latest decode latest =
    (case latest of
       None \<Rightarrow> \<lparr>ck_type = CK_update_key, ck_start = None, ck_end = None, ck_payload = None\<rparr>
     | Some r \<Rightarrow> \<lparr>ck_type = checkpoint_type_of (cr_type r) CK_update_key, ck_start = cr_end r, ck_end = None,
         ck_payload = (if filled_text (cr_payload r) then decode (the (cr_payload r)) else None)\<rparr>)"

definition update_end_value :: "string option \<Rightarrow> checkpoint \<Rightarrow> checkpoint" where
  "update_end_value new_val c =
    (case new_val of
       None \<Rightarrow> c
     | Some v \<Rightarrow> (case ck_end c of
           None \<Rightarrow> c\<lparr>ck_end := Some v\<rparr>
         | Some e \<Rightarrow> if e < v then c\<lparr>ck_end := Some v\<rparr> else c))"

text \<open>The end value is the greatest of what was offered: it never goes back.\<close>

lemma update_end_value_max:
  "ck_end (fold update_end_value vs c) =
     (let offered = (case ck_end c of None \<Rightarrow> {} | Some e \<Rightarrow> {e}) \<union> {v. Some v \<in> set vs}
      in if offered = {} then None else Some (Max offered))"
proof (induction vs arbitrary: c)
  case Nil
  then show ?case by (simp split: option.split)
next
  case (Cons v vs)
  show ?case
  proof (cases v)
    case None
    then show ?thesis using Cons [of c] by (simp add: update_end_value_def Let_def)
  next
    case (Some x)
    let ?A = "{v. Some v \<in> set vs}"
    have fin: "finite ?A" by (rule finite_subset [of _ "the ` set vs"]) force+
    have ins: "{v. Some v \<in> insert (Some x) (set vs)} = insert x ?A" by auto
    show ?thesis
    proof (cases "ck_end c")
      case None
      then have "ck_end (update_end_value v c) = Some x" using Some by (simp add: update_end_value_def)
      then show ?thesis using Cons [of "update_end_value v c"] None Some ins by (simp add: Let_def)
    next
      case e: (Some e)
      have "ck_end (update_end_value v c) = Some (max e x)"
        using Some e by (cases "e < x") (auto simp: update_end_value_def max_def dest: less_imp_le)
      moreover have "Max (insert (max e x) ?A) = Max (insert e (insert x ?A))"
        using fin by (cases "?A = {}") (simp_all add: max.assoc)
      ultimately show ?thesis
        using Cons [of "update_end_value v c"] e Some ins by (simp add: Let_def insert_commute)
    qed
  qed
qed


section \<open>Incremental predicates\<close>

text \<open>Doubled braces of a glob template stand for one: \<open>replace("{{", "{").replace("}}", "}")\<close>.\<close>

fun single_mark :: "char \<Rightarrow> string \<Rightarrow> string" where
  "single_mark m (a # b # s) = (if a = m \<and> b = m then m # single_mark m s else a # single_mark m (b # s))"
| "single_mark m s = s"

fun day_tokens :: "string \<Rightarrow> day \<Rightarrow> (string, string) dict" where
  "day_tokens text (y, m, d) =
    [(''partition_date'', text), (''year'', show_nat y), (''YYYY'', show_nat y), (''month'', two_digits m),
     (''MM'', two_digits m), (''day'', two_digits d), (''DD'', two_digits d),
     (''YYYYMMDD'', show_nat y @ two_digits m @ two_digits d)]"

definition path_condition :: "string \<Rightarrow> string \<Rightarrow> string res" where
  "path_condition raw_glob d =
    res_bind (parse_day d) (\<lambda>dt.
    res_bind (py_format raw_glob (day_tokens d dt)) (\<lambda>pattern.
      Ok (''path LIKE '' @ in_quotes (''%'' @ replace_char CHR ''*'' ''%'' pattern))))"

definition resolve_target_dates :: "checkpoint \<Rightarrow> string option \<Rightarrow> string list res" where
  "resolve_target_dates c partition_date =
    (if filled_text partition_date then Ok [the partition_date]
     else if \<not> filled_text (ck_end c) then Ok []
     else res_bind (parse_day (the (ck_end c))) (\<lambda>end_dt.
       if \<not> filled_text (ck_start c) then Ok [show_day end_dt]
       else res_bind (parse_day (the (ck_start c))) (\<lambda>start_dt.
         if day_index start_dt < day_index end_dt
         then res_bind (next_day start_dt) (\<lambda>first.
              res_bind (days_until first end_dt) (\<lambda>ds. Ok (map show_day ds)))
         else Ok [])))"

definition partition_date_filter :: "checkpoint \<Rightarrow> string \<Rightarrow> string option \<Rightarrow> string option \<Rightarrow> string res" where
  "partition_date_filter c update_key glob_template partition_date =
    res_bind (resolve_target_dates c partition_date) (\<lambda>dates.
      if dates = [] then Ok ''1=1''
      else if filled_text glob_template then
        res_bind (res_map (path_condition
            (single_mark CHR ''}'' (single_mark CHR ''{'' (the glob_template)))) dates)
          (\<lambda>conds. Ok (''('' @ py_join '' OR '' conds @ '')''))
      else Ok (update_key @ '' IN ('' @ py_join '', '' (map in_quotes dates) @ '')''))"

definition lower_bound :: "string \<Rightarrow> string \<Rightarrow> string option \<Rightarrow> string list" where
  "lower_bound key op v =
    (if filled_text v then [key @ '' '' @ op @ '' '' @ in_quotes (format_sql_text (the v))] else [])"

definition join_preds :: "string list \<Rightarrow> string" where
  "join_preds preds = (if preds = [] then ''1=1'' else py_join '' AND '' preds)"

definition default_range_filter :: "checkpoint \<Rightarrow> string \<Rightarrow> string option \<Rightarrow> string res" where
  "default_range_filter c key partition_date =
    (let lo = lower_bound key ''>='' (ck_start c);
         eff = (if filled_text partition_date then partition_date else ck_end c)
     in if \<not> filled_text eff then Ok (join_preds lo)
        else (case parse_day (the eff) of
            Inr d \<Rightarrow> res_bind (next_day d) (\<lambda>n.
                Ok (join_preds (lo @ [key @ '' < '' @ in_quotes (show_day n @ '' 00:00:00'')])))
          | Inl _ \<Rightarrow> Ok (join_preds (lo @ lower_bound key ''<='' eff))))"

definition lsn_filter :: "checkpoint \<Rightarrow> string \<Rightarrow> string" where
  "lsn_filter c key =
    join_preds (lower_bound key ''>'' (ck_start c) @ lower_bound key ''<='' (ck_end c))"

text \<open>
  \<open>epoch\<close> is the text of \<open>datetime.fromisoformat(v).timestamp()\<close> and \<open>float_text\<close> that of \<open>float(v)\<close>, where
  they do not raise; the first depends on the local time zone.
\<close>

definition update_key_filter ::
  "(string \<Rightarrow> string option) \<Rightarrow> (string \<Rightarrow> string option) \<Rightarrow> checkpoint \<Rightarrow> string \<Rightarrow> string option \<Rightarrow> string option \<Rightarrow> string res" where
  "update_key_filter epoch float_text c key glob_template partition_date =
    (if key \<in> {''last_modified_timestamp'', ''last_modified'', ''mtime''} then
       (if \<not> filled_text (ck_start c) then Ok ''1=1''
        else (case epoch (the (ck_start c)) of
            Some ts \<Rightarrow> Ok (''last_modified > '' @ ts)
          | None \<Rightarrow> (case float_text (the (ck_start c)) of
                Some ts \<Rightarrow> Ok (''last_modified > '' @ ts)
              | None \<Rightarrow> Err ValueError)))
     else if key = ''partition_date'' then partition_date_filter c key glob_template partition_date
     else default_range_filter c key partition_date)"

definition build_incremental_filter ::
  "(string \<Rightarrow> string option) \<Rightarrow> (string \<Rightarrow> string option) \<Rightarrow> checkpoint \<Rightarrow> string option \<Rightarrow> string option \<Rightarrow> string option \<Rightarrow> string res" where
  "build_incremental_filter epoch float_text c update_key glob_template partition_date =
    (if \<not> filled_text update_key then Ok ''1=1''
     else (case ck_type c of
         CK_update_key \<Rightarrow> update_key_filter epoch float_text c (the update_key) glob_template partition_date
       | CK_lsn_offset \<Rightarrow> Ok (lsn_filter c (the update_key))
       | _ \<Rightarrow> Ok ''1=1''))"


section \<open>What the predicates say\<close>

text \<open>
  Without an explicit date, the partition filter covers the days after the start watermark up to the
  end watermark: each of them once, in order, and no other.
\<close>

theorem target_dates_cover_gap:
  assumes "ck_start c = Some s" "parse_day s = Ok a" "ck_end c = Some e" "parse_day e = Ok b"
    and "resolve_target_dates c None = Ok texts"
  shows "\<exists>ds. texts = map show_day ds \<and>
    set ds = {d. valid_day d \<and> day_index a < day_index d \<and> day_index d \<le> day_index b} \<and>
    sorted_wrt (\<lambda>x y. day_index x < day_index y) ds"
proof -
  have "s \<noteq> []" "e \<noteq> []" using assms(2,4) by (auto simp: parse_day_def)
  then have f: "filled_text (ck_start c)" "filled_text (ck_end c)" using assms(1,3) by (auto simp: filled_text_def)
  have va: "valid_day a" by (rule parse_day_valid [OF assms(2)])
  show ?thesis
  proof (cases "day_index a < day_index b")
    case False
    then have "texts = []" using assms f by (simp add: resolve_target_dates_def filled_text_def)
    then show ?thesis using False by (intro exI [of _ "[]"]) auto
  next
    case True
    then obtain n ds where n: "next_day a = Ok n" and ds: "days_until n b = Ok ds" "texts = map show_day ds"
      using assms f by (auto simp: resolve_target_dates_def filled_text_def res_bind_Ok_iff)
    show ?thesis using gap_days [OF va n ds(1)] ds(2) by blast
  qed
qed

text \<open>
  The lower bound of a range filter puts an already quoted literal between quotes again: unless the
  value is numeric, a keyword or quoted itself, a server reads the empty string there and then garbage.
\<close>

theorem watermark_quoted_twice:
  assumes "py_strip v = x # xs" "x \<noteq> QUOTE"
    and "\<not> is_numeric (py_strip v)" "\<not> is_sql_keyword (str_upper (py_strip v))"
  shows "\<exists>rest. lower_bound key op (Some v) = [key @ '' '' @ op @ '' '' @ in_quotes (format_sql_text v)] \<and>
    read_text (in_quotes (format_sql_text v)) = Some ([], x # rest)"
proof -
  have "v \<noteq> []" using assms(1) by (auto simp: py_strip_def)
  moreover have "format_sql_text v = in_quotes (replace_char QUOTE [QUOTE, QUOTE] (x # xs))"
    using assms by (simp add: format_sql_text_def Let_def is_quoted_def)
  moreover have "replace_char QUOTE [QUOTE, QUOTE] (x # xs) = x # replace_char QUOTE [QUOTE, QUOTE] xs"
    using assms(2) by (simp add: replace_char_def)
  ultimately show ?thesis
    using assms(2) by (simp add: lower_bound_def filled_text_def read_text_def in_quotes_def)
qed

theorem target_dates_cover_gap_witness:
  "\<exists>ds. [''2024-02-29'', ''2024-03-01''] = map show_day ds \<and>
     set ds = {d. valid_day d \<and> day_index (2024, 2, 28) < day_index d \<and> day_index d \<le> day_index (2024, 3, 1)} \<and>
     sorted_wrt (\<lambda>x y. day_index x < day_index y) ds"
proof -
  let ?c = "\<lparr>ck_type = CK_update_key, ck_start = Some ''2024-02-28'', ck_end = Some ''2024-03-01'', ck_payload = None\<rparr>"
  have w: "show_day (2024, 2, 28) = ''2024-02-28''" "show_day (2024, 2, 29) = ''2024-02-29''" "show_day (2024, 3, 1) = ''2024-03-01''"
    by (simp_all add: show_day_compute)
  have p: "parse_day ''2024-02-28'' = Ok (2024, 2, 28)" "parse_day ''2024-03-01'' = Ok (2024, 3, 1)"
    using parse_text_of_day [OF w(1)] parse_text_of_day [OF w(3)] by (simp_all add: month_length_def leap_year_def)
  have n: "next_day (2024, 2, 28) = Ok (2024, 2, 29)" by (simp add: month_length_def leap_year_def)
  have d: "days_until (2024, 2, 29) (2024, 3, 1) = Ok [(2024, 2, 29), (2024, 3, 1)]"
    by (simp add: days_until.simps day_le_def month_length_def leap_year_def)
  have r: "resolve_target_dates ?c None = Ok [''2024-02-29'', ''2024-03-01'']"
    by (simp add: resolve_target_dates_def filled_text_def p n d w del: next_day.simps show_day.simps One_nat_def)
  have c: "ck_start ?c = Some ''2024-02-28''" "ck_end ?c = Some ''2024-03-01''" by simp_all
  show ?thesis by (rule target_dates_cover_gap [OF c(1) p(1) c(2) p(2) r])
qed

theorem watermark_quoted_twice_witness:
  "\<exists>rest. lower_bound ''ts'' ''>='' (Some ''2024-01-01'') = [''ts >= '' @ in_quotes (format_sql_text ''2024-01-01'')] \<and>
     read_text (in_quotes (format_sql_text ''2024-01-01'')) = Some ([], CHR ''2'' # rest)"
proof -
  have "py_strip ''2024-01-01'' = CHR ''2'' # ''024-01-01''" "\<not> is_numeric (py_strip ''2024-01-01'')"
    "\<not> is_sql_keyword (str_upper (py_strip ''2024-01-01''))" by code_simp+
  then show ?thesis using watermark_quoted_twice [of "''2024-01-01''" "CHR ''2''" "''024-01-01''" "''ts''" "''>=''"]
    by (simp add: QUOTE_def)
qed

end
