(* ===== verification/Extracting.thy ===== *)
theory Extracting
  imports FileStore Checkpoints
begin

text \<open>
  The extract stage (\<open>core/stages/extract\<close>): its configuration, the flattening and typing of frames, the driver's
  row limit, the Parquet parts, the work units of both extractors, the catch-up over partition dates and the
  watermarks it records. What Ray workers return and what the file system holds are parameters.
\<close>


section \<open>Flattening\<close>

text \<open>Column types as far as flattening looks at them.\<close>

datatype dtype = DT_string | DT_other string | DT_struct "(string \<times> dtype) list"

type_synonym schema = "(string, dtype) dict"

fun struct_fields :: "dtype \<Rightarrow> (string \<times> dtype) list option" where
  "struct_fields (DT_struct fs) = Some fs"
| "struct_fields t = None"

text \<open>
  One struct column opened: \<open>with_columns\<close> adds or overwrites \<open>col_field\<close> for every field, then the column is
  dropped. A column that an earlier one of the pass has overwritten is no struct any more.
\<close>

definition unnest_column :: "string \<Rightarrow> schema \<Rightarrow> schema res" where
  "unnest_column col s =
    (case dict_get s col of
       None \<Rightarrow> Err ColumnNotFoundError
     | Some t \<Rightarrow> (case struct_fields t of
           None \<Rightarrow> Err TypeError
         | Some fs \<Rightarrow> Ok (filter (\<lambda>p. fst p \<noteq> col) (fold (\<lambda>(n, ft). dict_put (col @ ''_'' @ n) ft) fs s))))"

definition struct_cols :: "schema \<Rightarrow> string list" where
  "struct_cols s = map fst (filter (\<lambda>p. struct_fields (snd p) \<noteq> None) s)"

fun unnest_all :: "string list \<Rightarrow> schema \<Rightarrow> schema res" where
  "unnest_all [] s = Ok s"
| "unnest_all (c # cs) s = res_bind (unnest_column c s) (unnest_all cs)"

text \<open>
  The loop over depths. Without a limit it ends by itself: a pass lowers the nesting depth of the schema, which
  is the number of passes then allowed.
\<close>

fun flatten_loop :: "nat \<Rightarrow> schema \<Rightarrow> schema res" where
  "flatten_loop 0 s = Ok s"
| "flatten_loop (Suc depth) s =
    (if struct_cols s = [] then Ok s else res_bind (unnest_all (struct_cols s) s) (flatten_loop depth))"

fun struct_depth :: "dtype \<Rightarrow> nat" where
  "struct_depth (DT_struct fs) = Suc (foldr (\<lambda>p. max (struct_depth (snd p))) fs 0)"
| "struct_depth t = 0"

definition schema_depth :: "schema \<Rightarrow> nat" where
  "schema_depth s = foldr (\<lambda>p. max (struct_depth (snd p))) s 0"

text \<open>
  \<open>flatten_df\<close>; \<open>decoded c\<close> is the type a string column gets when its first value looks like a JSON object and
  decoding succeeds.
\<close>

definition decode_columns :: "(string \<Rightarrow> dtype option) \<Rightarrow> schema \<Rightarrow> schema" where
  "decode_columns decoded s =
    map (\<lambda>(c, t). (c, if t = DT_string then (case decoded c of None \<Rightarrow> t | Some t' \<Rightarrow> t') else t)) s"

definition flatten_df :: "(string \<Rightarrow> dtype option) \<Rightarrow> int \<Rightarrow> schema \<Rightarrow> schema res" where
  "flatten_df decoded flatten_val s =
    (if flatten_val = -1 then Ok s
     else let s' = decode_columns decoded s in
       flatten_loop (if flatten_val = 0 then schema_depth s' else nat flatten_val) s')"


lemma depth_le: "(c, t) \<in> set s \<Longrightarrow> struct_depth t \<le> schema_depth s"
  by (induction s) (auto simp: schema_depth_def)

lemma schema_depth_le_iff: "schema_depth s \<le> k \<longleftrightarrow> (\<forall>p\<in>set s. struct_depth (snd p) \<le> k)"
  by (induction s) (auto simp: schema_depth_def)

lemma struct_depth_fields: "struct_fields t = Some fs \<Longrightarrow> struct_depth t = Suc (schema_depth fs)"
  by (cases t) (auto simp: schema_depth_def)

lemma no_struct_depth: "struct_fields t = None \<longleftrightarrow> struct_depth t = 0"
  by (cases t) auto

lemma no_struct_cols: "struct_cols s = [] \<longleftrightarrow> schema_depth s = 0"
  using schema_depth_le_iff [of s 0] by (auto simp: struct_cols_def filter_empty_conv no_struct_depth)

lemma fold_put_set: "p \<in> set (fold (\<lambda>(k, v). dict_put (f k) v) ps s) \<Longrightarrow> p \<in> set s \<or> snd p \<in> snd ` set ps"
proof (induction ps arbitrary: s)
  case (Cons q ps)
  obtain k v where q: "q = (k, v)" by (cases q)
  have "p' \<in> set (dict_put (f k) v s) \<Longrightarrow> p' \<in> set s \<or> snd p' = v" for p'
    by (induction s) (auto split: if_splits)
  then show ?case using Cons.IH [of "dict_put (f k) v s"] Cons.prems q by fastforce
qed simp

text \<open>The columns of a pass are opened one by one; what is still to be opened keeps its type or raises.\<close>

lemma unnest_column_types:
  assumes "unnest_column c s = Ok s'" "p \<in> set s'"
  obtains "p \<in> set s" "fst p \<noteq> c" | t fs where "dict_get s c = Some t" "struct_fields t = Some fs" "snd p \<in> snd ` set fs"
  using assms fold_put_set [of p "\<lambda>n. c @ ''_'' @ n" _ s]
  by (fastforce simp: unnest_column_def split: option.splits)

lemma unnest_all_depth:
  assumes "unnest_all cs s = Ok s'" "schema_depth s \<le> Suc k"
    and "\<forall>p\<in>set s. fst p \<notin> set cs \<longrightarrow> struct_depth (snd p) \<le> k"
  shows "schema_depth s' \<le> k"
  using assms
proof (induction cs arbitrary: s)
  case Nil
  then show ?case by (auto simp: schema_depth_le_iff)
next
  case (Cons c cs)
  obtain s1 where s1: "unnest_column c s = Ok s1" "unnest_all cs s1 = Ok s'"
    using Cons.prems(1) by (auto simp: res_bind_Ok_iff)
  have types: "p \<in> set s \<and> fst p \<noteq> c \<or> struct_depth (snd p) \<le> k" if p: "p \<in> set s1" for p
    using s1(1) p
  proof (cases rule: unnest_column_types)
    case (2 t fs)
    have "(c, t) \<in> set s" using 2(1) by (rule map_of_SomeD)
    then have "struct_depth t \<le> Suc k" using depth_le Cons.prems(2) le_trans by blast
    then have "schema_depth fs \<le> k" using struct_depth_fields [OF 2(2)] by simp
    then show ?thesis using 2(3) by (auto simp: schema_depth_le_iff)
  qed simp
  show ?case
  proof (rule Cons.IH [OF s1(2)])
    show "schema_depth s1 \<le> Suc k"
      using types Cons.prems(2) by (fastforce simp: schema_depth_le_iff)
    show "\<forall>p\<in>set s1. fst p \<notin> set cs \<longrightarrow> struct_depth (snd p) \<le> k"
      using types Cons.prems(3) by fastforce
  qed
qed

lemma flatten_loop_depth: "flatten_loop n s = Ok s' \<Longrightarrow> schema_depth s \<le> n + k \<Longrightarrow> schema_depth s' \<le> k"
proof (induction n arbitrary: s)
  case (Suc n)
  show ?case
  proof (cases "struct_cols s = []")
    case True
    then show ?thesis using Suc.prems by (simp add: no_struct_cols)
  next
    case False
    then obtain s1 where s1: "unnest_all (struct_cols s) s = Ok s1" "flatten_loop n s1 = Ok s'"
      using Suc.prems(1) by (auto simp: res_bind_Ok_iff)
    have "schema_depth s1 \<le> n + k"
    proof (rule unnest_all_depth [OF s1(1)])
      show "schema_depth s \<le> Suc (n + k)" using Suc.prems(2) by simp
      show "\<forall>p\<in>set s. fst p \<notin> set (struct_cols s) \<longrightarrow> struct_depth (snd p) \<le> n + k"
        by (auto simp: struct_cols_def no_struct_depth)
    qed
    then show ?thesis by (rule Suc.IH [OF s1(2)])
  qed
qed simp

text \<open>
  Flattening reaches the depth it was asked for: with depth 0 no struct column remains, with a positive
  depth the nesting is that many levels lower.
\<close>

theorem flatten_reaches_depth:
  assumes "flatten_df decoded n s = Ok s'" "0 \<le> n"
  shows "if n = 0 then struct_cols s' = []
    else schema_depth s' \<le> schema_depth (decode_columns decoded s) - nat n"
proof (cases "n = 0")
  case True
  then show ?thesis
    using assms flatten_loop_depth [of "schema_depth (decode_columns decoded s)" "decode_columns decoded s" s' 0]
    by (simp add: flatten_df_def Let_def no_struct_cols)
next
  case False
  let ?s = "decode_columns decoded s"
  have "flatten_loop (nat n) ?s = Ok s'" using assms False by (simp add: flatten_df_def Let_def)
  then show ?thesis using False flatten_loop_depth [of "nat n" ?s s' "schema_depth ?s - nat n"] by simp
qed

lemma fold_put_dict_keys: "fst ` set (fold (\<lambda>(k, v). dict_put (f k) v) ps s) = fst ` set s \<union> f ` fst ` set ps"
  by (induction ps arbitrary: s) (simp_all add: dict_keys_put split_beta insert_commute)

lemma fold_put_dict_ok: "dict_ok s \<Longrightarrow> dict_ok (fold (\<lambda>(k, v). dict_put (f k) v) ps s)"
  by (induction ps arbitrary: s) auto

lemma dict_length: "dict_ok s \<Longrightarrow> length s = card (fst ` set s)"
  by (metis distinct_card length_map set_map)

text \<open>
  Opening a struct column costs one column for every field whose derived name is taken: the column that
  had the name is overwritten, without an error.
\<close>

theorem unnest_overwrites:
  assumes "dict_ok s" "dict_get s c = Some (DT_struct fs)" "distinct (map fst fs)"
  shows "\<exists>s'. unnest_column c s = Ok s' \<and>
    length s' + 1 + card ((\<lambda>n. c @ ''_'' @ n) ` fst ` set fs \<inter> fst ` set s) = length s + length fs"
proof -
  let ?f = "\<lambda>n. c @ ''_'' @ n"
  define new where "new = fold (\<lambda>(n, ft). dict_put (?f n) ft) fs s"
  let ?A = "fst ` set s" and ?B = "?f ` fst ` set fs"
  have ok: "dict_ok new" unfolding new_def by (rule fold_put_dict_ok [OF assms(1)])
  have keys: "fst ` set new = ?A \<union> ?B" unfolding new_def by (rule fold_put_dict_keys)
  have u: "unnest_column c s = Ok (filter (\<lambda>p. fst p \<noteq> c) new)" using assms(2) by (simp add: unnest_column_def new_def)
  have "c \<in> fst ` set new" unfolding keys using assms(2) by (metis UnI1 domI dom_map_of_conv_image_fst)
  moreover have "fst ` set (filter (\<lambda>p. fst p \<noteq> c) new) = fst ` set new - {c}" by auto
  moreover have "dict_ok (filter (\<lambda>p. fst p \<noteq> c) new)" using ok by (simp add: distinct_map_filter)
  ultimately have "length (filter (\<lambda>p. fst p \<noteq> c) new) + 1 = length new"
    using ok card_Suc_Diff1 [of "fst ` set new" c] by (simp add: dict_length)
  moreover have "card ?B = length fs"
    by (subst card_image) (auto simp: inj_on_def distinct_card [OF assms(3), simplified])
  moreover have "length new + card (?A \<inter> ?B) = length s + card ?B"
    using dict_length [OF ok] dict_length [OF assms(1)] card_Un_Int [of ?A ?B] keys by simp
  ultimately show ?thesis using u by (simp add: Int_commute)
qed

definition nested_schema :: schema where
  "nested_schema = [(''a_b'', DT_other ''Int64''),
     (''a'', DT_struct [(''b'', DT_string), (''c'', DT_struct [(''d'', DT_string)])])]"

theorem flatten_reaches_depth_witness:
  "flatten_df (\<lambda>_. None) 0 nested_schema = Ok [(''a_b'', DT_string), (''a_c_d'', DT_string)] \<and>
   struct_cols [(''a_b'', DT_string), (''a_c_d'', DT_string)] = []"
proof -
  have f: "flatten_df (\<lambda>_. None) 0 nested_schema = Ok [(''a_b'', DT_string), (''a_c_d'', DT_string)]" by code_simp
  show ?thesis using flatten_reaches_depth [OF f] f by simp
qed

theorem unnest_overwrites_witness:
  "\<exists>s'. unnest_column ''a'' nested_schema = Ok s' \<and> length s' + 1 + 1 = 2 + 2"
proof -
  have "card ((\<lambda>n. ''a'' @ ''_'' @ n) ` fst ` set [(''b'', DT_string), (''c'', DT_struct [(''d'', DT_string)])] \<inter> fst ` set nested_schema) = 1"
    by (simp add: nested_schema_def)
  then show ?thesis
    using unnest_overwrites [of nested_schema "''a''" "[(''b'', DT_string), (''c'', DT_struct [(''d'', DT_string)])]"]
    by (simp add: nested_schema_def numeral_eq_Suc)
qed


section \<open>The schema contract\<close>

text \<open>A typed column: its name, Polars type and values. \<open>txt\<close> is the text of a value of a string column.\<close>

type_synonym 'v column = "string \<times> polars_type \<times> 'v option list"

definition null_out :: "('v \<Rightarrow> string) \<Rightarrow> string list \<Rightarrow> 'v column \<Rightarrow> 'v column" where
  "null_out txt null_if = (\<lambda>(n, t, vs).
    (n, t, if t \<in> {PL_utf8, PL_categorical}
           then map (\<lambda>v. case v of None \<Rightarrow> None | Some x \<Rightarrow> if txt x \<in> set null_if then None else v) vs
           else vs))"

text \<open>\<open>cast\<close> is Polars' strict cast of a column.\<close>

definition target_type ::
  "template_dir \<Rightarrow> string \<Rightarrow> (string, string) dict \<Rightarrow> 'v column \<Rightarrow> ('v column \<times> polars_type option) res" where
  "target_type dir dialect overrides col =
    (case dict_get overrides (fst col) of
       None \<Rightarrow> Ok (col, None)
     | Some raw \<Rightarrow> res_bind (resolve_to_polars dir dialect raw) (\<lambda>t. Ok (col, Some t)))"

definition cast_column ::
  "(polars_type \<Rightarrow> 'v option list \<Rightarrow> 'v option list res) \<Rightarrow> 'v column \<times> polars_type option \<Rightarrow> 'v column res" where
  "cast_column cast = (\<lambda>((n, t, vs), want).
    (case want of
       None \<Rightarrow> Ok (n, t, vs)
     | Some t' \<Rightarrow> if t = t' then Ok (n, t, vs) else res_bind (cast t' vs) (\<lambda>vs'. Ok (n, t', vs'))))"

definition apply_schema_contract ::
  "template_dir \<Rightarrow> string \<Rightarrow> ('v \<Rightarrow> string) \<Rightarrow> (polars_type \<Rightarrow> 'v option list \<Rightarrow> 'v option list res) \<Rightarrow>
   string list \<Rightarrow> (string, string) dict \<Rightarrow> 'v column list \<Rightarrow> 'v column list res" where
  "apply_schema_contract dir dialect txt cast null_if overrides cols =
    (if cols = [] then Ok []
     else
       let cols' = map (null_out txt null_if) cols in
       if overrides = [] then Ok cols'
       else res_bind (res_map (target_type dir dialect overrides) cols') (res_map (cast_column cast)))"

lemma null_out_fst [simp]: "fst (null_out txt null_if col) = fst col"
  by (simp add: null_out_def split_beta)

lemma res_map_Err: "x \<in> set xs \<Longrightarrow> f x = Err e \<Longrightarrow> (\<And>y e'. y \<in> set xs \<Longrightarrow> f y = Err e' \<Longrightarrow> e' = e) \<Longrightarrow> res_map f xs = Err e"
proof (induction xs)
  case (Cons a xs)
  show ?case
  proof (cases "f a")
    case (Inl e')
    then have "e' = e" using Cons.prems(3) [of a e'] by simp
    then show ?thesis using Inl by simp
  next
    case (Inr b)
    then have "x \<noteq> a" using Cons.prems(2) by auto
    then have x: "x \<in> set xs" using Cons.prems(1) by simp
    have "res_map f xs = Err e"
      by (rule Cons.IH [OF x Cons.prems(2) Cons.prems(3)]) simp_all
    then show ?thesis using Inr by simp
  qed
qed simp

text \<open>
  Types asked for in the job's \<open>columns\<close> never take effect: they are looked up under the connection's
  type, which names the extractor (\<open>file\<close>, \<open>database\<close>) and is no SQL dialect, so the first chunk with such a
  column raises \<open>ValueError\<close>.
\<close>

theorem column_types_unusable:
  assumes "dialect_of (str_lower conn_type) = Err ValueError"
    and "col \<in> set cols" "dict_get overrides (fst col) = Some raw"
  shows "apply_schema_contract dir conn_type txt cast null_if overrides cols = Err ValueError"
proof -
  have res: "resolve_to_polars dir conn_type t = Err ValueError" for t
    using assms(1) by (simp add: resolve_to_polars_def resolve_to_group_def db_to_generic_type_def)
  have tt: "target_type dir conn_type overrides c =
      (if dict_get overrides (fst c) = None then Ok (c, None) else Err ValueError)" for c
    by (auto simp: target_type_def res split: option.splits)
  have "res_map (target_type dir conn_type overrides) (map (null_out txt null_if) cols) = Err ValueError"
    by (rule res_map_Err [of "null_out txt null_if col"]) (use assms(2,3) in \<open>auto simp: tt split: if_splits\<close>)
  moreover have "cols \<noteq> []" "overrides \<noteq> []" using assms(2,3) by auto
  ultimately show ?thesis by (simp add: apply_schema_contract_def Let_def)
qed

theorem column_types_unusable_witness:
  "apply_schema_contract (\<lambda>_. None) ''database'' id (\<lambda>_ vs. Ok vs) [] [(''id'', ''Int64'')] [(''id'', PL_utf8, [Some ''1''])] = Err ValueError \<and>
   apply_schema_contract (\<lambda>_. None) ''File'' id (\<lambda>_ vs. Ok vs) [] [(''id'', ''Int64'')] [(''id'', PL_utf8, [Some ''1''])] = Err ValueError"
proof -
  have d: "dialect_of (str_lower ''database'') = Err ValueError" "dialect_of (str_lower ''File'') = Err ValueError"
    by code_simp+
  show ?thesis using column_types_unusable [OF d(1), of "(''id'', PL_utf8, [Some ''1''])"]
      column_types_unusable [OF d(2), of "(''id'', PL_utf8, [Some ''1''])"] by simp
qed

text \<open>Without such types the contract changes values only, and those only to null.\<close>

lemma contract_without_types:
  "apply_schema_contract dir dialect txt cast null_if [] cols = Ok (map (null_out txt null_if) cols)"
  by (simp add: apply_schema_contract_def)


section \<open>Batches and parts\<close>

text \<open>
  A generator is what it yields and the error that ends it, if one does. The driver stops the stream at the
  row limit; it takes nothing more from the workers then, so a later error stays unseen.
\<close>

type_synonym 'f gen = "'f list \<times> py_error option"

fun limit_batches :: "int option \<Rightarrow> py_error option \<Rightarrow> int \<Rightarrow> 'v frame list \<Rightarrow> 'v frame gen" where
  "limit_batches limit final acc [] = ([], final)"
| "limit_batches limit final acc (b # bs) =
    (let n = int (length (fr_rows b)) in
     if limit \<noteq> None \<and> the limit \<le> acc then ([], None)
     else if n = 0 then limit_batches limit final acc bs
     else if limit \<noteq> None \<and> the limit < acc + n
     then ([b\<lparr>fr_rows := take (nat (the limit - acc)) (fr_rows b)\<rparr>], None)
     else (let (out, e) = limit_batches limit final (acc + n) bs in (b # out, e)))"

text \<open>What \<open>_write_parquet\<close> yields for a part; \<open>peak\<close> is the text of a column's maximum, if it has one.\<close>

datatype fact = F_path string | F_rows nat | F_schema "string list" | F_text "string option"

type_synonym file_data = "(string, fact) dict"

definition pad4 :: "nat \<Rightarrow> string" where
  "pad4 n = replicate (4 - length (show_nat n)) CHR ''0'' @ show_nat n"

definition part_path :: "string \<Rightarrow> nat \<Rightarrow> string" where
  "part_path dest i = dest @ ''/part_'' @ pad4 i @ ''.parquet''"

definition chunk_max :: "(string \<Rightarrow> 'v frame \<Rightarrow> string option) \<Rightarrow> string option \<Rightarrow> 'v frame \<Rightarrow> string option" where
  "chunk_max peak update_key f =
    (if filled update_key \<and> the update_key \<in> set (fr_names f) then peak (the update_key) f else None)"

definition part_data :: "(string \<Rightarrow> 'v frame \<Rightarrow> string option) \<Rightarrow> string option \<Rightarrow> string \<Rightarrow> 'v frame \<Rightarrow> file_data" where
  "part_data peak update_key path f =
    [(''path'', F_path path), (''rows'', F_rows (length (fr_rows f))), (''schema'', F_schema (fr_names f)),
     (''max_watermark'', F_text (chunk_max peak update_key f))]"

fun write_parquet ::
  "(string \<Rightarrow> 'v frame \<Rightarrow> string option) \<Rightarrow> string \<Rightarrow> string option \<Rightarrow> nat \<Rightarrow> 'v frame list \<Rightarrow> (file_data \<times> 'v frame) list" where
  "write_parquet peak dest update_key i [] = []"
| "write_parquet peak dest update_key i (f # fs) =
    (if fr_rows f = [] then write_parquet peak dest update_key (Suc i) fs
     else (part_data peak update_key (part_path dest i) f, f) # write_parquet peak dest update_key (Suc i) fs)"

text \<open>The readings the stage makes of a part.\<close>

definition fact_text :: "file_data \<Rightarrow> string \<Rightarrow> string option" where
  "fact_text d k = (case dict_get d k of Some (F_text t) \<Rightarrow> t | _ \<Rightarrow> None)"

definition fact_path :: "file_data \<Rightarrow> string" where
  "fact_path d = (case dict_get d ''path'' of Some (F_path p) \<Rightarrow> p | _ \<Rightarrow> [])"

definition fact_rows :: "file_data \<Rightarrow> nat" where
  "fact_rows d = (case dict_get d ''rows'' of Some (F_rows n) \<Rightarrow> n | _ \<Rightarrow> 0)"

lemma limit_batches_rows:
  "concat (map fr_rows (fst (limit_batches limit final acc bs))) =
     (case limit of None \<Rightarrow> concat (map fr_rows bs) | Some n \<Rightarrow> take (nat (n - acc)) (concat (map fr_rows bs))) \<and>
   list_all (\<lambda>f. fr_rows f \<noteq> []) (fst (limit_batches limit final acc bs))"
proof (induction bs arbitrary: acc)
  case (Cons b bs)
  let ?n = "int (length (fr_rows b))"
  consider (stop) "limit \<noteq> None" "the limit \<le> acc" | (empty) "\<not> (limit \<noteq> None \<and> the limit \<le> acc)" "?n = 0"
    | (cut) "limit \<noteq> None" "\<not> the limit \<le> acc" "?n \<noteq> 0" "the limit < acc + ?n"
    | (full) "\<not> (limit \<noteq> None \<and> the limit \<le> acc)" "?n \<noteq> 0" "\<not> (limit \<noteq> None \<and> the limit < acc + ?n)" by blast
  then show ?case
  proof cases
    case cut
    then have "nat (the limit - acc) < length (fr_rows b)" "0 < nat (the limit - acc)" by auto
    then show ?thesis using cut by (auto simp: Let_def)
  next
    case full
    obtain out e where oe: "limit_batches limit final (acc + ?n) bs = (out, e)" by fastforce
    have "nat (m - acc) = length (fr_rows b) + nat (m - (acc + ?n))" if "limit = Some m" for m
      using full that by auto
    then show ?thesis using Cons [of "acc + ?n"] full oe by (auto simp: Let_def split: option.splits)
  qed (use Cons [of acc] in \<open>auto simp: Let_def split: option.splits\<close>)
qed (simp split: option.split)

lemma pad4_inj: "pad4 i = pad4 j \<Longrightarrow> i = j"
proof -
  have zeros: "foldl (\<lambda>n c. 10 * n + digit_val c) 0 (replicate k CHR ''0'' @ s) = foldl (\<lambda>n c. 10 * n + digit_val c) 0 s" for k s
    by (induction k) (simp_all add: digit_val_def)
  have "foldl (\<lambda>n c. 10 * n + digit_val c) 0 (pad4 n) = n" for n
    by (simp only: pad4_def zeros show_nat_value)
  then show "pad4 i = pad4 j \<Longrightarrow> i = j" by metis
qed

lemma part_path_inj: "part_path dest i = part_path dest j \<longleftrightarrow> i = j"
  using pad4_inj by (auto simp: part_path_def)

lemma part_data_facts [simp]:
  "fact_path (part_data peak k p f) = p" "fact_rows (part_data peak k p f) = length (fr_rows f)"
  "fact_text (part_data peak k p f) ''max_checkpoint'' = None" "fact_text (part_data peak k p f) ''min_checkpoint'' = None"
  by (simp_all add: part_data_def fact_path_def fact_rows_def fact_text_def)

lemma write_parquet_paths:
  "\<exists>ks. map (fact_path \<circ> fst) (write_parquet peak dest key i fs) = map (part_path dest) ks \<and> distinct ks \<and> (\<forall>k\<in>set ks. i \<le> k)"
proof (induction fs arbitrary: i)
  case Nil
  show ?case by (intro exI [of _ "[]"]) simp
next
  case (Cons f fs)
  obtain ks where ks: "map (fact_path \<circ> fst) (write_parquet peak dest key (Suc i) fs) = map (part_path dest) ks"
    "distinct ks" "\<forall>k\<in>set ks. Suc i \<le> k" using Cons by blast
  show ?case
  proof (cases "fr_rows f = []")
    case True
    then show ?thesis using ks by (intro exI [of _ ks]) (auto simp: Suc_le_eq comp_def)
  next
    case False
    then show ?thesis using ks by (intro exI [of _ "i # ks"]) (auto simp: Suc_le_eq comp_def)
  qed
qed

lemma write_parquet_frames:
  "map snd (write_parquet peak dest key i fs) = filter (\<lambda>f. fr_rows f \<noteq> []) fs"
  by (induction fs arbitrary: i) auto

lemma write_parquet_facts:
  "p \<in> set (write_parquet peak dest key i fs) \<Longrightarrow> fact_rows (fst p) = length (fr_rows (snd p)) \<and>
     fact_text (fst p) ''max_checkpoint'' = None \<and> fact_text (fst p) ''min_checkpoint'' = None"
  by (induction fs arbitrary: i) (auto split: if_splits)


section \<open>Work units\<close>

datatype work_unit = U_query string | U_files "string list"

definition captured_sources :: "work_unit list \<Rightarrow> string list" where
  "captured_sources us =
    (case us of
       U_files _ # _ \<Rightarrow> concat (map (\<lambda>u. case u of U_files fs \<Rightarrow> fs | U_query _ \<Rightarrow> []) us)
     | _ \<Rightarrow> [])"

text \<open>
  \<open>DataExtractor.extract\<close>: \<open>stream\<close> is what the workers return for the units, flattened and typed, in the
  batches the driver asks for.
\<close>

definition data_extract ::
  "(string \<Rightarrow> 'v frame \<Rightarrow> string option) \<Rightarrow> (work_unit list \<Rightarrow> 'v frame gen) \<Rightarrow> int option \<Rightarrow> string option \<Rightarrow> string \<Rightarrow>
   work_unit list res \<Rightarrow> (file_data \<times> 'v frame) gen" where
  "data_extract peak stream limit update_key dest units =
    (case units of
       Inl e \<Rightarrow> ([], Some e)
     | Inr us \<Rightarrow>
        if us = [] then ([], Some ValueError)
        else let (bs, final) = stream us; (fs, e) = limit_batches limit final 0 bs
          in (write_parquet peak dest update_key 0 fs, e))"

text \<open>
  The parts an extraction writes hold, in order, the rows of the stream up to the row limit; no part is
  empty, every part states its own row count, and no two share a file.
\<close>

theorem extraction_writes_limit:
  assumes "us \<noteq> []" "stream us = (bs, final)"
    and "data_extract peak stream limit update_key dest (Ok us) = (parts, e)"
  shows "concat (map (fr_rows \<circ> snd) parts) =
      (case limit of None \<Rightarrow> concat (map fr_rows bs) | Some n \<Rightarrow> take (nat n) (concat (map fr_rows bs))) \<and>
    list_all (\<lambda>p. fr_rows (snd p) \<noteq> [] \<and> fact_rows (fst p) = length (fr_rows (snd p))) parts \<and>
    distinct (map (fact_path \<circ> fst) parts)"
proof -
  obtain fs where fs: "limit_batches limit final 0 bs = (fs, e)" and parts: "parts = write_parquet peak dest update_key 0 fs"
    using assms by (auto simp: data_extract_def split: prod.splits)
  note rows = limit_batches_rows [of limit final 0 bs, unfolded fs fst_conv diff_zero]
  then have "filter (\<lambda>f. fr_rows f \<noteq> []) fs = fs" by (auto simp: list_all_iff)
  then have snd: "map snd parts = fs" unfolding parts write_parquet_frames .
  then have "map (fr_rows \<circ> snd) parts = map fr_rows fs" by (metis map_map)
  moreover have "list_all (\<lambda>p. fr_rows (snd p) \<noteq> [] \<and> fact_rows (fst p) = length (fr_rows (snd p))) parts"
    unfolding list_all_iff
  proof
    fix p assume p: "p \<in> set parts"
    then have "snd p \<in> set fs" using snd by (metis image_eqI set_map)
    then have "fr_rows (snd p) \<noteq> []" using rows by (simp add: list_all_iff)
    then show "fr_rows (snd p) \<noteq> [] \<and> fact_rows (fst p) = length (fr_rows (snd p))"
      using write_parquet_facts p [unfolded parts] by blast
  qed
  moreover have "distinct (map (fact_path \<circ> fst) parts)"
  proof -
    obtain ks where "map (fact_path \<circ> fst) parts = map (part_path dest) ks" "distinct ks"
      using write_parquet_paths [of peak dest update_key 0 fs] parts by blast
    moreover have "inj (part_path dest)" by (rule injI) (simp add: part_path_inj)
    ultimately show ?thesis by (simp only: distinct_map) (meson inj_on_subset subset_UNIV)
  qed
  ultimately show ?thesis using rows by simp
qed


subsection \<open>From files\<close>

text \<open>\<open>resolve_file_params\<close>.\<close>

definition has_wildcard :: "string \<Rightarrow> bool" where
  "has_wildcard s \<longleftrightarrow> CHR ''*'' \<in> set s \<or> CHR ''?'' \<in> set s"

definition resolve_file_params :: "string \<Rightarrow> string option \<Rightarrow> string \<Rightarrow> (string \<times> string option) res" where
  "resolve_file_params resource glob pdate =
    (let split = \<not> filled glob \<and> resource \<noteq> [] \<and> has_wildcard resource;
         target = (if split then path_parent resource else resource);
         pattern = (if split then Some (path_name resource) else glob)
     in if filled pattern
        then res_bind (py_format (the pattern) [(''partition_date'', pdate)]) (\<lambda>p. Ok (target, Some p))
        else Ok (target, pattern))"

definition file_units ::
  "'d file_client \<Rightarrow> (string \<Rightarrow> file_meta list \<Rightarrow> file_meta list res) \<Rightarrow> (string \<Rightarrow> (string \<Rightarrow> bool) res) \<Rightarrow>
   string \<Rightarrow> string option \<Rightarrow> int \<Rightarrow> string \<Rightarrow> string option \<Rightarrow> 'd \<Rightarrow> work_unit list res" where
  "file_units fc sql rx resource glob num_workers pdate pred d =
    res_bind (resolve_file_params resource glob pdate) (\<lambda>(target, pattern).
    res_bind (file_parallelize fc sql rx target (Some num_workers)
        (if filled pred \<and> has_sub ''path LIKE'' (the pred) then None else pattern) pred d) (\<lambda>us.
      Ok (map U_files us)))"

text \<open>
  The date tokens the watermark filter knows beyond \<open>partition_date\<close> cannot be used: the extractor formats the
  same glob with the partition date alone first, and any other field ends the extraction with \<open>KeyError\<close>, even
  when the filter's own path patterns were going to replace the glob.
\<close>

theorem other_date_tokens_fail:
  assumes "filled glob" "py_format (the glob) [(''partition_date'', pdate)] = Err KeyError"
  shows "file_units fc sql rx resource glob num_workers pdate pred d = Err KeyError"
  using assms by (simp add: file_units_def resolve_file_params_def)

theorem other_date_tokens_fail_witness:
  "partition_date_filter \<lparr>ck_type = CK_update_key, ck_start = None, ck_end = None, ck_payload = None\<rparr>
     ''partition_date'' (Some ''{DD}*'') (Some ''2024-02-29'') = Ok (''(path LIKE '' @ in_quotes ''%29%'' @ '')'') \<and>
   file_units flat_client (\<lambda>_ fs. Ok fs) (\<lambda>_. Ok (\<lambda>_. True)) ''in'' (Some ''{DD}*'') 2 ''2024-02-29''
     (Some (''(path LIKE '' @ in_quotes ''%29%'' @ '')'')) [''in''] = Err KeyError"
proof
  show "file_units flat_client (\<lambda>_ fs. Ok fs) (\<lambda>_. Ok (\<lambda>_. True)) ''in'' (Some ''{DD}*'') 2 ''2024-02-29''
      (Some (''(path LIKE '' @ in_quotes ''%29%'' @ '')'')) [''in''] = Err KeyError"
  proof (rule other_date_tokens_fail)
    show "filled (Some ''{DD}*'')" by (simp add: filled_def)
    show "py_format (the (Some ''{DD}*'')) [(''partition_date'', ''2024-02-29'')] = Err KeyError"
      by code_simp
  qed
  have p: "parse_day ''2024-02-29'' = Ok (2024, 2, 29)"
    by (rule parse_text_of_day) (simp_all add: show_day_compute month_length_def leap_year_def)
  have g: "single_mark CHR ''}'' (single_mark CHR ''{'' ''{DD}*'') = ''{DD}*''" by code_simp
  have f: "py_format ''{DD}*'' (day_tokens ''2024-02-29'' (2024, 2, 29)) = Ok ''29*''"
    by (simp add: show_day_compute)
  have c: "path_condition ''{DD}*'' ''2024-02-29'' = Ok (''path LIKE '' @ in_quotes ''%29%'')"
    unfolding path_condition_def p by (simp only: res_bind_simps f) code_simp
  show "partition_date_filter \<lparr>ck_type = CK_update_key, ck_start = None, ck_end = None, ck_payload = None\<rparr>
     ''partition_date'' (Some ''{DD}*'') (Some ''2024-02-29'') = Ok (''(path LIKE '' @ in_quotes ''%29%'' @ '')'')"
    using c by (simp add: partition_date_filter_def resolve_target_dates_def filled_text_def g)
qed


subsection \<open>From databases\<close>

text \<open>
  \<open>parse_extract_config\<close> names the source table \<open>from\<close>, which is no field of a query block, so the block has
  no table. \<open>parallelize\<close> writes the merged predicate back into the block it is given.
\<close>

definition extract_sql_context ::
  "string list option \<Rightarrow> conditions \<Rightarrow> int option \<Rightarrow> string option \<Rightarrow> sql_context" where
  "extract_sql_context sel wh lim sql =
    \<lparr>ctx_ctes = [],
     ctx_main = Some \<lparr>sb_name = None, sb_from_table = None, sb_select = sel, sb_joins = None, sb_where = wh,
       sb_group_by = None, sb_having = One P_none, sb_qualify = One P_none, sb_order_by = None, sb_limit = lim, sb_sql = sql\<rparr>,
     ctx_sql = None, ctx_sql_file = None\<rparr>"

definition merged_context :: "sql_context \<Rightarrow> string option \<Rightarrow> sql_context res" where
  "merged_context cx pred =
    (case ctx_main cx of
       None \<Rightarrow> Ok cx
     | Some b \<Rightarrow> res_bind (merge_predicate (sb_where b) pred) (\<lambda>w. Ok (cx\<lparr>ctx_main := Some (b\<lparr>sb_where := w\<rparr>)\<rparr>)))"

text \<open>
  \<open>DatabaseExtractor._get_work_units\<close> and the context it leaves behind. The key fields are passed under a name
  \<open>parallelize\<close> does not read, so it partitions by all columns.
\<close>

definition db_units ::
  "'d sql_service \<Rightarrow> string \<Rightarrow> int \<Rightarrow> string option \<Rightarrow> sql_context \<Rightarrow> 'd \<Rightarrow> work_unit list res \<times> sql_context" where
  "db_units sv resource num_workers pred cx d =
    (if resource = [] then (Err ValueError, cx)
     else (res_bind (parallelize sv resource (Some cx) (Some num_workers) pred [] d) (\<lambda>qs. Ok (map U_query qs)),
           (case merged_context cx pred of Inl _ \<Rightarrow> cx | Inr cx' \<Rightarrow> cx')))"

text \<open>
  A database extraction configured by table name alone never produces a query: its block has neither a
  table nor SQL text, and compiling it raises.
\<close>

theorem table_extraction_never_compiles:
  assumes "\<not> filled sql" "resource \<noteq> []" "wh = One P_none"
  shows "fst (db_units sv resource num_workers pred (extract_sql_context sel wh lim sql) d) = Err SQLCompilationError"
  using assms
  by (simp add: db_units_def parallelize_def source_query_def extract_sql_context_def merge_predicate_def
      compile_context_def compile_select_block_def filled_def split: option.split)

text \<open>The predicate of the block after the extractions of several partitions.\<close>

definition block_where :: "sql_context \<Rightarrow> conditions" where
  "block_where cx = (case ctx_main cx of None \<Rightarrow> One P_none | Some b \<Rightarrow> sb_where b)"

fun merge_all :: "sql_context \<Rightarrow> string list \<Rightarrow> sql_context res" where
  "merge_all cx [] = Ok cx"
| "merge_all cx (p # ps) = res_bind (merged_context cx (Some p)) (\<lambda>cx'. merge_all cx' ps)"

definition both :: "string \<Rightarrow> string \<Rightarrow> string" where
  "both a b = ''('' @ a @ '') AND ('' @ b @ '')''"

lemma both_kept: "both a b \<noteq> [] \<and> py_strip (both a b) \<noteq> ''1=1''"
proof -
  have "py_strip (both a b) = both a b" by (rule py_strip_id) (simp add: both_def is_space_def)
  then show ?thesis by (simp add: both_def)
qed

lemma merged_context_text:
  assumes "ctx_main cx = Some b" "sb_where b = One (P_str w)" "w \<noteq> []" "py_strip w \<noteq> ''1=1''"
  shows "merged_context cx (Some p) = Ok (cx\<lparr>ctx_main := Some (b\<lparr>sb_where := One (P_str (both w p))\<rparr>)\<rparr>)"
  using assms by (simp add: merged_context_def merge_predicate_def both_def)

text \<open>
  Over a catch-up the predicates pile up: the query of every further partition asks for rows that satisfy
  the predicates of all partitions before it as well. A row the first predicate excludes, any day after the
  first, is in no later extract either. (\<open>sat\<close> reads the conjunction of two texts as such.)
\<close>

theorem catch_up_predicates_pile_up:
  assumes sem: "\<And>a b. sat (both a b) \<longleftrightarrow> sat a \<and> sat b"
    and "ctx_main cx = Some b" "sb_where b = One P_none" "p \<noteq> []" "py_strip p \<noteq> ''1=1''"
  shows "\<exists>cx' w. merge_all cx (p # ps) = Ok cx' \<and> block_where cx' = One (P_str w) \<and>
    (sat w \<longleftrightarrow> sat p \<and> list_all sat ps)"
proof -
  have later: "\<exists>cx' w'. merge_all cx ps = Ok cx' \<and> block_where cx' = One (P_str w') \<and> (sat w' \<longleftrightarrow> sat w \<and> list_all sat ps)"
    if "ctx_main cx = Some b" "sb_where b = One (P_str w)" "w \<noteq> []" "py_strip w \<noteq> ''1=1''" for cx b w
    using that
  proof (induction ps arbitrary: cx b w)
    case Nil
    then show ?case by (simp add: block_where_def)
  next
    case (Cons q ps)
    let ?b = "b\<lparr>sb_where := One (P_str (both w q))\<rparr>"
    have "\<exists>cx' w'. merge_all (cx\<lparr>ctx_main := Some ?b\<rparr>) ps = Ok cx' \<and> block_where cx' = One (P_str w') \<and>
        (sat w' \<longleftrightarrow> sat (both w q) \<and> list_all sat ps)"
      using both_kept by (intro Cons.IH [of _ ?b]) simp_all
    then show ?case using merged_context_text [OF Cons.prems] sem by auto
  qed
  have "merged_context cx (Some p) = Ok (cx\<lparr>ctx_main := Some (b\<lparr>sb_where := One (P_str p)\<rparr>)\<rparr>)"
    using assms by (simp add: merged_context_def merge_predicate_def)
  then show ?thesis using later [of "cx\<lparr>ctx_main := Some (b\<lparr>sb_where := One (P_str p)\<rparr>)\<rparr>"] assms(4,5) by simp
qed


section \<open>The stage\<close>

record extract_config =
  xc_resource :: string
  xc_conn_type :: string
  xc_glob :: "string option"
  xc_mode :: "write_mode option"
  xc_update_key :: "string option"

text \<open>A mode that is no \<open>WriteMode\<close> value, or none, is \<open>None\<close>.\<close>

definition resolve_target_partitions :: "extract_config \<Rightarrow> string \<Rightarrow> checkpoint \<Rightarrow> string list res" where
  "resolve_target_partitions cfg pdate c =
    (if xc_mode cfg \<noteq> Some WM_delta then Ok [pdate]
     else if \<not> filled_text (ck_start c) then Ok [pdate]
     else (case (parse_day (the (ck_start c)), parse_day pdate) of
         (Inr start_dt, Inr end_dt) \<Rightarrow>
           if day_index end_dt \<le> day_index start_dt then Ok [pdate]
           else res_bind (next_day start_dt) (\<lambda>first.
                res_bind (days_until first end_dt) (\<lambda>ds. Ok (if ds = [] then [pdate] else map show_day ds)))
       | _ \<Rightarrow> Ok [pdate]))"

definition update_checkpoint :: "extract_config \<Rightarrow> string \<Rightarrow> checkpoint \<Rightarrow> checkpoint res" where
  "update_checkpoint cfg pdate c =
    (let key_payload = Some [(''update_key'', xc_update_key cfg)];
         end_value = (if xc_conn_type cfg = ''file'' \<and> xc_update_key cfg = Some ''partition_date'' \<and> pdate \<noteq> []
                      then Some pdate else ck_end c) in
     case xc_mode cfg of
       None \<Rightarrow> Err NotImplementedError
     | Some WM_cdc \<Rightarrow> Ok (c\<lparr>ck_type := CK_lsn_offset\<rparr>)
     | Some WM_delta \<Rightarrow>
         if xc_conn_type cfg = ''api'' then Ok (c\<lparr>ck_type := CK_page_offset, ck_payload := Some [(''limit'', None)]\<rparr>)
         else Ok (c\<lparr>ck_type := CK_update_key, ck_end := end_value, ck_payload := key_payload\<rparr>)
     | Some _ \<Rightarrow> Ok (c\<lparr>ck_type := CK_update_key, ck_payload := key_payload\<rparr>))"

record file_info =
  fi_path :: string
  fi_checksum :: string
  fi_row_count :: nat
  fi_size_bytes :: int
  fi_max_checkpoint :: "string option"

record extracted = partition_extracted +
  pe_files :: "file_info list"
  pe_state_payload :: "state_payload option"

text \<open>
  What the stage is given: \<open>en_extract\<close> extracts one partition (date, predicate) and changes the state \<open>'x\<close> of
  the extractor and its source, \<open>en_sources\<close> is the extractor's list of source files, \<open>en_stat\<close> the checksum and
  size of a written file.
\<close>

record ('v, 'x) extract_env =
  en_epoch :: "string \<Rightarrow> string option"
  en_float :: "string \<Rightarrow> string option"
  en_extract :: "string \<Rightarrow> string option \<Rightarrow> 'x \<Rightarrow> (file_data \<times> 'v frame) gen \<times> 'x"
  en_sources :: "'x \<Rightarrow> string list"
  en_identity :: "string list \<Rightarrow> string res"
  en_stat :: "string \<Rightarrow> string \<times> int"

definition widest :: "(string \<Rightarrow> string \<Rightarrow> string) \<Rightarrow> string option \<Rightarrow> string option \<Rightarrow> string option" where
  "widest pick chunk acc =
    (if filled_text chunk then (case acc of None \<Rightarrow> chunk | Some a \<Rightarrow> Some (pick a (the chunk))) else acc)"

text \<open>The loop over the files of a partition: the checkpoint's end, the extreme values and the file records.\<close>

fun absorb_files ::
  "(string \<Rightarrow> string \<times> int) \<Rightarrow> file_data list \<Rightarrow> checkpoint \<times> string option \<times> string option \<times> file_info list \<Rightarrow>
   checkpoint \<times> string option \<times> string option \<times> file_info list" where
  "absorb_files stat [] acc = acc"
| "absorb_files stat (d # ds) (c, lo, hi, infos) =
    (let top = fact_text d ''max_checkpoint'';
         low = fact_text d ''min_checkpoint'';
         c' = (if filled_text top then update_end_value top c else c);
         info = \<lparr>fi_path = fact_path d, fi_checksum = fst (stat (fact_path d)), fi_row_count = fact_rows d,
                 fi_size_bytes = snd (stat (fact_path d)), fi_max_checkpoint = top\<rparr>
     in absorb_files stat ds (c', widest min low lo, widest max top hi, infos @ [info]))"

definition partition_predicate ::
  "extract_config \<Rightarrow> ('v, 'x) extract_env \<Rightarrow> checkpoint \<Rightarrow> string \<Rightarrow> string option res" where
  "partition_predicate cfg en c p =
    (if xc_mode cfg \<in> {Some WM_full_refresh, Some WM_snapshot} then Ok None
     else res_bind (build_incremental_filter (en_epoch en) (en_float en) c (xc_update_key cfg) (xc_glob cfg) (Some p))
            (\<lambda>s. Ok (Some s)))"

definition extract_partition ::
  "extract_config \<Rightarrow> ('v, 'x) extract_env \<Rightarrow> string \<Rightarrow> string \<Rightarrow> checkpoint \<Rightarrow> 'x \<Rightarrow> (checkpoint \<times> extracted) res \<times> 'x" where
  "extract_partition cfg en run_date p c x =
    (case partition_predicate cfg en c p of
       Inl e \<Rightarrow> (Err e, x)
     | Inr pred \<Rightarrow>
       (case en_extract en p pred x of ((files, failure), x') \<Rightarrow>
         (case failure of
            Some e \<Rightarrow> (Err e, x')
          | None \<Rightarrow>
            (case absorb_files (en_stat en) (map fst files) (c, None, None, []) of (c1, lo, hi, infos) \<Rightarrow>
              (res_bind (en_identity en (en_sources en x')) (\<lambda>identity.
               res_bind (update_checkpoint cfg run_date c1) (\<lambda>c2.
                 Ok (c2\<lparr>ck_start := Some p, ck_end := Some p\<rparr>,
                   \<lparr>pe_partition_date = p, pe_row_processed = sum_list (map (int \<circ> fi_row_count) infos),
                    pe_file_count = int (length infos),
                    pe_checkpoint_start = or_else lo (or_else (ck_start c) p),
                    pe_checkpoint_end = or_else hi (or_else (ck_end c1) p),
                    pe_checkpoint_type = checkpoint_type_name (ck_type c2),
                    pe_resource = Some identity,
                    pe_files = infos, pe_state_payload = ck_payload c2\<rparr>))), x')))))"

fun extract_loop ::
  "extract_config \<Rightarrow> ('v, 'x) extract_env \<Rightarrow> string \<Rightarrow> string list \<Rightarrow> checkpoint \<Rightarrow> 'x \<Rightarrow> extracted list res \<times> 'x" where
  "extract_loop cfg en run_date [] c x = (Ok [], x)"
| "extract_loop cfg en run_date (p # ps) c x =
    (case extract_partition cfg en run_date p c x of
       (Inl e, x') \<Rightarrow> (Err e, x')
     | (Inr (c', e), x') \<Rightarrow>
         (case extract_loop cfg en run_date ps c' x' of (r, x'') \<Rightarrow> (res_bind r (\<lambda>es. Ok (e # es)), x'')))"

definition extract_execute ::
  "extract_config \<Rightarrow> ('v, 'x) extract_env \<Rightarrow> string \<Rightarrow> checkpoint \<Rightarrow> 'x \<Rightarrow> extracted list res \<times> 'x" where
  "extract_execute cfg en run_date c x =
    (case resolve_target_partitions cfg run_date c of
       Inl e \<Rightarrow> (Err e, x)
     | Inr ps \<Rightarrow> extract_loop cfg en run_date ps c x)"

text \<open>The payload; the dictionary of partitions keeps one entry per date.\<close>

definition extract_payload :: "string \<Rightarrow> extracted list \<Rightarrow> payload" where
  "extract_payload sid es =
    ExtractPayload sid (sum_list (map pe_row_processed es))
      (fold (\<lambda>e. dict_put (pe_partition_date e) (partition_extracted.truncate e)) es [])"

text \<open>
  \<open>_execute\<close> with its checkpoints; the exceptions it singles out are only logged differently. \<open>describe\<close> gives an
  exception's class name, message and traceback.
\<close>

definition extract_step ::
  "extract_config \<Rightarrow> ('v, 'x) extract_env \<Rightarrow> step_context \<Rightarrow> string \<Rightarrow> checkpoint \<Rightarrow> workspace \<Rightarrow> task_manifest \<Rightarrow> string \<Rightarrow>
   (py_error \<Rightarrow> string \<times> string \<times> string) \<Rightarrow> 'x \<Rightarrow> (unit res \<times> workspace) \<times> 'x" where
  "extract_step cfg en step run_date c w m now describe x =
    (let (r, x') = extract_execute cfg en run_date c x;
         (r', w') = (case r of
            Inr es \<Rightarrow> save_stage_outcome now w m (Some (extract_payload (step_id step) es))
          | Inl e \<Rightarrow> (Err e, w))
     in case r' of
          Inr _ \<Rightarrow> ((Ok (), w'), x')
        | Inl e \<Rightarrow> (case describe e of (cls, msg, tb) \<Rightarrow>
            ((Err e, snd (save_stage_error now w' step cls msg tb)), x')))"


subsection \<open>Partitions of a catch-up\<close>

text \<open>
  A delta load that is behind extracts the missing days: every day after the last watermark up to the run
  date, each once and in order. In every other case it is the run date alone.
\<close>

theorem catch_up_partitions:
  assumes "resolve_target_partitions cfg pdate c = Ok ps"
  shows "ps = [pdate] \<or>
    (\<exists>s a b ds. xc_mode cfg = Some WM_delta \<and> ck_start c = Some s \<and> parse_day s = Ok a \<and> parse_day pdate = Ok b \<and>
       ps = map show_day ds \<and> set ds = {d. valid_day d \<and> day_index a < day_index d \<and> day_index d \<le> day_index b} \<and>
       sorted_wrt (\<lambda>x y. day_index x < day_index y) ds)"
proof (cases "ps = [pdate]")
  case False
  then obtain s a b n ds where "xc_mode cfg = Some WM_delta" and s: "ck_start c = Some s" "parse_day s = Ok a" "parse_day pdate = Ok b"
    and n: "next_day a = Ok n" "days_until n b = Ok ds" and ps: "ps = (if ds = [] then [pdate] else map show_day ds)"
    using assms
    by (auto simp: resolve_target_partitions_def filled_text_def res_bind_Ok_iff split: if_splits sum.splits)
  moreover have "ps = map show_day ds" using ps False by (auto split: if_splits)
  ultimately show ?thesis using gap_days [OF parse_day_valid [OF s(2)] n] by blast
qed simp


subsection \<open>Recorded watermarks\<close>

definition unmarked :: "file_data \<Rightarrow> bool" where
  "unmarked d \<longleftrightarrow> fact_text d ''max_checkpoint'' = None \<and> fact_text d ''min_checkpoint'' = None"

lemma data_extract_unmarked:
  "data_extract peak stream limit key dest units = (parts, e) \<Longrightarrow> list_all (unmarked \<circ> fst) parts"
  using write_parquet_facts [of _ peak dest key 0]
  by (fastforce simp: data_extract_def unmarked_def list_all_iff split: sum.splits if_splits prod.splits)

lemma absorb_unmarked:
  "list_all unmarked ds \<Longrightarrow> \<exists>infos'. absorb_files stat ds (c, lo, hi, infos) = (c, lo, hi, infos')"
  by (induction ds arbitrary: infos) (auto simp: unmarked_def filled_text_def widest_def)

lemma update_checkpoint_ok: "update_checkpoint cfg run_date c = Ok c' \<Longrightarrow> ck_start c' = ck_start c"
  by (auto simp: update_checkpoint_def Let_def split: option.splits write_mode.splits if_splits)

lemma extract_partition_marks:
  assumes "extract_partition cfg en run_date p c x = (Ok (c', e), x')"
    and "\<And>pred files failure y. en_extract en p pred x = ((files, failure), y) \<Longrightarrow> list_all (unmarked \<circ> fst) files"
  shows "pe_partition_date e = p \<and> pe_checkpoint_start e = or_else (ck_start c) p \<and>
    pe_checkpoint_end e = or_else (ck_end c) p \<and> ck_start c' = Some p \<and> ck_end c' = Some p"
proof -
  obtain pred files y where x: "en_extract en p pred x = ((files, None), y)"
    and r: "(case absorb_files (en_stat en) (map fst files) (c, None, None, []) of (c1, lo, hi, infos) \<Rightarrow>
        res_bind (en_identity en (en_sources en y)) (\<lambda>identity.
        res_bind (update_checkpoint cfg run_date c1) (\<lambda>c2.
          Ok (c2\<lparr>ck_start := Some p, ck_end := Some p\<rparr>,
            \<lparr>pe_partition_date = p, pe_row_processed = sum_list (map (int \<circ> fi_row_count) infos),
             pe_file_count = int (length infos),
             pe_checkpoint_start = or_else lo (or_else (ck_start c) p),
             pe_checkpoint_end = or_else hi (or_else (ck_end c1) p),
             pe_checkpoint_type = checkpoint_type_name (ck_type c2),
             pe_resource = Some identity,
             pe_files = infos, pe_state_payload = ck_payload c2\<rparr>)))) = Ok (c', e)"
    using assms(1) by (auto simp: extract_partition_def split: sum.splits prod.splits option.splits)
  have "list_all unmarked (map fst files)" using assms(2) [OF x] by (simp add: list.pred_map)
  then obtain infos where "absorb_files (en_stat en) (map fst files) (c, None, None, []) = (c, None, None, infos)"
    using absorb_unmarked by blast
  then show ?thesis using r by (auto simp: res_bind_Ok_iff or_else_def)
qed



subsection \<open>Concrete runs\<close>

definition number_batches :: "nat frame list" where
  "number_batches = map (\<lambda>ns. \<lparr>fr_names = [''n''], fr_temporal = [], fr_rows = map (\<lambda>k _. k) ns\<rparr>) [[1, 2], [], [3, 4, 5], [6]]"

theorem extraction_writes_limit_witness:
  "\<exists>parts e. data_extract (\<lambda>_ _. Some ''5'') (\<lambda>_. (number_batches, Some OSError)) (Some 4) (Some ''n'') ''d'' (Ok [U_query ''q'']) = (parts, e) \<and>
     concat (map (fr_rows \<circ> snd) parts) = take 4 (concat (map fr_rows number_batches)) \<and> distinct (map (fact_path \<circ> fst) parts)"
proof -
  obtain parts e where r: "data_extract (\<lambda>_ _. Some ''5'') (\<lambda>_. (number_batches, Some OSError)) (Some 4) (Some ''n'') ''d''
      (Ok [U_query ''q'']) = (parts, e)" by fastforce
  show ?thesis using extraction_writes_limit [OF _ _ r] r by simp
qed

theorem table_extraction_never_compiles_witness:
  "fst (db_units click_service ''orders'' 4 (Some ''1=1'') (extract_sql_context None (One P_none) None None) ()) = Err SQLCompilationError"
  using table_extraction_never_compiles [of None "''orders''" "One P_none" click_service 4 "Some ''1=1''" None None "()"]
  by (simp add: filled_def)

theorem catch_up_predicates_pile_up_witness:
  "\<exists>cx' w. merge_all (extract_sql_context None (One P_none) None (Some ''SELECT 1'')) [''d <= 1'', ''d >= 1'', ''d >= 2''] = Ok cx' \<and>
     block_where cx' = One (P_str w) \<and> w = both (both ''d <= 1'' ''d >= 1'') ''d >= 2''"
proof -
  have "py_strip ''d <= 1'' \<noteq> ''1=1''" by code_simp
  then have "\<exists>cx' w. merge_all (extract_sql_context None (One P_none) None (Some ''SELECT 1'')) [''d <= 1'', ''d >= 1'', ''d >= 2''] = Ok cx' \<and>
      block_where cx' = One (P_str w) \<and> ((\<lambda>_. True) w \<longleftrightarrow> True \<and> list_all (\<lambda>_. True) [''d >= 1'', ''d >= 2''])"
    using catch_up_predicates_pile_up [of "\<lambda>_. True" "extract_sql_context None (One P_none) None (Some ''SELECT 1'')" _ "''d <= 1''" "[''d >= 1'', ''d >= 2'']"]
    by (simp add: extract_sql_context_def)
  moreover have "merge_all (extract_sql_context None (One P_none) None (Some ''SELECT 1'')) [''d <= 1'', ''d >= 1'', ''d >= 2''] = Ok cx'
      \<Longrightarrow> block_where cx' = One (P_str (both (both ''d <= 1'' ''d >= 1'') ''d >= 2''))" for cx'
    by (auto simp: extract_sql_context_def merged_context_text merged_context_def merge_predicate_def both_def
        block_where_def py_strip_id is_space_def)
  ultimately show ?thesis by blast
qed

definition delta_config :: extract_config where
  "delta_config = \<lparr>xc_resource = ''orders'', xc_conn_type = ''database'', xc_glob = None, xc_mode = Some WM_delta, xc_update_key = None\<rparr>"

definition quiet_env :: "(nat, unit) extract_env" where
  "quiet_env = \<lparr>en_epoch = (\<lambda>_. None), en_float = (\<lambda>_. None), en_extract = (\<lambda>_ _ x. (([], None), x)), en_sources = (\<lambda>_. []),
     en_identity = (\<lambda>_. Ok ''orders''), en_stat = (\<lambda>_. ([], 0))\<rparr>"

definition behind :: checkpoint where
  "behind = \<lparr>ck_type = CK_update_key, ck_start = Some ''2024-02-28'', ck_end = None, ck_payload = None\<rparr>"

theorem catch_up_partitions_witness:
  "resolve_target_partitions delta_config ''2024-03-01'' behind = Ok [''2024-02-29'', ''2024-03-01''] \<and>
   (\<exists>ds. [''2024-02-29'', ''2024-03-01''] = map show_day ds \<and> list_all valid_day ds)"
proof -
  have w: "show_day (2024, 2, 28) = ''2024-02-28''" "show_day (2024, 2, 29) = ''2024-02-29''" "show_day (2024, 3, 1) = ''2024-03-01''"
    by (simp_all add: show_day_compute)
  have p: "parse_day ''2024-02-28'' = Ok (2024, 2, 28)" "parse_day ''2024-03-01'' = Ok (2024, 3, 1)"
    using parse_text_of_day [OF w(1)] parse_text_of_day [OF w(3)] by (simp_all add: month_length_def leap_year_def)
  have n: "next_day (2024, 2, 28) = Ok (2024, 2, 29)" by (simp add: month_length_def leap_year_def)
  have d: "days_until (2024, 2, 29) (2024, 3, 1) = Ok [(2024, 2, 29), (2024, 3, 1)]"
    by (simp add: days_until.simps day_le_def month_length_def leap_year_def)
  have r: "resolve_target_partitions delta_config ''2024-03-01'' behind = Ok [''2024-02-29'', ''2024-03-01'']"
    by (simp add: resolve_target_partitions_def delta_config_def behind_def filled_text_def p n d w
        del: next_day.simps show_day.simps One_nat_def)
  from catch_up_partitions [OF r] show ?thesis
  proof (elim disjE exE conjE)
    fix a b ds
    assume ds: "[''2024-02-29'', ''2024-03-01''] = map show_day ds"
      "set ds = {d. valid_day d \<and> day_index a < day_index d \<and> day_index d \<le> day_index b}"
    have "list_all valid_day ds" unfolding list_all_iff ds(2) by (rule ballI, drule CollectD, erule conjunct1)
    then show ?thesis using r ds(1) by (intro conjI exI [of _ ds])
  qed simp
qed


end
