(* ===== verification/Workspaces.thy ===== *)
theory Workspaces
  imports Execution FileStore
begin

text \<open>
  Run directories on disk (\<open>core/models/task/workspace.py\<close>, \<open>base.py\<close>, the directory layout of
  \<open>core/contexts/execution.py\<close>) and the janitor that quarantines, recovers and purges them
  (\<open>core/orchestrator/common/janitor.py\<close>). The workspace root is a record: the run directories by their path
  below the root, the configuration seeds directly under \<open>ACTIVE\<close>, the data vault, the signal directory, and the
  names of the other entries. Failing system calls are not modelled, apart from those the code provokes.
\<close>


section \<open>The disk\<close>

text \<open>A \<open>config.json\<close>: what decoding it gives, the pipeline's context and the time it expires.\<close>

record config_doc =
  cf_context :: task_context
  cf_expires_at :: "rat option"

record run_folder =
  rf_manifest :: manifest_file
  rf_config :: "config_doc res option"
  rf_markers :: "string set"
  rf_mtime :: rat

text \<open>\<open>dk_vault\<close> lists every file and directory below \<open>data\<close>; an entry of \<open>dk_signals\<close> says whether it is a file.\<close>

record disk =
  dk_folders :: "(string list, run_folder) dict"
  dk_seeds :: "(string, config_doc res) dict"
  dk_vault :: "string list list"
  dk_signals :: "(string \<times> bool) list"
  dk_tops :: "string list"

definition new_folder :: "rat \<Rightarrow> run_folder" where
  "new_folder t = \<lparr>rf_manifest = NoFile, rf_config = None, rf_markers = {}, rf_mtime = t\<rparr>"

definition folder_at :: "disk \<Rightarrow> string list \<Rightarrow> run_folder option" where
  "folder_at d p = dict_get (dk_folders d) p"

definition folder_file :: "disk \<Rightarrow> string list \<Rightarrow> manifest_file" where
  "folder_file d p = (case folder_at d p of None \<Rightarrow> NoFile | Some f \<Rightarrow> rf_manifest f)"

definition put_folder :: "string list \<Rightarrow> run_folder \<Rightarrow> disk \<Rightarrow> disk" where
  "put_folder p f d = d\<lparr>dk_folders := dict_put p f (dk_folders d)\<rparr>"

text \<open>\<open>mkdir(parents=True, exist_ok=True)\<close>.\<close>

definition make_folder :: "rat \<Rightarrow> string list \<Rightarrow> disk \<Rightarrow> disk" where
  "make_folder t p d = (case folder_at d p of None \<Rightarrow> put_folder p (new_folder t) d | Some _ \<Rightarrow> d)"

definition remove_folder :: "string list \<Rightarrow> disk \<Rightarrow> disk" where
  "remove_folder p d = d\<lparr>dk_folders := filter (\<lambda>e. \<not> prefix p (fst e)) (dk_folders d)\<rparr>"

definition rebase :: "string list \<Rightarrow> string list \<Rightarrow> disk \<Rightarrow> disk" where
  "rebase src dst d = d\<lparr>dk_folders :=
     map (\<lambda>e. if prefix src (fst e) then (dst @ drop (length src) (fst e), snd e) else e) (dk_folders d)\<rparr>"

text \<open>
  \<open>shutil.move\<close> of a directory: onto itself it is a rename that changes nothing; into an existing directory it
  moves the source inside, unless that name is taken.
\<close>

definition move_folder :: "string list \<Rightarrow> string list \<Rightarrow> disk \<Rightarrow> unit res \<times> disk" where
  "move_folder src dst d =
    (if folder_at d src = None then (Err FileNotFoundError, d)
     else if src = dst then (Ok (), d)
     else if folder_at d dst \<noteq> None then
       (if folder_at d (dst @ [last src]) \<noteq> None then (Err OSError, d)
        else (Ok (), rebase src (dst @ [last src]) d))
     else (Ok (), rebase src dst d))"


section \<open>Paths\<close>

text \<open>\<open>get_run_path\<close>, the name of a configuration seed, and the data vault's directories.\<close>

definition run_path :: "string \<Rightarrow> task_identity \<Rightarrow> string list" where
  "run_path category i = [category, identity_key i, run_id i]"

definition CONFIG_FILENAME :: string where
  "CONFIG_FILENAME = ''config.json''"

definition seed_name :: "string \<Rightarrow> string \<Rightarrow> string" where
  "seed_name task_id rid = task_id @ '':'' @ rid @ ''_'' @ CONFIG_FILENAME"

text \<open>\<open>path / part\<close>: an empty part adds nothing.\<close>

definition path_join :: "string list \<Rightarrow> string \<Rightarrow> string list" where
  "path_join p s = (if s = [] then p else p @ [s])"

definition get_data_path :: "task_identity \<Rightarrow> string \<Rightarrow> string option \<Rightarrow> string list" where
  "get_data_path i step pd =
    (let base = path_join [job_id i, dataset_id i, partition_date i, run_id i] step in
     case pd of None \<Rightarrow> base
     | Some x \<Rightarrow> if x = [] then base else base @ [''partition_date='' @ x])"

definition path_parents :: "string list \<Rightarrow> string list list" where
  "path_parents p = rev (butlast (prefixes p))"

definition vault_rmtree :: "string list \<Rightarrow> string list list \<Rightarrow> string list list" where
  "vault_rmtree p v = filter (\<lambda>q. \<not> prefix p q) v"

definition vault_mkdir :: "string list \<Rightarrow> string list list \<Rightarrow> string list list" where
  "vault_mkdir p v = fold (\<lambda>q w. if q \<in> set w then w else w @ [q]) (tl (prefixes p)) v"

definition get_partition_dir :: "task_identity \<Rightarrow> string \<Rightarrow> string \<Rightarrow> disk \<Rightarrow> string list \<times> disk" where
  "get_partition_dir i step pd d =
    (let p = get_data_path i step (Some pd) in (p, d\<lparr>dk_vault := vault_mkdir p (dk_vault d)\<rparr>))"

definition reset_data_dir :: "task_identity \<Rightarrow> string \<Rightarrow> disk \<Rightarrow> string list \<times> disk" where
  "reset_data_dir i step d =
    (let p = get_data_path i step None in
     (p, d\<lparr>dk_vault := vault_mkdir p (if p \<in> set (dk_vault d) then vault_rmtree p (dk_vault d) else dk_vault d)\<rparr>))"


section \<open>The workspace of a task\<close>

text \<open>
  \<open>TaskWorkspace(...)\<close>: a handle whose default category is \<open>active\<close>. What it reads is what lies at its path.
\<close>

definition ws_refresh :: "disk \<Rightarrow> workspace \<Rightarrow> workspace" where
  "ws_refresh d w = w\<lparr>ws_file := folder_file d (ws_path w),
     ws_markers := (case folder_at d (ws_path w) of None \<Rightarrow> {} | Some f \<Rightarrow> rf_markers f)\<rparr>"

definition ws_at :: "disk \<Rightarrow> task_identity \<Rightarrow> workspace" where
  "ws_at d i = ws_refresh d (mk_workspace i ''active'' NoFile)"

definition ws_create :: "rat \<Rightarrow> workspace \<Rightarrow> string \<Rightarrow> disk \<Rightarrow> string list \<times> disk" where
  "ws_create t w seed d =
    (let d1 = make_folder t (ws_path w) d in
     (ws_path w @ [CONFIG_FILENAME],
      case (dict_get (dk_seeds d1) seed, folder_at d1 (ws_path w)) of
        (Some c, Some f) \<Rightarrow>
          if rf_config f = None
          then (put_folder (ws_path w) (f\<lparr>rf_config := Some c\<rparr>) d1)\<lparr>dk_seeds := dict_del seed (dk_seeds d1)\<rparr>
          else d1
      | _ \<Rightarrow> d1))"

definition ws_relocate :: "workspace \<Rightarrow> string \<Rightarrow> disk \<Rightarrow> workspace res \<times> disk" where
  "ws_relocate w category d =
    st_bind (move_folder (ws_path w) (ws_path (relocate w category)))
      (\<lambda>_. st_lift (Ok (relocate w category))) d"

text \<open>The directory, the seed beside it, and with \<open>include_data\<close> the vault of the partition date.\<close>

fun prune_parents :: "string list list \<Rightarrow> string list list \<Rightarrow> string list list" where
  "prune_parents [] v = v"
| "prune_parents (p # ps) v =
    (if p = [] \<or> p \<notin> set v \<or> list_ex (\<lambda>q. strict_prefix p q) v then v
     else prune_parents ps (filter (\<lambda>q. q \<noteq> p) v))"

definition data_root :: "task_identity \<Rightarrow> string list" where
  "data_root i = butlast (get_data_path i [] None)"

definition ws_delete :: "workspace \<Rightarrow> bool \<Rightarrow> disk \<Rightarrow> disk" where
  "ws_delete w include_data d =
    (let i = ws_identity w;
         d1 = (if folder_at d (ws_path w) \<noteq> None then remove_folder (ws_path w) d else d);
         d2 = d1\<lparr>dk_seeds := dict_del (seed_name (identity_key i) (run_id i)) (dk_seeds d1)\<rparr>
     in if include_data \<and> data_root i \<in> set (dk_vault d2)
        then d2\<lparr>dk_vault := prune_parents (path_parents (data_root i)) (vault_rmtree (data_root i) (dk_vault d2))\<rparr>
        else d2)"

definition get_signal_name :: "task_identity \<Rightarrow> string \<Rightarrow> string" where
  "get_signal_name i ext = identity_key i @ '':'' @ run_id i @ ext"

definition send_signal :: "task_identity \<Rightarrow> task_signal \<Rightarrow> disk \<Rightarrow> disk" where
  "send_signal i sig d =
    (let name = get_signal_name i (CHR ''.'' # signal_value sig) in
     if (name, True) \<in> set (dk_signals d) then d else d\<lparr>dk_signals := dk_signals d @ [(name, True)]\<rparr>)"

definition ws_mark :: "(string set \<Rightarrow> string set) \<Rightarrow> workspace \<Rightarrow> disk \<Rightarrow> disk" where
  "ws_mark g w d = (case folder_at d (ws_path w) of
     None \<Rightarrow> d | Some f \<Rightarrow> put_folder (ws_path w) (f\<lparr>rf_markers := g (rf_markers f)\<rparr>) d)"


section \<open>The manifest on disk\<close>

text \<open>
  The operations of \<open>TaskManifestFile\<close> on the directory of a workspace. Loading a corrupt file relocates the
  directory, and may fail in doing so; saving creates the directory.
\<close>

definition ws_load :: "string \<Rightarrow> workspace \<Rightarrow> disk \<Rightarrow> (task_manifest \<times> workspace) res \<times> disk" where
  "ws_load now w d =
    (let (m, w1) = load_manifest now (ws_refresh d w) in
     if ws_category w1 = ws_category w then (Ok (m, w1), d)
     else st_bind (move_folder (ws_path w) (ws_path w1)) (\<lambda>_. st_lift (Ok (m, w1))) d)"

definition ws_save :: "rat \<Rightarrow> task_manifest \<Rightarrow> workspace \<Rightarrow> disk \<Rightarrow> disk" where
  "ws_save t m w d =
    (let f = (case folder_at d (ws_path w) of None \<Rightarrow> new_folder t | Some f \<Rightarrow> f)
     in put_folder (ws_path w) (f\<lparr>rf_manifest := Doc (manifest_to_builtins m), rf_mtime := t\<rparr>) d)"

definition ws_update :: "string \<Rightarrow> rat \<Rightarrow> workspace \<Rightarrow> doc \<Rightarrow> disk \<Rightarrow> (task_manifest \<times> workspace) res \<times> disk" where
  "ws_update now t w ups =
    st_bind (ws_load now w) (\<lambda>(m, w1).
    st_bind (st_lift (manifest_decode now (deep_merge (manifest_to_builtins m) ups))) (\<lambda>m1.
    \<lambda>d. (Ok (m1, w1), ws_save t m1 w1 d)))"

text \<open>\<open>Task.from_path\<close>: the identity from the path's names, status and step from the manifest.\<close>

definition task_from_path :: "string \<Rightarrow> string option \<Rightarrow> string list \<Rightarrow> disk \<Rightarrow> task_ref res" where
  "task_from_path now target folder d =
    (let parts = py_split CHR '':'' (last (butlast folder)) in
     if length parts < 3 then Err IndexError
     else res_bind (load_manifest_path now (folder_file d folder)) (\<lambda>m.
       Ok (mk_ref ''task'' (m_status m)
            (if m_current_step_id m \<noteq> [] then m_current_step_id m else str_or target ''start'')
            (mk_identity (parts ! 0) (parts ! 1) (parts ! 2) (last folder)))))"

definition load_context :: "string list \<Rightarrow> disk \<Rightarrow> config_doc res" where
  "load_context folder d =
    (case folder_at d folder of
       None \<Rightarrow> Err FileNotFoundError
     | Some f \<Rightarrow> (case rf_config f of None \<Rightarrow> Err FileNotFoundError | Some c \<Rightarrow> c))"


section \<open>The janitor\<close>

definition remove_orphaned_config :: "string \<Rightarrow> string \<Rightarrow> disk \<Rightarrow> disk" where
  "remove_orphaned_config task_id rid d = d\<lparr>dk_seeds := dict_del (seed_name task_id rid) (dk_seeds d)\<rparr>"

text \<open>
  The context is read whatever the mode, because the three reasons to preserve data are a list; they only
  select a log line.
\<close>

definition cleanup_task :: "task_ref \<Rightarrow> disk \<Rightarrow> unit res \<times> disk" where
  "cleanup_task r d =
    (case load_context (run_path ''ACTIVE'' (identity r)) d of
       Inl e \<Rightarrow> (Err e, d)
     | Inr _ \<Rightarrow> (Ok (), remove_orphaned_config (identity_key (identity r)) (run_id (identity r))
                 (ws_delete (ws_at d (identity r)) True d)))"

definition quarantine :: "string \<Rightarrow> string list \<Rightarrow> string \<Rightarrow> disk \<Rightarrow> disk" where
  "quarantine now folder category d =
    snd (st_bind (\<lambda>d. st_lift (task_from_path now None folder d) d)
      (\<lambda>r d. ws_relocate (ws_at d (identity r)) (str_upper category) d) d)"

text \<open>Operations on the disk alone, inside those that also enqueue.\<close>

definition on_disk :: "(disk \<Rightarrow> 'a res \<times> disk) \<Rightarrow> disk \<times> 's \<Rightarrow> 'a res \<times> disk \<times> 's" where
  "on_disk f = (\<lambda>(d, s). case f d of (r, d1) \<Rightarrow> (r, d1, s))"

definition recovery_updates :: "string \<Rightarrow> doc" where
  "recovery_updates step = [(''status'', VStr (status_value PENDING)), (''current_step_id'', VStr step),
     (''error'', VNone), (''retry_count'', VInt 0)]"

definition recover_body ::
  "string \<Rightarrow> rat \<Rightarrow> (task_ref \<Rightarrow> string list \<Rightarrow> 's \<Rightarrow> unit res \<times> 's) \<Rightarrow> string list \<Rightarrow> disk \<times> 's \<Rightarrow> unit res \<times> disk \<times> 's"
where
  "recover_body now t enq folder =
    st_bind (on_disk (\<lambda>d. st_lift (task_from_path now None folder d) d)) (\<lambda>r.
    st_bind (on_disk (\<lambda>d. ws_load now (ws_at d (identity r)) d)) (\<lambda>(m, w).
    st_bind (on_disk (ws_update now t w (recovery_updates (m_current_step_id m)))) (\<lambda>(_, w1).
    st_bind (on_disk (\<lambda>d. (Ok (), ws_mark (\<lambda>ms. ms - {m_current_step_id m}) w1 d))) (\<lambda>_.
    st_bind (on_disk (ws_relocate w1 ''ACTIVE'')) (\<lambda>w2.
    st_bind (\<lambda>(d, s). case enq (mk_ref (ref_namespace r) PENDING (m_current_step_id m) (identity r))
        (ws_path w2 @ [CONFIG_FILENAME]) s of (e, s1) \<Rightarrow> (e, d, s1)) (\<lambda>_.
    on_disk (\<lambda>d. (Ok (), send_signal (ws_identity w2) SYNC d))))))))"

text \<open>Every exception of a recovery is logged and swallowed.\<close>

definition recover_task ::
  "string \<Rightarrow> rat \<Rightarrow> (task_ref \<Rightarrow> string list \<Rightarrow> 's \<Rightarrow> unit res \<times> 's) \<Rightarrow> string list \<Rightarrow> disk \<times> 's \<Rightarrow> disk \<times> 's"
where
  "recover_task now t enq folder ds = snd (recover_body now t enq folder ds)"


section \<open>Purging\<close>

definition purge_body :: "string \<Rightarrow> rat \<Rightarrow> string list \<Rightarrow> string \<Rightarrow> disk \<Rightarrow> unit res \<times> disk" where
  "purge_body now t folder reason =
    st_bind (\<lambda>d. st_lift (task_from_path now None folder d) d) (\<lambda>r.
    st_bind (\<lambda>d. ws_load now (ws_at d (identity r)) d) (\<lambda>(m, w).
    st_bind (if contains ''Expired'' reason \<and> m_status m \<noteq> EXPIRED
       then ws_update now t w [(''status'', VStr (status_value EXPIRED)), (''remarks'', VStr reason)]
       else st_lift (Ok (m, w))) (\<lambda>_.
    cleanup_task r)))"

text \<open>
  \<open>ref_of\<close> is \<open>TaskRef.from_key\<close> applied to a value of the active-task table. It is evaluated outside the
  handler that turns the errors of the purge into \<open>False\<close>.
\<close>

definition purge_folder ::
  "bool \<Rightarrow> string \<Rightarrow> rat \<Rightarrow> ('h \<Rightarrow> task_ref res) \<Rightarrow> 'h list \<Rightarrow> string \<Rightarrow> string list \<Rightarrow> disk \<Rightarrow> bool res \<times> disk"
where
  "purge_folder dry now t ref_of handles reason folder d =
    (if dry then (Ok True, d)
     else case res_map ref_of handles of
         Inl e \<Rightarrow> (Err e, d)
       | Inr refs \<Rightarrow>
          if last folder \<in> set (map (run_id \<circ> identity) refs) then (Ok False, d)
          else (case purge_body now t folder reason d of
                  (Inl _, d1) \<Rightarrow> (Ok False, d1)
                | (Inr _, d1) \<Rightarrow> (Ok True, d1)))"

definition scan_task_folders :: "string list option \<Rightarrow> disk \<Rightarrow> string list list" where
  "scan_task_folders roots d =
    concat (map (\<lambda>root. map fst (filter (\<lambda>e. prefix [root] (fst e) \<and> rf_manifest (snd e) \<noteq> NoFile) (dk_folders d)))
      (case roots of None \<Rightarrow> [''ACTIVE'', ''FAILED''] | Some rs \<Rightarrow> rs))"

text \<open>\<open>fmt\<close> shows a time; the counters only select a log line.\<close>

definition age_cutoff :: "rat \<Rightarrow> nat option \<Rightarrow> rat option" where
  "age_cutoff t days = (case days of None \<Rightarrow> None
     | Some n \<Rightarrow> if n = 0 then None else Some (t - of_nat (n * 86400)))"

definition old_reason :: "rat \<Rightarrow> nat option \<Rightarrow> run_folder \<Rightarrow> string option" where
  "old_reason t days f = (case age_cutoff t days of None \<Rightarrow> None
     | Some c \<Rightarrow> if c \<noteq> 0 \<and> rf_mtime f < c
         then Some (''Older than '' @ show_nat (case days of None \<Rightarrow> 0 | Some n \<Rightarrow> n) @ '' days'') else None)"

definition purge_reason :: "(rat \<Rightarrow> string) \<Rightarrow> rat \<Rightarrow> bool \<Rightarrow> nat option \<Rightarrow> string list \<Rightarrow> disk \<Rightarrow> string option res" where
  "purge_reason fmt t expired days folder d =
    (let by_age = (case folder_at d folder of
           Some f \<Rightarrow> Ok (old_reason t days f)
         | None \<Rightarrow> if age_cutoff t days \<in> {None, Some 0} then Ok None else Err FileNotFoundError)
     in if \<not> expired then by_age
        else (case load_context folder d of
            Inl e \<Rightarrow> Ok None
          | Inr c \<Rightarrow> (case cf_expires_at c of
              Some x \<Rightarrow> if x \<noteq> 0 \<and> x < t then Ok (Some (''Expired at '' @ fmt x)) else by_age
            | None \<Rightarrow> by_age)))"

definition purge_run ::
  "bool \<Rightarrow> string \<Rightarrow> rat \<Rightarrow> ('h \<Rightarrow> task_ref res) \<Rightarrow> 'h list \<Rightarrow> string \<Rightarrow> disk \<Rightarrow> unit res \<times> disk"
where
  "purge_run dry now t ref_of handles rid d =
    st_each (\<lambda>folder. if last folder = rid
        then st_bind (purge_folder dry now t ref_of handles ''Targeted cleanup'' folder) (\<lambda>_. st_lift (Ok ()))
        else st_lift (Ok ()))
      (scan_task_folders None d) d"

definition purge_tasks ::
  "bool \<Rightarrow> string \<Rightarrow> rat \<Rightarrow> (rat \<Rightarrow> string) \<Rightarrow> ('h \<Rightarrow> task_ref res) \<Rightarrow> 'h list \<Rightarrow> bool \<Rightarrow> nat option \<Rightarrow> disk \<Rightarrow> unit res \<times> disk"
where
  "purge_tasks dry now t fmt ref_of handles expired days d =
    st_each (\<lambda>folder d1. case purge_reason fmt t expired days folder d1 of
          Inl e \<Rightarrow> (Err e, d1)
        | Inr None \<Rightarrow> (Ok (), d1)
        | Inr (Some reason) \<Rightarrow> st_bind (purge_folder dry now t ref_of handles reason folder) (\<lambda>_. st_lift (Ok ())) d1)
      (scan_task_folders (if expired then Some [''ACTIVE''] else None) d) d"

text \<open>
  \<open>get_managed_directories\<close> below the root, the root itself being the empty path; \<open>stuck\<close> are the entries whose
  deletion raises.
\<close>

definition managed_directories :: "string list list" where
  "managed_directories = [[], [''ACTIVE''], [''signals''], [''state''], [''data''], [''FAILED''], [''.cache''], [''logs'']]"

definition lock_file :: string where
  "lock_file = ''orchestrator.lock''"

definition delete_entry :: "string list \<Rightarrow> disk \<Rightarrow> disk" where
  "delete_entry p d = d\<lparr>
     dk_folders := filter (\<lambda>e. \<not> prefix p (fst e)) (dk_folders d),
     dk_seeds := (if p = [''ACTIVE''] then [] else dk_seeds d),
     dk_vault := (if p = [''data''] then [] else dk_vault d),
     dk_signals := (if p = [''signals''] then [] else dk_signals d),
     dk_tops := filter (\<lambda>n. [n] \<noteq> p) (dk_tops d)\<rparr>"

definition wipe_workspace :: "bool \<Rightarrow> string list list \<Rightarrow> disk \<Rightarrow> disk" where
  "wipe_workspace dry stuck d =
    (if dry then d
     else fold (\<lambda>p d1. if p = [] \<or> p \<in> set stuck then d1 else delete_entry p d1)
       (managed_directories @ (if lock_file \<in> set (dk_tops d) then [[lock_file]] else [])) d)"

definition cleanup_workspace ::
  "bool \<Rightarrow> string list list \<Rightarrow> string \<Rightarrow> rat \<Rightarrow> (rat \<Rightarrow> string) \<Rightarrow> ('h \<Rightarrow> task_ref res) \<Rightarrow> 'h list \<Rightarrow>
   bool \<Rightarrow> bool \<Rightarrow> string option \<Rightarrow> nat option \<Rightarrow> disk \<Rightarrow> unit res \<times> disk"
where
  "cleanup_workspace dry stuck now t fmt ref_of handles expired all_data rid days d =
    (case rid of
       Some (c # cs) \<Rightarrow> purge_run dry now t ref_of handles (c # cs) d
     | _ \<Rightarrow> if all_data then (Ok (), wipe_workspace dry stuck d)
            else purge_tasks dry now t fmt ref_of handles expired days d)"


section \<open>What a clean-up removes\<close>

lemma folder_at_simps [simp]:
  "folder_at (d\<lparr>dk_seeds := s\<rparr>) p = folder_at d p" "folder_at (d\<lparr>dk_vault := v\<rparr>) p = folder_at d p"
  "folder_at (d\<lparr>dk_signals := g\<rparr>) p = folder_at d p"
  "folder_at (put_folder q f d) p = (if p = q then Some f else folder_at d p)"
  by (simp_all add: folder_at_def put_folder_def dict_simps)

lemma put_folder_rest [simp]:
  "dk_seeds (put_folder p f d) = dk_seeds d" "dk_vault (put_folder p f d) = dk_vault d"
  "dk_signals (put_folder p f d) = dk_signals d"
  by (simp_all add: put_folder_def)

lemma map_of_filter_key: "map_of (filter (\<lambda>e. P (fst e)) xs) k = (if P k then map_of xs k else None)"
  by (induction xs) auto

lemma remove_folder_at [simp]:
  "folder_at (remove_folder p d) q = (if prefix p q then None else folder_at d q)"
  by (simp add: folder_at_def remove_folder_def map_of_filter_key [of "\<lambda>k. \<not> prefix p k"])

lemma remove_folder_rest [simp]:
  "dk_seeds (remove_folder p d) = dk_seeds d" "dk_vault (remove_folder p d) = dk_vault d"
  by (simp_all add: remove_folder_def)

lemma ws_at_simps [simp]:
  "ws_path (ws_at d i) = run_path ''ACTIVE'' i" "ws_identity (ws_at d i) = i"
  "ws_category (ws_at d i) = ''ACTIVE''" "ws_file (ws_at d i) = folder_file d (run_path ''ACTIVE'' i)"
  "ws_refresh d (ws_at d i) = ws_at d i"
proof -
  have u: "str_upper ''active'' = ''ACTIVE''" by code_simp
  show "ws_path (ws_at d i) = run_path ''ACTIVE'' i" "ws_identity (ws_at d i) = i"
    "ws_category (ws_at d i) = ''ACTIVE''" "ws_file (ws_at d i) = folder_file d (run_path ''ACTIVE'' i)"
    "ws_refresh d (ws_at d i) = ws_at d i"
    unfolding ws_at_def ws_refresh_def mk_workspace_def ws_path_def run_path_def u by simp_all
qed

lemma data_root_eq: "data_root i = [job_id i, dataset_id i, partition_date i]"
  by (simp add: data_root_def get_data_path_def path_join_def)

lemma prune_keeps:
  "q \<in> set v \<Longrightarrow> q \<notin> set ps \<Longrightarrow> q \<in> set (prune_parents ps v)"
  by (induction ps v rule: prune_parents.induct) auto

lemma prune_subset: "set (prune_parents ps v) \<subseteq> set v"
  by (induction ps v rule: prune_parents.induct) (auto split: if_splits)

text \<open>A directory is pruned only when nothing is left below it.\<close>

lemma prune_nonempty:
  assumes "q \<in> set v" "q' \<in> set v" "strict_prefix q q'" "q' \<notin> set ps"
  shows "q \<in> set (prune_parents ps v)"
  using assms by (induction ps v rule: prune_parents.induct) (auto simp: list_ex_iff)

lemma path_parents_strict: "q \<in> set (path_parents p) \<Longrightarrow> strict_prefix q p"
proof -
  assume q: "q \<in> set (path_parents p)"
  have "prefixes p = butlast (prefixes p) @ [p]"
    by (metis append_butlast_last_id last_prefixes prefixes_not_Nil)
  then have "distinct (butlast (prefixes p) @ [p])" by (metis distinct_prefixes)
  moreover have "q \<in> set (butlast (prefixes p))" using q by (simp add: path_parents_def)
  ultimately have "q \<noteq> p" "q \<in> set (prefixes p)" by (auto dest: in_set_butlastD)
  then show "strict_prefix q p" by (simp add: strict_prefix_def)
qed


text \<open>
  C15. Cleaning up one run removes its directory and nothing else of the run directories, but it clears the whole
  vault of its partition date: the path handed to \<open>rmtree\<close> is the parent of the run's data directory, so the
  data of every other run of the same job, dataset and date goes with it. Data of other dates stays.
\<close>

theorem cleanup_deletes_sibling_runs:
  fixes i :: task_identity
  assumes "load_context (run_path ''ACTIVE'' i) d = Ok c" "identity r = i"
    and "[job_id i, dataset_id i, partition_date i] \<in> set (dk_vault d)"
  shows "\<exists>d'. cleanup_task r d = (Ok (), d') \<and>
    (\<forall>p. folder_at d' p = (if prefix (run_path ''ACTIVE'' i) p then None else folder_at d p)) \<and>
    (\<forall>rid step pd. get_data_path (i\<lparr>run_id := rid\<rparr>) step pd \<notin> set (dk_vault d')) \<and>
    (\<forall>p. prefix [job_id i, dataset_id i, partition_date i] p \<longrightarrow> p \<notin> set (dk_vault d')) \<and>
    (\<forall>p \<in> set (dk_vault d). \<not> prefix p (data_root i) \<and> \<not> prefix (data_root i) p \<longrightarrow> p \<in> set (dk_vault d'))"
proof -
  obtain f where f: "folder_at d (run_path ''ACTIVE'' i) = Some f"
    using assms(1) by (auto simp: load_context_def split: option.splits)
  note p = ws_at_simps(1,2) [of d i]
  let ?v = "prune_parents (path_parents (data_root i)) (vault_rmtree (data_root i) (dk_vault d))"
  let ?d = "snd (cleanup_task r d)"
  have d: "cleanup_task r d = (Ok (), ?d)" using assms(1,2) by (simp add: cleanup_task_def)
  have v: "dk_vault ?d = ?v"
    using assms f by (simp add: cleanup_task_def remove_orphaned_config_def ws_delete_def p data_root_eq)
  have w: "folder_at ?d q = (if prefix (run_path ''ACTIVE'' i) q then None else folder_at d q)" for q
    using assms f by (simp add: cleanup_task_def remove_orphaned_config_def ws_delete_def p data_root_eq)
  have gone: "q \<notin> set ?v" if "prefix (data_root i) q" for q
    using that prune_subset [of "path_parents (data_root i)" "vault_rmtree (data_root i) (dk_vault d)"]
    by (auto simp: vault_rmtree_def)
  have kept: "q \<in> set ?v" if "q \<in> set (dk_vault d)" "\<not> prefix q (data_root i)" "\<not> prefix (data_root i) q" for q
    using that path_parents_strict [of q "data_root i"]
    by (intro prune_keeps) (auto simp: vault_rmtree_def strict_prefix_def)
  have sib: "prefix (data_root i) (get_data_path (i\<lparr>run_id := rid\<rparr>) step pd)" for rid step pd
    by (simp add: data_root_eq get_data_path_def path_join_def Let_def split: option.split)
  show ?thesis
    by (intro exI [of _ ?d] conjI allI ballI impI d w) (use v gone kept sib in \<open>auto simp: data_root_eq\<close>)
qed


text \<open>Two runs of one date, the first finished, the second still holding data.\<close>

definition demo_id :: "string \<Rightarrow> task_identity" where
  "demo_id rid = mk_identity ''j'' ''ds'' ''2024-01-01'' rid"

definition demo_config :: config_doc where
  "demo_config = \<lparr>cf_context = \<lparr>steps = [], ctx_identity = demo_id ''r1'', from_step = ''start'', to_step = ''start''\<rparr>,
     cf_expires_at = None\<rparr>"

definition demo_disk :: "string \<Rightarrow> manifest_file \<Rightarrow> config_doc res option \<Rightarrow> disk" where
  "demo_disk category m c = \<lparr>
     dk_folders = [(run_path category (demo_id ''r1''),
       \<lparr>rf_manifest = m, rf_config = c, rf_markers = {}, rf_mtime = 0\<rparr>)],
     dk_seeds = [], dk_vault = [[''j''], [''j'', ''ds''], [''j'', ''ds'', ''2024-01-01''],
       [''j'', ''ds'', ''2024-01-01'', ''r1''], [''j'', ''ds'', ''2024-01-01'', ''r2''],
       [''j'', ''ds'', ''2024-01-01'', ''r2'', ''extract'']],
     dk_signals = [], dk_tops = []\<rparr>"

theorem cleanup_deletes_sibling_runs_witness:
  "\<exists>d'. cleanup_task (mk_ref ''task'' SUCCESS ''start'' (demo_id ''r1''))
      (demo_disk ''ACTIVE'' NoFile (Some (Ok demo_config))) = (Ok (), d') \<and>
    get_data_path (demo_id ''r2'') ''extract'' None \<notin> set (dk_vault d') \<and>
    get_data_path (demo_id ''r2'') ''extract'' None \<in> set (dk_vault (demo_disk ''ACTIVE'' NoFile (Some (Ok demo_config))))"
proof -
  let ?d = "demo_disk ''ACTIVE'' NoFile (Some (Ok demo_config))"
  have 1: "load_context (run_path ''ACTIVE'' (demo_id ''r1'')) ?d = Ok demo_config"
    by (simp add: load_context_def folder_at_def demo_disk_def)
  have 2: "[job_id (demo_id ''r1''), dataset_id (demo_id ''r1''), partition_date (demo_id ''r1'')] \<in> set (dk_vault ?d)"
    by (simp add: demo_disk_def demo_id_def mk_identity_def)
  have 3: "demo_id ''r2'' = (demo_id ''r1'')\<lparr>run_id := ''r2''\<rparr>" by (simp add: demo_id_def mk_identity_def)
  have 4: "get_data_path (demo_id ''r2'') ''extract'' None \<in> set (dk_vault ?d)"
    by (simp add: demo_disk_def demo_id_def mk_identity_def get_data_path_def path_join_def)
  have 5: "identity (mk_ref ''task'' SUCCESS ''start'' (demo_id ''r1'')) = demo_id ''r1''" by (simp add: mk_ref_def)
  show ?thesis using cleanup_deletes_sibling_runs [OF 1 5 2] 4 unfolding 3 by blast
qed


section \<open>Quarantined runs\<close>

lemma identity_parts:
  assumes "identity_ok i"
  shows "py_split CHR '':'' (identity_key i) = [job_id i, dataset_id i, partition_date i]"
proof -
  have "identity_key i = py_join '':'' [job_id i, dataset_id i, partition_date i]" by (simp add: identity_key_def)
  then show ?thesis using assms by (simp only:) (intro py_split_join, auto simp: identity_ok_def)
qed

lemma task_from_path_run:
  assumes "identity_ok i"
  shows "task_from_path now None (run_path cat i) d =
    res_bind (load_manifest_path now (folder_file d (run_path cat i))) (\<lambda>m.
      Ok (mk_ref ''task'' (m_status m) (if m_current_step_id m \<noteq> [] then m_current_step_id m else ''start'') i))"
  by (simp add: task_from_path_def run_path_def identity_parts [OF assms] identity_eta cong: if_cong)

text \<open>Nothing is at the path the janitor derives from the identity.\<close>

definition not_active :: "disk \<Rightarrow> task_identity \<Rightarrow> bool" where
  "not_active d i \<longleftrightarrow> folder_at d (run_path ''ACTIVE'' i) = None"

lemma ws_load_absent:
  "not_active d i \<Longrightarrow> ws_load now (ws_at d i) d = (Ok (skeleton (ws_at d i), ws_at d i), d)"
  by (simp add: ws_load_def not_active_def load_manifest_def folder_file_def)

lemma cleanup_absent: "not_active d (identity r) \<Longrightarrow> cleanup_task r d = (Err FileNotFoundError, d)"
  by (simp add: cleanup_task_def load_context_def not_active_def)

lemma purge_body_absent:
  assumes "identity_ok i" "not_active d i" "\<not> contains ''Expired'' reason"
  shows "\<exists>e. purge_body now t (run_path cat i) reason d = (Err e, d)"
proof (cases "load_manifest_path now (folder_file d (run_path cat i))")
  case (Inl e)
  then show ?thesis using assms by (simp add: purge_body_def task_from_path_run st_bind_def st_lift_def)
next
  case (Inr m)
  then show ?thesis using assms
    by (simp add: purge_body_def task_from_path_run st_bind_def st_lift_def ws_load_absent mk_ref_def cleanup_absent)
qed

lemma st_each_stays: "(\<And>x. x \<in> set xs \<Longrightarrow> f x d = (Ok (), d)) \<Longrightarrow> st_each f xs d = (Ok (), d)"
  by (induction xs) (auto simp: st_lift_def st_bind_def)


lemma scan_found: "p \<in> set (scan_task_folders roots d) \<Longrightarrow> \<exists>f. (p, f) \<in> set (dk_folders d) \<and> rf_manifest f \<noteq> NoFile"
  unfolding scan_task_folders_def by (cases roots) force+

text \<open>
  A quarantined run cannot be purged. The janitor finds it by scanning \<open>FAILED\<close>, but works on the directory
  the run would have under \<open>ACTIVE\<close>; a targeted clean-up of a run that only exists in quarantine ends without an
  error and leaves the disk exactly as it was. While any worker is active, a clean-up that reaches a directory
  raises before it looks at it, because the table of active tasks holds worker handles where keys are expected.
\<close>

theorem quarantined_runs_stay:
  assumes "rid \<noteq> []"
    and "\<And>p f. folder_at d p = Some f \<Longrightarrow> last p = rid \<Longrightarrow>
      \<exists>i cat. identity_ok i \<and> run_id i = rid \<and> not_active d i \<and> p = run_path cat i"
    and "dict_ok (dk_folders d)"
    and "p \<in> set (scan_task_folders None d)" "last p = rid" "res_map ref_of workers = Err e"
  shows "cleanup_workspace False stuck now t fmt ref_of [] expired all_data (Some rid) days d = (Ok (), d) \<and>
    cleanup_workspace False stuck now t fmt ref_of workers expired all_data (Some rid) days d = (Err e, d)"
proof
  have purge: "purge_folder False now t ref_of [] ''Targeted cleanup'' q d = (Ok False, d)"
    if q: "q \<in> set (scan_task_folders None d)" "last q = rid" for q
  proof -
    obtain f where "(q, f) \<in> set (dk_folders d)" using scan_found [OF q(1)] by blast
    then have "folder_at d q = Some f" using assms(3) by (simp add: folder_at_def)
    then obtain i cat where i: "identity_ok i" "not_active d i" "q = run_path cat i"
      using assms(2) q(2) by blast
    have "\<not> contains ''Expired'' ''Targeted cleanup''" by code_simp
    then obtain x where "purge_body now t q ''Targeted cleanup'' d = (Err x, d)"
      using purge_body_absent [OF i(1,2), of "''Targeted cleanup''"] i(3) by blast
    then show ?thesis by (simp add: purge_folder_def)
  qed
  have "(\<lambda>folder. if last folder = rid
      then st_bind (purge_folder False now t ref_of [] ''Targeted cleanup'' folder) (\<lambda>_. st_lift (Ok ()))
      else st_lift (Ok ())) q d = (Ok (), d)" if "q \<in> set (scan_task_folders None d)" for q
    using purge [OF that] by (simp add: st_bind_def st_lift_def)
  then have "purge_run False now t ref_of [] rid d = (Ok (), d)"
    unfolding purge_run_def by (rule st_each_stays)
  then show "cleanup_workspace False stuck now t fmt ref_of [] expired all_data (Some rid) days d = (Ok (), d)"
    using assms(1) by (cases rid) (simp_all add: cleanup_workspace_def)
  have refuse: "purge_folder False now t ref_of workers ''Targeted cleanup'' q d = (Err e, d)" for q
    using assms(6) by (simp add: purge_folder_def)
  have "st_each (\<lambda>folder. if last folder = rid
      then st_bind (purge_folder False now t ref_of workers ''Targeted cleanup'' folder) (\<lambda>_. st_lift (Ok ()))
      else st_lift (Ok ())) ps d = (Err e, d)" if "p \<in> set ps" for ps
    using that assms(5) by (induction ps) (auto simp: st_bind_def st_lift_def refuse)
  then have "purge_run False now t ref_of workers rid d = (Err e, d)"
    using assms(4) by (simp add: purge_run_def)
  then show "cleanup_workspace False stuck now t fmt ref_of workers expired all_data (Some rid) days d = (Err e, d)"
    using assms(1) by (cases rid) (simp_all add: cleanup_workspace_def)
qed

theorem quarantined_runs_stay_witness:
  "\<exists>d p. d = demo_disk ''FAILED'' Corrupt None \<and> p \<in> set (scan_task_folders None d) \<and> last p = ''r1'' \<and>
    cleanup_workspace False [] [] 0 (\<lambda>_. []) (\<lambda>_. Err AttributeError) ([] :: nat list) False False (Some ''r1'') None d = (Ok (), d) \<and>
    cleanup_workspace False [] [] 0 (\<lambda>_. []) (\<lambda>_. Err AttributeError) [7 :: nat] False False (Some ''r1'') None d =
      (Err AttributeError, d)"
proof -
  let ?d = "demo_disk ''FAILED'' Corrupt None"
  let ?p = "run_path ''FAILED'' (demo_id ''r1'')"
  have ok: "identity_ok (demo_id ''r1'')" "run_id (demo_id ''r1'') = ''r1''" "not_active ?d (demo_id ''r1'')"
    by (simp_all add: identity_ok_def demo_id_def mk_identity_def not_active_def folder_at_def demo_disk_def run_path_def)
  have runs: "\<exists>i cat. identity_ok i \<and> run_id i = ''r1'' \<and> not_active ?d i \<and> q = run_path cat i"
    if q: "folder_at ?d q = Some f" "last q = ''r1''" for q f
  proof -
    have "q = ?p" using q(1) by (simp add: folder_at_def demo_disk_def split: if_split_asm)
    then show ?thesis using ok by blast
  qed
  have p: "?p \<in> set (scan_task_folders None ?d)" "last ?p = ''r1''"
    by (simp_all add: scan_task_folders_def demo_disk_def run_path_def demo_id_def mk_identity_def)
  have d: "dict_ok (dk_folders ?d)" by (simp add: demo_disk_def)
  have h: "res_map (\<lambda>_ :: nat. Err AttributeError) [7] = (Err AttributeError :: task_ref list res)" by simp
  have r: "''r1'' \<noteq> []" by simp
  show ?thesis by (rule exI [of _ ?d], rule exI [of _ ?p], intro conjI refl p)
    (rule quarantined_runs_stay [OF r runs d p h, THEN conjunct1], assumption+,
     rule quarantined_runs_stay [OF r runs d p h, THEN conjunct2], assumption+)
qed



section \<open>Recovery\<close>

definition recovered :: "task_manifest \<Rightarrow> task_manifest" where
  "recovered m = m\<lparr>m_status := PENDING, m_error := None, m_retry_count := 0\<rparr>"

lemma decode_recovery:
  "manifest_decode now (deep_merge (manifest_to_builtins m) (recovery_updates (m_current_step_id m))) = Ok (recovered m)"
proof -
  have ok: "dict_ok (recovery_updates (m_current_step_id m))" by (simp add: recovery_updates_def)
  show ?thesis
    unfolding manifest_decode_def required_merge [OF ok] optional_merge [OF ok]
    by (cases "m_error m")
      (simp_all add: recovery_updates_def manifest_to_builtins_def recovered_def del: status_value.simps)
qed

lemma relocate_active [simp]: "relocate (ws_at d i) ''ACTIVE'' = ws_at d i"
proof -
  have "ws_category (ws_at d i) = ''ACTIVE''" by simp
  then show ?thesis unfolding relocate_def by (metis workspace.surjective workspace.update_convs(2) workspace.select_convs(2))
qed

lemma ws_save_at [simp]:
  "folder_at (ws_save t m w d) p = (if p = ws_path w
     then Some ((case folder_at d p of None \<Rightarrow> new_folder t | Some f \<Rightarrow> f)\<lparr>rf_manifest := Doc (manifest_to_builtins m), rf_mtime := t\<rparr>)
     else folder_at d p)"
  by (auto simp: ws_save_def split: option.split)

lemma ws_mark_at [simp]:
  "folder_at (ws_mark g w d) p =
    (if p = ws_path w then map_option (\<lambda>f. f\<lparr>rf_markers := g (rf_markers f)\<rparr>) (folder_at d p) else folder_at d p)"
  by (auto simp: ws_mark_def split: option.split)

lemma send_signal_at [simp]: "folder_at (send_signal i sig d) p = folder_at d p"
  by (simp add: send_signal_def Let_def)

lemma move_onto_itself: "folder_at d p \<noteq> None \<Longrightarrow> move_folder p p d = (Ok (), d)"
  by (simp add: move_folder_def)

text \<open>Recovery of a run whose manifest at the \<open>ACTIVE\<close> path is \<open>m\<close>, or the skeleton if there is none.\<close>

lemma recover_active:
  assumes "task_from_path now None folder d = Ok r" "identity r = i" "ref_namespace r = ''task''"
    and "ws_load now (ws_at d i) d = (Ok (m, ws_at d i), d)"
    and "enq (mk_ref ''task'' PENDING (m_current_step_id m) i) (run_path ''ACTIVE'' i @ [CONFIG_FILENAME]) s = (Ok (), s1)"
  shows "recover_task now t enq folder (d, s) =
    (send_signal i SYNC (ws_mark (\<lambda>ms. ms - {m_current_step_id m}) (ws_at d i) (ws_save t (recovered m) (ws_at d i) d)), s1)"
proof -
  let ?d2 = "ws_mark (\<lambda>ms. ms - {m_current_step_id m}) (ws_at d i) (ws_save t (recovered m) (ws_at d i) d)"
  have u: "ws_update now t (ws_at d i) (recovery_updates (m_current_step_id m)) d =
      (Ok (recovered m, ws_at d i), ws_save t (recovered m) (ws_at d i) d)"
    by (simp add: ws_update_def st_bind_def st_lift_def assms(4) decode_recovery)
  have mv: "ws_relocate (ws_at d i) ''ACTIVE'' ?d2 = (Ok (ws_at d i), ?d2)"
    by (simp add: ws_relocate_def st_bind_def st_lift_def move_onto_itself)
  show ?thesis
    by (simp add: recover_task_def recover_body_def on_disk_def st_bind_def st_lift_def assms u mv)
qed

text \<open>
  Recovering a quarantined run starts it over. The manifest found in quarantine only supplies the identity:
  state and step are read from the run's \<open>ACTIVE\<close> path, where there is nothing, so whatever the run had completed
  it is queued at \<open>start\<close> with a fresh manifest and no payloads. Its configuration stays behind in quarantine, and
  the worker that picks the task up finds none. A run that is still under \<open>ACTIVE\<close> is resumed at its step with
  its payloads, its error and its retries cleared.
\<close>

theorem recovery_starts_over:
  assumes "identity_ok i" "category \<noteq> ''ACTIVE''"
    and "folder_at d (run_path category i) = Some f" "load_manifest_path now (rf_manifest f) = Ok m"
    and "if quarantined then not_active d i
         else folder_at d (run_path ''ACTIVE'' i) = Some a \<and> rf_manifest a = Doc (manifest_to_builtins n)"
    and "enq (mk_ref ''task'' PENDING (if quarantined then ''start'' else m_current_step_id n) i)
           (run_path ''ACTIVE'' i @ [CONFIG_FILENAME]) s = (Ok (), s1)"
  shows "\<exists>d' g. recover_task now t enq (run_path category i) (d, s) = (d', s1) \<and>
    folder_at d' (run_path category i) = Some f \<and> folder_at d' (run_path ''ACTIVE'' i) = Some g \<and>
    (if quarantined
     then rf_manifest g = Doc (manifest_to_builtins
        ((skeleton (mk_workspace i ''active'' NoFile))\<lparr>m_status := PENDING\<rparr>)) \<and>
       load_context (run_path ''ACTIVE'' i) d' = Err FileNotFoundError
     else g = a\<lparr>rf_manifest := Doc (manifest_to_builtins (n\<lparr>m_status := PENDING, m_error := None, m_retry_count := 0\<rparr>)),
        rf_markers := rf_markers a - {m_current_step_id n}, rf_mtime := t\<rparr>)"
proof -
  let ?w = "ws_at d i"
  let ?m = "if quarantined then skeleton ?w else n"
  obtain r where r: "task_from_path now None (run_path category i) d = Ok r" "identity r = i" "ref_namespace r = ''task''"
    using assms(1,3,4) by (simp add: task_from_path_run folder_file_def mk_ref_def)
  have l: "ws_load now ?w d = (Ok (?m, ?w), d)"
    using assms(5) ws_load_absent [of d i now]
    by (auto simp: ws_load_def load_manifest_def folder_file_def split: if_split_asm)
  have step: "m_current_step_id ?m = (if quarantined then ''start'' else m_current_step_id n)"
    by (simp add: skeleton_def)
  have ne: "run_path category i \<noteq> run_path ''ACTIVE'' i" using assms(2) by (simp add: run_path_def)
  have e: "enq (mk_ref ''task'' PENDING (m_current_step_id ?m) i) (run_path ''ACTIVE'' i @ [CONFIG_FILENAME]) s = (Ok (), s1)"
    using assms(6) by (simp only: step)
  have sk: "recovered (skeleton ?w) = (skeleton (mk_workspace i ''active'' NoFile))\<lparr>m_status := PENDING\<rparr>"
    by (simp add: recovered_def skeleton_def mk_workspace_def)
  show ?thesis
    using assms(3,5) ne sk unfolding recover_active [where enq = enq and i = i and r = r, OF r l e]
    by (auto simp: load_context_def not_active_def new_folder_def recovered_def split: if_split_asm)
qed


definition demo_manifest :: task_manifest where
  "demo_manifest = \<lparr>m_job_id = ''j'', m_run_id = ''r1'', m_dataset_id = ''ds'', m_status = FAILED,
     m_current_step_id = ''load'', m_retry_count = 3, m_is_empty_result_set = False, m_remarks = None,
     m_rollback_stack = [], m_payloads = [StartPayload ''start'' ''abc'', ExtractPayload ''pull'' 5 []], m_error = None\<rparr>"

theorem recovery_starts_over_witness:
  "\<exists>d d' g. d = demo_disk ''FAILED'' (Doc (manifest_to_builtins demo_manifest)) (Some (Ok demo_config)) \<and>
    recover_task [] 9 (\<lambda>r cfg s. (Ok (), s @ [ref_step_id r])) (run_path ''FAILED'' (demo_id ''r1'')) (d, []) = (d', [''start'']) \<and>
    m_current_step_id demo_manifest = ''load'' \<and>
    folder_at d' (run_path ''ACTIVE'' (demo_id ''r1'')) = Some g \<and>
    load_context (run_path ''ACTIVE'' (demo_id ''r1'')) d' = Err FileNotFoundError"
proof -
  let ?i = "demo_id ''r1''"
  let ?d = "demo_disk ''FAILED'' (Doc (manifest_to_builtins demo_manifest)) (Some (Ok demo_config))"
  let ?f = "\<lparr>rf_manifest = Doc (manifest_to_builtins demo_manifest), rf_config = Some (Ok demo_config), rf_markers = {}, rf_mtime = 0\<rparr>"
  let ?enq = "\<lambda>r cfg (s :: string list). (Ok () :: unit res, s @ [ref_step_id r])"
  have 1: "identity_ok ?i" "''FAILED'' \<noteq> ''ACTIVE''" by (simp_all add: identity_ok_def demo_id_def mk_identity_def)
  have 2: "folder_at ?d (run_path ''FAILED'' ?i) = Some ?f"
    by (simp add: folder_at_def demo_disk_def)
  have 3: "load_manifest_path [] (rf_manifest ?f) = Ok demo_manifest" by (simp add: load_manifest_path_def)
  have 4: "if True then not_active ?d ?i else folder_at ?d (run_path ''ACTIVE'' ?i) = Some ?f \<and>
      rf_manifest ?f = Doc (manifest_to_builtins demo_manifest)"
    by (simp add: not_active_def folder_at_def demo_disk_def run_path_def)
  have 5: "?enq (mk_ref ''task'' PENDING (if True then ''start'' else m_current_step_id demo_manifest) ?i)
      (run_path ''ACTIVE'' ?i @ [CONFIG_FILENAME]) [] = (Ok (), [''start''])" by (simp add: mk_ref_def)
  have 6: "m_current_step_id demo_manifest = ''load''" by (simp add: demo_manifest_def)
  show ?thesis using recovery_starts_over [where enq = ?enq, OF 1 2 3 4 5, of 9] 6 unfolding if_True by blast
qed


section \<open>Dry runs and the wipe\<close>

lemma st_each_state: "(\<And>x d. snd (f x d) = d) \<Longrightarrow> snd (st_each f xs d) = d"
proof (induction xs arbitrary: d)
  case (Cons x xs)
  obtain r where "f x d = (r, d)" using Cons.prems [of x d] by (metis prod.collapse)
  then show ?case using Cons by (cases r) (simp_all add: st_bind_def)
qed (simp add: st_lift_def)

text \<open>
  In dry-run mode no clean-up changes the disk, whatever it selects.\<close>

theorem dry_run_changes_nothing:
  "snd (cleanup_workspace True stuck now t fmt ref_of workers expired all_data rid days d) = d"
proof -
  have p: "purge_folder True now t ref_of workers reason folder d1 = (Ok True, d1)" for reason folder d1
    by (simp add: purge_folder_def)
  have tasks: "snd (purge_tasks True now t fmt ref_of workers expired days d) = d"
    unfolding purge_tasks_def
    by (rule st_each_state) (simp add: st_bind_def st_lift_def p split: sum.split option.split)
  have runs: "snd (purge_run True now t ref_of workers x d) = d" for x
    unfolding purge_run_def by (rule st_each_state) (simp add: st_bind_def st_lift_def p)
  show ?thesis using tasks runs
    by (cases rid rule: option.exhaust; cases "the rid"; cases all_data)
      (simp_all add: cleanup_workspace_def wipe_workspace_def)
qed

end
