(* ===== verification/Orchestration.thy ===== *)
theory Orchestration
  imports Workspaces Admission StateHub
begin

text \<open>
  The orchestrator (\<open>core/orchestrator/common/orchestrator.py\<close>): its signal scanner (\<open>signals.py\<close>) with the handlers
  of finished and progressing tasks, the start and the abortion of a job, the summary of failures, and the
  synchronous run of the trigger mode (\<open>modes/trigger/runtime.py\<close>). The task manager is a record of its
  operations on a state of its own; the context builder's result is an argument.
\<close>


section \<open>The parts\<close>

text \<open>\<open>EventBus\<close>: a flag that \<open>wait\<close> reads and clears; whether it is set in time is the caller's business.\<close>

definition bus_notify :: "bool \<Rightarrow> bool" where
  "bus_notify flag = True"

definition bus_wait :: "bool \<Rightarrow> bool \<times> bool" where
  "bus_wait flag = (flag, False)"

record 'm orch =
  oc_disk :: disk
  oc_hub :: hub
  oc_tasks :: 'm
  oc_event :: bool

text \<open>
  The surroundings: the formatted, the numeric and the recorded current time, the payload times, the directories in
  the order a recursive scan lists them, and what searching the workspace for a full path gives: nothing, or
  \<open>NotImplementedError\<close> when the workspace root is absolute.
\<close>

record surroundings =
  su_now :: string
  su_time :: rat
  su_stamp :: int
  su_start_of :: "payload \<Rightarrow> int"
  su_end_of :: "payload \<Rightarrow> int"
  su_scan :: "disk \<Rightarrow> string list list"
  su_unresolved :: "unit res"

definition disk_op :: "(disk \<Rightarrow> 'a res \<times> disk) \<Rightarrow> 'm orch \<Rightarrow> 'a res \<times> 'm orch" where
  "disk_op f st = (case f (oc_disk st) of (r, d) \<Rightarrow> (r, st\<lparr>oc_disk := d\<rparr>))"

definition hub_op :: "(hub \<Rightarrow> 'a res \<times> hub) \<Rightarrow> 'm orch \<Rightarrow> 'a res \<times> 'm orch" where
  "hub_op f st = (case f (oc_hub st) of (r, h) \<Rightarrow> (r, st\<lparr>oc_hub := h\<rparr>))"

definition tasks_op :: "('m \<Rightarrow> 'a res \<times> 'm) \<Rightarrow> 'm orch \<Rightarrow> 'a res \<times> 'm orch" where
  "tasks_op f st = (case f (oc_tasks st) of (r, m) \<Rightarrow> (r, st\<lparr>oc_tasks := m\<rparr>))"

text \<open>\<open>find_path\<close> for a name without wildcards: the first directory of that name, run directory or data vault.\<close>

definition find_path :: "surroundings \<Rightarrow> disk \<Rightarrow> string \<Rightarrow> string list option res" where
  "find_path su d name =
    (if name = [] then Err ValueError else Ok (find (\<lambda>p. p \<noteq> [] \<and> last p = name) (su_scan su d)))"

definition path_exists :: "disk \<Rightarrow> string list \<Rightarrow> bool" where
  "path_exists d p \<longleftrightarrow> folder_at d p \<noteq> None \<or> (p \<noteq> [] \<and> hd p = ''data'' \<and> tl p \<in> set (dk_vault d))"


section \<open>Handlers\<close>

record signal_event =
  ev_identity :: task_identity
  ev_signal :: task_signal
  ev_folder :: "string list option"

definition sync_folder :: "surroundings \<Rightarrow> string list \<Rightarrow> bool \<Rightarrow> 'm orch \<Rightarrow> unit res \<times> 'm orch" where
  "sync_folder su folder deep st =
    (if path_exists (oc_disk st) folder
     then hub_op (\<lambda>h. sync_manifest (su_stamp su) (su_now su) (su_start_of su) (su_end_of su) h
            (folder_file (oc_disk st) folder)
            (res_bind (load_context folder (oc_disk st)) (\<lambda>c. Ok (cf_context c))) deep no_metadata) st
     else (su_unresolved su, st))"

text \<open>
  Both handlers first look at the manifest of the run's \<open>ACTIVE\<close> directory, ignoring any error; a corrupt one
  is relocated on the way. In \<open>_on_terminal_task\<close> the name \<open>task\<close> is still \<open>None\<close> when a failure is to be
  quarantined, so that branch is never taken. The manifest has no \<open>blocked_by\<close>, so no metadata is passed.
\<close>

definition look_at_manifest :: "surroundings \<Rightarrow> task_identity \<Rightarrow> 'm orch \<Rightarrow> 'm orch" where
  "look_at_manifest su i st = snd (disk_op (\<lambda>d. ws_load (su_now su) (ws_at d i) d) st)"

definition on_terminal_task :: "surroundings \<Rightarrow> bool \<Rightarrow> signal_event \<Rightarrow> 'm orch \<Rightarrow> unit res \<times> 'm orch" where
  "on_terminal_task su success ev st =
    (case ev_folder ev of
       None \<Rightarrow> (Ok (), st)
     | Some folder \<Rightarrow>
        st_bind (sync_folder su folder True) (\<lambda>_.
          if success
          then st_bind (disk_op (\<lambda>d. st_lift (task_from_path (su_now su) None folder d) d))
                 (\<lambda>r. disk_op (cleanup_task r))
          else st_lift (Ok ()))
        (look_at_manifest su (ev_identity ev) st))"

text \<open>Without a folder the update is the empty document, which lacks the required fields.\<close>

definition on_task_sync :: "surroundings \<Rightarrow> signal_event \<Rightarrow> 'm orch \<Rightarrow> unit res \<times> 'm orch" where
  "on_task_sync su ev st =
    (case ev_folder ev of
       Some folder \<Rightarrow> sync_folder su folder False (look_at_manifest su (ev_identity ev) st)
     | None \<Rightarrow> hub_op (\<lambda>h. update_task h (run_id (ev_identity ev)) (Err ValidationError)) st)"

definition handlers :: "surroundings \<Rightarrow> task_signal \<Rightarrow> (signal_event \<Rightarrow> 'm orch \<Rightarrow> unit res \<times> 'm orch) option" where
  "handlers su sig = (case sig of
     DONE \<Rightarrow> Some (on_terminal_task su True)
   | FAIL \<Rightarrow> Some (on_terminal_task su False)
   | SYNC \<Rightarrow> Some (on_task_sync su)
   | _ \<Rightarrow> None)"


section \<open>The signal scanner\<close>

definition path_stem :: "string \<Rightarrow> string" where
  "path_stem name = take (length name - length (path_suffix name)) name"

definition unlink_marker :: "string \<Rightarrow> 'm orch \<Rightarrow> unit res \<times> 'm orch" where
  "unlink_marker name = disk_op (\<lambda>d.
     if (name, True) \<in> set (dk_signals d) then (Ok (), d\<lparr>dk_signals := filter (\<lambda>e. e \<noteq> (name, True)) (dk_signals d)\<rparr>)
     else (Err FileNotFoundError, d))"

text \<open>
  The part of the loop's body inside \<open>try\<close>: the result says whether an event was dispatched. A signal without a
  handler is unlinked here already; errors of the handler are logged.
\<close>

definition marker_body ::
  "surroundings \<Rightarrow> (task_signal \<Rightarrow> (signal_event \<Rightarrow> 'm orch \<Rightarrow> unit res \<times> 'm orch) option) \<Rightarrow> string list \<Rightarrow>
   string \<Rightarrow> 'm orch \<Rightarrow> bool \<times> 'm orch"
where
  "marker_body su hs only name st =
    (case signal_of (str_lower (dropWhile (\<lambda>c. c = CHR ''.'') (path_suffix name))) of
       Inl e \<Rightarrow> (False, st)
     | Inr sig \<Rightarrow> (case hs sig of
         None \<Rightarrow> (False, snd (unlink_marker name st))
       | Some h \<Rightarrow> (case from_signal_stem (path_stem name) of
           Inl e \<Rightarrow> (False, st)
         | Inr i \<Rightarrow>
            if only \<noteq> [] \<and> run_id i \<notin> set only then (False, st)
            else (case find_path su (oc_disk st) (run_id i) of
               Inl e \<Rightarrow> (False, st)
             | Inr folder \<Rightarrow>
                (case h \<lparr>ev_identity = i, ev_signal = sig, ev_folder = folder\<rparr> st of
                   (Inl e, st1) \<Rightarrow> (False, st1)
                 | (Inr _, st1) \<Rightarrow> (True, st1))))))"

text \<open>One marker: the \<open>finally\<close> unlinks it, and what that raises leaves the loop.\<close>

definition dispatch_marker ::
  "surroundings \<Rightarrow> (task_signal \<Rightarrow> (signal_event \<Rightarrow> 'm orch \<Rightarrow> unit res \<times> 'm orch) option) \<Rightarrow> string list \<Rightarrow>
   string \<Rightarrow> 'm orch \<Rightarrow> bool res \<times> 'm orch"
where
  "dispatch_marker su hs only name st =
    (if (name, True) \<notin> set (dk_signals (oc_disk st)) then (Ok False, st)
     else if path_suffix name \<notin> set supported_signal_extensions
       then st_bind (unlink_marker name) (\<lambda>_. st_lift (Ok False)) st
     else (case marker_body su hs only name st of
       (sent, st1) \<Rightarrow> st_bind (unlink_marker name) (\<lambda>_. st_lift (Ok sent)) st1))"

fun dispatch_markers ::
  "surroundings \<Rightarrow> (task_signal \<Rightarrow> (signal_event \<Rightarrow> 'm orch \<Rightarrow> unit res \<times> 'm orch) option) \<Rightarrow> string list \<Rightarrow>
   string list \<Rightarrow> 'm orch \<Rightarrow> bool res \<times> 'm orch"
where
  "dispatch_markers su hs only [] = st_lift (Ok False)"
| "dispatch_markers su hs only (n # ns) =
    st_bind (dispatch_marker su hs only n) (\<lambda>sent.
    st_bind (dispatch_markers su hs only ns) (\<lambda>more. st_lift (Ok (sent \<or> more))))"

text \<open>\<open>only\<close> is the filter on run ids, the empty list standing for none.\<close>

definition process_signals :: "surroundings \<Rightarrow> string list \<Rightarrow> 'm orch \<Rightarrow> unit res \<times> 'm orch" where
  "process_signals su only st =
    st_bind (dispatch_markers su (handlers su) only (map fst (dk_signals (oc_disk st))))
      (\<lambda>sent st. (Ok (), if sent then st\<lparr>oc_event := bus_notify (oc_event st)\<rparr> else st)) st"



section \<open>Starting and aborting jobs\<close>

record 'm task_ops =
  to_enqueue :: "task_ref \<Rightarrow> string list \<Rightarrow> 'm \<Rightarrow> task_ref option res \<times> 'm"
  to_dispatch :: "'m \<Rightarrow> unit res \<times> 'm"
  to_cache :: "'m \<Rightarrow> md_cache"

text \<open>The update of a started task; only the status and the step differ between its two uses.\<close>

definition start_update :: "surroundings \<Rightarrow> task_identity \<Rightarrow> exec_status \<Rightarrow> string \<Rightarrow> task_update" where
  "start_update su i st step = \<lparr>tu_job_id = job_id i, tu_dataset_id = dataset_id i,
     tu_partition_date = partition_date i, tu_status = status_value st, tu_last_updated = Some (su_stamp su),
     tu_scheduled_at = None, tu_start = None, tu_end = None, tu_current_step = Some step, tu_progress = None,
     tu_is_scheduled = 1, tu_errors = None, tu_retry_attempts = 0, tu_final_row_count = None,
     tu_final_manifest = None, tu_remarks = None\<rparr>"

definition provisioned_ref :: "task_context \<Rightarrow> task_ref" where
  "provisioned_ref c = mk_ref CACHE_TASK_NAMESPACE PROVISIONED (from_step c) (ctx_identity c)"

text \<open>The seed is named by the \<open>run_id\<close> argument of the call, which a fresh job leaves at \<open>None\<close>.\<close>

definition config_seed :: "string option \<Rightarrow> task_identity \<Rightarrow> string" where
  "config_seed run_arg i = seed_name (identity_key i) (case run_arg of None \<Rightarrow> ''None'' | Some r \<Rightarrow> r)"

definition provision ::
  "surroundings \<Rightarrow> string option \<Rightarrow> config_doc \<Rightarrow> disk \<Rightarrow> string list res \<times> disk"
where
  "provision su run_arg c d =
    (let i = ctx_identity (cf_context c);
         (p, d1) = ws_create (su_time su) (ws_at d i) (config_seed run_arg i) d
     in (Ok p, d1))"

definition start_context ::
  "surroundings \<Rightarrow> 'm task_ops \<Rightarrow> string option \<Rightarrow> config_doc \<Rightarrow> 'm orch \<Rightarrow> unit res \<times> 'm orch"
where
  "start_context su ops run_arg c =
    (let i = ctx_identity (cf_context c); r = provisioned_ref (cf_context c) in
     st_bind (disk_op (\<lambda>d. (Ok (), d\<lparr>dk_seeds := dict_put (config_seed run_arg i) (Ok c) (dk_seeds d)\<rparr>))) (\<lambda>_.
     st_bind (hub_op (\<lambda>h. update_task h (run_id i) (Ok (start_update su i PROVISIONED (from_step (cf_context c)))))) (\<lambda>_.
     st_bind (disk_op (provision su run_arg c)) (\<lambda>config_path.
     st_bind (tasks_op (to_enqueue ops r config_path)) (\<lambda>queued.
     st_bind (case queued of None \<Rightarrow> st_lift (Ok ())
        | Some q \<Rightarrow> hub_op (\<lambda>h. update_task h (run_id i) (Ok (start_update su i (ref_status q) (ref_step_id q))))) (\<lambda>_.
     \<lambda>st. (Ok (), st\<lparr>oc_event := bus_notify (oc_event st)\<rparr>)))))))"

text \<open>\<open>contexts\<close> is what the builder gives for the job's datasets; the result is the set of started runs.\<close>

definition start_job ::
  "surroundings \<Rightarrow> 'm task_ops \<Rightarrow> config_doc list res \<Rightarrow> string option \<Rightarrow> 'm orch \<Rightarrow> string set res \<times> 'm orch"
where
  "start_job su ops contexts run_arg =
    st_bind (st_lift contexts) (\<lambda>cs.
    st_bind (st_each (start_context su ops run_arg) cs) (\<lambda>_.
    st_lift (Ok ((run_id \<circ> ctx_identity \<circ> cf_context) ` set cs))))"

text \<open>The manifest has no \<open>current_stage\<close>, so decoding drops that key.\<close>

definition abort_job :: "surroundings \<Rightarrow> task_ref \<Rightarrow> exec_status \<Rightarrow> 'm orch \<Rightarrow> unit res \<times> 'm orch" where
  "abort_job su r status =
    st_bind (disk_op (\<lambda>d. ws_update (su_now su) (su_time su) (ws_at d (identity r))
       [(''status'', VStr (status_value status)), (''current_stage'', VStr (status_value CANCELLED))] d)) (\<lambda>(_, w).
    st_bind (disk_op (\<lambda>d. (Ok (), send_signal (identity r) DONE d))) (\<lambda>_.
    st_bind (sync_folder su (ws_path w) False) (\<lambda>_.
    if status = EXPIRED then disk_op (cleanup_task r) else st_lift (Ok ()))))"


section \<open>The summary of failures\<close>

text \<open>The error document has no entry \<open>step\<close>. A non-empty list of lines ends the process with code 1.\<close>

definition failure_line :: "string \<Rightarrow> exec_status \<Rightarrow> task_record \<Rightarrow> string" where
  "failure_line rid st r =
    (let (ty, msg) = (case tr_errors r of None \<Rightarrow> (''RuntimeError'', ''Unknown Error'') | Some e \<Rightarrow> (err_type e, err_message e))
     in ''[Run: '' @ rid @ '' | Step: '' @ str_or (tr_current_step r) ''Unknown'' @ '' | Status: '' @ status_value st
        @ ''] '' @ ty @ '': '' @ msg)"

definition record_status :: "task_record \<Rightarrow> exec_status res" where
  "record_status r = (case tr_status r of None \<Rightarrow> Err ValueError | Some s \<Rightarrow> status_of s)"

definition failure_of :: "store \<Rightarrow> string \<Rightarrow> string list res" where
  "failure_of s rid =
    (case store_get s rid of None \<Rightarrow> Ok []
     | Some r \<Rightarrow> res_bind (record_status r) (\<lambda>st.
         Ok (if st \<in> {FAILED, BLOCKED} then [failure_line rid st r] else [])))"

definition summarize_failures :: "store \<Rightarrow> string list \<Rightarrow> string list res" where
  "summarize_failures s rids = res_bind (res_map (failure_of s) rids) (\<lambda>ls. Ok (concat ls))"


section \<open>The trigger mode\<close>

text \<open>
  \<open>_resolve_task_status\<close>: the status in the first cache key of the run, else \<open>FAILED\<close> for a record that failed,
  else \<open>SUCCESS\<close>.
\<close>

definition status_pattern :: "string \<Rightarrow> string \<Rightarrow> string \<Rightarrow> string \<Rightarrow> string" where
  "status_pattern j ds pd rid = CACHE_TASK_NAMESPACE @ '':*:*:'' @ identity_key (mk_identity j ds pd rid) @ '':'' @ rid"

definition resolve_task_status ::
  "int \<Rightarrow> md_cache \<Rightarrow> store \<Rightarrow> string \<Rightarrow> string \<Rightarrow> string \<Rightarrow> string \<Rightarrow> exec_status res"
where
  "resolve_task_status t c s j ds pd rid =
    (case fst (tc_find t c (status_pattern j ds pd rid)) of
       k # _ \<Rightarrow> (case from_key k of Inl e \<Rightarrow> Ok RUNNING | Inr r \<Rightarrow> Ok (ref_status r))
     | [] \<Rightarrow> (case store_get s rid of
         None \<Rightarrow> Ok SUCCESS
       | Some r \<Rightarrow> res_bind (record_status r) (\<lambda>st. Ok (if is_failure st then FAILED else SUCCESS))))"

fun all_tasks_terminal :: "(string \<Rightarrow> exec_status res) \<Rightarrow> string list \<Rightarrow> bool res" where
  "all_tasks_terminal status [] = Ok True"
| "all_tasks_terminal status (r # rs) =
    res_bind (status r) (\<lambda>st. if is_terminal st then all_tasks_terminal status rs else Ok False)"

text \<open>
  How a run ends: normally, by the exit code of the summary, or by an exception. \<open>clocks\<close> are the elapsed times the
  iterations read; a run that is still going when they are used up is \<open>None\<close>.
\<close>

datatype run_end = Finished | Exit_one "string list" | Raised py_error

definition close_with :: "string list res \<Rightarrow> run_end \<Rightarrow> run_end" where
  "close_with summary e = (case summary of Inl x \<Rightarrow> Raised x | Inr (l # ls) \<Rightarrow> Exit_one (l # ls) | Inr [] \<Rightarrow> e)"

fun trigger_loop ::
  "('s \<Rightarrow> unit res \<times> 's) \<Rightarrow> ('s \<Rightarrow> unit res \<times> 's) \<Rightarrow> ('s \<Rightarrow> bool res) \<Rightarrow> ('s \<Rightarrow> string list res) \<Rightarrow> rat \<Rightarrow>
   rat list \<Rightarrow> 's \<Rightarrow> run_end option \<times> 's"
where
  "trigger_loop submit signals terminal summary timeout [] st = (None, st)"
| "trigger_loop submit signals terminal summary timeout (c # cs) st =
    (case st_bind submit (\<lambda>_. signals) st of
       (Inl e, st1) \<Rightarrow> (Some (Raised e), st1)
     | (Inr _, st1) \<Rightarrow> (case terminal st1 of
         Inl e \<Rightarrow> (Some (Raised e), st1)
       | Inr True \<Rightarrow> (Some (close_with (summary st1) Finished), st1)
       | Inr False \<Rightarrow>
          if c > timeout then (Some (close_with (summary st1) (Raised TimeoutError)), st1)
          else trigger_loop submit signals terminal summary timeout cs st1))"

text \<open>
  \<open>run\<close>: the job's name and date are those of the call, an absent date becoming the empty string; \<open>order\<close> lists
  a set of runs the way it is iterated.
\<close>

definition trigger_run ::
  "surroundings \<Rightarrow> 'm task_ops \<Rightarrow> int \<Rightarrow> (string set \<Rightarrow> string list) \<Rightarrow> rat \<Rightarrow> rat list \<Rightarrow> config_doc list res \<Rightarrow>
   string \<Rightarrow> string \<Rightarrow> string option \<Rightarrow> 'm orch \<Rightarrow> run_end option \<times> 'm orch"
where
  "trigger_run su ops t order timeout clocks contexts j ds pd st =
    (case start_job su ops contexts None st of
       (Inl e, st1) \<Rightarrow> (Some (Raised e), st1)
     | (Inr runs, st1) \<Rightarrow>
        trigger_loop (tasks_op (to_dispatch ops)) (process_signals su (order runs))
          (\<lambda>s. all_tasks_terminal
             (resolve_task_status t (to_cache ops (oc_tasks s)) (hub_store (oc_hub s)) j ds (case pd of None \<Rightarrow> [] | Some p \<Rightarrow> p))
             (order runs))
          (\<lambda>s. summarize_failures (hub_store (oc_hub s)) (order runs)) timeout clocks st1)"



section \<open>Names of signal files\<close>

lemma path_name_plain: "CHR ''/'' \<notin> set s \<Longrightarrow> s \<noteq> [] \<Longrightarrow> s \<noteq> ''.'' \<Longrightarrow> path_name s = s"
  by (simp add: path_name_def path_parts_def)

lemma suffix_stem:
  assumes "stem \<noteq> []" "ext \<noteq> []" "CHR ''.'' \<notin> set ext" "CHR ''/'' \<notin> set stem" "CHR ''/'' \<notin> set ext"
  shows "path_suffix (stem @ CHR ''.'' # ext) = CHR ''.'' # ext" "path_stem (stem @ CHR ''.'' # ext) = stem"
proof -
  let ?n = "stem @ CHR ''.'' # ext"
  have "length ?n > 1" using assms(1,2) by (cases stem; cases ext) simp_all
  then have "?n \<noteq> ''.''" by (metis One_nat_def length_Cons less_irrefl list.size(3))
  then have n: "path_name ?n = ?n" using assms by (intro path_name_plain) auto
  have t: "takeWhile (\<lambda>c. c \<noteq> CHR ''.'') (rev ?n) = rev ext"
    using assms(3) by (simp, subst takeWhile_append2) auto
  show s: "path_suffix ?n = CHR ''.'' # ext"
    unfolding path_suffix_def n using assms(1,2) t by (simp add: Let_def)
  show "path_stem ?n = stem" by (simp add: path_stem_def s)
qed

definition signal_file :: "task_identity \<Rightarrow> task_signal \<Rightarrow> string" where
  "signal_file i sig = get_signal_name i (CHR ''.'' # signal_value sig)"

definition file_safe :: "task_identity \<Rightarrow> bool" where
  "file_safe i \<longleftrightarrow> identity_ok i \<and> CHR ''/'' \<notin> set (signal_stem i)"

lemma signal_file_names:
  assumes "file_safe i"
  shows "path_suffix (signal_file i sig) = CHR ''.'' # signal_value sig" "path_stem (signal_file i sig) = signal_stem i"
    "path_suffix (signal_file i sig) \<in> set supported_signal_extensions"
    "signal_of (str_lower (dropWhile (\<lambda>c. c = CHR ''.'') (path_suffix (signal_file i sig)))) = Ok sig"
    "from_signal_stem (path_stem (signal_file i sig)) = Ok i"
proof -
  have e: "signal_file i sig = signal_stem i @ CHR ''.'' # signal_value sig"
    by (simp add: signal_file_def get_signal_name_def signal_stem_def identity_key_def)
  have v: "signal_value sig \<noteq> []" "CHR ''.'' \<notin> set (signal_value sig)" "CHR ''/'' \<notin> set (signal_value sig)"
    by (cases sig; simp)+
  have ne: "signal_stem i \<noteq> []" by (simp add: signal_stem_def)
  note n = suffix_stem [OF ne v(1,2) _ v(3)]
  show s: "path_suffix (signal_file i sig) = CHR ''.'' # signal_value sig" "path_stem (signal_file i sig) = signal_stem i"
    unfolding e using assms by (auto simp: file_safe_def n)
  show "path_suffix (signal_file i sig) \<in> set supported_signal_extensions"
    unfolding s supported_signal_extensions_def all_signals_def by (cases sig) simp_all
  have "list_all (\<lambda>sig. str_lower (dropWhile (\<lambda>c. c = CHR ''.'') (CHR ''.'' # signal_value sig)) = signal_value sig) all_signals"
    by code_simp
  moreover have "sig \<in> set all_signals" by (cases sig) (simp_all add: all_signals_def)
  ultimately have "str_lower (dropWhile (\<lambda>c. c = CHR ''.'') (CHR ''.'' # signal_value sig)) = signal_value sig"
    unfolding list_all_iff by blast
  then show "signal_of (str_lower (dropWhile (\<lambda>c. c = CHR ''.'') (path_suffix (signal_file i sig)))) = Ok sig"
    unfolding s by (simp only: signal_of_value)
  show "from_signal_stem (path_stem (signal_file i sig)) = Ok i"
    unfolding s using assms by (simp add: file_safe_def from_signal_stem_stem)
qed

definition drop_marker :: "string \<Rightarrow> 'm orch \<Rightarrow> 'm orch" where
  "drop_marker n st = st\<lparr>oc_disk := (oc_disk st)\<lparr>dk_signals := filter (\<lambda>e. e \<noteq> (n, True)) (dk_signals (oc_disk st))\<rparr>\<rparr>"

lemma unlink_present:
  "(n, True) \<in> set (dk_signals (oc_disk st)) \<Longrightarrow> unlink_marker n st = (Ok (), drop_marker n st)"
  by (simp add: unlink_marker_def disk_op_def drop_marker_def)

lemma unlink_absent: "(n, True) \<notin> set (dk_signals (oc_disk st)) \<Longrightarrow> unlink_marker n st = (Err FileNotFoundError, st)"
  by (simp add: unlink_marker_def disk_op_def)

lemma drop_marker_simps [simp]:
  "dk_signals (oc_disk (drop_marker n st)) = filter (\<lambda>e. e \<noteq> (n, True)) (dk_signals (oc_disk st))"
  "oc_hub (drop_marker n st) = oc_hub st" "oc_tasks (drop_marker n st) = oc_tasks st"
  "oc_event (drop_marker n st) = oc_event st"
  by (simp_all add: drop_marker_def)


section \<open>Which signals are lost\<close>

text \<open>A signal file some handler exists for, of a run outside the filter.\<close>

definition foreign_marker :: "string list \<Rightarrow> string \<times> bool \<Rightarrow> bool" where
  "foreign_marker only e \<longleftrightarrow> (\<exists>i sig. e = (signal_file i sig, True) \<and> file_safe i \<and> sig \<in> {DONE, FAIL, SYNC} \<and>
     run_id i \<notin> set only)"

lemma dispatch_foreign:
  fixes st :: "'m orch"
  assumes "foreign_marker only (n, True)" "only \<noteq> []" "(n, True) \<in> set (dk_signals (oc_disk st))"
  shows "dispatch_marker su (handlers su) only n st = (Ok False, drop_marker n st)"
proof -
  obtain i sig where i: "n = signal_file i sig" "file_safe i" "sig \<in> {DONE, FAIL, SYNC}" "run_id i \<notin> set only"
    using assms(1) by (auto simp: foreign_marker_def)
  obtain h :: "signal_event \<Rightarrow> 'm orch \<Rightarrow> unit res \<times> 'm orch" where "handlers su sig = Some h" using i(3) by (auto simp: handlers_def)
  then show ?thesis using assms(2,3) i(4)
    by (simp add: dispatch_marker_def marker_body_def i(1) signal_file_names(3-5) [OF i(2)] st_bind_def st_lift_def
        unlink_present)
qed

lemma dispatch_unhandled:
  fixes st :: "'m orch"
  assumes "file_safe i" "sig \<in> {SIG_RETRY, SIG_EXPIRED}" "(signal_file i sig, True) \<in> set (dk_signals (oc_disk st))"
  shows "dispatch_marker su (handlers su) only (signal_file i sig) st = (Err FileNotFoundError, drop_marker (signal_file i sig) st)"
proof -
  have "handlers su sig = (None :: (signal_event \<Rightarrow> 'm orch \<Rightarrow> unit res \<times> 'm orch) option)" using assms(2) by (auto simp: handlers_def)
  then show ?thesis using assms(3)
    by (simp add: dispatch_marker_def marker_body_def signal_file_names(3-5) [OF assms(1)] st_bind_def unlink_present unlink_absent)
qed

lemma dispatch_foreign_all:
  assumes "only \<noteq> []"
  shows "\<lbrakk>\<forall>n\<in>set ns. foreign_marker only (n, True) \<and> (n, True) \<in> set (dk_signals (oc_disk st)); distinct ns\<rbrakk> \<Longrightarrow>
    dispatch_markers su (handlers su) only ns st = (Ok False, fold drop_marker ns st)"
proof (induction ns arbitrary: st)
  case (Cons n ns)
  have "dispatch_marker su (handlers su) only n st = (Ok False, drop_marker n st)"
    using Cons.prems assms by (intro dispatch_foreign) auto
  moreover have "dispatch_markers su (handlers su) only ns (drop_marker n st) = (Ok False, fold drop_marker ns (drop_marker n st))"
    using Cons.prems by (intro Cons.IH) auto
  ultimately show ?case by (simp add: st_bind_def st_lift_def)
qed (simp add: st_lift_def)


lemma dispatch_markers_append:
  "dispatch_markers su hs only (xs @ ys) st = st_bind (dispatch_markers su hs only xs)
     (\<lambda>a. st_bind (dispatch_markers su hs only ys) (\<lambda>b. st_lift (Ok (a \<or> b)))) st"
  by (induction xs arbitrary: st) (auto simp: st_bind_def st_lift_def split: prod.splits sum.splits)

lemma fold_drop_markers:
  "fold drop_marker ns st = st\<lparr>oc_disk := (oc_disk st)\<lparr>dk_signals :=
     filter (\<lambda>e. e \<notin> (\<lambda>n. (n, True)) ` set ns) (dk_signals (oc_disk st))\<rparr>\<rparr>"
proof (induction ns arbitrary: st)
  case (Cons n ns)
  have "filter (\<lambda>e. e \<notin> (\<lambda>n. (n, True)) ` set ns) (filter (\<lambda>e. e \<noteq> (n, True)) xs) =
      filter (\<lambda>e. e \<notin> (\<lambda>n. (n, True)) ` set (n # ns)) xs" for xs
    by (induction xs) auto
  then show ?case using Cons by (simp add: drop_marker_def)
qed simp

text \<open>
  What a filtered scan does to the signals of others. Files of runs outside the filter are removed without
  being handled: nothing but the directory of signals changes. A retry or an expiry signal, for which no handler
  is registered, is unlinked twice, so the scan ends with \<open>FileNotFoundError\<close>; it is gone too, and the signals
  behind it wait for the next scan.
\<close>

theorem foreign_signals_lost:
  assumes "only \<noteq> []" "list_all (foreign_marker only) foreign" "file_safe i" "sig \<in> {SIG_RETRY, SIG_EXPIRED}"
    and "distinct (map fst (foreign @ (signal_file i sig, True) # rest))"
  shows "(dk_signals (oc_disk st) = foreign \<longrightarrow>
      process_signals su only st = (Ok (), st\<lparr>oc_disk := (oc_disk st)\<lparr>dk_signals := []\<rparr>\<rparr>)) \<and>
    (dk_signals (oc_disk st) = foreign @ (signal_file i sig, True) # rest \<longrightarrow>
      process_signals su only st = (Err FileNotFoundError, st\<lparr>oc_disk := (oc_disk st)\<lparr>dk_signals := rest\<rparr>\<rparr>))"
proof -
  have e: "e = (fst e, True)" if "e \<in> set foreign" for e
    using that assms(2) by (auto simp: list_all_iff foreign_marker_def)
  have f: "foreign_marker only (n, True) \<and> (n, True) \<in> set foreign" if n: "n \<in> set (map fst foreign)" for n
    using n assms(2) e by (auto simp: list_all_iff) (metis fst_conv)+
  have all: "dispatch_markers su (handlers su) only (map fst foreign) st = (Ok False, fold drop_marker (map fst foreign) st)"
    if "set foreign \<subseteq> set (dk_signals (oc_disk st))"
    using that f assms(1,5) by (intro dispatch_foreign_all) auto
  have img: "(\<lambda>n. (n, True)) ` set (map fst foreign) = set foreign"
    using e by (auto simp: image_iff) (metis fst_conv)+
  have dropped: "fold drop_marker (map fst foreign) st =
      st\<lparr>oc_disk := (oc_disk st)\<lparr>dk_signals := filter (\<lambda>e. e \<notin> set foreign) (dk_signals (oc_disk st))\<rparr>\<rparr>"
    unfolding fold_drop_markers img ..
  have first: "process_signals su only st = (Ok (), st\<lparr>oc_disk := (oc_disk st)\<lparr>dk_signals := []\<rparr>\<rparr>)"
    if s: "dk_signals (oc_disk st) = foreign"
    using all dropped by (simp add: process_signals_def s st_bind_def)
  let ?n = "signal_file i sig"
  have second: "process_signals su only st = (Err FileNotFoundError, st\<lparr>oc_disk := (oc_disk st)\<lparr>dk_signals := rest\<rparr>\<rparr>)"
    if s: "dk_signals (oc_disk st) = foreign @ (?n, True) # rest"
  proof -
    let ?st = "fold drop_marker (map fst foreign) st"
    have disj: "(?n, True) \<notin> set foreign" "set foreign \<inter> set rest = {}" "(?n, True) \<notin> set rest"
      using assms(5) by (auto simp: rev_image_eqI)
    have d: "filter (\<lambda>e. e \<notin> set foreign) (foreign @ (?n, True) # rest) = (?n, True) # rest"
      "filter (\<lambda>e. e \<noteq> (?n, True)) rest = rest"
      using disj by (auto simp: filter_id_conv filter_empty_conv)
    have "dispatch_marker su (handlers su) only ?n ?st = (Err FileNotFoundError, drop_marker ?n ?st)"
      using assms(3,4) disj(1) by (intro dispatch_unhandled) (simp_all add: dropped s d)
    moreover have "drop_marker ?n ?st = st\<lparr>oc_disk := (oc_disk st)\<lparr>dk_signals := rest\<rparr>\<rparr>"
    proof -
      have "filter (\<lambda>e. e \<noteq> (?n, True)) (filter (\<lambda>e. e \<notin> set foreign) (foreign @ (?n, True) # rest)) = rest"
        unfolding d(1) using d(2) by simp
      then show ?thesis unfolding drop_marker_def dropped s by simp
    qed
    moreover have "dispatch_markers su (handlers su) only (map fst foreign) st = (Ok False, ?st)"
      by (rule all) (auto simp: s)
    ultimately show ?thesis
      by (simp add: process_signals_def s dispatch_markers_append st_bind_def)
  qed
  show ?thesis using first second by blast
qed

text \<open>An empty orchestrator over a signal directory.\<close>

definition demo_around :: surroundings where
  "demo_around = \<lparr>su_now = ''now'', su_time = 0, su_stamp = 0, su_start_of = (\<lambda>_. 0), su_end_of = (\<lambda>_. 0),
     su_scan = (\<lambda>d. map fst (dk_folders d)), su_unresolved = Ok ()\<rparr>"

definition demo_orch :: "disk \<Rightarrow> 'm \<Rightarrow> 'm orch" where
  "demo_orch d m = \<lparr>oc_disk = d, oc_hub = \<lparr>hub_store = [], hub_sink = \<lparr>sk_stream = [], sk_staged = [], sk_archive = []\<rparr>\<rparr>,
     oc_tasks = m, oc_event = False\<rparr>"

lemma demo_file_safe: "CHR '':'' \<notin> set rid \<Longrightarrow> CHR ''/'' \<notin> set rid \<Longrightarrow> file_safe (demo_id rid)"
  by (simp add: file_safe_def identity_ok_def demo_id_def mk_identity_def signal_stem_def)

theorem foreign_signals_lost_witness:
  "\<exists>st :: unit orch. dk_signals (oc_disk st) = [(signal_file (demo_id ''r2'') FAIL, True), (signal_file (demo_id ''r1'') SIG_RETRY, True),
      (signal_file (demo_id ''r1'') DONE, True)] \<and>
    process_signals demo_around [''r1''] st =
      (Err FileNotFoundError, st\<lparr>oc_disk := (oc_disk st)\<lparr>dk_signals := [(signal_file (demo_id ''r1'') DONE, True)]\<rparr>\<rparr>)"
proof -
  let ?f = "[(signal_file (demo_id ''r2'') FAIL, True)]"
  let ?n = "signal_file (demo_id ''r1'') SIG_RETRY" and ?r = "[(signal_file (demo_id ''r1'') DONE, True)]"
  let ?st = "demo_orch ((demo_disk ''ACTIVE'' NoFile None)\<lparr>dk_signals := ?f @ (?n, True) # ?r\<rparr>) ()"
  have safe: "file_safe (demo_id ''r1'')" "file_safe (demo_id ''r2'')" by (simp_all add: demo_file_safe)
  have f: "list_all (foreign_marker [''r1'']) ?f"
    using safe by (auto simp: foreign_marker_def demo_id_def mk_identity_def intro!: exI [of _ FAIL])
  have d: "distinct (map fst (?f @ (?n, True) # ?r))"
    by (simp add: signal_file_def get_signal_name_def demo_id_def mk_identity_def identity_key_def)
  have s: "dk_signals (oc_disk ?st) = ?f @ (?n, True) # ?r" by (simp add: demo_orch_def)
  have "process_signals demo_around [''r1''] ?st =
      (Err FileNotFoundError, ?st\<lparr>oc_disk := (oc_disk ?st)\<lparr>dk_signals := ?r\<rparr>\<rparr>)"
    using foreign_signals_lost [OF _ f safe(1) _ d, of ?st demo_around] s by simp
  then show ?thesis using s unfolding append_Cons append_Nil by blast
qed



section \<open>Finished tasks\<close>

lemma op_simps [simp]:
  "oc_hub (snd (disk_op f st)) = oc_hub st" "oc_tasks (snd (disk_op f st)) = oc_tasks st"
  "oc_disk (snd (hub_op g st)) = oc_disk st" "oc_tasks (snd (hub_op g st)) = oc_tasks st"
  by (simp_all add: disk_op_def hub_op_def split: prod.split)

lemma sync_folder_rest [simp]:
  "oc_disk (snd (sync_folder su folder deep st)) = oc_disk st" "oc_tasks (snd (sync_folder su folder deep st)) = oc_tasks st"
  by (simp_all add: sync_folder_def)

lemma look_rest [simp]:
  "oc_hub (look_at_manifest su i st) = oc_hub st" "oc_tasks (look_at_manifest su i st) = oc_tasks st"
  by (simp_all add: look_at_manifest_def)

lemma failure_keeps_disk:
  "oc_disk (snd (on_terminal_task su False ev st)) =
    (case ev_folder ev of None \<Rightarrow> oc_disk st | Some f \<Rightarrow> oc_disk (look_at_manifest su (ev_identity ev) st))"
proof (cases "ev_folder ev")
  case (Some f)
  let ?st = "look_at_manifest su (ev_identity ev) st"
  obtain r st1 where s: "sync_folder su f True ?st = (r, st1)" by fastforce
  then have "oc_disk st1 = oc_disk ?st" by (metis snd_conv sync_folder_rest(1))
  then show ?thesis using s Some by (cases r) (simp_all add: on_terminal_task_def st_bind_def st_lift_def)
qed (simp add: on_terminal_task_def)

text \<open>The manifest of the run's \<open>ACTIVE\<close> directory is readable, or missing.\<close>

definition readable :: "surroundings \<Rightarrow> task_identity \<Rightarrow> 'm orch \<Rightarrow> bool" where
  "readable su i st \<longleftrightarrow> (\<exists>m. ws_load (su_now su) (ws_at (oc_disk st) i) (oc_disk st) = (Ok (m, ws_at (oc_disk st) i), oc_disk st))"

lemma look_readable: "readable su i st \<Longrightarrow> look_at_manifest su i st = st"
  by (auto simp: readable_def look_at_manifest_def disk_op_def)

text \<open>
  C11. A failed task is never quarantined. Whatever the scan finds and whatever the registry knows, the failure
  signal of a task with a readable manifest changes nothing on disk but the signal itself, which is removed: the
  run's directory stays under \<open>ACTIVE\<close>.
\<close>

theorem failed_tasks_never_quarantined:
  assumes "file_safe i" "(signal_file i FAIL, True) \<in> set (dk_signals (oc_disk st))" "readable su i st"
  shows "\<exists>b st'. dispatch_marker su (handlers su) only (signal_file i FAIL) st = (Ok b, st') \<and>
    oc_disk st' = oc_disk (drop_marker (signal_file i FAIL) st)"
proof -
  let ?n = "signal_file i FAIL"
  obtain b st1 where b: "marker_body su (handlers su) only ?n st = (b, st1)" by fastforce
  have d: "oc_disk st1 = oc_disk st"
  proof -
    have h: "oc_disk st2 = oc_disk st"
      if "on_terminal_task su False \<lparr>ev_identity = i, ev_signal = FAIL, ev_folder = f\<rparr> st = (r, st2)" for f r st2
      using failure_keeps_disk [of su "\<lparr>ev_identity = i, ev_signal = FAIL, ev_folder = f\<rparr>" st] that look_readable [OF assms(3)]
      by (cases f) simp_all
    have f: "handlers su FAIL = Some (on_terminal_task su False)" by (simp add: handlers_def)
    show ?thesis using b
      by (auto simp: marker_body_def signal_file_names(4,5) [OF assms(1)] f dest: h split: if_splits sum.splits prod.splits)
  qed
  have "unlink_marker ?n st1 = (Ok (), drop_marker ?n st1)" using assms(2) by (intro unlink_present) (simp add: d)
  then have "dispatch_marker su (handlers su) only ?n st = (Ok b, drop_marker ?n st1)"
    using assms(2) b by (simp add: dispatch_marker_def signal_file_names(3) [OF assms(1)] st_bind_def st_lift_def)
  then show ?thesis by (auto simp: drop_marker_def d)
qed

theorem failed_tasks_never_quarantined_witness:
  "\<exists>st :: unit orch. folder_at (oc_disk st) (run_path ''ACTIVE'' (demo_id ''r1'')) \<noteq> None \<and>
    (\<exists>b st'. dispatch_marker demo_around (handlers demo_around) [] (signal_file (demo_id ''r1'') FAIL) st = (Ok b, st') \<and>
      folder_at (oc_disk st') (run_path ''ACTIVE'' (demo_id ''r1'')) = folder_at (oc_disk st) (run_path ''ACTIVE'' (demo_id ''r1'')))"
proof -
  let ?n = "signal_file (demo_id ''r1'') FAIL"
  let ?d = "(demo_disk ''ACTIVE'' (Doc (manifest_to_builtins demo_manifest)) (Some (Ok demo_config)))\<lparr>dk_signals := [(?n, True)]\<rparr>"
  let ?st = "demo_orch ?d ()"
  have safe: "file_safe (demo_id ''r1'')" by (simp add: demo_file_safe)
  have n: "(?n, True) \<in> set (dk_signals (oc_disk ?st))" by (simp add: demo_orch_def)
  have f: "folder_at (oc_disk ?st) (run_path ''ACTIVE'' (demo_id ''r1'')) =
      Some \<lparr>rf_manifest = Doc (manifest_to_builtins demo_manifest), rf_config = Some (Ok demo_config), rf_markers = {}, rf_mtime = 0\<rparr>"
    by (simp add: demo_orch_def demo_disk_def folder_at_def)
  have r: "readable demo_around (demo_id ''r1'') ?st"
    by (simp add: readable_def ws_load_def load_manifest_def folder_file_def f)
  have "folder_at (oc_disk (drop_marker ?n ?st)) p = folder_at (oc_disk ?st) p" for p by (simp add: drop_marker_def)
  then show ?thesis using failed_tasks_never_quarantined [OF safe n r, of "[]"] f
    by (intro exI [of _ ?st]) auto
qed


lemma sync_unknown:
  assumes "store_get (hub_store h) (m_run_id m) = None" "load_manifest_path now f = Ok m"
  shows "\<exists>e. sync_manifest t now so eo h f c deep md = (Err e, h)"
  using assms by (cases c) (auto simp: sync_manifest_def parse_update_def Let_def split: prod.split)

lemma sync_known:
  assumes "store_get (hub_store h) (m_run_id m) = Some r" "load_manifest_path now f = Ok m"
    and "tr_status r = Some (status_value s0)" "\<not> is_terminal s0"
  shows "\<exists>h' r'. sync_manifest t now so eo h f (Ok c) deep no_metadata = (Ok (), h') \<and>
    store_get (hub_store h') (m_run_id m) = Some r' \<and> tr_status r' = Some (status_value (m_status m))"
proof -
  obtain u where u: "parse_update t now so eo (hub_store h) m c deep no_metadata = Ok u" "tu_status u = status_value (m_status m)"
    using assms(1)
    by (cases "calculate_step_progress m (Some c) (status_value (m_status m))"; cases "extract_timestamps so eo m")
      (auto simp: parse_update_def Let_def no_metadata_def update_post_init_def)
  obtain r' where r': "apply_update r u = Ok (True, r')" "tr_status r' = Some (tu_status u)"
    using assms(3,4) by (auto simp: apply_update_def)
  have "store_update (hub_store h) (m_run_id m) u = Ok (True, dict_put (m_run_id m) r' (hub_store h))"
    using assms(1) r'(1) by (simp add: store_update_def store_get_def)
  then show ?thesis using assms(2) u r'(2)
    by (auto simp: sync_manifest_def store_get_def dict_simps)
qed

lemma cleanup_active:
  assumes "folder_at d (run_path ''ACTIVE'' i) = Some f" "identity r = i" "load_context (run_path ''ACTIVE'' i) d = Ok c"
  obtains d' where "cleanup_task r d = (Ok (), d')" "folder_at d' (run_path ''ACTIVE'' i) = None" "dk_signals d' = dk_signals d"
proof
  show "cleanup_task r d = (Ok (), snd (cleanup_task r d))" using assms by (simp add: cleanup_task_def)
  show "folder_at (snd (cleanup_task r d)) (run_path ''ACTIVE'' i) = None"
    using assms by (simp add: cleanup_task_def remove_orphaned_config_def ws_delete_def Let_def)
  show "dk_signals (snd (cleanup_task r d)) = dk_signals d"
    using assms by (simp add: cleanup_task_def remove_orphaned_config_def ws_delete_def remove_folder_def Let_def)
qed

text \<open>
  C10. The success signal of a run under \<open>ACTIVE\<close> with a readable manifest and configuration. If the registry holds
  an unfinished record of the run, the record takes the manifest's status, the directory is removed and the
  event is dispatched. If the registry does not know the run, the synchronisation raises: nothing is cleaned up,
  no event is dispatched, and the signal is gone all the same.
\<close>

theorem done_signal_effect:
  assumes "file_safe i" "(signal_file i DONE, True) \<in> set (dk_signals (oc_disk st))"
    and "find_path su (oc_disk st) (run_id i) = Ok (Some (run_path ''ACTIVE'' i))"
    and "folder_at (oc_disk st) (run_path ''ACTIVE'' i) = Some f" "rf_manifest f = Doc (manifest_to_builtins m)"
    and "rf_config f = Some (Ok c)" "m_run_id m = run_id i" "only = [] \<or> run_id i \<in> set only"
    and "case store_get (hub_store (oc_hub st)) (run_id i) of None \<Rightarrow> True
      | Some r \<Rightarrow> \<exists>s0. tr_status r = Some (status_value s0) \<and> \<not> is_terminal s0"
  shows "\<exists>st'. dispatch_marker su (handlers su) only (signal_file i DONE) st =
      (Ok (store_get (hub_store (oc_hub st)) (run_id i) \<noteq> None), st') \<and>
    (signal_file i DONE, True) \<notin> set (dk_signals (oc_disk st')) \<and>
    (case store_get (hub_store (oc_hub st)) (run_id i) of
       None \<Rightarrow> oc_hub st' = oc_hub st \<and> folder_at (oc_disk st') (run_path ''ACTIVE'' i) = Some f
     | Some r \<Rightarrow> folder_at (oc_disk st') (run_path ''ACTIVE'' i) = None \<and>
        (\<exists>r'. store_get (hub_store (oc_hub st')) (run_id i) = Some r' \<and> tr_status r' = Some (status_value (m_status m))))"
proof -
  let ?n = "signal_file i DONE" and ?p = "run_path ''ACTIVE'' i"
  let ?ev = "\<lparr>ev_identity = i, ev_signal = DONE, ev_folder = Some ?p\<rparr>"
  have ok: "identity_ok i" using assms(1) by (simp add: file_safe_def)
  have fl: "folder_file (oc_disk st) ?p = Doc (manifest_to_builtins m)" using assms(4,5) by (simp add: folder_file_def)
  have lm: "load_manifest_path now (Doc (manifest_to_builtins m)) = Ok m" for now by (simp add: load_manifest_path_def)
  have ctx: "load_context ?p (oc_disk st) = Ok c" using assms(4,6) by (simp add: load_context_def)
  have "readable su i st" by (simp add: readable_def ws_load_def load_manifest_def fl)
  then have look: "look_at_manifest su i st = st" by (rule look_readable)
  have ex: "path_exists (oc_disk st) ?p" using assms(4) by (simp add: path_exists_def)
  have body: "marker_body su (handlers su) only ?n st =
      (case on_terminal_task su True ?ev st of (Inl e, st1) \<Rightarrow> (False, st1) | (Inr _, st1) \<Rightarrow> (True, st1))"
    using assms(3,8) by (auto simp: marker_body_def signal_file_names(4,5) [OF assms(1)] handlers_def)
  show ?thesis
  proof (cases "store_get (hub_store (oc_hub st)) (run_id i)")
    case None
    then have "store_get (hub_store (oc_hub st)) (m_run_id m) = None" by (simp add: assms(7))
    from sync_unknown [OF this lm] obtain e where "sync_manifest (su_stamp su) (su_now su) (su_start_of su) (su_end_of su)
        (oc_hub st) (Doc (manifest_to_builtins m)) (Ok (cf_context c)) True no_metadata = (Err e, oc_hub st)" by blast
    then have "sync_folder su ?p True st = (Err e, st)"
      using ex fl ctx by (simp add: sync_folder_def hub_op_def)
    then have "marker_body su (handlers su) only ?n st = (False, st)"
      by (simp add: body on_terminal_task_def look st_bind_def)
    then show ?thesis using None assms(2,4)
      by (simp add: dispatch_marker_def signal_file_names(3) [OF assms(1)] st_bind_def st_lift_def unlink_present)
        (simp add: drop_marker_def)
  next
    case (Some r)
    then obtain s0 where "tr_status r = Some (status_value s0)" "\<not> is_terminal s0" using assms(9) by auto
    from sync_known [OF _ lm this, of "oc_hub st"] Some assms(7)
    obtain h' r' where h': "sync_manifest (su_stamp su) (su_now su) (su_start_of su) (su_end_of su) (oc_hub st)
        (Doc (manifest_to_builtins m)) (Ok (cf_context c)) True no_metadata = (Ok (), h')"
      "store_get (hub_store h') (run_id i) = Some r'" "tr_status r' = Some (status_value (m_status m))"
      by (metis (no_types))
    let ?st1 = "st\<lparr>oc_hub := h'\<rparr>"
    have sync: "sync_folder su ?p True st = (Ok (), ?st1)"
      using ex fl ctx h'(1) by (simp add: sync_folder_def hub_op_def)
    obtain x where x: "task_from_path (su_now su) None ?p (oc_disk st) = Ok x" "identity x = i"
      by (simp add: task_from_path_run [OF ok] fl lm mk_ref_def)
    obtain d' where clean: "cleanup_task x (oc_disk st) = (Ok (), d')" "folder_at d' ?p = None"
      "dk_signals d' = dk_signals (oc_disk st)"
      by (rule cleanup_active [OF assms(4), of x]) (simp_all add: x(2) ctx)
    have "on_terminal_task su True ?ev st = (Ok (), ?st1\<lparr>oc_disk := d'\<rparr>)"
      by (simp add: on_terminal_task_def look st_bind_def sync disk_op_def st_lift_def x(1) clean(1))
    then have "marker_body su (handlers su) only ?n st = (True, ?st1\<lparr>oc_disk := d'\<rparr>)" by (simp add: body)
    then show ?thesis using Some assms(2) clean(2,3) h'(2,3)
      by (simp add: dispatch_marker_def signal_file_names(3) [OF assms(1)] st_bind_def st_lift_def unlink_present)
        (simp add: drop_marker_def)
  qed
qed


definition demo_record :: "exec_status \<Rightarrow> task_record" where
  "demo_record st = (new_record 0 (demo_id ''r1''))\<lparr>tr_status := Some (status_value st)\<rparr>"

theorem done_signal_effect_witness:
  "\<exists>(st :: unit orch) st'. dispatch_marker demo_around (handlers demo_around) [] (signal_file (demo_id ''r1'') DONE) st = (Ok True, st') \<and>
    folder_at (oc_disk st) (run_path ''ACTIVE'' (demo_id ''r1'')) \<noteq> None \<and>
    folder_at (oc_disk st') (run_path ''ACTIVE'' (demo_id ''r1'')) = None \<and>
    (\<exists>r'. store_get (hub_store (oc_hub st')) ''r1'' = Some r' \<and> tr_status r' = Some ''SUCCESS'')"
proof -
  let ?i = "demo_id ''r1''" and ?m = "demo_manifest\<lparr>m_status := SUCCESS\<rparr>"
  let ?n = "signal_file ?i DONE"
  let ?f = "\<lparr>rf_manifest = Doc (manifest_to_builtins ?m), rf_config = Some (Ok demo_config), rf_markers = {}, rf_mtime = 0\<rparr>"
  let ?d = "(demo_disk ''ACTIVE'' (Doc (manifest_to_builtins ?m)) (Some (Ok demo_config)))\<lparr>dk_signals := [(?n, True)]\<rparr>"
  let ?st = "(demo_orch ?d ())\<lparr>oc_hub := \<lparr>hub_store = [(''r1'', demo_record RUNNING)],
    hub_sink = \<lparr>sk_stream = [], sk_staged = [], sk_archive = []\<rparr>\<rparr>\<rparr>"
  have rid: "run_id ?i = ''r1''" by (simp add: demo_id_def mk_identity_def)
  have 1: "file_safe ?i" by (simp add: demo_file_safe)
  have 2: "(?n, True) \<in> set (dk_signals (oc_disk ?st))" by (simp add: demo_orch_def)
  have 3: "find_path demo_around (oc_disk ?st) (run_id ?i) = Ok (Some (run_path ''ACTIVE'' ?i))"
    by (simp add: find_path_def demo_around_def demo_orch_def demo_disk_def run_path_def rid)
  have 4: "folder_at (oc_disk ?st) (run_path ''ACTIVE'' ?i) = Some ?f"
    by (simp add: demo_orch_def demo_disk_def folder_at_def)
  have 5: "rf_manifest ?f = Doc (manifest_to_builtins ?m)" "rf_config ?f = Some (Ok demo_config)" by simp_all
  have 6: "m_run_id ?m = run_id ?i" by (simp add: demo_manifest_def rid)
  have g: "store_get (hub_store (oc_hub ?st)) (run_id ?i) = Some (demo_record RUNNING)"
    by (simp add: store_get_def rid)
  have 7: "case store_get (hub_store (oc_hub ?st)) (run_id ?i) of None \<Rightarrow> True
      | Some r \<Rightarrow> \<exists>s0. tr_status r = Some (status_value s0) \<and> \<not> is_terminal s0"
    unfolding g by (auto simp: demo_record_def simp del: status_value.simps intro!: exI [of _ RUNNING])
  from done_signal_effect [OF 1 2 3 4 5 6 disjI1 [OF refl] 7, unfolded g option.case, unfolded rid]
  obtain st' where st': "dispatch_marker demo_around (handlers demo_around) [] ?n ?st = (Ok True, st')"
    "folder_at (oc_disk st') (run_path ''ACTIVE'' ?i) = None"
    "\<exists>r'. store_get (hub_store (oc_hub st')) ''r1'' = Some r' \<and> tr_status r' = Some ''SUCCESS''"
    by auto
  then show ?thesis using 4 by blast
qed


section \<open>The trigger mode never sees its tasks\<close>

text \<open>No operation of this mode adds a record, so the registry stays empty and every update falls away.\<close>

lemma update_task_empty: "hub_store h = [] \<Longrightarrow> snd (update_task h rid u) = h"
  by (cases u) (simp_all add: update_task_def store_update_def)

lemma sync_manifest_empty: "hub_store h = [] \<Longrightarrow> snd (sync_manifest t now so eo h f c deep md) = h"
  by (simp add: sync_manifest_def parse_update_def store_get_def Let_def split: sum.split prod.split)

definition blind :: "'m orch \<Rightarrow> bool" where
  "blind st \<longleftrightarrow> hub_store (oc_hub st) = []"

lemma blind_ops:
  "blind st \<Longrightarrow> blind (snd (disk_op f st))" "blind st \<Longrightarrow> blind (snd (tasks_op g st))"
  "blind st \<Longrightarrow> blind (snd (hub_op (\<lambda>h. update_task h rid u) st))"
  "blind st \<Longrightarrow> blind (snd (sync_folder su folder deep st))"
  "blind (drop_marker n st) = blind st"
  by (auto simp: blind_def disk_op_def tasks_op_def hub_op_def sync_folder_def drop_marker_def split: prod.split
      dest: update_task_empty sync_manifest_empty) (metis snd_conv update_task_empty sync_manifest_empty)+

lemma st_bind_state:
  assumes "P (snd (m s))" "\<And>x s'. m s = (Ok x, s') \<Longrightarrow> P s' \<Longrightarrow> P (snd (k x s'))"
  shows "P (snd (st_bind m k s))"
  using assms by (cases "m s") (auto simp: st_bind_def split: sum.split)


lemma look_blind: "blind st \<Longrightarrow> blind (look_at_manifest su i st)"
  by (simp add: blind_def)

lemmas blind_bind = st_bind_state [where P = blind]

lemma blind_lift: "blind st \<Longrightarrow> blind (snd (st_lift r st))"
  by (simp add: st_lift_def)

lemma terminal_blind:
  assumes "blind st"
  shows "blind (snd (on_terminal_task su ok ev st))"
proof (cases "ev_folder ev")
  case (Some f)
  have "blind (snd (st_bind (disk_op (\<lambda>d. st_lift (task_from_path (su_now su) None f d) d)) (\<lambda>r. disk_op (cleanup_task r)) s))"
    if "blind s" for s :: "'a orch"
    by (rule blind_bind) (rule blind_ops that | assumption)+
  then show ?thesis unfolding on_terminal_task_def Some option.case using assms
    by (cases ok) (simp_all, (rule blind_bind, rule blind_ops, erule look_blind, simp add: blind_lift)+)
qed (simp add: on_terminal_task_def assms)

lemma handlers_blind:
  assumes "handlers su sig = Some h" "blind st"
  shows "blind (snd (h ev st))"
proof -
  have "blind (snd (on_task_sync su ev st))"
    using assms(2) by (cases "ev_folder ev") (auto simp: on_task_sync_def intro: blind_ops look_blind)
  then show ?thesis using assms terminal_blind by (auto simp: handlers_def split: task_signal.splits)
qed

lemma handlers_tasks:
  assumes "handlers su sig = Some h"
  shows "oc_tasks (snd (h ev st)) = oc_tasks st"
proof -
  have t: "oc_tasks (snd (on_terminal_task su ok ev st)) = oc_tasks st" for ok
  proof (cases "ev_folder ev")
    case (Some f)
    show ?thesis unfolding on_terminal_task_def Some option.case
      by (rule st_bind_state) (auto simp: st_lift_def intro!: st_bind_state [where P = "\<lambda>s. oc_tasks s = oc_tasks st"])
  qed (simp add: on_terminal_task_def)
  have "oc_tasks (snd (on_task_sync su ev st)) = oc_tasks st"
    by (cases "ev_folder ev") (simp_all add: on_task_sync_def)
  then show ?thesis using assms t by (auto simp: handlers_def split: task_signal.splits)
qed

definition same_tasks :: "'m orch \<Rightarrow> 'm orch \<Rightarrow> bool" where
  "same_tasks st st' \<longleftrightarrow> oc_tasks st' = oc_tasks st \<and> (blind st \<longrightarrow> blind st')"

lemma marker_body_same: "same_tasks st (snd (marker_body su (handlers su) only n st))"
proof -
  have u: "same_tasks st (snd (unlink_marker n st))"
    by (simp add: same_tasks_def unlink_marker_def blind_ops)
  have h: "same_tasks st st1" if "handlers su sig = Some h" "h ev st = (r, st1)" for sig h ev r st1
    using handlers_blind [OF that(1), of st ev] handlers_tasks [OF that(1), of ev st] that(2) by (simp add: same_tasks_def)
  have r: "same_tasks st st" by (simp add: same_tasks_def)
  show ?thesis
    by (auto simp: marker_body_def r u dest: h split: sum.split option.split prod.split)
qed

lemma dispatch_markers_same:
  fixes st :: "'m orch"
  shows "same_tasks st (snd (dispatch_markers su (handlers su) only ns st))"
proof (induction ns arbitrary: st)
  case (Cons n ns)
  have u: "same_tasks s (snd (unlink_marker n s))" for s :: "'m orch"
    by (simp add: same_tasks_def unlink_marker_def blind_ops)
  have "same_tasks st (snd (dispatch_marker su (handlers su) only n st))"
  proof (cases "(n, True) \<notin> set (dk_signals (oc_disk st)) \<or> path_suffix n \<notin> set supported_signal_extensions")
    case True
    have "same_tasks st (snd (st_bind (unlink_marker n) (\<lambda>_. st_lift (Ok False)) st))"
      by (rule st_bind_state) (simp_all add: u st_lift_def)
    then show ?thesis using True by (auto simp: dispatch_marker_def same_tasks_def)
  next
    case False
    obtain b st1 where b: "marker_body su (handlers su) only n st = (b, st1)" by fastforce
    then have "same_tasks st st1" using marker_body_same [of st su only n] by simp
    moreover have "same_tasks st1 (snd (st_bind (unlink_marker n) (\<lambda>_. st_lift (Ok b)) st1))"
      by (rule st_bind_state) (simp_all add: u st_lift_def)
    ultimately show ?thesis using False b by (simp add: dispatch_marker_def same_tasks_def)
  qed
  moreover have "same_tasks s (snd (st_bind (dispatch_markers su (handlers su) only ns) (\<lambda>more. st_lift (Ok (sent \<or> more))) s))" for s :: "'m orch" and sent
    by (rule st_bind_state) (simp_all add: Cons.IH st_lift_def)
  ultimately show ?case
    by (cases "dispatch_marker su (handlers su) only n st")
      (auto simp: st_bind_def same_tasks_def split: sum.split)
qed (simp add: st_lift_def same_tasks_def)

lemma process_signals_same: "same_tasks st (snd (process_signals su only st))"
  unfolding process_signals_def
  by (rule st_bind_state) (simp_all add: dispatch_markers_same, simp add: same_tasks_def blind_def)

lemma start_job_blind:
  assumes "blind st"
  shows "blind (snd (start_job su ops contexts run_arg st))"
proof -
  have c: "blind (snd (start_context su ops run_arg c s))" if "blind s" for c s
    unfolding start_context_def Let_def
  proof (rule blind_bind)
    show "blind (snd (disk_op (\<lambda>d. (Ok (), d\<lparr>dk_seeds := dict_put (config_seed run_arg (ctx_identity (cf_context c))) (Ok c) (dk_seeds d)\<rparr>)) s))"
      using that by (rule blind_ops)
  qed (rule blind_bind, erule blind_ops, rule blind_bind, erule blind_ops, rule blind_bind, erule blind_ops,
      rule blind_bind, auto simp: blind_lift blind_ops split: option.split, simp add: blind_def)
  have "blind (snd (st_each (start_context su ops run_arg) cs s))" if "blind s" for cs s
    using that
  proof (induction cs arbitrary: s)
    case (Cons x cs)
    show ?case unfolding st_each.simps by (rule blind_bind) (auto intro: c Cons)
  qed (simp add: st_lift_def)
  then have "blind (snd (st_bind (st_each (start_context su ops run_arg) cs)
      (\<lambda>_. st_lift (Ok ((run_id \<circ> ctx_identity \<circ> cf_context) ` set cs))) s))" if "blind s" for cs s
    using that by (intro blind_bind) (auto simp: blind_lift)
  then show ?thesis unfolding start_job_def using assms
    by (cases contexts) (simp_all add: blind_lift)
qed



section \<open>The status of a triggered run\<close>

lemma glob_suffix:
  "glob (p @ q) s \<Longrightarrow> CHR ''*'' \<notin> set q \<Longrightarrow> CHR ''?'' \<notin> set q \<Longrightarrow> suffix q s"
proof (induction p s rule: glob.induct)
  case (1 s)
  have "q = s" if "glob q s" for s
    using that "1.prems"(2,3) by (induction q s rule: glob.induct) auto
  then show ?case using "1.prems"(1) by (metis append_Nil suffix_order.refl)
next
  case (3 p ps c cs)
  then show ?case by (auto split: if_splits simp: suffix_Cons)
qed (auto split: if_splits)

lemma glob_star_app: "glob q s \<Longrightarrow> glob (CHR ''*'' # q) (u @ s)"
proof (induction u)
  case Nil
  then show ?case by (cases s) auto
qed auto

lemma py_split_sep: "py_split c (x @ c # y) = py_split c x @ py_split c y"
proof (induction x)
  case (Cons a x)
  obtain w ws where "py_split c x = w # ws" by (rule py_split_Cons_cases)
  then show ?case using Cons by auto
qed simp

text \<open>An identity whose parts carry neither a colon nor a wildcard.\<close>

definition plain_id :: "task_identity \<Rightarrow> bool" where
  "plain_id i \<longleftrightarrow> identity_ok i \<and> CHR ''*'' \<notin> set (signal_stem i) \<and> CHR ''?'' \<notin> set (signal_stem i)"

lemma client_key_stem: "client_key_of m = md_status m @ '':'' @ md_current_step_id m @ '':'' @ signal_stem (md_identity m)"
  by (simp add: client_key_of_def client_parts_def signal_stem_def md_identity_def mk_identity_def)

lemma stem_split: "identity_ok i \<Longrightarrow> py_split CHR '':'' (signal_stem i) = [job_id i, dataset_id i, partition_date i, run_id i]"
  unfolding signal_stem_def by (intro py_split_join) (auto simp: identity_ok_def)

lemma admitted_match:
  assumes "md_ok m" "plain_id i"
  shows "glob (''*:*:'' @ signal_stem i) (client_key_of m) \<longleftrightarrow> md_identity m = i"
proof
  assume "glob (''*:*:'' @ signal_stem i) (client_key_of m)"
  then have "glob (''*:*'' @ (CHR '':'' # signal_stem i)) (client_key_of m)" by simp
  then have "suffix (CHR '':'' # signal_stem i) (client_key_of m)"
    by (rule glob_suffix) (use assms(2) in \<open>auto simp: plain_id_def\<close>)
  then obtain x where x: "client_key_of m = x @ CHR '':'' # signal_stem i" by (auto simp: suffix_def)
  have "client_parts m = py_split CHR '':'' x @ [job_id i, dataset_id i, partition_date i, run_id i]"
    using client_key_split [OF assms(1)] assms(2) by (simp add: x py_split_sep stem_split plain_id_def)
  then have "drop (length (client_parts m) - 4) (client_parts m) = [job_id i, dataset_id i, partition_date i, run_id i]"
    by simp
  then show "md_identity m = i"
    by (simp add: client_parts_def md_identity_def mk_identity_def)
next
  assume "md_identity m = i"
  then have "client_key_of m = md_status m @ '':'' @ md_current_step_id m @ '':'' @ signal_stem i"
    by (simp add: client_key_stem)
  moreover have "glob (signal_stem i) (signal_stem i)"
    using glob_literal [of "signal_stem i" "[]" "[]"] assms(2) by (simp add: plain_id_def)
  then have "glob ('':*:'' @ signal_stem i) ('':'' @ md_current_step_id m @ '':'' @ signal_stem i)"
    using glob_star_app [of "'':'' @ signal_stem i" "'':'' @ signal_stem i" "md_current_step_id m"] by simp
  ultimately show "glob (''*:*:'' @ signal_stem i) (client_key_of m)"
    using glob_star_app [of "'':*:'' @ signal_stem i" "'':'' @ md_current_step_id m @ '':'' @ signal_stem i" "md_status m"]
    by simp
qed

definition keys_known :: "md_cache \<Rightarrow> bool" where
  "keys_known c \<longleftrightarrow> task_cache_ok c \<and> (\<forall>k\<in>fst ` set (mc_data c). rotated_key k \<or> admitted_key k)"

text \<open>The entry an admission has left for a run.\<close>

definition admitted_entry :: "int \<Rightarrow> md_cache \<Rightarrow> task_identity \<Rightarrow> task_metadata \<Rightarrow> bool" where
  "admitted_entry t c i m \<longleftrightarrow> md_ok m \<and> md_identity m = i \<and>
     ''task::task:'' @ client_key_of m \<in> fst ` set (mc_data (clean_expired t c))"

lemma status_keys:
  assumes "keys_known c" "plain_id i"
  shows "fst (tc_find t c (status_pattern (job_id i) (dataset_id i) (partition_date i) (run_id i))) =
    map (drop 6) (filter (\<lambda>k. \<exists>m. md_ok m \<and> md_identity m = i \<and> k = ''task::task:'' @ client_key_of m)
      (map fst (mc_data (clean_expired t c))))"
proof -
  let ?p = "status_pattern (job_id i) (dataset_id i) (partition_date i) (run_id i)"
  let ?ks = "map fst (mc_data (clean_expired t c))"
  have p: "?p = ''task:*:*:'' @ signal_stem i"
    by (simp add: status_pattern_def CACHE_TASK_NAMESPACE_def identity_key_def mk_identity_def signal_stem_def)
  have kk: "rotated_key k \<or> admitted_key k" if "k \<in> set ?ks" for k
    using that assms(1) clean_expired_keeps(2) [of t c] unfolding keys_known_def set_map by blast
  have m: "prefix ''task::'' k \<and> glob (''task::'' @ ?p) k \<longleftrightarrow> (\<exists>m. md_ok m \<and> md_identity m = i \<and> k = ''task::task:'' @ client_key_of m)"
    if "k \<in> set ?ks" for k
  proof -
    have g: "glob (''task::'' @ ?p) (''task::task:'' @ client_key_of m) \<longleftrightarrow> md_identity m = i" if "md_ok m" for m
      using admitted_match [OF that assms(2)] by (simp add: p)
    have r: "\<not> glob (''task::'' @ ?p) (''task::'' @ client_key_of m)" if "md_ok m" for m
      using glob_misses_rotated [OF that, of "''*:*:'' @ signal_stem i"] by (simp add: p)
    have neq: "''task::'' @ client_key_of m \<noteq> ''task::task:'' @ client_key_of m'" if m: "md_ok m" for m m'
    proof -
      obtain c cs where "client_key_of m = c # cs" "c \<noteq> CHR ''t''" by (rule status_first [OF m])
      then show ?thesis by simp
    qed
    show ?thesis using kk [OF that]
    proof
      assume "rotated_key k"
      then show ?thesis using r neq by (auto simp: rotated_key_def)
    next
      assume "admitted_key k"
      then obtain m where m: "md_ok m" "k = ''task::task:'' @ client_key_of m" by (auto simp: admitted_key_def)
      have inj: "md_identity m' = md_identity m" if "md_ok m'" "client_key_of m' = client_key_of m" for m'
        using client_key_inj [OF that(1) m(1) that(2)] by (simp add: client_parts_def md_identity_def)
      have "glob (''task::'' @ ?p) k \<longleftrightarrow> md_identity m = i" unfolding m(2) by (rule g [OF m(1)])
      moreover have "prefix ''task::'' k" by (simp add: m(2))
      moreover have "(\<exists>m'. md_ok m' \<and> md_identity m' = i \<and> k = ''task::task:'' @ client_key_of m') \<longleftrightarrow> md_identity m = i"
      proof
        assume "\<exists>m'. md_ok m' \<and> md_identity m' = i \<and> k = ''task::task:'' @ client_key_of m'"
        then obtain m' where "md_ok m'" "md_identity m' = i" "client_key_of m' = client_key_of m" unfolding m(2) by force
        then show "md_identity m = i" using inj by metis
      qed (use m in blast)
      ultimately show ?thesis by blast
    qed
  qed
  have pre: "prefix (cache_prefix TASK_PREFIX) ?p" unfolding cache_prefix_task by (simp add: p TASK_PREFIX_def)
  have "fst (tc_find t c ?p) = map (unprefixed TASK_PREFIX) (filter (\<lambda>k. prefix ''task::'' k \<and> glob (''task::'' @ ?p) k) ?ks)"
    using assms(1) pre by (simp add: tc_find_def mem_iterkeys_def keys_known_def task_cache_ok_def clean_expired_keeps
        Let_def del: cache_prefix_task)
  also have "\<dots> = map (unprefixed TASK_PREFIX) (filter (\<lambda>k. \<exists>m. md_ok m \<and> md_identity m = i \<and> k = ''task::task:'' @ client_key_of m) ?ks)"
    using m by (intro arg_cong [where f = "map _"] filter_cong) auto
  also have "\<dots> = map (drop 6) (filter (\<lambda>k. \<exists>m. md_ok m \<and> md_identity m = i \<and> k = ''task::task:'' @ client_key_of m) ?ks)"
    by (rule map_cong) (auto simp: unprefixed_def)
  finally show ?thesis .
qed


lemma member_ne: "x \<in> set xs \<Longrightarrow> xs \<noteq> []"
  by auto

lemma status_of_absent:
  assumes "keys_known c" "plain_id i" "\<And>m. \<not> admitted_entry t c i m"
  shows "resolve_task_status t c s (job_id i) (dataset_id i) (partition_date i) (run_id i) =
    (case store_get s (run_id i) of None \<Rightarrow> Ok SUCCESS
     | Some r \<Rightarrow> res_bind (record_status r) (\<lambda>st. Ok (if is_failure st then FAILED else SUCCESS)))"
proof -
  have "filter (\<lambda>k. \<exists>m. md_ok m \<and> md_identity m = i \<and> k = ''task::task:'' @ client_key_of m)
      (map fst (mc_data (clean_expired t c))) = []"
    unfolding filter_empty_conv set_map using assms(3) unfolding admitted_entry_def by metis
  then show ?thesis unfolding resolve_task_status_def status_keys [OF assms(1,2)] by simp
qed

lemma status_of_admitted:
  assumes "keys_known c" "plain_id i" "admitted_entry t c i m"
  shows "\<exists>m' st. admitted_entry t c i m' \<and> md_status m' = status_value st \<and>
    resolve_task_status t c s (job_id i) (dataset_id i) (partition_date i) (run_id i) = Ok st"
proof -
  let ?P = "\<lambda>k. \<exists>m. md_ok m \<and> md_identity m = i \<and> k = ''task::task:'' @ client_key_of m"
  let ?ks = "map fst (mc_data (clean_expired t c))"
  have "''task::task:'' @ client_key_of m \<in> set (filter ?P ?ks)"
    using assms(3) unfolding admitted_entry_def set_filter set_map by blast
  then have "filter ?P ?ks \<noteq> []" by (rule member_ne)
  then obtain k ks where k: "filter ?P ?ks = k # ks" by (meson neq_Nil_conv)
  then have "k \<in> set (filter ?P ?ks)" by (metis list.set_intros(1))
  then have "k \<in> set ?ks \<and> ?P k" unfolding set_filter by blast
  then obtain m' where m': "k \<in> set ?ks" "md_ok m'" "md_identity m' = i" "k = ''task::task:'' @ client_key_of m'" by blast
  have a: "admitted_entry t c i m'"
    unfolding admitted_entry_def by (rule conjI [OF m'(2)], rule conjI [OF m'(3)], rule m'(1) [unfolded m'(4) set_map])
  obtain st where st: "md_status m' = status_value st"
    "to_ref m' = Ok (mk_ref CACHE_TASK_NAMESPACE st (md_current_step_id m') (md_identity m'))"
    by (rule to_ref_ok [OF m'(2)])
  have "drop 6 k = TASK_PREFIX @ client_key_of m'" by (simp add: m'(4) TASK_PREFIX_def)
  then have "from_key (drop 6 k) = Ok (mk_ref CACHE_TASK_NAMESPACE st (md_current_step_id m') (md_identity m'))"
    using from_key_generated [OF m'(2)] st(2) by simp
  then have "resolve_task_status t c s (job_id i) (dataset_id i) (partition_date i) (run_id i) = Ok st"
    unfolding resolve_task_status_def status_keys [OF assms(1,2)] k by (simp add: mk_ref_def)
  then show ?thesis using a st(1) by blast
qed

lemma terminal_false:
  assumes "rid \<in> set rids" "status rid = Ok st" "\<not> is_terminal st" "\<And>r. r \<in> set rids \<Longrightarrow> \<exists>x. status r = Ok x"
  shows "all_tasks_terminal status rids = Ok False"
  using assms(1,4) by (induction rids) (use assms(2,3) in \<open>fastforce split: if_splits\<close>)+

lemma terminal_true:
  "(\<And>r. r \<in> set rids \<Longrightarrow> status r = Ok SUCCESS) \<Longrightarrow> all_tasks_terminal status rids = Ok True"
  by (induction rids) simp_all

lemma resolve_blind: "\<exists>st. resolve_task_status t c [] j ds pd rid = Ok st"
  by (simp add: resolve_task_status_def store_get_def split: list.split sum.split)

lemma summary_blind: "summarize_failures [] rids = Ok []"
proof -
  have "res_map (failure_of []) rids = Ok (map (\<lambda>_. []) rids)"
    by (induction rids) (simp_all add: failure_of_def store_get_def)
  then show ?thesis by (simp add: summarize_failures_def)
qed

text \<open>A loop whose test never succeeds can only be stopped by an exception or by the clock.\<close>

lemma trigger_loop_ends:
  assumes "P st" "\<And>s r s'. P s \<Longrightarrow> st_bind submit (\<lambda>_. signals) s = (r, s') \<Longrightarrow> P s'"
    and "\<And>s. P s \<Longrightarrow> terminal s = Ok False" "\<And>s. P s \<Longrightarrow> summary s = Ok []"
  shows "fst (trigger_loop submit signals terminal summary timeout cs st) \<in> insert None (range (Some \<circ> Raised))"
    and "list_ex (\<lambda>c. c > timeout) cs \<Longrightarrow> fst (trigger_loop submit signals terminal summary timeout cs st) \<noteq> None"
proof -
  have "fst (trigger_loop submit signals terminal summary timeout cs st) \<in> insert None (range (Some \<circ> Raised)) \<and>
    (list_ex (\<lambda>c. c > timeout) cs \<longrightarrow> fst (trigger_loop submit signals terminal summary timeout cs st) \<noteq> None)"
    using assms(1)
  proof (induction cs arbitrary: st)
    case (Cons c cs)
    obtain r s' where s': "st_bind submit (\<lambda>_. signals) st = (r, s')" by fastforce
    then have "P s'" using Cons.prems assms(2) by blast
    then show ?case using s' assms(3,4) Cons.IH [of s']
      by (cases r) (auto simp: close_with_def)
  qed simp
  then show "fst (trigger_loop submit signals terminal summary timeout cs st) \<in> insert None (range (Some \<circ> Raised))"
    "list_ex (\<lambda>c. c > timeout) cs \<Longrightarrow> fst (trigger_loop submit signals terminal summary timeout cs st) \<noteq> None" by auto
qed




text \<open>A task manager that admits whatever it is given and does no work.\<close>

definition demo_waiting :: task_metadata where
  "demo_waiting = from_ref 0 (mk_ref ''task'' WAITING ''start'' (demo_id ''r1'')) [] None"

definition demo_task_cache :: md_cache where
  "demo_task_cache = \<lparr>mc_data = [(''task::task:'' @ client_key_of demo_waiting, (demo_waiting, None))],
     mc_namespace = TASK_PREFIX\<rparr>"

definition idle_ops :: "md_cache task_ops" where
  "idle_ops = \<lparr>to_enqueue = (\<lambda>r p m. (Ok (Some (waiting_ref r)), m)), to_dispatch = (\<lambda>m. (Ok (), m)), to_cache = (\<lambda>m. m)\<rparr>"

lemma demo_waiting_ok: "md_ok demo_waiting" "md_identity demo_waiting = demo_id ''r1''" "md_status demo_waiting = status_value WAITING"
proof -
  show s: "md_status demo_waiting = status_value WAITING"
    by (simp add: demo_waiting_def from_ref_def mk_ref_def del: status_value.simps)
  show i: "md_identity demo_waiting = demo_id ''r1''"
    by (simp add: demo_waiting_def from_ref_def mk_ref_def md_identity_def identity_eta)
  show "md_ok demo_waiting" unfolding md_ok_def i
    by (intro conjI exI [of _ WAITING] s)
      (simp_all add: demo_waiting_def from_ref_def mk_ref_def identity_ok_def demo_id_def mk_identity_def)
qed

lemma demo_start:
  "\<exists>st1. start_job demo_around idle_ops (Ok [demo_config]) None (demo_orch (demo_disk ''FAILED'' NoFile None) demo_task_cache) =
      (Ok {''r1''}, st1) \<and> oc_tasks st1 = demo_task_cache \<and> dk_signals (oc_disk st1) = []"
proof -
  have r: "run_id (ctx_identity (cf_context demo_config)) = ''r1''" by (simp add: demo_config_def demo_id_def mk_identity_def)
  have d: "dk_signals (snd (ws_create t w seed d)) = dk_signals d" for t w seed d
    by (simp add: ws_create_def make_folder_def Let_def split: option.split)
  obtain p d1 where p: "provision demo_around None demo_config x = (Ok (p x), d1 x)" "dk_signals (d1 x) = dk_signals x" for x
  proof
    show "provision demo_around None demo_config x = (Ok (fst (ws_create (su_time demo_around) (ws_at x (ctx_identity (cf_context demo_config)))
        (config_seed None (ctx_identity (cf_context demo_config))) x)), snd (ws_create (su_time demo_around) (ws_at x (ctx_identity (cf_context demo_config)))
        (config_seed None (ctx_identity (cf_context demo_config))) x))" for x
      by (simp add: provision_def Let_def split: prod.split)
  qed (rule d)
  show ?thesis
    by (simp add: start_job_def start_context_def st_bind_def st_lift_def disk_op_def hub_op_def tasks_op_def demo_orch_def
        idle_ops_def update_task_def store_update_def p r Let_def) (simp add: demo_disk_def)
qed


lemma demo_cache_facts:
  "keys_known demo_task_cache"
  "admitted_entry 0 demo_task_cache i e \<longleftrightarrow> md_ok e \<and> md_identity e = i \<and> client_key_of e = client_key_of demo_waiting"
proof -
  have "admitted_key (''task::task:'' @ client_key_of demo_waiting)" using demo_waiting_ok(1) by (auto simp: admitted_key_def)
  then show "keys_known demo_task_cache" by (simp add: keys_known_def task_cache_ok_def demo_task_cache_def)
  show "admitted_entry 0 demo_task_cache i e \<longleftrightarrow> md_ok e \<and> md_identity e = i \<and> client_key_of e = client_key_of demo_waiting"
    by (simp add: admitted_entry_def demo_task_cache_def clean_expired_def expired_at_def)
qed




section \<open>The configuration of a started run\<close>

text \<open>
  A job that is started for a new run directory moves its configuration into it and leaves no seed. If the
  directory already has one, the run keeps that old configuration, and the new one stays behind under \<open>ACTIVE\<close> in a
  file named after the \<open>run_id\<close> argument of the call, \<open>None\<close> for a fresh job, which the later clean-up of the run
  does not look for.
\<close>

theorem started_run_config:
  assumes "folder_at d p = f" "p = run_path ''ACTIVE'' i" "i = ctx_identity (cf_context c)"
    and "written = d\<lparr>dk_seeds := dict_put (config_seed run_arg i) (Ok c) (dk_seeds d)\<rparr>"
  shows "\<exists>d'. provision su run_arg c written = (Ok (p @ [CONFIG_FILENAME]), d') \<and>
    (case f of
       Some g \<Rightarrow> (case rf_config g of
           None \<Rightarrow> load_context p d' = Ok c \<and> dict_get (dk_seeds d') (config_seed run_arg i) = None
         | Some old \<Rightarrow> load_context p d' = old \<and> dict_get (dk_seeds d') (config_seed run_arg i) = Some (Ok c) \<and>
            (run_arg = None \<and> run_id i \<noteq> ''None'' \<longrightarrow>
              dict_get (dk_seeds (remove_orphaned_config (identity_key i) (run_id i) d')) (config_seed run_arg i) = Some (Ok c)))
     | None \<Rightarrow> load_context p d' = Ok c \<and> dict_get (dk_seeds d') (config_seed run_arg i) = None)"
proof -
  have s: "dict_get (dk_seeds written) (config_seed run_arg i) = Some (Ok c)" by (simp add: assms(4) dict_simps)
  have fo: "folder_at written q = folder_at d q" for q by (simp add: assms(4))
  let ?d = "snd (provision su run_arg c written)"
  have p: "provision su run_arg c written = (Ok (p @ [CONFIG_FILENAME]), ?d)"
    by (simp add: provision_def ws_create_def Let_def assms(2) flip: assms(3))
  have seed: "config_seed None i \<noteq> seed_name (identity_key i) (run_id i)" if "run_id i \<noteq> ''None''"
    using that by (simp add: config_seed_def seed_name_def)
  show ?thesis
  proof (cases f)
    case None
    then have "folder_at written (run_path ''ACTIVE'' i) = None" using assms(1,2) by (simp add: fo)
    then have "?d = (put_folder p ((new_folder (su_time su))\<lparr>rf_config := Some (Ok c)\<rparr>) (make_folder (su_time su) p written))
        \<lparr>dk_seeds := dict_del (config_seed run_arg i) (dk_seeds written)\<rparr>"
      by (simp add: provision_def ws_create_def Let_def assms(2) s make_folder_def new_folder_def flip: assms(3))
    then show ?thesis using p None by (auto simp: load_context_def dict_simps assms(2))
  next
    case (Some g)
    then have g: "folder_at written (run_path ''ACTIVE'' i) = Some g" using assms(1,2) by (simp add: fo)
    show ?thesis
    proof (cases "rf_config g")
      case None
      then have "?d = (put_folder p (g\<lparr>rf_config := Some (Ok c)\<rparr>) written)
          \<lparr>dk_seeds := dict_del (config_seed run_arg i) (dk_seeds written)\<rparr>"
        by (simp add: provision_def ws_create_def Let_def assms(2) s make_folder_def g flip: assms(3))
      then show ?thesis using p Some None by (auto simp: load_context_def dict_simps assms(2))
    next
      case old: (Some x)
      then have "?d = written"
        by (simp add: provision_def ws_create_def Let_def assms(2) s make_folder_def g flip: assms(3))
      then show ?thesis using p Some old g s seed
        by (auto simp: load_context_def remove_orphaned_config_def dict_simps assms(2))
    qed
  qed
qed

theorem started_run_config_witness:
  "\<exists>d d'. d = (demo_disk ''ACTIVE'' NoFile (Some (Err ValidationError))) \<and>
    provision demo_around None demo_config (d\<lparr>dk_seeds := dict_put (config_seed None (demo_id ''r1'')) (Ok demo_config) (dk_seeds d)\<rparr>) =
      (Ok (run_path ''ACTIVE'' (demo_id ''r1'') @ [CONFIG_FILENAME]), d') \<and>
    load_context (run_path ''ACTIVE'' (demo_id ''r1'')) d' = Err ValidationError \<and>
    dict_get (dk_seeds d') (config_seed None (demo_id ''r1'')) = Some (Ok demo_config)"
proof -
  let ?d = "demo_disk ''ACTIVE'' NoFile (Some (Err ValidationError))"
  let ?g = "\<lparr>rf_manifest = NoFile, rf_config = Some (Err ValidationError), rf_markers = {}, rf_mtime = 0\<rparr>"
  have 1: "folder_at ?d (run_path ''ACTIVE'' (demo_id ''r1'')) = Some ?g" by (simp add: folder_at_def demo_disk_def)
  have 2: "demo_id ''r1'' = ctx_identity (cf_context demo_config)" by (simp add: demo_config_def)
  show ?thesis using started_run_config [OF 1 refl 2 refl, of demo_around None] by (auto simp del: fun_upd_apply)
qed

end
