(* ===== verification/Daemon.thy ===== *)
theory Daemon
  imports Orchestration
begin

text \<open>
  The always-on mode (\<open>core/orchestrator/modes/daemon\<close>): the command files (\<open>commands.py\<close>), the evaluation of
  polled records (\<open>trigger.py\<close>), the eviction of expired runs (\<open>janitor.py\<close>), the refresh of the registry
  (\<open>state.py\<close>) and the handlers and loops of the runtime (\<open>runtime.py\<close>). The records a poll returns, the contexts the
  builder gives, and JSON decoding are parameters.
\<close>


section \<open>Command files\<close>

type_synonym json = "unit pyval"

text \<open>The distinct values of \<open>CommandPriority\<close>, which is what iterating over the enumeration yields.\<close>

definition command_priorities :: "string list" where
  "command_priorities = [''0'', ''1'', ''2'', ''3'']"

definition get_command_type :: "string \<Rightarrow> string" where
  "get_command_type name = (case find (\<lambda>v. prefix v name) command_priorities of Some v \<Rightarrow> v | None \<Rightarrow> name)"

text \<open>A decoder of JSON texts; what it refuses is used as plain text.\<close>

definition load_payload :: "(string \<Rightarrow> json option) \<Rightarrow> string \<Rightarrow> json" where
  "load_payload parse content =
    (if content = [] then VNone
     else (case parse content of Some v \<Rightarrow> v | None \<Rightarrow> VStr (py_strip content)))"

text \<open>
  \<open>times\<close> and \<open>contents\<close> are the modification time and the text of a file in the signal directory. The result lists
  the handlers to call; every file that was looked at is gone.
\<close>

record command_files =
  co_time :: "string \<Rightarrow> rat"
  co_text :: "string \<Rightarrow> string"
  co_decode :: "string \<Rightarrow> json option"

definition command_names :: "command_files \<Rightarrow> disk \<Rightarrow> string list" where
  "command_names cf d = sort_key (co_time cf)
     (filter (\<lambda>n. suffix ''.cmd'' n) (map fst (filter snd (dk_signals d))))"

definition command_handler :: "(string, 'h) dict \<Rightarrow> string \<Rightarrow> 'h option" where
  "command_handler table name = dict_get table (get_command_type (str_upper (path_stem name)))"

definition process_command_files ::
  "command_files \<Rightarrow> (string, 'h) dict \<Rightarrow> disk \<Rightarrow> ('h \<times> json) list \<times> disk"
where
  "process_command_files cf table d =
    (let names = command_names cf d in
     (concat (map (\<lambda>n. case command_handler table n of
          None \<Rightarrow> [] | Some h \<Rightarrow> [(h, load_payload (co_decode cf) (co_text cf n))]) names),
      d\<lparr>dk_signals := filter (\<lambda>e. e \<notin> (\<lambda>n. (n, True)) ` set names) (dk_signals d)\<rparr>))"

text \<open>\<open>register_handler\<close>: the name in upper case, without the text \<open>.CMD\<close>.\<close>

fun remove_cmd :: "string \<Rightarrow> string" where
  "remove_cmd [] = []"
| "remove_cmd (c # cs) = (if prefix ''.CMD'' (c # cs) then remove_cmd (drop 3 cs) else c # remove_cmd cs)"

definition register_handler :: "string \<Rightarrow> 'h \<Rightarrow> (string, 'h) dict \<Rightarrow> (string, 'h) dict" where
  "register_handler name h table = dict_put (remove_cmd (str_upper name)) h table"

datatype command = Recover_all | Cancel_run | Reload_config | Stop | Adhoc_run | Resume

definition command_table :: "(string, command) dict" where
  "command_table =
    register_handler ''RESUME'' Resume (register_handler ''ADHOC_RUN'' Adhoc_run (register_handler ''STOP'' Stop
      [(''RECOVER_ALL'', Recover_all), (''CANCEL_RUN'', Cancel_run), (''RELOAD_CONFIG'', Reload_config)]))"


section \<open>The daemon's state\<close>

text \<open>
  \<open>dm_stop_at\<close> is \<open>exec_ctx.stop_at_ts\<close>. The environment: the clock, the drain time, the contexts the builder gives
  for the arguments of a job, and the task manager's resume and list of active handles.
\<close>

record 'm daemon =
  dm_orch :: "'m orch"
  dm_stop_at :: "rat option"

record ('m, 'h) daemon_env =
  de_around :: surroundings
  de_ops :: "'m task_ops"
  de_clock :: rat
  de_drain :: rat
  de_build :: "json \<Rightarrow> json \<Rightarrow> json \<Rightarrow> string option \<Rightarrow> config_doc list res"
  de_resume :: "string \<Rightarrow> string option \<Rightarrow> 'm \<Rightarrow> bool res \<times> 'm"
  de_active :: "'m \<Rightarrow> 'h list"
  de_enqueue :: "task_ref \<Rightarrow> string list \<Rightarrow> 'm \<Rightarrow> unit res \<times> 'm"

definition on_orch :: "('m orch \<Rightarrow> 'a res \<times> 'm orch) \<Rightarrow> 'm daemon \<Rightarrow> 'a res \<times> 'm daemon" where
  "on_orch f s = (case f (dm_orch s) of (r, st) \<Rightarrow> (r, s\<lparr>dm_orch := st\<rparr>))"

text \<open>\<open>bool(v)\<close> of a decoded value, and of \<open>stop_at_ts\<close>.\<close>

fun is_true :: "json \<Rightarrow> bool" where
  "is_true VNone = False"
| "is_true (VBool b) = b"
| "is_true (VInt n) = (n \<noteq> 0)"
| "is_true (VStr s) = (s \<noteq> [])"
| "is_true (VList vs) = (vs \<noteq> [])"
| "is_true (VDict d) = (d \<noteq> [])"
| "is_true (VObj x) = True"

definition stopping :: "'m daemon \<Rightarrow> bool" where
  "stopping s \<longleftrightarrow> dm_stop_at s \<notin> {None, Some 0}"


section \<open>Command handlers\<close>

text \<open>Only a text can read \<open>force\<close> in lower case; \<open>str\<close> of any other value does not.\<close>

definition handle_stop :: "('m, 'h) daemon_env \<Rightarrow> json \<Rightarrow> 'm daemon \<Rightarrow> unit res \<times> 'm daemon" where
  "handle_stop E payload s =
    (Ok (), s\<lparr>dm_stop_at := Some (case payload of
        VStr t \<Rightarrow> if str_lower t = ''force'' then de_clock E else de_clock E + de_drain E
      | _ \<Rightarrow> de_clock E + de_drain E)\<rparr>)"

definition get_or_none :: "(string \<times> json) list \<Rightarrow> string \<Rightarrow> json" where
  "get_or_none d k = (case dict_get d k of None \<Rightarrow> VNone | Some v \<Rightarrow> v)"

definition handle_adhoc_run :: "('m, 'h) daemon_env \<Rightarrow> json \<Rightarrow> 'm daemon \<Rightarrow> unit res \<times> 'm daemon" where
  "handle_adhoc_run E payload s =
    (if \<not> is_true payload then (Ok (), s)
     else (case payload of
         VDict d \<Rightarrow>
           (let j = get_or_none d ''job_id''; pd = get_or_none d ''partition_date''; ds = get_or_none d ''dataset_id'' in
            if \<not> is_true j \<or> \<not> is_true pd then (Ok (), s)
            else st_bind (on_orch (start_job (de_around E) (de_ops E) (de_build E j ds pd None) None))
                   (\<lambda>_. st_lift (Ok ())) s)
       | _ \<Rightarrow> (Err AttributeError, s)))"

text \<open>\<open>msgspec.convert(payload, ResumeRequest)\<close>: \<open>None\<close> where it raises a validation error.\<close>

definition resume_request :: "json \<Rightarrow> (string \<times> string option) option" where
  "resume_request payload =
    (case payload of
       VDict d \<Rightarrow>
         (case (dict_get d ''run_id'', dict_get d ''from_step'', dict_get d ''overrides'') of
            (Some (VStr r), f, ov) \<Rightarrow>
              if (case ov of None \<Rightarrow> True | Some v \<Rightarrow> is_dict v)
              then (case f of None \<Rightarrow> Some (r, None) | Some VNone \<Rightarrow> Some (r, None)
                    | Some (VStr x) \<Rightarrow> Some (r, Some x) | _ \<Rightarrow> None)
              else None
          | _ \<Rightarrow> None)
     | _ \<Rightarrow> None)"

definition find_task_path :: "surroundings \<Rightarrow> string \<Rightarrow> 'm orch \<Rightarrow> string list option res" where
  "find_task_path su rid st = res_bind (find_path su (oc_disk st) rid)
     (\<lambda>p. Ok (case p of Some q \<Rightarrow> if path_exists (oc_disk st) q then Some q else None | None \<Rightarrow> None))"

text \<open>\<open>Task\<close> has no \<open>update_manifest\<close>, so a step to start from ends the command with \<open>AttributeError\<close>.\<close>

definition recover_in :: "('m, 'h) daemon_env \<Rightarrow> string list \<Rightarrow> 'm orch \<Rightarrow> 'm orch" where
  "recover_in E folder st =
    (case recover_task (su_now (de_around E)) (su_time (de_around E)) (de_enqueue E) folder (oc_disk st, oc_tasks st) of
       (d, m) \<Rightarrow> st\<lparr>oc_disk := d, oc_tasks := m\<rparr>)"

definition handle_resume :: "('m, 'h) daemon_env \<Rightarrow> json \<Rightarrow> 'm daemon \<Rightarrow> unit res \<times> 'm daemon" where
  "handle_resume E payload s =
    (if \<not> is_true payload then (Ok (), s)
     else (case resume_request payload of
         None \<Rightarrow> (Ok (), s)
       | Some (rid, step) \<Rightarrow>
          if rid = [] then (Ok (), s)
          else st_bind (st_lift (find_task_path (de_around E) rid (dm_orch s))) (\<lambda>found.
            case found of
              None \<Rightarrow> st_lift (Ok ())
            | Some folder \<Rightarrow>
                st_bind (on_orch (tasks_op (de_resume E rid step))) (\<lambda>_.
                st_bind (on_orch (disk_op (\<lambda>d. st_lift (task_from_path (su_now (de_around E)) None folder d) d))) (\<lambda>_.
                if str_or step [] \<noteq> [] then st_lift (Err AttributeError)
                else on_orch (\<lambda>st. (Ok (), recover_in E folder st))))) s))"

text \<open>
  The processor is given the daemon's janitor, which has no \<open>recover_failed_tasks\<close>, and the daemon's state, which has
  no \<open>store\<close>.
\<close>

definition handle_cancel_run :: "json \<Rightarrow> 'm daemon \<Rightarrow> unit res \<times> 'm daemon" where
  "handle_cancel_run payload s =
    (let rid = (case payload of VDict d \<Rightarrow> get_or_none d ''run_id'' | v \<Rightarrow> v)
     in if \<not> is_true rid then (Ok (), s) else (Err AttributeError, s))"

definition run_command :: "('m, 'h) daemon_env \<Rightarrow> command \<times> json \<Rightarrow> 'm daemon \<Rightarrow> unit res \<times> 'm daemon" where
  "run_command E cp = (case cp of (c, payload) \<Rightarrow> (case c of
     Recover_all \<Rightarrow> st_lift (Err AttributeError)
   | Cancel_run \<Rightarrow> handle_cancel_run payload
   | Reload_config \<Rightarrow> st_lift (Ok ())
   | Stop \<Rightarrow> handle_stop E payload
   | Adhoc_run \<Rightarrow> handle_adhoc_run E payload
   | Resume \<Rightarrow> handle_resume E payload))"

definition process_commands :: "command_files \<Rightarrow> ('m, 'h) daemon_env \<Rightarrow> 'm daemon \<Rightarrow> unit res \<times> 'm daemon" where
  "process_commands cf E s =
    (let (cs, d) = process_command_files cf command_table (oc_disk (dm_orch s));
         s1 = s\<lparr>dm_orch := (dm_orch s)\<lparr>oc_disk := d\<rparr>\<rparr>
     in st_bind (st_each (run_command E) cs) (\<lambda>_ s.
          (Ok (), if cs = [] then s else s\<lparr>dm_orch := (dm_orch s)\<lparr>oc_event := bus_notify (oc_event (dm_orch s))\<rparr>\<rparr>)) s1)"



section \<open>Evaluating the polled records\<close>

datatype action = Trigger | Purge

record decision =
  dc_action :: action
  dc_reason :: string
  dc_record :: task_record
  dc_context :: "config_doc option"

text \<open>\<open>str(record.partition_date)\<close>: an absent date reads \<open>None\<close>.\<close>

definition record_identity :: "task_record \<Rightarrow> string \<Rightarrow> task_identity" where
  "record_identity r absent = mk_identity (tr_job_id r) (tr_dataset_id r)
     (case tr_partition_date r of None \<Rightarrow> absent | Some p \<Rightarrow> p) (tr_run_id r)"

definition try_load_context :: "disk \<Rightarrow> task_record \<Rightarrow> config_doc option res" where
  "try_load_context d r =
    (let i = record_identity r ''None''; p = run_path ''ACTIVE'' i in
     if folder_at d p \<noteq> None then res_bind (load_context p d) (\<lambda>c. Ok (Some c))
     else (case dict_get (dk_seeds d) (seed_name (identity_key i) (tr_run_id r)) of
         Some c_res \<Rightarrow> res_bind c_res (\<lambda>c. Ok (Some c))
       | None \<Rightarrow> Ok None))"

definition should_purge :: "int \<Rightarrow> task_record \<Rightarrow> bool res" where
  "should_purge now r =
    (case tr_status r of None \<Rightarrow> Err ValueError
     | Some st \<Rightarrow> expired_matches (tr_is_snapshot r) (map_option of_int (tr_expiration r)) st (of_int now))"

definition should_trigger :: "int \<Rightarrow> task_record \<Rightarrow> bool" where
  "should_trigger now r \<longleftrightarrow> now \<ge> tr_scheduled_at r"

definition evaluate_record :: "int \<Rightarrow> disk \<Rightarrow> task_record \<Rightarrow> decision list res" where
  "evaluate_record now d r =
    (if tr_status r \<noteq> Some (status_value PENDING) then Ok []
     else res_bind (should_purge now r) (\<lambda>purge.
       if purge then res_bind (try_load_context d r)
         (\<lambda>c. Ok [\<lparr>dc_action = Purge, dc_reason = ''PURGE_POLICY'', dc_record = r, dc_context = c\<rparr>])
       else if should_trigger now r then res_bind (try_load_context d r)
         (\<lambda>c. Ok [\<lparr>dc_action = Trigger, dc_reason = ''READY:DISPATCH'', dc_record = r, dc_context = c\<rparr>])
       else Ok []))"

definition evaluate_records :: "rat option \<Rightarrow> int \<Rightarrow> disk \<Rightarrow> task_record list \<Rightarrow> decision list res" where
  "evaluate_records stop_at now d rs =
    (if stop_at \<noteq> None then Ok [] else res_bind (res_map (evaluate_record now d) rs) (\<lambda>ds. Ok (concat ds)))"


section \<open>Refreshing and evicting\<close>

text \<open>
  \<open>refresh\<close>: the registry becomes what the query returned; a failed query keeps it. The pages of the query are
  collected in one dictionary, a later record of the same run replacing an earlier one; within a page a decoding
  error falls back to the records one by one, dropping the bad ones.
\<close>

definition collect_records :: "(task_record res) list \<Rightarrow> store \<Rightarrow> store" where
  "collect_records page s =
    fold (\<lambda>rec acc. case rec of Inl e \<Rightarrow> acc | Inr r \<Rightarrow> dict_put (tr_run_id r) r acc) page s"

definition fetch_records :: "(task_record res) list list \<Rightarrow> store" where
  "fetch_records pages = fold collect_records pages []"

definition refresh :: "(task_record res) list list res \<Rightarrow> hub \<Rightarrow> hub" where
  "refresh answer h = (case answer of Inl e \<Rightarrow> h | Inr pages \<Rightarrow> h\<lparr>hub_store := fetch_records pages\<rparr>)"

text \<open>
  \<open>log_expiry\<close>: without a manifest on disk one is built with a field it does not have, a \<open>TypeError\<close>. Otherwise
  an update is computed and dropped.
\<close>

definition try_load_manifest :: "surroundings \<Rightarrow> string \<Rightarrow> 'm orch \<Rightarrow> task_manifest option res" where
  "try_load_manifest su rid st =
    res_bind (find_task_path su rid st) (\<lambda>found. case found of
       None \<Rightarrow> Ok None
     | Some p \<Rightarrow> (case load_manifest_path (su_now su) (folder_file (oc_disk st) p) of Inl e \<Rightarrow> Ok None | Inr m \<Rightarrow> Ok (Some m)))"

definition default_context :: "task_record \<Rightarrow> task_context res" where
  "default_context r = post_init \<lparr>steps = [], ctx_identity = record_identity r ''None'', from_step = ''start'', to_step = []\<rparr>"

definition log_expiry :: "surroundings \<Rightarrow> task_record \<Rightarrow> config_doc option \<Rightarrow> string \<Rightarrow> 'm orch \<Rightarrow> unit res" where
  "log_expiry su r c reason st =
    res_bind (case c of Some x \<Rightarrow> Ok (cf_context x) | None \<Rightarrow> default_context r) (\<lambda>ctx.
    res_bind (try_load_manifest su (tr_run_id r) st) (\<lambda>m. case m of
       None \<Rightarrow> Err TypeError
     | Some mf \<Rightarrow> res_bind (parse_update (su_stamp su) (su_now su) (su_start_of su) (su_end_of su) (hub_store (oc_hub st)) mf ctx False
         (no_metadata\<lparr>sm_status := Some (status_value EXPIRED), sm_remarks := Some reason\<rparr>)) (\<lambda>_. Ok ())))"

text \<open>A triggered run is evicted through methods \<open>Task\<close> does not have.\<close>

definition evict_expired_run :: "surroundings \<Rightarrow> (int \<Rightarrow> string) \<Rightarrow> task_record \<Rightarrow> config_doc option \<Rightarrow> 'm orch \<Rightarrow> unit res \<times> 'm orch" where
  "evict_expired_run su fmt r c st =
    (let reason = (if is_triggered r then ''TTL_EXPIRED'' else ''UNTRIGGERED_STALE'') @ '' | Scheduled: '' @ fmt (tr_scheduled_at r);
         i = record_identity r []
     in case log_expiry su r c reason st of
          Inl e \<Rightarrow> (Err e, st)
        | Inr _ \<Rightarrow>
           if is_triggered r
           then (case tr_status r of
                   None \<Rightarrow> (Err ValueError, st)
                 | Some s \<Rightarrow> (case status_of s of Inl e \<Rightarrow> (Err e, st) | Inr _ \<Rightarrow> (Err AttributeError, st)))
           else (Ok (), st\<lparr>oc_disk := remove_orphaned_config (identity_key i) (tr_run_id r) (oc_disk st),
                   oc_hub := remove_task (oc_hub st) (tr_run_id r)\<rparr>))"


section \<open>Polling and the engine loop\<close>

definition carry_out ::
  "('m, 'h) daemon_env \<Rightarrow> (int \<Rightarrow> string) \<Rightarrow> decision \<Rightarrow> 'm daemon \<Rightarrow> unit res \<times> 'm daemon"
where
  "carry_out E fmt dc =
    (let r = dc_record dc in
     case dc_action dc of
       Purge \<Rightarrow> on_orch (evict_expired_run (de_around E) fmt r (dc_context dc))
     | Trigger \<Rightarrow> st_bind (on_orch (start_job (de_around E) (de_ops E)
          (de_build E (VStr (tr_job_id r)) (VStr (tr_dataset_id r))
             (case tr_partition_date r of None \<Rightarrow> VNone | Some p \<Rightarrow> VStr p) (Some (tr_run_id r))) (Some (tr_run_id r))))
          (\<lambda>_. st_lift (Ok ())))"

text \<open>
  \<open>load_ok\<close> says whether flushing a batch to the database succeeds, \<open>answer\<close> what the database returns.
\<close>

definition poll_and_trigger ::
  "('m, 'h) daemon_env \<Rightarrow> (int \<Rightarrow> string) \<Rightarrow> (task_update list \<Rightarrow> bool) \<Rightarrow> (task_record res) list list res \<Rightarrow>
   'm daemon \<Rightarrow> unit res \<times> 'm daemon"
where
  "poll_and_trigger E fmt load_ok answer s =
    (let h = refresh answer (hub_flush load_ok (oc_hub (dm_orch s)));
         s1 = s\<lparr>dm_orch := (dm_orch s)\<lparr>oc_hub := h\<rparr>\<rparr>
     in case evaluate_records (dm_stop_at s) (su_stamp (de_around E)) (oc_disk (dm_orch s)) (map snd (hub_store h)) of
          Inl e \<Rightarrow> (Err e, s1)
        | Inr ds \<Rightarrow> st_bind (st_each (carry_out E fmt) ds) (\<lambda>_ s2.
            (Ok (), if list_ex (\<lambda>dc. dc_action dc = Purge) ds
               then s2\<lparr>dm_orch := (dm_orch s2)\<lparr>oc_event := bus_notify (oc_event (dm_orch s2))\<rparr>\<rparr> else s2)) s1)"

text \<open>
  One turn of the control loop. \<open>ready\<close> is whether the cluster reports a finished worker, \<open>woken\<close> whether the flag
  is raised while the loop waits. An exception of the turn is logged.
\<close>

datatype turn = Stopped | Idle | Worked "unit res"

definition control_turn ::
  "command_files \<Rightarrow> ('m, 'h) daemon_env \<Rightarrow> bool \<Rightarrow> bool \<Rightarrow> 'm daemon \<Rightarrow> turn \<times> 'm daemon"
where
  "control_turn cf E ready woken s =
    (let active = de_active E (oc_tasks (dm_orch s));
         clear = (\<lambda>s. s\<lparr>dm_orch := (dm_orch s)\<lparr>oc_event := snd (bus_wait (oc_event (dm_orch s)))\<rparr>\<rparr>)
     in if stopping s \<and> (active = [] \<or> (case dm_stop_at s of None \<Rightarrow> False | Some t \<Rightarrow> de_clock E \<ge> t)) then (Stopped, s)
        else if active \<noteq> [] \<and> \<not> ready \<and> \<not> (woken \<or> fst (bus_wait (oc_event (dm_orch s)))) then (Idle, clear s)
        else (case st_bind (process_commands cf E) (\<lambda>_.
                st_bind (on_orch (process_signals (de_around E) [])) (\<lambda>_.
                on_orch (tasks_op (to_dispatch (de_ops E))))) (clear s) of
              (r, s1) \<Rightarrow> (Worked r, s1)))"

text \<open>The loop over the turns' surroundings; \<open>None\<close> when they are used up.\<close>

fun control_loop ::
  "(command_files \<times> ('m, 'h) daemon_env \<times> bool \<times> bool) list \<Rightarrow> 'm daemon \<Rightarrow> 'm daemon option"
where
  "control_loop [] s = None"
| "control_loop ((cf, E, ready, woken) # es) s =
    (case control_turn cf E ready woken s of
       (Stopped, s1) \<Rightarrow> Some s1
     | (_, s1) \<Rightarrow> control_loop es s1)"



section \<open>What a batch of commands does\<close>

lemma command_table_simps:
  "command_table = [(''RECOVER_ALL'', Recover_all), (''CANCEL_RUN'', Cancel_run), (''RELOAD_CONFIG'', Reload_config),
     (''STOP'', Stop), (''ADHOC_RUN'', Adhoc_run), (''RESUME'', Resume)]"
  by code_simp

lemma exact_name: "command_handler command_table n = dict_get command_table (str_upper (path_stem n))"
proof (cases "find (\<lambda>v. prefix v (str_upper (path_stem n))) command_priorities")
  case None
  then show ?thesis by (simp add: command_handler_def get_command_type_def)
next
  case (Some v)
  then have v: "v \<in> set command_priorities" "prefix v (str_upper (path_stem n))" by (auto simp: find_Some_iff)
  then obtain c cs where c: "str_upper (path_stem n) = c # cs" "c \<in> set ''0123''"
    by (cases "str_upper (path_stem n)") (auto simp: command_priorities_def)
  then have "dict_get command_table (str_upper (path_stem n)) = None" by (auto simp: command_table_simps)
  moreover have "dict_get command_table v = None" using v(1) by (auto simp: command_priorities_def command_table_simps)
  ultimately show ?thesis using Some by (simp add: command_handler_def get_command_type_def)
qed

lemma command_names_set: "set (command_names cf d) = {n. (n, True) \<in> set (dk_signals d) \<and> suffix ''.cmd'' n}"
  by (force simp: command_names_def)

text \<open>
  One scan of the command files. It consumes every command file and no other file, and calls the handlers in the
  order of the files' modification times, each with its payload; a file is recognised only if its whole name,
  in upper case, is that of a command, so a command with a distinguishing suffix such as \<open>CANCEL_RUN_r1\<close> is
  dropped: the prefixes that are tried are the digits of the priorities.
\<close>

theorem command_scan:
  assumes "process_command_files cf command_table d = (calls, d')"
  shows "calls = map (\<lambda>n. (the (dict_get command_table (str_upper (path_stem n))), load_payload (co_decode cf) (co_text cf n)))
      (filter (\<lambda>n. str_upper (path_stem n) \<in> fst ` set command_table) (command_names cf d)) \<and>
    sorted (map (co_time cf) (command_names cf d)) \<and>
    mset (command_names cf d) = mset (filter (\<lambda>n. suffix ''.cmd'' n) (map fst (filter snd (dk_signals d)))) \<and>
    d' = d\<lparr>dk_signals := filter (\<lambda>e. \<not> (snd e \<and> suffix ''.cmd'' (fst e))) (dk_signals d)\<rparr>"
proof -
  have c: "concat (map (\<lambda>n. case command_handler command_table n of
          None \<Rightarrow> [] | Some h \<Rightarrow> [(h, load_payload (co_decode cf) (co_text cf n))]) ns) =
      map (\<lambda>n. (the (dict_get command_table (str_upper (path_stem n))), load_payload (co_decode cf) (co_text cf n)))
        (filter (\<lambda>n. str_upper (path_stem n) \<in> fst ` set command_table) ns)" for ns
  proof (induction ns)
    case (Cons n ns)
    show ?case
    proof (cases "dict_get command_table (str_upper (path_stem n))")
      case None
      then have "str_upper (path_stem n) \<notin> fst ` set command_table" by (simp add: map_of_eq_None_iff)
      then show ?thesis using None Cons by (simp add: exact_name)
    next
      case (Some h)
      then have "str_upper (path_stem n) \<in> fst ` set command_table" by (metis image_eqI fst_conv map_of_SomeD)
      then show ?thesis using Some Cons by (simp add: exact_name)
    qed
  qed simp
  have f: "e \<notin> (\<lambda>n. (n, True)) ` set (command_names cf d) \<longleftrightarrow> \<not> (snd e \<and> suffix ''.cmd'' (fst e))"
    if "e \<in> set (dk_signals d)" for e
  proof -
    obtain n b where "e = (n, b)" by fastforce
    then show ?thesis using that unfolding command_names_set by (cases b) (simp_all add: image_iff)
  qed
  have "d' = d\<lparr>dk_signals := filter (\<lambda>e. \<not> (snd e \<and> suffix ''.cmd'' (fst e))) (dk_signals d)\<rparr>"
    using assms filter_cong [OF refl f, of "dk_signals d"] by (auto simp: process_command_files_def Let_def)
  moreover have "calls = concat (map (\<lambda>n. case command_handler command_table n of
          None \<Rightarrow> [] | Some h \<Rightarrow> [(h, load_payload (co_decode cf) (co_text cf n))]) (command_names cf d))"
    using assms by (simp add: process_command_files_def Let_def)
  ultimately show ?thesis unfolding c by (simp add: command_names_def)
qed

definition demo_files :: "string \<Rightarrow> command_files" where
  "demo_files last_file = \<lparr>co_time = (\<lambda>n. if n = last_file then 2 else 1), co_text = (\<lambda>n. if n = ''stop.cmd'' then [] else ''r1''),
     co_decode = (\<lambda>_. None)\<rparr>"

theorem command_scan_witness:
  "\<exists>calls d'. process_command_files (demo_files ''stop.cmd'') command_table
      ((demo_disk ''ACTIVE'' NoFile None)\<lparr>dk_signals := [(''stop.cmd'', True), (''CANCEL_RUN_r1.cmd'', True), (''cancel_run.cmd'', True), (''x.done'', True)]\<rparr>)
      = (calls, d') \<and> calls = [(Cancel_run, VStr ''r1''), (Stop, VNone)] \<and> dk_signals d' = [(''x.done'', True)]"
proof -
  let ?d = "(demo_disk ''ACTIVE'' NoFile None)\<lparr>dk_signals := [(''stop.cmd'', True), (''CANCEL_RUN_r1.cmd'', True), (''cancel_run.cmd'', True), (''x.done'', True)]\<rparr>"
  let ?cf = "demo_files ''stop.cmd''"
  obtain calls d' where p: "process_command_files ?cf command_table ?d = (calls, d')" by fastforce
  have n: "command_names ?cf ?d = [''CANCEL_RUN_r1.cmd'', ''cancel_run.cmd'', ''stop.cmd'']"
    by (simp add: command_names_def demo_files_def demo_disk_def suffix_def)
  have c: "map (\<lambda>n. (the (dict_get command_table (str_upper (path_stem n))), load_payload (co_decode ?cf) (co_text ?cf n)))
      (filter (\<lambda>n. str_upper (path_stem n) \<in> fst ` set command_table) [''CANCEL_RUN_r1.cmd'', ''cancel_run.cmd'', ''stop.cmd''])
      = [(Cancel_run, VStr ''r1''), (Stop, VNone)]"
    by code_simp
  have "calls = [(Cancel_run, VStr ''r1''), (Stop, VNone)]" using command_scan [OF p] unfolding n c by (rule conjunct1)
  moreover have "dk_signals d' = [(''x.done'', True)]" using command_scan [OF p] by (simp add: suffix_def)
  ultimately show ?thesis using p by blast
qed



text \<open>Surroundings of a daemon without workers.\<close>

definition demo_daemon_env :: "rat \<Rightarrow> (md_cache, nat) daemon_env" where
  "demo_daemon_env now = \<lparr>de_around = demo_around, de_ops = idle_ops, de_clock = now, de_drain = 600,
     de_build = (\<lambda>_ _ _ _. Ok [demo_config]), de_resume = (\<lambda>_ _ m. (Ok False, m)), de_active = (\<lambda>_. []),
     de_enqueue = (\<lambda>_ _ m. (Ok (), m))\<rparr>"



section \<open>What a poll decides\<close>

definition expired_record :: "int \<Rightarrow> task_record \<Rightarrow> bool" where
  "expired_record now r \<longleftrightarrow> tr_is_snapshot r \<and> (case tr_expiration r of None \<Rightarrow> False | Some t \<Rightarrow> t < now)"

definition due :: "int \<Rightarrow> task_record \<Rightarrow> bool" where
  "due now r \<longleftrightarrow> tr_status r = Some (status_value PENDING) \<and> (expired_record now r \<or> tr_scheduled_at r \<le> now)"

lemma should_purge_pending:
  "tr_status r = Some (status_value PENDING) \<Longrightarrow> should_purge now r = Ok (expired_record now r)"
  by (cases "tr_is_snapshot r"; cases "tr_expiration r")
    (simp_all add: should_purge_def expired_matches_def expired_record_def del: status_value.simps)

lemma evaluate_one:
  assumes "due now r \<Longrightarrow> try_load_context d r = Ok c"
  shows "evaluate_record now d r = Ok (if due now r
    then [\<lparr>dc_action = (if expired_record now r then Purge else Trigger),
           dc_reason = (if expired_record now r then ''PURGE_POLICY'' else ''READY:DISPATCH''), dc_record = r, dc_context = c\<rparr>] else [])"
  using assms by (auto simp: evaluate_record_def due_def should_purge_pending should_trigger_def simp del: status_value.simps)

lemma decided:
  assumes "list_all (\<lambda>r. due now r \<longrightarrow> (\<exists>c. try_load_context d r = Ok c)) rs"
  shows "\<exists>dss. res_map (evaluate_record now d) rs = Ok dss \<and>
      map (\<lambda>dc. (dc_action dc, dc_record dc)) (concat dss) =
      map (\<lambda>r. (if expired_record now r then Purge else Trigger, r)) (filter (due now) rs)"
  using assms
proof (induction rs)
  case (Cons r rs)
  then obtain dss where "res_map (evaluate_record now d) rs = Ok dss" "map (\<lambda>dc. (dc_action dc, dc_record dc)) (concat dss) =
    map (\<lambda>r. (if expired_record now r then Purge else Trigger, r)) (filter (due now) rs)" by auto
  moreover obtain c where "due now r \<Longrightarrow> try_load_context d r = Ok c" using Cons.prems by auto
  note evaluate_one [OF this]
  ultimately show ?case by simp
qed simp

lemma decisions_of:
  assumes "list_all (\<lambda>r. due now r \<longrightarrow> (\<exists>c. try_load_context d r = Ok c)) rs"
  obtains ds where "evaluate_records None now d rs = Ok ds"
    "map (\<lambda>dc. (dc_action dc, dc_record dc)) ds =
      map (\<lambda>r. (if expired_record now r then Purge else Trigger, r)) (filter (due now) rs)"
  using decided [OF assms] by (auto simp: evaluate_records_def)

text \<open>
  The decisions of a poll. While no shutdown is under way and the configurations of the due runs can be
  read, the poll decides on exactly the pending records that are due, in their order: an expired snapshot is purged,
  any other record triggered once its scheduled time has come; purging wins over triggering. During a
  shutdown nothing is decided.
\<close>

theorem poll_decisions:
  assumes "list_all (\<lambda>r. due now r \<longrightarrow> (\<exists>c. try_load_context d r = Ok c)) rs"
  shows "\<exists>ds. evaluate_records None now d rs = Ok ds \<and>
    map (\<lambda>dc. (dc_action dc, dc_record dc)) ds =
      map (\<lambda>r. (if expired_record now r then Purge else Trigger, r)) (filter (due now) rs) \<and>
    evaluate_records (Some t) now d rs = Ok []"
proof -
  obtain ds where "evaluate_records None now d rs = Ok ds"
    "map (\<lambda>dc. (dc_action dc, dc_record dc)) ds =
      map (\<lambda>r. (if expired_record now r then Purge else Trigger, r)) (filter (due now) rs)"
    using decisions_of [OF assms] by blast
  moreover have "evaluate_records (Some t) now d rs = Ok []" by (simp add: evaluate_records_def)
  ultimately show ?thesis by blast
qed

text \<open>A polled record of a run that was never started: due at 10, and a snapshot that expires at 20.\<close>

definition polled :: "string \<Rightarrow> bool \<Rightarrow> task_record" where
  "polled rid snapshot = (new_record 10 (demo_id rid))\<lparr>tr_status := Some ''PENDING'', tr_is_snapshot := snapshot,
     tr_expiration := (if snapshot then Some 20 else None)\<rparr>"

lemma polled_simps [simp]:
  "tr_status (polled rid b) = Some ''PENDING''" "tr_run_id (polled rid b) = rid" "tr_is_snapshot (polled rid b) = b"
  "tr_expiration (polled rid b) = (if b then Some 20 else None)" "tr_scheduled_at (polled rid b) = 10"
  by (simp_all add: polled_def new_record_def demo_id_def mk_identity_def)

lemma no_context:
  "dk_folders d = [] \<Longrightarrow> dk_seeds d = [] \<Longrightarrow> try_load_context d r = Ok None"
  by (simp add: try_load_context_def folder_at_def Let_def)

definition bare_disk :: "(string \<times> bool) list \<Rightarrow> disk" where
  "bare_disk signals = \<lparr>dk_folders = [], dk_seeds = [], dk_vault = [], dk_signals = signals, dk_tops = []\<rparr>"

theorem poll_decisions_witness:
  "\<exists>ds. evaluate_records None 30 (bare_disk []) [polled ''r1'' True, polled ''r2'' False, polled ''r3'' True] = Ok ds \<and>
    map (\<lambda>dc. (dc_action dc, dc_record dc)) ds =
      [(Purge, polled ''r1'' True), (Trigger, polled ''r2'' False), (Purge, polled ''r3'' True)] \<and>
    evaluate_records (Some 7) 30 (bare_disk []) [polled ''r1'' True, polled ''r2'' False, polled ''r3'' True] = Ok []"
proof -
  let ?rs = "[polled ''r1'' True, polled ''r2'' False, polled ''r3'' True]"
  have "list_all (\<lambda>r. due 30 r \<longrightarrow> (\<exists>c. try_load_context (bare_disk []) r = Ok c)) ?rs"
    by (simp add: no_context bare_disk_def)
  from poll_decisions [OF this, of 7] show ?thesis by (simp add: due_def expired_record_def)
qed


section \<open>Eviction, revival and drain\<close>

lemma default_context_ok: "\<exists>c. default_context r = Ok c"
  by (simp add: default_context_def post_init_def get_step_ids_def all_step_ids_def start_idx_of_def end_idx_of_def Let_def)

lemma expiry_without_folder:
  assumes "tr_run_id r \<noteq> []" "find_path su (oc_disk st) (tr_run_id r) = Ok None"
  shows "log_expiry su r c reason st = Err TypeError"
proof -
  obtain x where "default_context r = Ok x" using default_context_ok by blast
  then show ?thesis using assms
    by (cases c) (simp_all add: log_expiry_def try_load_manifest_def find_task_path_def)
qed

lemma evict_without_folder:
  "tr_run_id r \<noteq> [] \<Longrightarrow> find_path su (oc_disk st) (tr_run_id r) = Ok None \<Longrightarrow> evict_expired_run su fmt r c st = (Err TypeError, st)"
  by (simp add: evict_expired_run_def expiry_without_folder Let_def)

lemma blocked_poll:
  assumes "dm_stop_at s = None" "map snd (fetch_records pages) = r # rs"
    and "tr_status r = Some (status_value PENDING)" "expired_record (su_stamp (de_around E)) r"
    and "tr_run_id r \<noteq> []" "find_path (de_around E) (oc_disk (dm_orch s)) (tr_run_id r) = Ok None"
    and "list_all (\<lambda>x. due (su_stamp (de_around E)) x \<longrightarrow> (\<exists>c. try_load_context (oc_disk (dm_orch s)) x = Ok c)) (r # rs)"
  shows "poll_and_trigger E fmt load_ok (Ok pages) s = (Err TypeError,
    s\<lparr>dm_orch := (dm_orch s)\<lparr>oc_hub := refresh (Ok pages) (hub_flush load_ok (oc_hub (dm_orch s)))\<rparr>\<rparr>)"
proof -
  let ?h = "refresh (Ok pages) (hub_flush load_ok (oc_hub (dm_orch s)))"
  let ?now = "su_stamp (de_around E)" and ?d = "oc_disk (dm_orch s)"
  have d: "due ?now r" using assms(3,4) by (simp add: due_def)
  obtain c where c: "try_load_context ?d r = Ok c" using assms(7) d by auto
  obtain ds where ds: "evaluate_records None ?now ?d (r # rs) = Ok ds"
    "map (\<lambda>dc. (dc_action dc, dc_record dc)) ds = map (\<lambda>r. (if expired_record ?now r then Purge else Trigger, r)) (filter (due ?now) (r # rs))"
    using decisions_of [OF assms(7)] by blast
  then obtain dc ds' where dc: "ds = dc # ds'" "dc_action dc = Purge" "dc_record dc = r"
    using d assms(4) by (cases ds) auto
  have st: "map snd (hub_store ?h) = r # rs" using assms(2) by (simp add: refresh_def)
  show ?thesis using ds(1) dc
    by (simp add: poll_and_trigger_def Let_def st assms(1) carry_out_def on_orch_def st_bind_def evict_without_folder assms(5,6))
qed

text \<open>
  An expired run blocks the daemon's polling. While the first record a poll returns is an expired, pending snapshot
  without a folder on the disk, every poll ends with \<open>TypeError\<close>: the run is neither evicted nor removed from the
  registry, and none of the other runs that are due is started, however often the daemon polls.
\<close>

theorem expired_run_blocks_polling:
  fixes s :: "'m daemon" and E :: "('m, 'h) daemon_env" and fmt :: "int \<Rightarrow> string"
    and load_ok :: "task_update list \<Rightarrow> bool" and pages :: "(task_record res) list list"
  defines "poll \<equiv> \<lambda>s. snd (poll_and_trigger E fmt load_ok (Ok pages) s)"
  assumes "dm_stop_at s = None" "map snd (fetch_records pages) = r # rs"
    and "tr_status r = Some (status_value PENDING)" "expired_record (su_stamp (de_around E)) r"
    and "tr_run_id r \<noteq> []" "find_path (de_around E) (oc_disk (dm_orch s)) (tr_run_id r) = Ok None"
    and "list_all (\<lambda>x. due (su_stamp (de_around E)) x \<longrightarrow> (\<exists>c. try_load_context (oc_disk (dm_orch s)) x = Ok c)) (r # rs)"
  shows "fst (poll_and_trigger E fmt load_ok (Ok pages) ((poll ^^ n) s)) = Err TypeError \<and>
    oc_disk (dm_orch ((poll ^^ n) s)) = oc_disk (dm_orch s) \<and> oc_tasks (dm_orch ((poll ^^ n) s)) = oc_tasks (dm_orch s) \<and>
    hub_store (oc_hub (dm_orch ((poll ^^ Suc n) s))) = fetch_records pages"
proof -
  let ?s = "\<lambda>n. (poll ^^ n) s"
  have same: "dm_stop_at (?s n) = None \<and> oc_disk (dm_orch (?s n)) = oc_disk (dm_orch s) \<and> oc_tasks (dm_orch (?s n)) = oc_tasks (dm_orch s)"
    for n
  proof (induction n)
    case (Suc n)
    note step = blocked_poll [of "?s n", OF _ assms(3-6)]
    show ?case using step Suc assms(7,8) by (simp add: poll_def)
  qed (simp add: assms(2))
  have b: "poll_and_trigger E fmt load_ok (Ok pages) (?s n) = (Err TypeError,
      (?s n)\<lparr>dm_orch := (dm_orch (?s n))\<lparr>oc_hub := refresh (Ok pages) (hub_flush load_ok (oc_hub (dm_orch (?s n))))\<rparr>\<rparr>)"
    using blocked_poll [of "?s n", OF _ assms(3-6)] same [of n] assms(7,8) by simp
  have "?s (Suc n) = snd (poll_and_trigger E fmt load_ok (Ok pages) (?s n))" by (simp add: poll_def)
  then show ?thesis using b same [of n] by (simp add: refresh_def)
qed

definition two_polled :: "(task_record res) list list" where
  "two_polled = [[Ok (polled ''r1'' True), Err ValidationError, Ok (polled ''r2'' False)]]"

lemma fetch_two: "fetch_records two_polled = [(''r1'', polled ''r1'' True), (''r2'', polled ''r2'' False)]"
  by (simp add: two_polled_def fetch_records_def collect_records_def)

definition late :: "(md_cache, nat) daemon_env" where
  "late = (demo_daemon_env 5)\<lparr>de_around := demo_around\<lparr>su_stamp := 30\<rparr>\<rparr>"

definition bare :: "md_cache daemon" where
  "bare = \<lparr>dm_orch = demo_orch (bare_disk []) demo_task_cache, dm_stop_at = None\<rparr>"

theorem expired_run_blocks_polling_witness:
  "fst (poll_and_trigger late (\<lambda>_. []) (\<lambda>_. True) (Ok two_polled) (((\<lambda>s. snd (poll_and_trigger late (\<lambda>_. []) (\<lambda>_. True) (Ok two_polled) s)) ^^ 3) bare))
    = Err TypeError \<and> due 30 (polled ''r2'' False)"
proof -
  have 1: "dm_stop_at bare = None" "oc_disk (dm_orch bare) = bare_disk []" by (simp_all add: bare_def demo_orch_def)
  have 2: "map snd (fetch_records two_polled) = [polled ''r1'' True, polled ''r2'' False]" by (simp add: fetch_two)
  have 3: "expired_record (su_stamp (de_around late)) (polled ''r1'' True)" by (simp add: late_def expired_record_def)
  have 4: "find_path (de_around late) (oc_disk (dm_orch bare)) (tr_run_id (polled ''r1'' True)) = Ok None"
    by (simp add: late_def demo_around_def 1 bare_disk_def find_path_def)
  have 5: "list_all (\<lambda>x. due (su_stamp (de_around late)) x \<longrightarrow> (\<exists>c. try_load_context (oc_disk (dm_orch bare)) x = Ok c))
      [polled ''r1'' True, polled ''r2'' False]"
    by (simp add: 1 no_context bare_disk_def)
  from expired_run_blocks_polling [where n = 3 and fmt = "\<lambda>_. []" and load_ok = "\<lambda>_. True", OF 1(1) 2 _ 3 _ 4 5] show ?thesis by (simp add: due_def)
qed


lemma hub_steps_finished: "hub_step\<^sup>*\<^sup>* h h' \<Longrightarrow> finished (hub_store h) rid \<Longrightarrow> finished (hub_store h') rid"
  by (induction rule: rtranclp_induct) (auto intro: hub_step_finished)





section \<open>The end of a drain\<close>

lemma on_orch_stop [simp]: "dm_stop_at (snd (on_orch f s)) = dm_stop_at s"
  by (simp add: on_orch_def split: prod.split)

lemma stopping_cong: "dm_stop_at s' = dm_stop_at s \<Longrightarrow> stopping s \<Longrightarrow> stopping s'"
  by (simp add: stopping_def)

lemma stopping_on_orch: "stopping s \<Longrightarrow> stopping (snd (on_orch f s))"
  by (rule stopping_cong [OF on_orch_stop])

lemma stopping_lift [simp]: "stopping s \<Longrightarrow> stopping (snd (st_lift r s))"
  by (simp add: st_lift_def)

lemma stopping_bind:
  assumes "stopping (snd (m s))" "\<And>x s'. stopping s' \<Longrightarrow> stopping (snd (k x s'))"
  shows "stopping (snd (st_bind m k s))"
  by (rule st_bind_state) (use assms in simp_all)

lemma stopping_each: "(\<And>x s. stopping s \<Longrightarrow> stopping (snd (f x s))) \<Longrightarrow> stopping s \<Longrightarrow> stopping (snd (st_each f xs s))"
proof (induction xs arbitrary: s)
  case (Cons x xs)
  show ?case unfolding st_each.simps by (rule stopping_bind) (use Cons in \<open>simp_all\<close>)
qed (simp add: st_lift_def)

text \<open>No command withdraws a stop: a later \<open>STOP\<close> only moves the deadline.\<close>

lemma stopping_adhoc: "stopping s \<Longrightarrow> stopping (snd (handle_adhoc_run E payload s))"
  by (auto simp: handle_adhoc_run_def Let_def stopping_on_orch split: pyval.split intro!: stopping_bind)

lemma stopping_resume: "stopping s \<Longrightarrow> stopping (snd (handle_resume E payload s))"
  by (auto simp: handle_resume_def stopping_on_orch split: option.split intro!: stopping_bind)

lemma stopping_command:
  assumes "stopping s" "0 < de_clock E" "0 \<le> de_drain E"
  shows "stopping (snd (run_command E cp s))"
proof (cases cp)
  case (Pair c payload)
  have "stopping (snd (handle_stop E payload s))"
    using assms(2,3) by (auto simp: handle_stop_def stopping_def split: pyval.split)
  moreover have "stopping (snd (handle_cancel_run payload s))"
    using assms(1) by (simp add: handle_cancel_run_def Let_def)
  ultimately show ?thesis using assms(1) stopping_adhoc stopping_resume
    by (cases c) (simp_all add: Pair run_command_def)
qed

lemma stopping_commands:
  assumes "stopping s" "0 < de_clock E" "0 \<le> de_drain E"
  shows "stopping (snd (process_commands cf E s))"
proof -
  obtain cs d where p: "process_command_files cf command_table (oc_disk (dm_orch s)) = (cs, d)" by fastforce
  have "stopping (s\<lparr>dm_orch := (dm_orch s)\<lparr>oc_disk := d\<rparr>\<rparr>)" using assms(1) by (simp add: stopping_def)
  then have "stopping (snd (st_each (run_command E) cs (s\<lparr>dm_orch := (dm_orch s)\<lparr>oc_disk := d\<rparr>\<rparr>)))"
    by (rule stopping_each [rotated]) (rule stopping_command [OF _ assms(2,3)])
  then show ?thesis unfolding process_commands_def p Let_def prod.case
    by (rule stopping_bind) (simp add: stopping_def)
qed

lemma stopping_turn:
  assumes "stopping s" "0 < de_clock E" "0 \<le> de_drain E"
  shows "stopping (snd (control_turn cf E ready woken s))"
proof -
  have c: "stopping (s\<lparr>dm_orch := (dm_orch s)\<lparr>oc_event := b\<rparr>\<rparr>)" for b using assms(1) by (simp add: stopping_def)
  have "stopping (snd (st_bind (process_commands cf E) (\<lambda>_. st_bind (on_orch (process_signals (de_around E) [])) (\<lambda>_.
      on_orch (tasks_op (to_dispatch (de_ops E))))) (s\<lparr>dm_orch := (dm_orch s)\<lparr>oc_event := b\<rparr>\<rparr>)))" for b
    by (intro stopping_bind stopping_commands [OF c assms(2,3)] stopping_on_orch)
  from this [of False] show ?thesis using c [of False] assms(1)
    by (simp add: control_turn_def Let_def bus_wait_def split_beta)
qed



end
