(* ===== verification/Registries.thy ===== *)
theory Registries
  imports Loading DictUtils "HOL-Library.List_Lexorder" "HOL-Library.Char_ord"
begin

text \<open>
  The registries of classes and functions (\<open>libs/metaclasses/draft.py\<close>), the shared singletons
  (\<open>libs/metaclasses/singleton.py\<close>) and the service factory (\<open>src/services/factory.py\<close>). Importing a module is a
  parameter: what it registers, in order, and how it ends. The modules considered import no other registering module.
\<close>


section \<open>The shared registry\<close>

text \<open>\<open>rg_imported\<close> are the modules of \<open>sys.modules\<close>; they are not the registry's own and survive its clearing.\<close>

record 'c registry =
  rg_items :: "(string, 'c) dict"
  rg_loaded :: bool
  rg_imported :: "string list"

record shape =
  sh_packages :: "string list"
  sh_modules :: "string list"
  sh_auto :: bool

text \<open>
  The importable world: the registrations of a module and its result after them, and the submodules of a package, an
  error when the name is no importable package.
\<close>

record 'c world =
  wo_source :: "string \<Rightarrow> (string list \<times> 'c) list \<times> unit res"
  wo_walk :: "string \<Rightarrow> string list res"

definition normalize_key :: "string \<Rightarrow> string" where
  "normalize_key k = str_lower (py_strip k)"

text \<open>An underscore before every capital but a first one.\<close>

definition is_capital :: "char \<Rightarrow> bool" where
  "is_capital c \<longleftrightarrow> 65 \<le> (of_char c :: nat) \<and> (of_char c :: nat) \<le> 90"

definition snake :: "string \<Rightarrow> string" where
  "snake s = take 1 s @ concat (map (\<lambda>c. if is_capital c then [CHR ''_'', c] else [c]) (drop 1 s))"

definition generate_key :: "bool \<Rightarrow> string \<Rightarrow> string" where
  "generate_key auto name = (if auto then str_lower (snake name) else name)"

definition register_item :: "string \<Rightarrow> 'c \<Rightarrow> 'c registry \<Rightarrow> unit res \<times> 'c registry" where
  "register_item key item R =
    (let k = normalize_key key in
     if dict_get (rg_items R) k \<noteq> None then (Err KeyError, R)
     else (Ok (), R\<lparr>rg_items := dict_put k item (rg_items R)\<rparr>))"

text \<open>What the decorator was given: nothing, one key, or a list of keys.\<close>

datatype key_arg = No_key | One_key string | Key_list "string list"

definition keys_of :: "bool \<Rightarrow> key_arg \<Rightarrow> string \<Rightarrow> string list" where
  "keys_of auto ka name = (case ka of
     Key_list ks \<Rightarrow> ks
   | One_key k \<Rightarrow> [if k = [] then generate_key auto name else k]
   | No_key \<Rightarrow> [generate_key auto name])"

definition register_keys :: "string list \<Rightarrow> 'c \<Rightarrow> 'c registry \<Rightarrow> unit res \<times> 'c registry" where
  "register_keys ks item = st_each (\<lambda>k. register_item k item) ks"

definition register :: "shape \<Rightarrow> key_arg \<Rightarrow> string \<Rightarrow> 'c \<Rightarrow> 'c registry \<Rightarrow> unit res \<times> 'c registry" where
  "register sh ka name item = register_keys (keys_of (sh_auto sh) ka name) item"

text \<open>A module that fails half-way leaves its registrations behind, but is not kept as imported.\<close>

definition import_module :: "'c world \<Rightarrow> string \<Rightarrow> 'c registry \<Rightarrow> unit res \<times> 'c registry" where
  "import_module W m R =
    (if m \<in> set (rg_imported R) then (Ok (), R)
     else (case wo_source W m of (regs, end_of) \<Rightarrow>
       st_bind (st_each (\<lambda>(ks, c). register_keys ks c) regs) (\<lambda>_.
       st_bind (st_lift end_of) (\<lambda>_ R. (Ok (), R\<lparr>rg_imported := m # rg_imported R\<rparr>))) R))"

text \<open>Counting imports in which every failure is logged and skipped.\<close>

fun import_all :: "'c world \<Rightarrow> string list \<Rightarrow> 'c registry \<Rightarrow> nat \<times> 'c registry" where
  "import_all W [] R = (0, R)"
| "import_all W (m # ms) R =
    (case import_module W m R of
       (Inl e, R1) \<Rightarrow> import_all W ms R1
     | (Inr u, R1) \<Rightarrow> (case import_all W ms R1 of (n, R2) \<Rightarrow> (Suc n, R2)))"

definition load_package_modules :: "'c world \<Rightarrow> string \<Rightarrow> 'c registry \<Rightarrow> nat res \<times> 'c registry" where
  "load_package_modules W p R =
    (case wo_walk W p of Inl e \<Rightarrow> (Err e, R) | Inr ms \<Rightarrow> (case import_all W ms R of (n, R1) \<Rightarrow> (Ok n, R1)))"

text \<open>
  \<open>files\<close> are the matching files below the directory as relative paths, the last part without its suffix; \<open>None\<close>
  when it is no directory.
\<close>

definition plugin_name :: "string \<Rightarrow> string list \<Rightarrow> string" where
  "plugin_name base parts = base @ ''.'' @ py_join ''.'' parts"

definition load_from_directory ::
  "'c world \<Rightarrow> string list list option \<Rightarrow> string \<Rightarrow> string set \<Rightarrow> 'c registry \<Rightarrow> nat res \<times> 'c registry"
where
  "load_from_directory W files base exclude R =
    (case files of None \<Rightarrow> (Err ValueError, R)
     | Some fs \<Rightarrow>
        (case import_all W (map (plugin_name base) (filter (\<lambda>f. last f @ ''.py'' \<notin> exclude) (sort_key (\<lambda>f. butlast f @ [last f @ ''.py'']) fs))) R of
           (n, R1) \<Rightarrow> (Ok n, R1)))"

definition ensure_loaded :: "'c world \<Rightarrow> shape \<Rightarrow> 'c registry \<Rightarrow> unit res \<times> 'c registry" where
  "ensure_loaded W sh R =
    (if rg_loaded R then (Ok (), R)
     else st_bind (st_each (\<lambda>p R. case load_package_modules W p R of (r, R1) \<Rightarrow> (res_bind r (\<lambda>_. Ok ()), R1)) (sh_packages sh))
            (\<lambda>_ R. (Ok (), snd (import_all W (sh_modules sh) R))) (R\<lparr>rg_loaded := True\<rparr>))"

definition registry_keys :: "'c world \<Rightarrow> shape \<Rightarrow> 'c registry \<Rightarrow> string list res \<times> 'c registry" where
  "registry_keys W sh = st_bind (ensure_loaded W sh) (\<lambda>_ R. (Ok (map fst (rg_items R)), R))"

definition clear_registry :: "'c registry \<Rightarrow> 'c registry" where
  "clear_registry R = R\<lparr>rg_items := [], rg_loaded := False\<rparr>"

definition get_class :: "'c world \<Rightarrow> shape \<Rightarrow> string \<Rightarrow> 'c registry \<Rightarrow> 'c res \<times> 'c registry" where
  "get_class W sh key R =
    (let k = normalize_key key in
     st_bind (if dict_get (rg_items R) k = None then ensure_loaded W sh else st_lift (Ok ()))
       (\<lambda>_ R. (case dict_get (rg_items R) k of None \<Rightarrow> Err KeyError | Some c \<Rightarrow> Ok c, R)) R)"

text \<open>\<open>FunctionRegistry.invoke\<close>; applying the function is the caller's.\<close>

definition invoke :: "'f world \<Rightarrow> shape \<Rightarrow> string \<Rightarrow> ('f \<Rightarrow> 's \<Rightarrow> 'a res \<times> 's) \<Rightarrow> 'f registry \<Rightarrow> 's \<Rightarrow> 'a res \<times> 'f registry \<times> 's" where
  "invoke W sh key call R s =
    (case get_class W sh key R of
       (Inl e, R1) \<Rightarrow> (Err e, R1, s)
     | (Inr f, R1) \<Rightarrow> (case call f s of (r, s1) \<Rightarrow> (r, R1, s1)))"


section \<open>Instances\<close>

text \<open>
  An instance is known by its class, its arguments and a serial number. The constructor's result is a parameter, as is
  \<open>str\<close> on argument values.
\<close>

record ('c, 'v) inst =
  in_class :: 'c
  in_args :: "'v list"
  in_kwargs :: "(string, 'v) dict"
  in_serial :: nat

record ('c, 'v) class_registry =
  cr_base :: "'c registry"
  cr_cached :: bool
  cr_instances :: "(string, ('c, 'v) inst) dict"
  cr_next :: nat

record ('c, 'v) constructors =
  cn_world :: "'c world"
  cn_shape :: shape
  cn_init :: "'c \<Rightarrow> 'v list \<Rightarrow> (string, 'v) dict \<Rightarrow> unit res"
  cn_text :: "'v \<Rightarrow> string"

definition make_cache_key :: "('v \<Rightarrow> string) \<Rightarrow> string \<Rightarrow> 'v list \<Rightarrow> (string, 'v) dict \<Rightarrow> string" where
  "make_cache_key tx key as ks =
    py_join ''|'' (filter (\<lambda>p. p \<noteq> []) [key, py_join ''_'' (map tx as),
      py_join ''_'' (map (\<lambda>(k, v). k @ ''='' @ tx v) (sort_key fst ks))])"

definition create ::
  "('c, 'v) constructors \<Rightarrow> string \<Rightarrow> 'v list \<Rightarrow> (string, 'v) dict \<Rightarrow> ('c, 'v) class_registry \<Rightarrow>
   ('c, 'v) inst res \<times> ('c, 'v) class_registry"
where
  "create C key as ks R =
    (case get_class (cn_world C) (cn_shape C) key (cr_base R) of
       (Inl e, b) \<Rightarrow> (Err e, R\<lparr>cr_base := b\<rparr>)
     | (Inr c, b) \<Rightarrow>
        (case cn_init C c as ks of
           Inl e \<Rightarrow> (Err e, R\<lparr>cr_base := b\<rparr>)
         | Inr _ \<Rightarrow>
            (let i = \<lparr>in_class = c, in_args = as, in_kwargs = ks, in_serial = cr_next R\<rparr>;
                 R1 = R\<lparr>cr_base := b, cr_next := Suc (cr_next R)\<rparr>
             in (Ok i, if cr_cached R
                  then R1\<lparr>cr_instances := dict_put (make_cache_key (cn_text C) key as ks) i (cr_instances R)\<rparr> else R1))))"

definition get_or_create ::
  "('c, 'v) constructors \<Rightarrow> string \<Rightarrow> 'v list \<Rightarrow> (string, 'v) dict \<Rightarrow> ('c, 'v) class_registry \<Rightarrow>
   ('c, 'v) inst res \<times> ('c, 'v) class_registry"
where
  "get_or_create C key as ks R =
    (case (if cr_cached R then dict_get (cr_instances R) (make_cache_key (cn_text C) (normalize_key key) as ks) else None) of
       Some i \<Rightarrow> (Ok i, R)
     | None \<Rightarrow> create C key as ks R)"

definition clear_classes :: "('c, 'v) class_registry \<Rightarrow> ('c, 'v) class_registry" where
  "clear_classes R = R\<lparr>cr_base := clear_registry (cr_base R), cr_instances := []\<rparr>"

text \<open>The process-wide table of singletons: the object of a class is made once.\<close>

definition singleton_new :: "'c \<Rightarrow> (('c, nat) dict \<times> nat) \<Rightarrow> nat \<times> (('c, nat) dict \<times> nat)" where
  "singleton_new c S = (case S of (t, n) \<Rightarrow>
    (case dict_get t c of Some o_id \<Rightarrow> (o_id, S) | None \<Rightarrow> (n, (dict_put c n t, Suc n))))"

definition singleton_reset :: "'c \<Rightarrow> (('c, nat) dict \<times> nat) \<Rightarrow> (('c, nat) dict \<times> nat)" where
  "singleton_reset c S = (case S of (t, n) \<Rightarrow> (dict_del c t, n))"


section \<open>The service factory\<close>

text \<open>A configuration value; a secret is an object holding its id.\<close>

type_synonym setting = "string pyval"

definition SECRET_PROTOCOL :: string where
  "SECRET_PROTOCOL = ''secret://''"

fun resolve_setting :: "bool \<Rightarrow> setting \<Rightarrow> setting res" where
  "resolve_setting provider (VStr v) =
    (if prefix SECRET_PROTOCOL v
     then if provider then Ok (VObj (drop (length SECRET_PROTOCOL) v)) else Err ValueError
     else Ok (VStr v))"
| "resolve_setting provider v = Ok v"

definition resolve_secrets :: "bool \<Rightarrow> (string, setting) dict \<Rightarrow> (string, setting) dict res" where
  "resolve_secrets provider cfg =
    res_map (\<lambda>(k, v). res_bind (resolve_setting provider v) (\<lambda>w. Ok (k, w))) cfg"

definition service_key :: "string \<Rightarrow> string option \<Rightarrow> string" where
  "service_key ty role = str_lower ty @
    (case role of None \<Rightarrow> ''_service'' | Some r \<Rightarrow> if r = [] then ''_service'' else ''_'' @ str_lower r)"

text \<open>
  \<open>CircuitOpenError\<close> stands for the three errors of an unreachable host, a failing client and an open circuit. The
  keyword \<open>key\<close> of \<open>create\<close> clashes with a setting of that name.
\<close>

definition service_name :: "string \<Rightarrow> setting option \<Rightarrow> setting" where
  "service_name ty given = (case given of
     None \<Rightarrow> VStr ty
   | Some v \<Rightarrow> if v \<in> {VNone, VStr [], VInt 0, VBool False, VList [], VDict []} then VStr ty else v)"

definition build_service ::
  "('c, setting) constructors \<Rightarrow> string \<Rightarrow> string \<Rightarrow> (string, setting) dict \<Rightarrow>
   ('c, setting) class_registry \<Rightarrow> ('c, setting) inst res \<times> ('c, setting) class_registry"
where
  "build_service C k ty rc R =
    (let nm = service_name ty (dict_get rc ''name''); rest = dict_del ''name'' rc
     in if dict_get rest ''key'' \<noteq> None then (Err TypeError, R)
        else (case create C k [] ((''name'', nm) # rest) R of
           (Inl e, R1) \<Rightarrow> (Err (if e = CircuitOpenError then TryAgainLater else e), R1)
         | (Inr i, R1) \<Rightarrow> (Ok i, R1)))"

definition key_listed :: "'c world \<Rightarrow> shape \<Rightarrow> string \<Rightarrow> 'c registry \<Rightarrow> bool res \<times> 'c registry" where
  "key_listed W sh k = st_bind (registry_keys W sh) (\<lambda>ks. st_lift (Ok (k \<in> set ks)))"

definition factory_get ::
  "('c, setting) constructors \<Rightarrow> string \<Rightarrow> bool \<Rightarrow> string option \<Rightarrow> (string, setting) dict \<Rightarrow>
   ('c, setting) class_registry \<Rightarrow> ('c, setting) inst res \<times> ('c, setting) class_registry"
where
  "factory_get C services_pkg provider role cfg R =
    (case dict_get cfg ''type'' of
       Some (VStr ty) \<Rightarrow>
        if ty = [] then (Err ValueError, R)
        else (let k = service_key ty role; listed = key_listed (cn_world C) (cn_shape C) k in
         case st_bind listed (\<lambda>there. if there then st_lift (Ok True)
                else st_bind (load_package_modules (cn_world C) services_pkg) (\<lambda>_. listed)) (cr_base R) of
           (found, B) \<Rightarrow>
             (case res_bind found (\<lambda>there. if there then resolve_secrets provider cfg else Err LookupError) of
                Inl e \<Rightarrow> (Err e, R\<lparr>cr_base := B\<rparr>)
              | Inr rc \<Rightarrow> build_service C k ty rc (R\<lparr>cr_base := B\<rparr>)))
     | _ \<Rightarrow> (Err ValueError, R))"

definition get_source where "get_source C pkg provider = factory_get C pkg provider (Some ''source'')"
definition get_sink where "get_sink C pkg provider = factory_get C pkg provider (Some ''sink'')"
definition get_archive where "get_archive C pkg provider = factory_get C pkg provider (Some ''archive'')"



section \<open>Registering and finding\<close>

lemma normalize_key_idem [simp]: "normalize_key (normalize_key k) = normalize_key k"
  by (simp add: normalize_key_def py_strip_map_lower [symmetric] o_def)


definition empty_registry :: "'c registry" where
  "empty_registry = \<lparr>rg_items = [], rg_loaded = False, rg_imported = []\<rparr>"

definition demo_world :: "nat world" where
  "demo_world = \<lparr>wo_source = (\<lambda>m. if m = ''db'' then ([([''database_source'', ''db''], 1)], Ok ())
       else if m = ''file'' then ([([''file_source''], 2), ([''DB''], 3)], Ok ()) else ([], Err LookupError)),
     wo_walk = (\<lambda>p. if p = ''svc'' then Ok [''db'', ''file''] else Err LookupError)\<rparr>"



section \<open>Loading\<close>

lemma import_again: "m \<in> set (rg_imported R) \<Longrightarrow> import_module W m R = (Ok (), R)"
  by (simp add: import_module_def)

lemma import_all_again: "set ms \<subseteq> set (rg_imported R) \<Longrightarrow> import_all W ms R = (length ms, R)"
  by (induction ms) (simp_all add: import_again)

lemma load_again:
  "wo_walk W p = Ok ms \<Longrightarrow> set ms \<subseteq> set (rg_imported R) \<Longrightarrow> load_package_modules W p R = (Ok (length ms), R)"
  by (simp add: load_package_modules_def import_all_again)

lemma ensure_loaded_again:
  assumes "list_all (\<lambda>p. \<exists>ms. wo_walk W p = Ok ms \<and> set ms \<subseteq> set (rg_imported R)) (sh_packages sh)"
    and "set (sh_modules sh) \<subseteq> set (rg_imported R)"
  shows "ensure_loaded W sh R = (Ok (), R\<lparr>rg_loaded := True\<rparr>)"
proof -
  have "st_each (\<lambda>p R. case load_package_modules W p R of (r, R1) \<Rightarrow> (res_bind r (\<lambda>_. Ok ()), R1)) ps S = (Ok (), S)"
    if "list_all (\<lambda>p. \<exists>ms. wo_walk W p = Ok ms \<and> set ms \<subseteq> set (rg_imported S)) ps" for ps S
    using that by (induction ps) (auto simp: load_again st_lift_def st_bind_def)
  from this [of "R\<lparr>rg_loaded := True\<rparr>" "sh_packages sh"] assms show ?thesis
    by (simp add: ensure_loaded_def st_bind_def import_all_again)
qed

text \<open>
  A cleared registry stays empty. Once the modules a registry loads have been imported, clearing it loses their
  registrations for good: loading again imports nothing, so every key is unknown from then on, whatever is looked up
  in between.
\<close>

theorem cleared_registry_stays_empty:
  assumes "list_all (\<lambda>p. \<exists>ms. wo_walk W p = Ok ms \<and> set ms \<subseteq> set (rg_imported R)) (sh_packages sh)"
    and "set (sh_modules sh) \<subseteq> set (rg_imported R)"
  shows "fst (get_class W sh key (fold (\<lambda>k R. snd (get_class W sh k R)) ks (clear_registry R))) = Err KeyError"
proof -
  have step: "get_class W sh k S = (Err KeyError, R\<lparr>rg_items := [], rg_loaded := True\<rparr>)"
    if "S \<in> {clear_registry R, R\<lparr>rg_items := [], rg_loaded := True\<rparr>}" for k S
  proof -
    have "ensure_loaded W sh S = (Ok (), R\<lparr>rg_items := [], rg_loaded := True\<rparr>)"
      using that ensure_loaded_again [of W "clear_registry R" sh] assms
      by (auto simp: clear_registry_def) (simp add: ensure_loaded_def)
    then show ?thesis using that by (auto simp: get_class_def Let_def st_bind_def clear_registry_def)
  qed
  have "fold (\<lambda>k R. snd (get_class W sh k R)) ks S \<in> {clear_registry R, R\<lparr>rg_items := [], rg_loaded := True\<rparr>}"
    if "S \<in> {clear_registry R, R\<lparr>rg_items := [], rg_loaded := True\<rparr>}" for S
    using that by (induction ks arbitrary: S) (auto simp: step)
  then show ?thesis using step by (metis fst_conv insertI1)
qed

definition demo_shape :: shape where
  "demo_shape = \<lparr>sh_packages = [''svc''], sh_modules = [''db''], sh_auto = True\<rparr>"

definition loaded_registry :: "nat registry" where
  "loaded_registry = snd (ensure_loaded demo_world demo_shape empty_registry)"

lemma loaded_registry: "loaded_registry = \<lparr>rg_items = [(''database_source'', 1), (''db'', 1), (''file_source'', 2)],
    rg_loaded = True, rg_imported = [''db'']\<rparr>"
  by code_simp

theorem cleared_registry_stays_empty_witness:
  "fst (get_class demo_world (demo_shape\<lparr>sh_packages := []\<rparr>) ''db'' loaded_registry) = Ok 1 \<and>
   fst (get_class demo_world (demo_shape\<lparr>sh_packages := []\<rparr>) ''db'' (clear_registry loaded_registry)) = Err KeyError"
proof -
  have "fst (get_class demo_world (demo_shape\<lparr>sh_packages := []\<rparr>) ''db'' loaded_registry) = Ok 1" by code_simp
  moreover have "list_all (\<lambda>p. \<exists>ms. wo_walk demo_world p = Ok ms \<and> set ms \<subseteq> set (rg_imported loaded_registry))
      (sh_packages (demo_shape\<lparr>sh_packages := []\<rparr>))" by simp
  note cleared_registry_stays_empty [OF this, of "''db''" "[]"]
  ultimately show ?thesis by (simp add: loaded_registry demo_shape_def)
qed

text \<open>
  Loading is tried once: when a package cannot be imported, the lookup that needed it fails with the import's own
  error, and every later one reports an unknown key, with the other modules never imported.
\<close>

lemma failed_load_not_retried:
  assumes "\<not> rg_loaded R" "sh_packages sh = p # ps" "wo_walk W p = Err e" "dict_get (rg_items R) (normalize_key key) = None"
  shows "get_class W sh key R = (Err e, R\<lparr>rg_loaded := True\<rparr>) \<and>
    get_class W sh key (R\<lparr>rg_loaded := True\<rparr>) = (Err KeyError, R\<lparr>rg_loaded := True\<rparr>)"
  using assms by (simp add: get_class_def ensure_loaded_def load_package_modules_def st_bind_def Let_def)



section \<open>Cached instances and services\<close>

lemma create_Ok:
  assumes "create C key as ks R = (Ok i, R')"
  shows "in_serial i = cr_next R \<and> cr_next R' = Suc (cr_next R) \<and> in_args i = as \<and> in_kwargs i = ks \<and> cr_cached R' = cr_cached R \<and>
    cr_instances R' = (if cr_cached R then dict_put (make_cache_key (cn_text C) key as ks) i (cr_instances R) else cr_instances R)"
  using assms by (auto simp: create_def Let_def split: prod.splits sum.splits if_splits)

text \<open>
  What the instance cache returns. With caching on, after \<open>create\<close> a \<open>get_or_create\<close> returns that very instance when
  the key is given in normal form, and also for other arguments as long as their texts, joined by underscores, read
  the same; but a key with capitals or blanks is looked up in normal form and stored as given, so it finds nothing
  and a second instance is built.
\<close>

theorem instance_cache:
  assumes "create C key as ks R = (Ok i, R1)" "cr_cached R"
  shows "(normalize_key key' = key \<and> py_join ''_'' (map (cn_text C) as') = py_join ''_'' (map (cn_text C) as) \<longrightarrow>
      get_or_create C key' as' ks R1 = (Ok i, R1)) \<and>
    (make_cache_key (cn_text C) (normalize_key key) as ks \<noteq> make_cache_key (cn_text C) key as ks \<and>
      dict_get (cr_instances R) (make_cache_key (cn_text C) (normalize_key key) as ks) = None \<longrightarrow>
      get_or_create C key as ks R1 = create C key as ks R1 \<and>
      (\<forall>j R2. create C key as ks R1 = (Ok j, R2) \<longrightarrow> in_serial j \<noteq> in_serial i))"
proof -
  note c = create_Ok [OF assms(1)]
  have k: "make_cache_key (cn_text C) key as' ks = make_cache_key (cn_text C) key as ks"
    if "py_join ''_'' (map (cn_text C) as') = py_join ''_'' (map (cn_text C) as)"
    using that by (simp add: make_cache_key_def)
  have "in_serial j \<noteq> in_serial i" if "create C key as ks R1 = (Ok j, R2)" for j R2
    using create_Ok [OF that] c by simp
  then show ?thesis using c assms(2) by (auto simp: get_or_create_def dict_simps k)
qed

definition demo_constructors :: "(nat, string) constructors" where
  "demo_constructors = \<lparr>cn_world = demo_world, cn_shape = demo_shape, cn_init = (\<lambda>_ _ _. Ok ()), cn_text = (\<lambda>v. v)\<rparr>"

definition cached_classes :: "(nat, 'v) class_registry" where
  "cached_classes = \<lparr>cr_base = loaded_registry, cr_cached = True, cr_instances = [], cr_next = 0\<rparr>"

theorem instance_cache_witness:
  "\<exists>i R1. create demo_constructors ''db'' [''a'', ''b''] [] cached_classes = (Ok i, R1) \<and> in_args i = [''a'', ''b''] \<and>
    get_or_create demo_constructors ''DB '' [''a_b''] [] R1 = (Ok i, R1)"
proof -
  obtain i R1 where c: "create demo_constructors ''db'' [''a'', ''b''] [] cached_classes = (Ok i, R1)"
    by (simp add: create_def get_class_def cached_classes_def loaded_registry normalize_key_def Let_def st_lift_def
        demo_constructors_def py_strip_def is_space_def char_lower_def)
  have k: "normalize_key ''DB '' = ''db''" by code_simp
  have "normalize_key ''DB '' = ''db'' \<and>
      py_join ''_'' (map (cn_text demo_constructors) [''a_b'']) = py_join ''_'' (map (cn_text demo_constructors) [''a'', ''b''])"
    by (simp add: k demo_constructors_def)
  then have "get_or_create demo_constructors ''DB '' [''a_b''] [] R1 = (Ok i, R1)"
    using instance_cache [OF c, of "''DB ''" "[''a_b'']"] by (simp add: cached_classes_def)
  then show ?thesis using c create_Ok [OF c] by blast
qed


lemma resolved_clean: "resolve_setting provider v = Ok w \<Longrightarrow> \<forall>s. w = VStr s \<longrightarrow> \<not> prefix SECRET_PROTOCOL s"
  by (cases v) (auto split: if_splits)

lemma resolve_secrets_clean: "resolve_secrets provider cfg = Ok rc \<Longrightarrow> (k, VStr s) \<in> set rc \<Longrightarrow> \<not> prefix SECRET_PROTOCOL s"
  unfolding resolve_secrets_def
proof (induction cfg arbitrary: rc)
  case (Cons e cfg)
  obtain n v where e: "e = (n, v)" by fastforce
  from Cons.prems(1) obtain w rc' where r: "resolve_setting provider v = Ok w" "rc = (n, w) # rc'"
    "res_map (\<lambda>(k, v). res_bind (resolve_setting provider v) (\<lambda>w. Ok (k, w))) cfg = Ok rc'"
    by (auto simp: e res_bind_Ok_iff)
  then show ?case using Cons resolved_clean [OF r(1)] by auto
qed simp

lemma build_service_Ok:
  assumes "build_service C k ty rc R = (Ok i, R')"
  obtains nm where "nm = VStr ty \<or> (''name'', nm) \<in> set rc" "create C k [] ((''name'', nm) # dict_del ''name'' rc) R = (Ok i, R')"
proof -
  have "service_name ty (dict_get rc ''name'') = VStr ty \<or> (''name'', service_name ty (dict_get rc ''name'')) \<in> set rc"
    by (auto simp: service_name_def split: option.split dest: map_of_SomeD)
  moreover have "create C k [] ((''name'', service_name ty (dict_get rc ''name'')) # dict_del ''name'' rc) R = (Ok i, R')"
    using assms by (auto simp: build_service_def Let_def split: if_splits prod.splits sum.splits)
  ultimately show thesis by (rule that)
qed

lemma factory_get_Ok:
  assumes "factory_get C pkg provider role cfg R = (Ok i, R')"
  obtains ty k rc B where "dict_get cfg ''type'' = Some (VStr ty)" "resolve_secrets provider cfg = Ok rc"
    "build_service C k ty rc (R\<lparr>cr_base := B\<rparr>) = (Ok i, R')"
proof -
  from assms obtain ty where ty: "dict_get cfg ''type'' = Some (VStr ty)" "ty \<noteq> []"
    by (auto simp: factory_get_def split: option.splits pyval.splits if_splits)
  let ?k = "service_key ty role" and ?l = "key_listed (cn_world C) (cn_shape C) (service_key ty role)"
  obtain found B where b: "st_bind ?l (\<lambda>there. if there then st_lift (Ok True)
      else st_bind (load_package_modules (cn_world C) pkg) (\<lambda>_. ?l)) (cr_base R) = (found, B)" by fastforce
  obtain rc where rc: "res_bind found (\<lambda>there. if there then resolve_secrets provider cfg else Err LookupError) = Ok rc"
    using assms ty b by (auto simp: factory_get_def Let_def split: sum.splits)
  then have "resolve_secrets provider cfg = Ok rc" by (auto simp: res_bind_Ok_iff split: if_splits)
  moreover have "build_service C ?k ty rc (R\<lparr>cr_base := B\<rparr>) = (Ok i, R')"
    using assms ty b rc by (simp add: factory_get_def Let_def)
  ultimately show thesis using ty(1) that by blast
qed


definition cached_services :: "(nat, setting) class_registry" where
  "cached_services = \<lparr>cr_base = loaded_registry, cr_cached = True, cr_instances = [], cr_next = 0\<rparr>"

definition service_constructors :: "(nat, setting) constructors" where
  "service_constructors = \<lparr>cn_world = demo_world, cn_shape = demo_shape, cn_init = (\<lambda>_ _ _. Ok ()), cn_text = (\<lambda>_. ''v'')\<rparr>"

definition warehouse :: "(string, setting) dict" where
  "warehouse = [(''type'', VStr ''Database''), (''password'', VStr ''secret://pw'')]"

definition warehouse_source :: "(nat, setting) class_registry \<Rightarrow> (nat, setting) inst res \<times> (nat, setting) class_registry" where
  "warehouse_source = factory_get service_constructors ''svc'' True (Some ''source'') warehouse"

lemma warehouse_twice:
  "fst (warehouse_source cached_services) = Ok \<lparr>in_class = 1, in_args = [],
     in_kwargs = [(''name'', VStr ''Database''), (''type'', VStr ''Database''), (''password'', VObj ''pw'')], in_serial = 0\<rparr>"
  "fst (warehouse_source (snd (warehouse_source cached_services))) = Ok \<lparr>in_class = 1, in_args = [],
     in_kwargs = [(''name'', VStr ''Database''), (''type'', VStr ''Database''), (''password'', VObj ''pw'')], in_serial = 1\<rparr>"
  by code_simp+


end
