(* ===== verification/Documents.thy ===== *)
theory Documents
  imports DictUtils SqlText
begin

text \<open>
  Paths into nested documents (\<open>libs/utils/dict.py\<close>): parsing and building dotted paths, navigation, searching for
  keys, replacing a key at a path, flattening, unflattening, and the case-insensitive merge. Documents are values, which
  is what the deep copy of \<open>set_nested_key\<close> makes of them.
\<close>


section \<open>Paths\<close>

datatype node = Key string | Idx int

text \<open>\<open>int(p)\<close> of decimal digits, with blanks and a sign; digit groups with underscores are not modelled.\<close>

definition read_int :: "string \<Rightarrow> int res" where
  "read_int s = (let t = py_strip s in
     case t of
       c # cs \<Rightarrow>
         (if c \<in> set ''+-'' then (case read_nat cs of None \<Rightarrow> Err ValueError
            | Some n \<Rightarrow> Ok (if c = CHR ''-'' then - int n else int n))
          else (case read_nat t of None \<Rightarrow> Err ValueError | Some n \<Rightarrow> Ok (int n)))
     | [] \<Rightarrow> Err ValueError)"

definition parse_segment :: "string \<Rightarrow> node list res" where
  "parse_segment seg =
    (if CHR ''['' \<in> set seg
     then (case py_split (CHR ''['') (filter (\<lambda>c. c \<noteq> CHR '']'') seg) of
             p # ps \<Rightarrow> res_bind (res_map (\<lambda>x. res_bind (read_int x) (\<lambda>n. Ok (Idx n))) ps)
               (\<lambda>is. Ok ((if p = [] then [] else [Key p]) @ is))
           | [] \<Rightarrow> Ok [])
     else Ok [Key seg])"

definition parse_path :: "string \<Rightarrow> node list res" where
  "parse_path path = res_bind (res_map parse_segment (py_split (CHR ''.'') path)) (\<lambda>xs. Ok (concat xs))"

fun build_path :: "string \<Rightarrow> node \<Rightarrow> string" where
  "build_path parent (Idx i) = parent @ ''['' @ show_int i @ '']''"
| "build_path parent (Key k) = (if parent \<noteq> [] then parent @ ''.'' @ k else k)"

text \<open>\<open>current[key]\<close>: lists and strings take positions, from the end when negative; dicts take keys.\<close>

definition at_pos :: "'a list \<Rightarrow> int \<Rightarrow> 'a res" where
  "at_pos xs i =
    (if 0 \<le> i \<and> i < int (length xs) then Ok (xs ! nat i)
     else if i < 0 \<and> - i \<le> int (length xs) then Ok (xs ! nat (int (length xs) + i)) else Err IndexError)"

fun item_at :: "'p pyval \<Rightarrow> node \<Rightarrow> 'p pyval res" where
  "item_at (VDict d) (Key k) = (case dict_get d k of None \<Rightarrow> Err KeyError | Some v \<Rightarrow> Ok v)"
| "item_at (VDict d) (Idx i) = Err KeyError"
| "item_at (VList vs) (Idx i) = at_pos vs i"
| "item_at (VStr s) (Idx i) = res_bind (at_pos s i) (\<lambda>c. Ok (VStr [c]))"
| "item_at _ _ = Err TypeError"

fun navigate :: "'p pyval \<Rightarrow> node list \<Rightarrow> 'p pyval res" where
  "navigate v [] = Ok v"
| "navigate v (n # ns) = res_bind (item_at v n) (\<lambda>w. navigate w ns)"


section \<open>Searching and replacing\<close>

text \<open>\<open>hit\<close> is the search of the compiled pattern.\<close>

function find_keys :: "(string \<Rightarrow> bool) \<Rightarrow> string \<Rightarrow> 'p pyval \<Rightarrow> (string \<times> 'p pyval) list" where
  "find_keys hit path (VDict d) =
    concat (map (\<lambda>(k, v). (if hit k then [(build_path path (Key k), v)] else []) @ find_keys hit (build_path path (Key k)) v) d)"
| "find_keys hit path (VList vs) =
    concat (map (\<lambda>(i, v). find_keys hit (build_path path (Idx (int i))) v) (zip [0..<length vs] vs))"
| "find_keys hit path VNone = []"
| "find_keys hit path (VBool b) = []"
| "find_keys hit path (VInt n) = []"
| "find_keys hit path (VStr s) = []"
| "find_keys hit path (VObj x) = []"
  by pat_completeness auto

lemma size_entry: "(k, v) \<in> set d \<Longrightarrow> size v < size (VDict d)"
  by (induction d) auto

lemma size_item: "(i, v) \<in> set (zip is vs) \<Longrightarrow> size v < size (VList vs)"
  by (drule set_zip_rightD, induction vs) auto

termination find_keys
  by (relation "measure (\<lambda>(_, _, v). size v)") (auto dest: size_entry size_item simp del: pyval.size)

text \<open>The container at a path is replaced by \<open>f\<close> of it.\<close>

definition put_pos :: "'a list \<Rightarrow> int \<Rightarrow> 'a \<Rightarrow> 'a list res" where
  "put_pos xs i x = res_bind (at_pos xs i) (\<lambda>_. Ok (xs[nat (if i < 0 then int (length xs) + i else i) := x]))"

fun put_item :: "'p pyval \<Rightarrow> node \<Rightarrow> 'p pyval \<Rightarrow> 'p pyval res" where
  "put_item (VDict d) (Key k) v = Ok (VDict (dict_put k v d))"
| "put_item (VList vs) (Idx i) v = res_bind (put_pos vs i v) (\<lambda>ws. Ok (VList ws))"
| "put_item v _ _ = Ok v"

fun update_at :: "('p pyval \<Rightarrow> 'p pyval res) \<Rightarrow> node list \<Rightarrow> 'p pyval \<Rightarrow> 'p pyval res" where
  "update_at f [] v = f v"
| "update_at f (n # ns) v = res_bind (item_at v n) (\<lambda>w. res_bind (update_at f ns w) (put_item v n))"

definition replace_key :: "node \<Rightarrow> string option \<Rightarrow> 'p pyval \<Rightarrow> 'p pyval \<Rightarrow> 'p pyval res" where
  "replace_key last_key new_key new_value c =
    (case (c, last_key) of
       (VList vs, Idx i) \<Rightarrow> if new_value = VNone then Ok c else put_item c last_key new_value
     | (VDict d, Key k) \<Rightarrow>
        (case dict_get d k of
           None \<Rightarrow> Ok c
         | Some old \<Rightarrow> Ok (VDict (dict_put (case new_key of Some (x # xs) \<Rightarrow> x # xs | _ \<Rightarrow> k)
             (if new_value = VNone then old else new_value) (dict_del k d))))
     | _ \<Rightarrow> Ok c)"

definition set_nested_key :: "'p pyval \<Rightarrow> string \<Rightarrow> string option \<Rightarrow> 'p pyval \<Rightarrow> 'p pyval res" where
  "set_nested_key data path new_key new_value =
    res_bind (parse_path path) (\<lambda>ns. update_at (replace_key (last ns) new_key new_value) (butlast ns) data)"


section \<open>Flattening\<close>

function flatten_node :: "bool \<Rightarrow> string \<Rightarrow> 'p pyval \<Rightarrow> (string \<times> 'p pyval) list" where
  "flatten_node deep path (VDict d) =
    (if d = [] \<and> path \<noteq> [] then [(path, VDict [])]
     else concat (map (\<lambda>(k, v). flatten_node deep (build_path path (Key k)) v) d))"
| "flatten_node deep path (VList vs) =
    (if \<not> deep then [(path, VList vs)]
     else if vs = [] \<and> path \<noteq> [] then [(path, VList [])]
     else concat (map (\<lambda>(i, v). flatten_node deep (build_path path (Idx (int i))) v) (zip [0..<length vs] vs)))"
| "flatten_node deep path VNone = [(path, VNone)]"
| "flatten_node deep path (VBool b) = [(path, VBool b)]"
| "flatten_node deep path (VInt n) = [(path, VInt n)]"
| "flatten_node deep path (VStr s) = [(path, VStr s)]"
| "flatten_node deep path (VObj x) = [(path, VObj x)]"
  by pat_completeness auto

termination flatten_node
  by (relation "measure (\<lambda>(_, _, v). size v)") (auto dest: size_entry size_item simp del: pyval.size)

definition flatten_dict :: "bool \<Rightarrow> 'p pyval \<Rightarrow> 'p pydict" where
  "flatten_dict deep data = fold (\<lambda>(p, v) d. dict_put p v d) (flatten_node deep [] data) []"

text \<open>
  Storing a value at a path, making the missing containers: \<open>c\<close> is what is there, if anything; a list is filled up
  with \<open>None\<close>, and a \<open>None\<close> in a list counts as missing. \<open>None\<close> of the model is an assertion or type error.
\<close>

definition slot :: "'p pyval list \<Rightarrow> nat \<Rightarrow> 'p pyval option" where
  "slot vs i = (if i < length vs \<and> vs ! i \<noteq> VNone then Some (vs ! i) else None)"

definition padded :: "'p pyval list \<Rightarrow> nat \<Rightarrow> 'p pyval list" where
  "padded vs i = vs @ replicate (Suc i - length vs) VNone"

fun store_at :: "node list \<Rightarrow> 'p pyval \<Rightarrow> 'p pyval option \<Rightarrow> 'p pyval option" where
  "store_at [] v c = Some v"
| "store_at (Key k # ns) v c =
    (case c of
       None \<Rightarrow> map_option (\<lambda>w. VDict [(k, w)]) (store_at ns v None)
     | Some (VDict d) \<Rightarrow> map_option (\<lambda>w. VDict (dict_put k w d)) (store_at ns v (dict_get d k))
     | _ \<Rightarrow> None)"
| "store_at (Idx i # ns) v c =
    (case (case c of None \<Rightarrow> Some [] | Some (VList vs) \<Rightarrow> Some vs | _ \<Rightarrow> None) of
       None \<Rightarrow> None
     | Some vs \<Rightarrow>
        (let j = (if i < 0 then int (length vs) + i else i) in
         if j < 0 then None
         else map_option (\<lambda>w. VList ((padded vs (nat j))[nat j := w])) (store_at ns v (slot vs (nat j)))))"

definition unflatten_dict :: "'p pydict \<Rightarrow> 'p pyval option" where
  "unflatten_dict flat = fold (\<lambda>(p, v) c. case c of None \<Rightarrow> None
      | Some r \<Rightarrow> (case parse_path p of Inl e \<Rightarrow> None | Inr ns \<Rightarrow> store_at ns v (Some r))) flat (Some (VDict []))"


section \<open>The case-insensitive merge\<close>

function merge_ci :: "'p pydict \<Rightarrow> (string, string) dict \<Rightarrow> 'p pydict \<Rightarrow> 'p pydict" where
  "merge_ci result keys [] = result"
| "merge_ci result keys ((k, v) # updates) =
    (case dict_get keys (str_lower k) of
       Some a \<Rightarrow> merge_ci (dict_put a (case (dict_get result a, v) of
            (Some (VDict b), VDict u) \<Rightarrow> VDict (merge_ci b (fold (\<lambda>(x, _) m. dict_put (str_lower x) x m) b []) u)
          | _ \<Rightarrow> v) result) keys updates
     | None \<Rightarrow> merge_ci (dict_put k v result) (dict_put (str_lower k) k keys) updates)"
  by pat_completeness auto

termination merge_ci
  by (relation "measure (\<lambda>(_, _, u). size (VDict u))") auto

definition deep_merge_ci :: "'p pydict \<Rightarrow> 'p pydict \<Rightarrow> 'p pydict" where
  "deep_merge_ci base updates = merge_ci base (fold (\<lambda>(x, _) m. dict_put (str_lower x) x m) base []) updates"



section \<open>Paths of clean keys\<close>

definition clean_key :: "string \<Rightarrow> bool" where
  "clean_key k \<longleftrightarrow> k \<noteq> [] \<and> set k \<inter> {CHR ''.'', CHR ''['', CHR '']''} = {}"

fun clean :: "'p pyval \<Rightarrow> bool" where
  "clean (VList vs) = (\<forall>v\<in>set vs. clean v)"
| "clean (VDict d) = (\<forall>kv\<in>set d. clean_key (fst kv) \<and> clean (snd kv))"
| "clean _ = True"

fun clean_node :: "node \<Rightarrow> bool" where
  "clean_node (Key k) = clean_key k"
| "clean_node (Idx i) = (0 \<le> i)"

abbreviation render :: "string \<Rightarrow> node list \<Rightarrow> string" where
  "render \<equiv> foldl build_path"

lemma show_int_nonneg [simp]: "0 \<le> i \<Longrightarrow> show_int i = show_nat (nat i)"
  by (simp add: show_int_def)

lemma show_nat_nonempty [simp]: "show_nat n \<noteq> []"
  using read_show_nat [of n] by (auto simp: read_nat_def)

lemma show_nat_chars: "c \<in> set (show_nat n) \<Longrightarrow> is_digit c"
  using not_digit_in_show by blast

lemma read_int_show [simp]: "read_int (show_nat n) = Ok (int n)"
proof -
  have d: "is_digit c" if "c \<in> set (show_nat n)" for c using that by (rule show_nat_chars)
  have s: "\<not> is_space c" if "is_digit c" for c
    using that by (auto simp: is_digit_def is_space_def)
  have "is_digit (hd (show_nat n))" "is_digit (last (show_nat n))" by (simp_all add: d)
  then have "py_strip (show_nat n) = show_nat n" using s by (intro py_strip_id) simp
  moreover obtain c cs where c: "show_nat n = c # cs" by (cases "show_nat n") auto
  moreover have "c \<notin> set ''+-''" using d [of c] c by (auto simp: is_digit_def)
  ultimately show ?thesis using read_show_nat [of n] by (simp add: read_int_def)
qed

text \<open>One segment: a key followed by positions.\<close>

definition idx_text :: "int list \<Rightarrow> string" where
  "idx_text is = concat (map (\<lambda>i. ''['' @ show_int i @ '']'') is)"

lemma parse_segment_clean:
  assumes "clean_key k" "\<forall>i\<in>set is. 0 \<le> i"
  shows "parse_segment (k @ idx_text is) = Ok (Key k # map Idx is)"
proof -
  have k: "CHR ''['' \<notin> set k" "filter (\<lambda>c. c \<noteq> CHR '']'') k = k" "k \<noteq> []"
    using assms(1) by (auto simp: clean_key_def filter_id_conv)
  have dig: "CHR '']'' \<notin> set (show_nat n)" "CHR ''['' \<notin> set (show_nat n)" for n
    by (auto dest: show_nat_chars simp: is_digit_def)
  have f: "filter (\<lambda>c. c \<noteq> CHR '']'') (idx_text is) = concat (map (\<lambda>i. CHR ''['' # show_nat (nat i)) is)"
    using assms(2) by (induction "is") (auto simp: idx_text_def dig filter_id_conv)
  have sp: "py_split (CHR ''['') (w @ concat (map (\<lambda>i. CHR ''['' # show_nat (nat i)) is)) = w # map (show_nat \<circ> nat) is"
    if "CHR ''['' \<notin> set w" for w
    using that
  proof (induction "is" arbitrary: w)
    case (Cons i js)
    have "py_split (CHR ''['') (w @ CHR ''['' # r) = w # py_split (CHR ''['') r" for r
      using Cons.prems by (induction w) auto
    then show ?case using Cons.IH [of "show_nat (nat i)"] dig by simp
  qed simp
  have r: "res_map (\<lambda>x. res_bind (read_int x) (\<lambda>n. Ok (Idx n))) (map (show_nat \<circ> nat) is) = Ok (map Idx is)"
    using assms(2) by (induction "is") auto
  show ?thesis
  proof (cases "is = []")
    case True
    then show ?thesis using k by (simp add: parse_segment_def idx_text_def)
  next
    case False
    then have "CHR ''['' \<in> set (idx_text is)" by (cases "is") (auto simp: idx_text_def)
    then show ?thesis using k sp [OF k(1)] r by (simp add: parse_segment_def f o_def)
  qed
qed

lemma segment_dot_free: "clean_key k \<Longrightarrow> CHR ''.'' \<notin> set (k @ idx_text is)"
proof -
  assume k: "clean_key k"
  have "CHR ''.'' \<notin> set (show_int i)" for i
    by (auto simp: show_int_def dest: show_nat_chars simp: is_digit_def)
  then have "CHR ''.'' \<notin> set (idx_text is)" by (induction "is") (auto simp: idx_text_def)
  then show ?thesis using k by (auto simp: clean_key_def)
qed

lemma res_bind_Ok_id: "res_bind m Inr = m"
  by (cases m) simp_all

lemma parse_path_snoc:
  "parse_path (p @ CHR ''.'' # q) = res_bind (parse_path p) (\<lambda>a. res_bind (parse_path q) (\<lambda>b. Ok (a @ b)))"
proof -
  have s: "py_split c (p @ c # q) = py_split c p @ py_split c q" for c
  proof (induction p)
    case (Cons x p)
    then show ?case by (cases "py_split c p") auto
  qed simp
  have m: "res_map f (xs @ ys) = res_bind (res_map f xs) (\<lambda>a. res_bind (res_map f ys) (\<lambda>b. Ok (a @ b)))" for f :: "'x \<Rightarrow> 'y res" and xs ys
    by (induction xs) (simp_all add: res_bind_Ok_id)
  show ?thesis by (simp add: parse_path_def s m)
qed

text \<open>A rendered path parses back: paths begin with a key, and each key opens a new segment.\<close>

lemma render_idx: "\<forall>i\<in>set is. 0 \<le> i \<Longrightarrow> render p (map Idx is) = p @ idx_text is"
  by (induction "is" arbitrary: p) (simp_all add: idx_text_def)

lemma split_idx:
  obtains "is" rest where "ns = map Idx is @ rest" "rest = [] \<or> (\<exists>k r. rest = Key k # r)"
proof (induction ns arbitrary: thesis)
  case (Cons n ns)
  show ?case
  proof (cases n)
    case (Key k)
    then show ?thesis using Cons.prems [of "[]"] by simp
  next
    case (Idx i)
    obtain "is" rest where "ns = map Idx is @ rest" "rest = [] \<or> (\<exists>k r. rest = Key k # r)" using Cons.IH by blast
    then show ?thesis using Cons.prems [of "i # is"] Idx by simp
  qed
qed simp

lemma render_append: "b \<noteq> [] \<Longrightarrow> render (a @ b) ns = a @ render b ns"
proof (induction ns arbitrary: b)
  case (Cons n ns)
  then show ?case using Cons.IH [of "build_path b n"] by (cases n) auto
qed simp

lemma render_from: "p \<noteq> [] \<Longrightarrow> k \<noteq> [] \<Longrightarrow> render p (Key k # ns) = p @ CHR ''.'' # render [] (Key k # ns)"
  using render_append [of k "p @ ''.''" ns] by simp

lemma parse_dot_free: "CHR ''.'' \<notin> set p \<Longrightarrow> parse_path p = res_bind (parse_segment p) (\<lambda>x. Ok x)"
  by (simp add: parse_path_def)

lemma parse_render:
  assumes "list_all clean_node (Key k # ns)"
  shows "parse_path (render [] (Key k # ns)) = Ok (Key k # ns)"
  using assms
proof (induction "length ns" arbitrary: k ns rule: less_induct)
  case less
  obtain "is" rest where r: "ns = map Idx is @ rest" "rest = [] \<or> (\<exists>k r. rest = Key k # r)" by (rule split_idx)
  have k: "clean_key k" "\<forall>i\<in>set is. 0 \<le> i" using less.prems by (simp_all add: r(1) list_all_iff ball_Un)
  have s: "parse_path (k @ idx_text is) = Ok (Key k # map Idx is)"
    using parse_dot_free [OF segment_dot_free [OF k(1)]] parse_segment_clean [OF k] by simp
  have e: "render [] (Key k # ns) = render (k @ idx_text is) rest" using k by (simp add: r(1) render_idx)
  show ?case
  proof (cases rest)
    case Nil
    then show ?thesis unfolding e using s r(1) by simp
  next
    case (Cons n r')
    then obtain k' where n: "n = Key k'" using r(2) by auto
    have "list_all clean_node (Key k' # r')" using less.prems by (simp add: r(1) Cons n)
    then have "parse_path (render [] (Key k' # r')) = Ok (Key k' # r')" and k': "k' \<noteq> []"
      using less.hyps [of r' k'] by (auto simp: r(1) Cons clean_key_def)
    moreover have "k \<noteq> []" using k(1) by (simp add: clean_key_def)
    moreover have "render (k @ idx_text is) rest = (k @ idx_text is) @ CHR ''.'' # render [] (Key k' # r')"
      using render_from [of "k @ idx_text is" k' r'] k' \<open>k \<noteq> []\<close> by (simp add: Cons n)
    ultimately show ?thesis unfolding e using s by (simp only: parse_path_snoc) (simp add: Cons n r(1))
  qed
qed



section \<open>Flattening and back\<close>

text \<open>The leaves of a document with the steps to them, in order; an empty container is a leaf.\<close>

function leaves :: "'p pyval \<Rightarrow> (node list \<times> 'p pyval) list" where
  "leaves (VDict d) = (if d = [] then [([], VDict [])]
     else concat (map (\<lambda>(k, v). map (\<lambda>(p, w). (Key k # p, w)) (leaves v)) d))"
| "leaves (VList vs) = (if vs = [] then [([], VList [])]
     else concat (map (\<lambda>(i, v). map (\<lambda>(p, w). (Idx (int i) # p, w)) (leaves v)) (zip [0..<length vs] vs)))"
| "leaves VNone = [([], VNone)]"
| "leaves (VBool b) = [([], VBool b)]"
| "leaves (VInt n) = [([], VInt n)]"
| "leaves (VStr s) = [([], VStr s)]"
| "leaves (VObj x) = [([], VObj x)]"
  by pat_completeness auto

termination leaves
  by (relation "measure size") (auto dest: size_entry size_item simp del: pyval.size)

definition no_container :: "'p pyval \<Rightarrow> bool" where
  "no_container v \<longleftrightarrow> v = VDict [] \<or> v = VList [] \<or> (\<forall>d vs. v \<noteq> VDict d \<and> v \<noteq> VList vs)"

lemma build_nonempty: "path \<noteq> [] \<Longrightarrow> build_path path n \<noteq> []"
  by (cases n) simp_all

lemma flatten_leaves:
  "path \<noteq> [] \<Longrightarrow> flatten_node True path v = map (\<lambda>(p, w). (render path p, w)) (leaves v)"
proof (induction v arbitrary: path rule: leaves.induct)
  case (1 d)
  have "flatten_node True (build_path path (Key k)) v = map (\<lambda>(p, w). (render (build_path path (Key k)) p, w)) (leaves v)"
    if "(k, v) \<in> set d" for k v
    using 1 that build_nonempty by (cases "d = []") auto
  then show ?case using 1(2)
    by (auto simp: map_concat o_def case_prod_beta intro!: arg_cong [where f = concat] map_cong)
next
  case (2 vs)
  have "flatten_node True (build_path path (Idx (int i))) v = map (\<lambda>(p, w). (render (build_path path (Idx (int i))) p, w)) (leaves v)"
    if "(i, v) \<in> set (zip [0..<length vs] vs)" for i v
    using 2 that build_nonempty by (cases "vs = []") auto
  then show ?case using 2(2)
    by (auto simp: map_concat o_def case_prod_beta intro!: arg_cong [where f = concat] map_cong)
qed simp_all

lemma flatten_document:
  "doc_ok d \<Longrightarrow> clean (VDict d) \<Longrightarrow> d \<noteq> [] \<Longrightarrow>
    flatten_node True [] (VDict d) = map (\<lambda>(p, w). (render [] p, w)) (leaves (VDict d))"
  by (auto simp: map_concat o_def case_prod_beta flatten_leaves clean_key_def intro!: arg_cong [where f = concat] map_cong)

lemma leaves_nonempty: "leaves v \<noteq> []"
proof (induction v rule: leaves.induct)
  case (1 d)
  show ?case
  proof (cases d)
    case (Cons e d')
    obtain k v where e: "e = (k, v)" by fastforce
    have "leaves v \<noteq> []" by (rule 1 [of e k v]) (simp_all add: Cons e)
    then show ?thesis by (simp add: Cons e)
  qed simp
next
  case (2 vs)
  show ?case
  proof (cases vs)
    case (Cons w ws)
    then have "(0, w) \<in> set (zip [0..<length vs] vs)" by (simp add: upt_conv_Cons del: upt_Suc)
    then have "leaves w \<noteq> []" using 2 Cons by blast
    then show ?thesis using Cons by (simp add: upt_conv_Cons del: upt_Suc)
  qed simp
qed simp_all

lemma leaves_paths:
  "(\<forall>p w. (p, w) \<in> set (leaves v) \<longrightarrow> p \<noteq> []) \<or> leaves v = [([], v)]"
  by (cases v) auto

lemma leaves_clean: "clean v \<Longrightarrow> (p, w) \<in> set (leaves v) \<Longrightarrow> list_all clean_node p"
proof (induction v arbitrary: p rule: leaves.induct)
  case (1 d)
  then show ?case by (cases "d = []") fastforce+
next
  case (2 vs)
  show ?case
  proof (cases "vs = []")
    case False
    with 2(3) obtain i x q where x: "(i, x) \<in> set (zip [0..<length vs] vs)" "p = Idx (int i) # q" "(q, w) \<in> set (leaves x)" by auto
    have "clean x" using 2(2) x(1) by (auto dest: set_zip_rightD)
    then show ?thesis using 2(1) [OF False x(1) _ _ x(3)] x(2) by simp
  qed (use 2 in simp)
qed auto


fun store_all :: "(node list \<times> 'p pyval) list \<Rightarrow> 'p pyval option \<Rightarrow> 'p pyval option option" where
  "store_all [] c = Some c"
| "store_all ((p, w) # xs) c = (case store_at p w c of None \<Rightarrow> None | Some c1 \<Rightarrow> store_all xs (Some c1))"

lemma store_all_append:
  "store_all (xs @ ys) c = (case store_all xs c of None \<Rightarrow> None | Some c1 \<Rightarrow> store_all ys c1)"
  by (induction xs c rule: store_all.induct) (auto split: option.split)

lemma put_twice [simp]: "dict_put k v (dict_put k w d) = dict_put k v d"
  by (induction d) auto

lemma put_new: "k \<notin> fst ` set d \<Longrightarrow> dict_put k v d = d @ [(k, v)]"
  by (induction d) auto

lemma store_under_key:
  assumes "store_all xs (dict_get d k) = Some (Some w)" "xs \<noteq> []"
  shows "store_all (map (\<lambda>(p, w). (Key k # p, w)) xs) (Some (VDict d)) = Some (Some (VDict (dict_put k w d)))"
  using assms
proof (induction xs arbitrary: d)
  case (Cons x xs)
  obtain p u where x: "x = (p, u)" by fastforce
  then obtain c1 where c: "store_at p u (dict_get d k) = Some c1" "store_all xs (Some c1) = Some (Some w)"
    using Cons.prems(1) by (auto split: option.splits)
  show ?case
  proof (cases "xs = []")
    case True
    then show ?thesis using c x by simp
  next
    case False
    have "dict_get (dict_put k c1 d) k = Some c1" by (simp add: dict_simps)
    then show ?thesis using Cons.IH [of "dict_put k c1 d"] c False x by simp
  qed
qed simp

lemma store_at_container: "p \<noteq> [] \<Longrightarrow> store_at p v c = Some w \<Longrightarrow> w \<noteq> VNone"
  by (induction p v c rule: store_at.induct) (auto simp: Let_def split: option.splits pyval.splits if_splits)

lemma slot_put [simp]: "w \<noteq> VNone \<Longrightarrow> slot ((padded vs i)[i := w]) i = Some w"
  by (auto simp: slot_def padded_def)

lemma padded_put [simp]: "padded ((padded vs i)[i := w]) i = (padded vs i)[i := w]"
  by (auto simp: padded_def)

lemma store_under_pos:
  assumes "store_all xs (slot vs i) = Some (Some w)" "xs \<noteq> []" "\<And>p u. (p, u) \<in> set xs \<Longrightarrow> p \<noteq> []"
  shows "store_all (map (\<lambda>(p, w). (Idx (int i) # p, w)) xs) (Some (VList vs)) = Some (Some (VList ((padded vs i)[i := w])))"
  using assms
proof (induction xs arbitrary: vs)
  case (Cons x xs)
  obtain p u where x: "x = (p, u)" by fastforce
  then obtain c1 where c: "store_at p u (slot vs i) = Some c1" "store_all xs (Some c1) = Some (Some w)"
    using Cons.prems(1) by (auto split: option.splits)
  have "p \<noteq> []" by (rule Cons.prems(3) [of p u]) (simp add: x)
  then have "c1 \<noteq> VNone" using store_at_container [OF _ c(1)] by simp
  have rest: "q \<noteq> []" if "(q, u) \<in> set xs" for q u by (rule Cons.prems(3) [of q u]) (simp add: that)
  show ?case
  proof (cases "xs = []")
    case True
    then show ?thesis using c x by simp
  next
    case False
    then show ?thesis using Cons.IH [of "(padded vs i)[i := c1]", OF _ False rest] c \<open>c1 \<noteq> VNone\<close> x by simp
  qed
qed simp

lemma store_from_none_key: "store_all ((Key k # p, w) # xs) None = store_all ((Key k # p, w) # xs) (Some (VDict []))"
  by (simp split: option.split)

lemma store_from_none_pos: "store_all ((Idx i # p, w) # xs) None = store_all ((Idx i # p, w) # xs) (Some (VList []))"
  by simp

lemma store_entries:
  assumes "\<And>k v. (k, v) \<in> set d \<Longrightarrow> store_all (leaves v) None = Some (Some v)" "distinct (map fst (d0 @ d))"
  shows "store_all (concat (map (\<lambda>(k, v). map (\<lambda>(p, w). (Key k # p, w)) (leaves v)) d)) (Some (VDict d0)) = Some (Some (VDict (d0 @ d)))"
  using assms
proof (induction d arbitrary: d0)
  case (Cons e d)
  obtain k v where e: "e = (k, v)" by fastforce
  have "dict_get d0 k = None" using Cons.prems(2) by (simp add: e map_of_eq_None_iff)
  then have "store_all (map (\<lambda>(p, w). (Key k # p, w)) (leaves v)) (Some (VDict d0)) = Some (Some (VDict (dict_put k v d0)))"
    using Cons.prems(1) [of k v] by (intro store_under_key leaves_nonempty) (simp add: e)
  moreover have "dict_put k v d0 = d0 @ [e]" using Cons.prems(2) by (simp add: e put_new)
  moreover have "store_all (concat (map (\<lambda>(k, v). map (\<lambda>(p, w). (Key k # p, w)) (leaves v)) d)) (Some (VDict (d0 @ [e]))) =
      Some (Some (VDict ((d0 @ [e]) @ d)))"
  proof (rule Cons.IH)
    show "store_all (leaves v) None = Some (Some v)" if "(k, v) \<in> set d" for k v by (rule Cons.prems(1) [of k v]) (simp add: that)
  qed (use Cons.prems(2) in \<open>simp add: e\<close>)
  ultimately show ?case by (simp add: e store_all_append)
qed simp

lemma store_items:
  assumes "\<And>v. v \<in> set vs \<Longrightarrow> store_all (leaves v) None = Some (Some v)"
  shows "store_all (concat (map (\<lambda>(i, v). map (\<lambda>(p, w). (Idx (int i) # p, w)) (leaves v)) (zip [length us..<length us + length vs] vs)))
    (Some (VList us)) = Some (Some (VList (us @ vs)))"
  using assms
proof (induction vs arbitrary: us)
  case (Cons v vs)
  let ?i = "length us"
  have s: "slot us ?i = None" and p: "(padded us ?i)[?i := v] = us @ [v]"
    by (simp_all add: slot_def padded_def)
  have one: "store_all (map (\<lambda>(p, w). (Idx (int ?i) # p, w)) (leaves v)) (Some (VList us)) = Some (Some (VList (us @ [v])))"
    using leaves_paths [of v]
  proof
    assume q: "\<forall>p w. (p, w) \<in> set (leaves v) \<longrightarrow> p \<noteq> []"
    have "store_all (leaves v) (slot us ?i) = Some (Some v)" using Cons.prems [of v] by (simp add: s)
    from store_under_pos [OF this leaves_nonempty] q show ?thesis unfolding p by blast
  next
    assume "leaves v = [([], v)]"
    then show ?thesis by (simp add: s p)
  qed
  have z: "zip [length us..<length us + length (v # vs)] (v # vs) =
      (length us, v) # zip [length (us @ [v])..<length (us @ [v]) + length vs] vs"
    by (simp add: upt_conv_Cons del: upt_Suc)
  show ?case using Cons.IH [of "us @ [v]"] Cons.prems unfolding z by (simp add: one store_all_append)
qed simp

lemma store_leaves: "val_ok v \<Longrightarrow> store_all (leaves v) None = Some (Some v)"
proof (induction v rule: leaves.induct)
  case (1 d)
  show ?case
  proof (cases d)
    case (Cons e d')
    have "store_all (leaves v) None = Some (Some v)" if "(k, v) \<in> set d" for k v
      using 1(1) [OF _ that] 1(2) that Cons by force
    then have a: "store_all (leaves (VDict d)) (Some (VDict [])) = Some (Some (VDict d))"
      using store_entries [of d "[]"] 1(2) Cons by simp
    obtain k v p w xs where "leaves (VDict d) = (Key k # p, w) # xs"
    proof (cases "leaves (snd e)")
      case (Cons x xs)
      then show ?thesis using that \<open>d = e # d'\<close> by (cases x; cases e) auto
    qed (simp add: leaves_nonempty)
    then show ?thesis using a store_from_none_key by metis
  qed simp
next
  case (2 vs)
  show ?case
  proof (cases vs)
    case (Cons e vs')
    have "store_all (leaves v) None = Some (Some v)" if "v \<in> set vs" for v
    proof -
      obtain i where "i < length vs" "vs ! i = v" using \<open>v \<in> set vs\<close> by (auto simp: in_set_conv_nth)
      then have "(i, v) \<in> set (zip [0..<length vs] vs)" using nth_zip [of i "[0..<length vs]" vs] nth_mem [of i "zip [0..<length vs] vs"] by simp
      then show ?thesis using 2(1) [of "(i, v)" i v] 2(2) that Cons by auto
    qed
    then have a: "store_all (leaves (VList vs)) (Some (VList [])) = Some (Some (VList vs))"
      using store_items [of vs "[]"] Cons by simp
    obtain i p w xs where "leaves (VList vs) = (Idx i # p, w) # xs"
    proof (cases "leaves e")
      case (Cons x xs)
      then show ?thesis using that \<open>vs = e # vs'\<close> by (cases x) (auto simp: upt_conv_Cons simp del: upt_Suc)
    qed (simp add: leaves_nonempty)
    then show ?thesis using a store_from_none_pos by metis
  qed simp
qed simp_all


lemma distinct_entries:
  assumes "\<And>k v. (k, v) \<in> set d \<Longrightarrow> distinct (map fst (leaves v))" "distinct (map fst d)"
  shows "distinct (map fst (concat (map (\<lambda>(k, v). map (\<lambda>(p, w). (Key k # p, w)) (leaves v)) d)))"
  using assms
proof (induction d)
  case (Cons e d)
  obtain k v where e: "e = (k, v)" by fastforce
  have "distinct (map fst (leaves v))" by (rule Cons.prems(1) [of k v]) (simp add: e)
  then have "distinct (map fst (map (\<lambda>(p, w). (Key k # p, w)) (leaves v)))"
    by (simp add: distinct_map inj_on_def o_def case_prod_beta)
  moreover have "distinct (map fst (concat (map (\<lambda>(k, v). map (\<lambda>(p, w). (Key k # p, w)) (leaves v)) d)))"
  proof (rule Cons.IH)
    show "distinct (map fst (leaves v))" if "(k, v) \<in> set d" for k v by (rule Cons.prems(1) [of k v]) (simp add: that)
  qed (use Cons.prems(2) in simp)
  moreover have "k \<notin> fst ` set d" using Cons.prems(2) by (simp add: e)
  then have "set (map fst (map (\<lambda>(p, w). (Key k # p, w)) (leaves v))) \<inter>
      set (map fst (concat (map (\<lambda>(k, v). map (\<lambda>(p, w). (Key k # p, w)) (leaves v)) d))) = {}"
    by (auto simp: image_iff)
  ultimately show ?case unfolding e by (simp only: list.map(2) prod.case concat.simps map_append distinct_append)
qed simp

lemma distinct_items:
  assumes "\<And>v. v \<in> set vs \<Longrightarrow> distinct (map fst (leaves v))"
  shows "distinct (map fst (concat (map (\<lambda>(i, v). map (\<lambda>(p, w). (Idx (int i) # p, w)) (leaves v)) (zip [n..<n + length vs] vs))))"
  using assms
proof (induction vs arbitrary: n)
  case (Cons v vs)
  have z: "zip [n..<n + length (v # vs)] (v # vs) = (n, v) # zip [Suc n..<Suc n + length vs] vs"
    by (simp add: upt_conv_Cons del: upt_Suc)
  have "distinct (map fst (map (\<lambda>(p, w). (Idx (int n) # p, w)) (leaves v)))"
    using Cons.prems [of v] by (simp add: distinct_map inj_on_def o_def case_prod_beta)
  moreover have "distinct (map fst (concat (map (\<lambda>(i, v). map (\<lambda>(p, w). (Idx (int i) # p, w)) (leaves v)) (zip [Suc n..<Suc n + length vs] vs))))"
    using Cons.IH [of "Suc n"] Cons.prems by simp
  moreover have "(n, x) \<notin> set (zip [Suc n..<Suc n + length vs] vs)" for x
    by (auto simp del: upt_Suc dest!: set_zip_leftD)
  then have "set (map fst (map (\<lambda>(p, w). (Idx (int n) # p, w)) (leaves v))) \<inter>
      set (map fst (concat (map (\<lambda>(i, v). map (\<lambda>(p, w). (Idx (int i) # p, w)) (leaves v)) (zip [Suc n..<Suc n + length vs] vs)))) = {}"
    by (auto simp: image_iff simp del: upt_Suc)
  ultimately show ?case unfolding z by (simp only: list.map(2) prod.case concat.simps map_append distinct_append)
qed simp

lemma distinct_leaves: "val_ok v \<Longrightarrow> distinct (map fst (leaves v))"
proof (induction v rule: leaves.induct)
  case (1 d)
  show ?case
  proof (cases "d = []")
    case False
    have "distinct (map fst (leaves v))" if "(k, v) \<in> set d" for k v
      using 1(1) [OF False that] 1(2) that by force
    then show ?thesis using distinct_entries [of d] 1(2) False by simp
  qed simp
next
  case (2 vs)
  show ?case
  proof (cases "vs = []")
    case False
    have "distinct (map fst (leaves v))" if v: "v \<in> set vs" for v
    proof -
      obtain i where "i < length vs" "vs ! i = v" using v by (auto simp: in_set_conv_nth)
      then have "(i, v) \<in> set (zip [0..<length vs] vs)"
        using nth_zip [of i "[0..<length vs]" vs] nth_mem [of i "zip [0..<length vs] vs"] by simp
      then show ?thesis using 2(1) [OF False] 2(2) v by force
    qed
    then show ?thesis using distinct_items [of vs 0] False by simp
  qed simp
qed simp_all

lemma fold_put_distinct:
  "distinct (map fst (d @ xs)) \<Longrightarrow> fold (\<lambda>(p, v) d. dict_put p v d) xs d = d @ xs"
proof (induction xs arbitrary: d)
  case (Cons x xs)
  obtain p v where x: "x = (p, v)" by fastforce
  have "dict_put p v d = d @ [x]" using Cons.prems by (simp add: x put_new)
  then show ?case using Cons.IH [of "d @ [x]"] Cons.prems by (simp add: x)
qed simp

lemma document_paths: "(p, w) \<in> set (leaves (VDict d)) \<Longrightarrow> d \<noteq> [] \<Longrightarrow> \<exists>k q. p = Key k # q"
  by auto

lemma unflatten_rendered:
  assumes "\<forall>(p, w)\<in>set xs. parse_path (render [] p) = Ok p"
  shows "fold (\<lambda>(p, v) c. case c of None \<Rightarrow> None
      | Some r \<Rightarrow> (case parse_path p of Inl e \<Rightarrow> None | Inr ns \<Rightarrow> store_at ns v (Some r)))
      (map (\<lambda>(p, w). (render [] p, w)) xs) (Some r) = (case store_all xs (Some r) of None \<Rightarrow> None | Some c \<Rightarrow> c)"
  using assms
proof (induction xs arbitrary: r)
  case (Cons x xs)
  obtain p w where x: "x = (p, w)" by fastforce
  have none: "fold (\<lambda>(p, v) c. case c of None \<Rightarrow> None
      | Some r \<Rightarrow> (case parse_path p of Inl e \<Rightarrow> None | Inr ns \<Rightarrow> store_at ns v (Some r))) ys None = None" for ys :: "(string \<times> 'a pyval) list"
    by (induction ys) auto
  show ?case
  proof (cases "store_at p w (Some r)")
    case None
    then show ?thesis using Cons.prems none by (simp add: x)
  next
    case (Some r')
    then show ?thesis using Cons.IH [of r'] Cons.prems by (simp add: x)
  qed
qed simp

lemma in_set_map_fst: "x \<in> set (map fst xs) \<Longrightarrow> \<exists>y. (x, y) \<in> set xs"
  by auto

lemma parse_leaf:
  assumes "clean (VDict d)" "d \<noteq> []" "(p, w) \<in> set (leaves (VDict d))"
  shows "parse_path (render [] p) = Ok p"
proof -
  obtain k q where "p = Key k # q" using document_paths [OF assms(3,2)] by blast
  then show ?thesis using parse_render leaves_clean [OF assms(1,3)] by blast
qed

lemma flatten_is_leaves:
  assumes "doc_ok d" "clean (VDict d)" "d \<noteq> []"
  shows "flatten_dict True (VDict d) = map (\<lambda>(p, w). (render [] p, w)) (leaves (VDict d))"
    "distinct (map fst (flatten_dict True (VDict d)))"
proof -
  have "inj_on (render []) (set (map fst (leaves (VDict d))))"
  proof (rule inj_onI)
    fix p q assume a: "p \<in> set (map fst (leaves (VDict d)))" "q \<in> set (map fst (leaves (VDict d)))" "render [] p = render [] q"
    obtain u where u: "(p, u) \<in> set (leaves (VDict d))" using a(1) by (meson in_set_map_fst)
    obtain w where w: "(q, w) \<in> set (leaves (VDict d))" using a(2) by (meson in_set_map_fst)
    show "p = q" using parse_leaf [OF assms(2,3) u] parse_leaf [OF assms(2,3) w] unfolding a(3) by simp
  qed
  then have dist: "distinct (map fst (map (\<lambda>(p, w). (render [] p, w)) (leaves (VDict d))))"
    using distinct_leaves [of "VDict d"] assms(1)
    by (simp add: distinct_map comp_inj_on [unfolded o_def] o_def case_prod_beta del: leaves.simps)
  show flat: "flatten_dict True (VDict d) = map (\<lambda>(p, w). (render [] p, w)) (leaves (VDict d))"
    unfolding flatten_dict_def flatten_document [OF assms] using fold_put_distinct [of "[]", unfolded append_Nil, OF dist] .
  show "distinct (map fst (flatten_dict True (VDict d)))" unfolding flat by (rule dist)
qed

text \<open>
  C21. Flattening loses nothing. For a document whose dictionaries have distinct, non-empty keys without dots and brackets,
  the flat form lists every leaf and every empty container exactly once, in document order, under a path that parses
  back to the steps leading to it, and unflattening gives the document again, key order included.
\<close>

theorem flatten_roundtrip:
  assumes "doc_ok d" "clean (VDict d)" "d \<noteq> []"
  shows "unflatten_dict (flatten_dict True (VDict d)) = Some (VDict d) \<and>
    flatten_dict True (VDict d) = map (\<lambda>(p, w). (render [] p, w)) (leaves (VDict d)) \<and>
    distinct (map fst (flatten_dict True (VDict d)))"
proof -
  note flat = flatten_is_leaves [OF assms]
  have "store_all (leaves (VDict d)) (Some (VDict [])) = Some (Some (VDict d))"
  proof -
    have "store_all (leaves v) None = Some (Some v)" if "(k, v) \<in> set d" for k v
      by (rule store_leaves) (use assms(1) that in force)
    from store_entries [of d "[]", OF this] show ?thesis using assms(1,3) by simp
  qed
  then have "unflatten_dict (flatten_dict True (VDict d)) = Some (VDict d)"
    unfolding unflatten_dict_def flat(1)
    by (subst unflatten_rendered) (use parse_leaf [OF assms(2,3)] in \<open>auto simp del: leaves.simps\<close>)
  then show ?thesis using flat by metis
qed

definition sample_document :: "unit pydict" where
  "sample_document = [(''source'', VDict [(''service_ref'', VStr ''db''), (''options'', VDict [])]),
     (''steps'', VList [VDict [(''call'', VStr ''extract''), (''with'', VNone)], VList [VInt 1, VNone]])]"

theorem flatten_roundtrip_witness:
  "flatten_dict True (VDict sample_document) =
     [(''source.service_ref'', VStr ''db''), (''source.options'', VDict []), (''steps[0].call'', VStr ''extract''),
      (''steps[0].with'', VNone), (''steps[1][0]'', VInt 1), (''steps[1][1]'', VNone)] \<and>
   unflatten_dict (flatten_dict True (VDict sample_document)) = Some (VDict sample_document)"
proof -
  have 1: "doc_ok sample_document" by (simp add: sample_document_def)
  have 2: "clean (VDict sample_document)" by (simp add: sample_document_def clean_key_def)
  have 3: "sample_document \<noteq> []" by (simp add: sample_document_def)
  have "flatten_dict True (VDict sample_document) =
     [(''source.service_ref'', VStr ''db''), (''source.options'', VDict []), (''steps[0].call'', VStr ''extract''),
      (''steps[0].with'', VNone), (''steps[1][0]'', VInt 1), (''steps[1][1]'', VNone)]"
    by code_simp
  then show ?thesis using flatten_roundtrip [OF 1 2 3] by blast
qed



section \<open>What an update does to the leaves\<close>

definition under :: "node list \<Rightarrow> (node list \<times> 'p pyval) list \<Rightarrow> (node list \<times> 'p pyval) multiset" where
  "under q xs = mset (map (\<lambda>(p, w). (q @ p, w)) xs)"

lemma under_Nil [simp]: "under [] xs = mset xs"
  by (simp add: under_def case_prod_beta')

lemma under_Cons: "under (n # q) xs = image_mset (\<lambda>(p, w). (n # p, w)) (under q xs)"
  by (simp add: under_def multiset.map_comp o_def case_prod_beta')

lemma leaves_dict: "d \<noteq> [] \<Longrightarrow> mset (leaves (VDict d)) = (\<Sum>(k, v)\<in>#mset d. under [Key k] (leaves v))"
  by (simp add: under_def case_prod_beta' mset_concat o_def flip: sum_mset_sum_list)

lemma leaves_list: "vs \<noteq> [] \<Longrightarrow> mset (leaves (VList vs)) = (\<Sum>(i, v)\<in>#mset (zip [0..<length vs] vs). under [Idx (int i)] (leaves v))"
  by (simp add: under_def case_prod_beta' mset_concat o_def flip: sum_mset_sum_list)

lemma mset_del: "dict_ok d \<Longrightarrow> dict_get d k = Some v \<Longrightarrow> mset d = add_mset (k, v) (mset (dict_del k d))"
  using mset_dict_del [of d k v "\<lambda>e. e"] by simp

lemma mset_put: "dict_ok d \<Longrightarrow> mset (dict_put k v d) = add_mset (k, v) (mset (dict_del k d))"
proof (induction d)
  case (Cons e d)
  have "k \<notin> fst ` set d \<Longrightarrow> dict_del k d = d" by (auto intro: delete_idem)
  then show ?case using Cons by (cases e) auto
qed simp

lemma put_nonempty [simp]: "dict_put k v d \<noteq> []"
  by (cases d) auto

lemma leaves_put:
  assumes "dict_ok d" "dict_get d k = Some v"
  shows "mset (leaves (VDict (dict_put k v' d))) + under [Key k] (leaves v) = mset (leaves (VDict d)) + under [Key k] (leaves v')"
proof -
  have "d \<noteq> []" using assms(2) by auto
  then show ?thesis using mset_put [OF assms(1), of k v'] mset_del [OF assms]
    by (simp add: leaves_dict del: leaves.simps)
qed

lemma leaves_put_pos:
  assumes "i < length vs"
  shows "mset (leaves (VList (vs[i := v']))) + under [Idx (int i)] (leaves (vs ! i)) =
    mset (leaves (VList vs)) + under [Idx (int i)] (leaves v')"
proof -
  have z: "zip [0..<length vs] (vs[i := v']) = (zip [0..<length vs] vs)[i := (i, v')]"
    using assms by (metis add_0 list_update_id nth_upt zip_update)
  have m: "mset (zip [0..<length vs] vs) = add_mset (i, vs ! i) (mset (zip [0..<length vs] vs) - {#(i, vs ! i)#})"
  proof -
    have "zip [0..<length vs] vs ! i = (i, vs ! i)" using assms by simp
    then have "(i, vs ! i) \<in> set (zip [0..<length vs] vs)" using assms by (metis diff_zero length_upt length_zip min.idem nth_mem)
    then show ?thesis by simp
  qed
  have u: "mset ((zip [0..<length vs] vs)[i := (i, v')]) = add_mset (i, v') (mset (zip [0..<length vs] vs) - {#(i, vs ! i)#})"
    using mset_update [of i "zip [0..<length vs] vs" "(i, v')"] assms by simp
  have "vs \<noteq> []" using assms by auto
  then have "mset (leaves (VList vs)) = (\<Sum>(i, v)\<in>#mset (zip [0..<length vs] vs). under [Idx (int i)] (leaves v))"
    "mset (leaves (VList (vs[i := v']))) = (\<Sum>(i, v)\<in>#mset ((zip [0..<length vs] vs)[i := (i, v')]). under [Idx (int i)] (leaves v))"
    by (simp_all add: leaves_list flip: z del: leaves.simps)
  then show ?thesis using u by (subst (asm) m) simp
qed

lemma val_ok_put: "val_ok (VDict d) \<Longrightarrow> val_ok v \<Longrightarrow> val_ok (VDict (dict_put k v d))"
  unfolding doc_ok_iff by (auto simp: dict_simps)

lemma val_ok_put_pos: "val_ok (VList vs) \<Longrightarrow> val_ok v \<Longrightarrow> val_ok (VList (vs[i := v]))"
  by (auto dest: set_update_subset_insert [THEN subsetD])

definition container :: "'p pyval \<Rightarrow> bool" where
  "container v \<longleftrightarrow> (\<exists>d. v = VDict d) \<or> (\<exists>vs. v = VList vs)"

lemma swap_sums:
  fixes a :: "'a multiset"
  assumes "a1 + b = a + b1" "b1 + c = b + c1"
  shows "a1 + c = a + c1"
proof -
  have "(a1 + c) + b = (a1 + b) + c" by (simp add: ac_simps)
  also have "\<dots> = a + (b1 + c)" by (simp add: assms(1) ac_simps)
  also have "\<dots> = (a + c1) + b" by (simp add: assms(2) ac_simps)
  finally show ?thesis by simp
qed

lemma update_leaves:
  assumes "val_ok v" "navigate v q = Ok c" "container c" "f c = Ok c'" "val_ok c \<Longrightarrow> val_ok c'" "list_all (\<lambda>n. \<forall>i. n = Idx i \<longrightarrow> 0 \<le> i) q"
  shows "\<exists>v'. update_at f q v = Ok v' \<and> val_ok v' \<and> mset (leaves v') + under q (leaves c) = mset (leaves v) + under q (leaves c')"
  using assms(1,2,6)
proof (induction q arbitrary: v)
  case Nil
  then show ?case using assms(4,5) by (auto simp del: leaves.simps)
next
  case (Cons n q)
  obtain w where w: "item_at v n = Ok w" "navigate w q = Ok c" using Cons.prems(2) by (auto simp: res_bind_Ok_iff)
  have rest: "list_all (\<lambda>n. \<forall>i. n = Idx i \<longrightarrow> 0 \<le> i) q" using Cons.prems(3) by simp
  have shape: "(\<exists>d k. v = VDict d \<and> n = Key k) \<or> (\<exists>vs i. v = VList vs \<and> n = Idx i)"
  proof -
    have "\<not> container c" if "\<exists>s. w = VStr s"
      using w(2) that
    proof (induction q arbitrary: w)
      case (Cons m q)
      then obtain s where s: "w = VStr s" by blast
      show ?case
      proof (cases m)
        case (Idx i)
        then obtain x where "navigate (VStr [x]) q = Ok c" using Cons.prems(1) s by (auto simp: res_bind_Ok_iff)
        then show ?thesis using Cons.IH [of "VStr [x]"] by blast
      qed (use Cons.prems(1) s in simp)
    qed (auto simp: container_def)
    then show ?thesis using w(1) assms(3) by (cases v; cases n) (auto simp: res_bind_Ok_iff split: option.splits)
  qed
  from shape show ?case
  proof (elim disjE exE conjE)
    fix d k assume s: "v = VDict d" "n = Key k"
    then have g: "dict_get d k = Some w" using w(1) by (auto split: option.splits)
    then have "val_ok w" using doc_ok_get [of d k w] Cons.prems(1) s by blast
    then obtain w' where w': "update_at f q w = Ok w'" "val_ok w'" "mset (leaves w') + under q (leaves c) = mset (leaves w) + under q (leaves c')"
      using Cons.IH [OF \<open>val_ok w\<close> w(2) rest] by (elim exE conjE) (rule that)
    have "under [Key k] (leaves w') + under (Key k # q) (leaves c) = under [Key k] (leaves w) + under (Key k # q) (leaves c')"
      using arg_cong [OF w'(3), of "image_mset (\<lambda>(p, w). (Key k # p, w))"] by (simp add: under_Cons)
    moreover have "mset (leaves (VDict (dict_put k w' d))) + under [Key k] (leaves w) = mset (leaves (VDict d)) + under [Key k] (leaves w')"
      by (rule leaves_put) (use Cons.prems(1) s g in auto)
    ultimately have "mset (leaves (VDict (dict_put k w' d))) + under (Key k # q) (leaves c) = mset (leaves (VDict d)) + under (Key k # q) (leaves c')"
      by (rule swap_sums [rotated])
    moreover have "update_at f (n # q) v = Ok (VDict (dict_put k w' d))" using w'(1) g by (simp add: s)
    moreover have "val_ok (VDict (dict_put k w' d))" using val_ok_put [OF _ w'(2)] Cons.prems(1) s by blast
    ultimately show ?thesis unfolding s by blast
  next
    fix vs i assume s: "v = VList vs" "n = Idx i"
    then have i: "0 \<le> i" "i < int (length vs)" "w = vs ! nat i" using w(1) Cons.prems(3) by (auto simp: at_pos_def split: if_splits)
    then have "val_ok w" using Cons.prems(1) s by simp
    then obtain w' where w': "update_at f q w = Ok w'" "val_ok w'" "mset (leaves w') + under q (leaves c) = mset (leaves w) + under q (leaves c')"
      using Cons.IH [OF \<open>val_ok w\<close> w(2) rest] by (elim exE conjE) (rule that)
    have "under [Idx i] (leaves w') + under (Idx i # q) (leaves c) = under [Idx i] (leaves w) + under (Idx i # q) (leaves c')"
      using arg_cong [OF w'(3), of "image_mset (\<lambda>(p, w). (Idx i # p, w))"] by (simp add: under_Cons)
    moreover have "mset (leaves (VList (vs[nat i := w']))) + under [Idx i] (leaves w) = mset (leaves (VList vs)) + under [Idx i] (leaves w')"
      using leaves_put_pos [of "nat i" vs w'] i by simp
    ultimately have "mset (leaves (VList (vs[nat i := w']))) + under (Idx i # q) (leaves c) = mset (leaves (VList vs)) + under (Idx i # q) (leaves c')"
      by (rule swap_sums [rotated])
    moreover have "put_pos vs i w' = Ok (vs[nat i := w'])" using i by (simp add: put_pos_def at_pos_def)
    then have "update_at f (n # q) v = Ok (VList (vs[nat i := w']))" using w'(1) w(1) by (simp add: s)
    moreover have "val_ok (VList (vs[nat i := w']))" using val_ok_put_pos [OF _ w'(2)] Cons.prems(1) s by blast
    ultimately show ?thesis unfolding s by blast
  qed
qed


lemma under_image: "under q xs = image_mset (\<lambda>(p, w). (q @ p, w)) (mset xs)"
  by (simp add: under_def)

lemma under_append: "under (q @ r) xs = image_mset (\<lambda>(p, w). (q @ p, w)) (under r xs)"
  by (simp add: under_def multiset.map_comp o_def case_prod_beta')

lemma empty_leaf: "([], w) \<in> set (leaves v) \<Longrightarrow> w = v \<and> leaves v = [([], v)]"
  using leaves_paths [of v] by auto

lemma in_leaves_dict:
  "(p, w) \<in> set (leaves (VDict d)) \<Longrightarrow> p \<noteq> [] \<Longrightarrow> \<exists>k q u. p = Key k # q \<and> (k, u) \<in> set d \<and> (q, w) \<in> set (leaves u)"
  by (auto split: if_splits)

lemma in_leaves_list:
  assumes "(p, w) \<in> set (leaves (VList vs))" "p \<noteq> []"
  shows "\<exists>j q. p = Idx (int j) # q \<and> j < length vs \<and> (q, w) \<in> set (leaves (vs ! j))"
proof -
  from assms obtain j u q where "(j, u) \<in> set (zip [0..<length vs] vs)" "p = Idx (int j) # q" "(q, w) \<in> set (leaves u)"
    by (auto split: if_splits)
  moreover from this(1) have "j < length vs \<and> u = vs ! j" by (auto simp: set_zip)
  ultimately show ?thesis by blast
qed

lemma leaves_scalar: "\<not> container v \<Longrightarrow> leaves v = [([], v)]"
  by (cases v) (auto simp: container_def)

lemma step_into_leaf:
  assumes "(n # p, w) \<in> set (leaves v)" "val_ok v"
  shows "\<exists>u. item_at v n = Ok u \<and> val_ok u \<and> (p, w) \<in> set (leaves u) \<and> container v"
proof (cases v)
  case (VDict d)
  then obtain k u where u: "n = Key k" "(k, u) \<in> set d" "(p, w) \<in> set (leaves u)"
    using in_leaves_dict [of "n # p" w d] assms(1) by auto
  moreover have g: "dict_get d k = Some u" using u(2) assms(2) VDict by (simp add: map_of_eq_Some_iff)
  moreover have "val_ok u" using doc_ok_get [OF _ g] assms(2) VDict by blast
  ultimately show ?thesis by (simp add: VDict container_def)
next
  case (VList vs)
  then obtain j where j: "n = Idx (int j)" "j < length vs" "(p, w) \<in> set (leaves (vs ! j))"
    using in_leaves_list [of "n # p" w vs] assms(1) by auto
  then show ?thesis using assms(2) by (simp add: VList container_def at_pos_def)
qed (use assms(1) in simp_all)

lemma leaf_container:
  assumes "(q @ [n], w) \<in> set (leaves v)" "val_ok v"
  shows "\<exists>c. navigate v q = Ok c \<and> val_ok c \<and> container c \<and> ([n], w) \<in> set (leaves c)"
  using assms
proof (induction q arbitrary: v)
  case Nil
  then have "container v" using step_into_leaf [of n "[]" w v] by auto
  then show ?case using Nil by simp
next
  case (Cons m q)
  then obtain u where "item_at v m = Ok u" "val_ok u" "(q @ [n], w) \<in> set (leaves u)"
    using step_into_leaf [of m "q @ [n]" w v] by auto
  then show ?case using Cons.IH [of u] by simp
qed

lemma leaf_nonneg: "(p, w) \<in> set (leaves v) \<Longrightarrow> list_all (\<lambda>n. \<forall>i. n = Idx i \<longrightarrow> 0 \<le> i) p"
proof (induction p arbitrary: v)
  case (Cons n p)
  show ?case
  proof (cases v)
    case (VDict d)
    then show ?thesis using in_leaves_dict [of "n # p" w d] Cons by auto
  next
    case (VList vs)
    then show ?thesis using in_leaves_list [of "n # p" w vs] Cons by auto
  qed (use Cons.prems in simp_all)
qed simp

lemma change_leaf:
  assumes "val_ok v" "(q @ [n], w) \<in> set (leaves v)"
    and "\<And>c. val_ok c \<Longrightarrow> ([n], w) \<in> set (leaves c) \<Longrightarrow> navigate v q = Ok c \<Longrightarrow>
      \<exists>c'. f c = Ok c' \<and> val_ok c' \<and> mset (leaves c') + {#([n], w)#} = mset (leaves c) + under [m] (leaves x)"
  shows "\<exists>v'. update_at f q v = Ok v' \<and> val_ok v' \<and> mset (leaves v') + {#(q @ [n], w)#} = mset (leaves v) + under (q @ [m]) (leaves x)"
proof -
  obtain c where c: "navigate v q = Ok c" "val_ok c" "container c" "([n], w) \<in> set (leaves c)"
    using leaf_container [OF assms(2,1)] by blast
  obtain c' where c': "f c = Ok c'" "val_ok c'" "mset (leaves c') + {#([n], w)#} = mset (leaves c) + under [m] (leaves x)"
    using assms(3) [OF c(2,4,1)] by blast
  have nn: "list_all (\<lambda>n. \<forall>i. n = Idx i \<longrightarrow> 0 \<le> i) q" using leaf_nonneg [OF assms(2)] by simp
  obtain v' where v': "update_at f q v = Ok v'" "val_ok v'" "mset (leaves v') + under q (leaves c) = mset (leaves v) + under q (leaves c')"
    using update_leaves [where f = f, OF assms(1) c(1,3) c'(1) _ nn] c'(2) by blast
  have "under q (leaves c') + {#(q @ [n], w)#} = under q (leaves c) + under (q @ [m]) (leaves x)"
    using arg_cong [OF c'(3), of "image_mset (\<lambda>(p, w). (q @ p, w))"] by (simp add: under_image [of q] under_append)
  then show ?thesis using v' swap_sums [OF v'(3)] by blast
qed

lemma replace_leaf:
  assumes "val_ok v" "(q @ [n], w) \<in> set (leaves v)" "x \<noteq> VNone" "val_ok x"
  shows "\<exists>v'. update_at (replace_key n None x) q v = Ok v' \<and> val_ok v' \<and>
    mset (leaves v') + {#(q @ [n], w)#} = mset (leaves v) + under (q @ [n]) (leaves x)"
  using assms(1,2)
proof (rule change_leaf)
  fix c assume c: "val_ok c" "([n], w) \<in> set (leaves c)"
  then obtain u where u: "item_at c n = Ok u" "([], w) \<in> set (leaves u)" "container c" using step_into_leaf by blast
  have w: "leaves w = [([], w)]" "u = w" using empty_leaf [OF u(2)] by auto
  show "\<exists>c'. replace_key n None x c = Ok c' \<and> val_ok c' \<and> mset (leaves c') + {#([n], w)#} = mset (leaves c) + under [n] (leaves x)"
  proof (cases c)
    case (VDict d)
    then obtain k where k: "n = Key k" "dict_get d k = Some w" using u(1) w(2) by (cases n) (auto split: option.splits)
    have ok: "dict_ok d" using c(1) VDict by simp
    have "mset (dict_put k x (dict_del k d)) = mset (dict_put k x d)" using ok by (simp add: mset_put dict_ok_del AList.delete_idem)
    then have "mset (leaves (VDict (dict_put k x (dict_del k d)))) = mset (leaves (VDict (dict_put k x d)))"
      by (simp add: leaves_dict del: leaves.simps)
    moreover have "val_ok (VDict (dict_put k x (dict_del k d)))"
      using c(1) assms(4) unfolding VDict doc_ok_iff by (auto simp: dict_simps)
    ultimately show ?thesis using leaves_put [OF ok k(2), of x] k assms(3) w(1)
      by (simp add: VDict replace_key_def under_def del: leaves.simps val_ok.simps)
  next
    case (VList vs)
    then obtain j where j: "n = Idx (int j)" "j < length vs" "vs ! j = w"
      using u(1) w(2) in_leaves_list [of "[n]" w vs] c(2) by (cases n) (auto simp: at_pos_def split: if_splits)
    then show ?thesis using leaves_put_pos [OF j(2), of x] val_ok_put_pos [of vs x j] c(1) assms(3,4) w(1)
      by (simp add: VList replace_key_def put_pos_def at_pos_def under_def del: leaves.simps val_ok.simps)
  qed (use u(3) in \<open>simp_all add: container_def\<close>)
qed

lemma leaves_below:
  assumes "navigate v q = Ok c" "(p, z) \<in> set (leaves c)" "p \<noteq> []" "list_all (\<lambda>n. \<forall>i. n = Idx i \<longrightarrow> 0 \<le> i) q"
  shows "(q @ p, z) \<in> set (leaves v)"
  using assms(1,4)
proof (induction q arbitrary: v)
  case Nil
  then show ?case using assms(2) by simp
next
  case (Cons n q)
  then obtain u where u: "item_at v n = Ok u" "navigate u q = Ok c" by (auto simp: res_bind_Ok_iff)
  then have l: "(q @ p, z) \<in> set (leaves u)" using Cons.IH Cons.prems(2) by simp
  show ?case
  proof (cases v)
    case (VDict d)
    then obtain k where "n = Key k" "dict_get d k = Some u" using u(1) by (cases n) (auto split: option.splits)
    then show ?thesis using l map_of_SomeD [of d k u] by (force simp: VDict)
  next
    case (VList vs)
    then obtain i where i: "n = Idx i" using u(1) by (cases n) auto
    then have "0 \<le> i" "i < int (length vs)" "u = vs ! nat i"
      using u(1) Cons.prems(2) VList by (auto simp: at_pos_def split: if_splits)
    then have "(nat i, u) \<in> set (zip [0..<length vs] vs)" by (auto simp: set_zip intro!: exI [of _ "nat i"])
    then show ?thesis using l i \<open>0 \<le> i\<close> by (force simp: VList)
  next
    case (VStr s)
    have "leaves u = [([], u)]" using u(1) VStr by (cases n) (auto simp: res_bind_Ok_iff)
    then show ?thesis using l assms(3) by simp
  qed (use u(1) in \<open>cases n; simp\<close>)+
qed

lemma rename_leaf:
  assumes "val_ok v" "(q @ [Key k], w) \<in> set (leaves v)" "val_ok x" "m \<noteq> []" "m \<noteq> k"
    and "\<And>r u. (q @ Key m # r, u) \<notin> set (leaves v)"
  shows "\<exists>v'. update_at (replace_key (Key k) (Some m) x) q v = Ok v' \<and> val_ok v' \<and>
    mset (leaves v') + {#(q @ [Key k], w)#} = mset (leaves v) + under (q @ [Key m]) (leaves (if x = VNone then w else x))"
  using assms(1,2)
proof (rule change_leaf)
  fix c assume c: "val_ok c" "([Key k], w) \<in> set (leaves c)" "navigate v q = Ok c"
  then obtain u where u: "item_at c (Key k) = Ok u" "([], w) \<in> set (leaves u)" "val_ok u" using step_into_leaf by blast
  have w: "leaves w = [([], w)]" "u = w" using empty_leaf [OF u(2)] by auto
  obtain d where d: "c = VDict d" "dict_get d k = Some w" using u(1) w(2) by (cases c) (auto split: option.splits)
  have ok: "dict_ok d" using c(1) d by simp
  let ?x = "if x = VNone then w else x"
  have fresh: "m \<notin> fst ` set d"
  proof
    assume "m \<in> fst ` set d"
    then obtain y where y: "(m, y) \<in> set d" by auto
    obtain e where "e \<in> set (leaves y)" using leaves_nonempty [of y] by (cases "leaves y") auto
    then have "(Key m # fst e, snd e) \<in> set (leaves c)" using y by (force simp: d)
    moreover have "list_all (\<lambda>n. \<forall>i. n = Idx i \<longrightarrow> 0 \<le> i) q" using leaf_nonneg [OF assms(2)] by simp
    ultimately have "(q @ Key m # fst e, snd e) \<in> set (leaves v)" using leaves_below [OF c(3)] by simp
    then show False using assms(6) by blast
  qed
  show "\<exists>c'. replace_key (Key k) (Some m) x c = Ok c' \<and> val_ok c' \<and> mset (leaves c') + {#([Key k], w)#} = mset (leaves c) + under [Key m] (leaves ?x)"
  proof (intro exI conjI)
    show "replace_key (Key k) (Some m) x c = Ok (VDict (dict_put m ?x (dict_del k d)))"
      using d assms(4) by (cases m) (auto simp: replace_key_def)
    show "val_ok (VDict (dict_put m ?x (dict_del k d)))"
      using c(1) u(3) w(2) assms(3) unfolding d(1) doc_ok_iff by (auto simp: dict_simps)
    have "dict_del m (dict_del k d) = dict_del k d" using fresh AList.dom_delete_subset [of k d] by (intro AList.delete_id) blast
    then have "mset (dict_put m ?x (dict_del k d)) = add_mset (m, ?x) (mset (dict_del k d))"
      using mset_put [of "dict_del k d" m ?x] dict_ok_del [OF ok] by simp
    moreover have "mset d = add_mset (k, w) (mset (dict_del k d))" by (rule mset_del [OF ok d(2)])
    moreover have "d \<noteq> []" using d(2) by auto
    moreover have "under [Key k] (leaves w) = {#([Key k], w)#}" by (simp add: w(1) under_def)
    ultimately show "mset (leaves (VDict (dict_put m ?x (dict_del k d)))) + {#([Key k], w)#} = mset (leaves c) + under [Key m] (leaves ?x)"
      unfolding d(1) by (simp add: leaves_dict del: leaves.simps)
  qed
qed




section \<open>Searching finds leaves\<close>

function key_steps :: "(string \<Rightarrow> bool) \<Rightarrow> 'p pyval \<Rightarrow> (node list \<times> 'p pyval) list" where
  "key_steps hit (VDict d) =
    concat (map (\<lambda>(k, v). (if hit k then [([Key k], v)] else []) @ map (\<lambda>(p, w). (Key k # p, w)) (key_steps hit v)) d)"
| "key_steps hit (VList vs) =
    concat (map (\<lambda>(i, v). map (\<lambda>(p, w). (Idx (int i) # p, w)) (key_steps hit v)) (zip [0..<length vs] vs))"
| "key_steps hit VNone = []"
| "key_steps hit (VBool b) = []"
| "key_steps hit (VInt n) = []"
| "key_steps hit (VStr s) = []"
| "key_steps hit (VObj x) = []"
  by pat_completeness auto

termination key_steps
  by (relation "measure (\<lambda>(_, v). size v)") (auto dest: size_entry size_item simp del: pyval.size)

lemma find_keys_steps: "find_keys hit path v = map (\<lambda>(p, w). (render path p, w)) (key_steps hit v)"
proof (induction hit path v rule: find_keys.induct)
  case (1 hit path d)
  then show ?case by (auto simp: map_concat o_def case_prod_beta intro!: arg_cong [where f = concat] map_cong)
next
  case (2 hit path vs)
  then show ?case by (auto simp: map_concat o_def case_prod_beta intro!: arg_cong [where f = concat] map_cong)
qed simp_all

fun is_text :: "'p pyval \<Rightarrow> bool" where
  "is_text (VStr s) = True"
| "is_text _ = False"

definition hit_last :: "(string \<Rightarrow> bool) \<Rightarrow> node list \<Rightarrow> bool" where
  "hit_last hit p \<longleftrightarrow> p \<noteq> [] \<and> (case last p of Key k \<Rightarrow> hit k | Idx i \<Rightarrow> False)"

lemma filter_concat_map: "filter P (concat (map f xs)) = concat (map (\<lambda>x. filter P (f x)) xs)"
  by (induction xs) simp_all

text \<open>The keys found with a text behind them are the leaves whose last step is such a key, in the same order.\<close>

lemma text_keys_are_leaves:
  "filter (\<lambda>(p, w). is_text w) (key_steps hit v) = filter (\<lambda>(p, w). is_text w \<and> hit_last hit p) (leaves v)"
proof (induction v rule: leaves.induct)
  case (1 d)
  have e: "filter (\<lambda>(p, w). is_text w) ((if hit k then [([Key k], v)] else []) @ map (\<lambda>(p, w). (Key k # p, w)) (key_steps hit v)) =
      filter (\<lambda>(p, w). is_text w \<and> hit_last hit p) (map (\<lambda>(p, w). (Key k # p, w)) (leaves v))"
    if m: "(k, v) \<in> set d" for k v
  proof -
    have "d \<noteq> []" using m by auto
    then have IH: "filter (\<lambda>(p, w). is_text w) (key_steps hit v) = filter (\<lambda>(p, w). is_text w \<and> hit_last hit p) (leaves v)"
      using 1 m by blast
    show ?thesis using leaves_paths [of v]
    proof
      assume p: "\<forall>p w. (p, w) \<in> set (leaves v) \<longrightarrow> p \<noteq> []"
      have "\<not> is_text v" using p by (cases v) auto
      moreover have "filter (\<lambda>(p, w). is_text w \<and> hit_last hit p) (map (\<lambda>(p, w). (Key k # p, w)) (leaves v)) =
          map (\<lambda>(p, w). (Key k # p, w)) (filter (\<lambda>(p, w). is_text w \<and> hit_last hit p) (leaves v))"
        unfolding filter_map o_def using p by (intro arg_cong [where f = "map _"] filter_cong) (auto simp: hit_last_def)
      ultimately show ?thesis unfolding IH [symmetric] by (simp add: filter_map o_def case_prod_beta')
    next
      assume l: "leaves v = [([], v)]"
      then have "filter (\<lambda>(p, w). is_text w) (key_steps hit v) = []"
        using IH by (auto simp: hit_last_def)
      then show ?thesis by (simp add: l hit_last_def filter_map o_def case_prod_beta')
    qed
  qed
  show ?case
  proof (cases "d = []")
    case False
    then show ?thesis using e by (auto simp: filter_concat_map intro!: arg_cong [where f = concat])
  qed simp
next
  case (2 vs)
  have e: "filter (\<lambda>(p, w). is_text w) (map (\<lambda>(p, w). (Idx (int i) # p, w)) (key_steps hit v)) =
      filter (\<lambda>(p, w). is_text w \<and> hit_last hit p) (map (\<lambda>(p, w). (Idx (int i) # p, w)) (leaves v))"
    if m: "(i, v) \<in> set (zip [0..<length vs] vs)" for i v
  proof -
    have "vs \<noteq> []" using m by auto
    then have IH: "filter (\<lambda>(p, w). is_text w) (key_steps hit v) = filter (\<lambda>(p, w). is_text w \<and> hit_last hit p) (leaves v)"
      using 2 m by blast
    show ?thesis using leaves_paths [of v]
    proof
      assume p: "\<forall>p w. (p, w) \<in> set (leaves v) \<longrightarrow> p \<noteq> []"
      have "filter (\<lambda>(p, w). is_text w \<and> hit_last hit p) (map (\<lambda>(p, w). (Idx (int i) # p, w)) (leaves v)) =
          map (\<lambda>(p, w). (Idx (int i) # p, w)) (filter (\<lambda>(p, w). is_text w \<and> hit_last hit p) (leaves v))"
        unfolding filter_map o_def using p by (intro arg_cong [where f = "map _"] filter_cong) (auto simp: hit_last_def)
      then show ?thesis unfolding IH [symmetric] by (simp add: filter_map o_def case_prod_beta')
    next
      assume l: "leaves v = [([], v)]"
      then have "filter (\<lambda>(p, w). is_text w) (key_steps hit v) = []" using IH by (auto simp: hit_last_def)
      then show ?thesis by (simp add: l hit_last_def filter_map o_def case_prod_beta')
    qed
  qed
  show ?case
  proof (cases "vs = []")
    case False
    then show ?thesis using e by (auto simp: filter_concat_map intro!: arg_cong [where f = concat])
  qed simp
qed (simp_all add: hit_last_def)


text \<open>Replacing several leaves, one after the other.\<close>

lemma replace_all:
  assumes "val_ok v" "distinct (map fst rs)" "set rs \<subseteq> set (leaves v)"
    and "\<forall>(p, w)\<in>set rs. p \<noteq> [] \<and> g w \<noteq> VNone \<and> val_ok (g w) \<and> leaves (g w) = [([], g w)]"
  shows "\<exists>v'. fold (\<lambda>(p, w) acc. res_bind acc (update_at (replace_key (last p) None (g w)) (butlast p))) rs (Ok v) = Ok v' \<and>
    val_ok v' \<and> mset (leaves v') + mset rs = mset (leaves v) + mset (map (\<lambda>(p, w). (p, g w)) rs)"
  using assms
proof (induction rs arbitrary: v)
  case (Cons e rs)
  obtain p w where e: "e = (p, w)" by fastforce
  have p: "p = butlast p @ [last p]" using Cons.prems(4) by (simp add: e)
  have "(butlast p @ [last p], w) \<in> set (leaves v)" using Cons.prems(3) p by (simp add: e)
  from replace_leaf [OF Cons.prems(1) this, of "g w"] Cons.prems(4) p
  obtain v1 where v1: "update_at (replace_key (last p) None (g w)) (butlast p) v = Ok v1" "val_ok v1"
    "mset (leaves v1) + {#(p, w)#} = mset (leaves v) + {#(p, g w)#}"
    by (auto simp: e under_def simp del: leaves.simps)
  have "set rs \<subseteq> set (leaves v1)"
  proof
    fix x assume x: "x \<in> set rs"
    then have "x \<noteq> (p, w)" using Cons.prems(2) by (force simp: e)
    moreover have "x \<in># mset (leaves v)" using x Cons.prems(3) by auto
    then have "x \<in># mset (leaves v1) + {#(p, w)#}" unfolding v1(3) by simp
    ultimately show "x \<in> set (leaves v1)" by simp
  qed
  then obtain v' where v': "fold (\<lambda>(p, w) acc. res_bind acc (update_at (replace_key (last p) None (g w)) (butlast p))) rs (Ok v1) = Ok v'"
    "val_ok v'" "mset (leaves v') + mset rs = mset (leaves v1) + mset (map (\<lambda>(p, w). (p, g w)) rs)"
    using Cons.IH [OF v1(2)] Cons.prems by auto
  have "mset (leaves v') + mset (e # rs) = (mset (leaves v1) + {#(p, w)#}) + mset (map (\<lambda>(p, w). (p, g w)) rs)"
    using v'(3) by (simp add: e)
  also have "\<dots> = mset (leaves v) + mset (map (\<lambda>(p, w). (p, g w)) (e # rs))" unfolding v1(3) by (simp add: e)
  finally show ?case using v' v1(1) by (simp add: e)
qed simp

end
