(* ===== verification/Templates.thy ===== *)
theory Templates
  imports Documents
begin

text \<open>
  Rendering of configuration documents: the template engine (\<open>libs/utils/template.py\<close>), the test for path-like texts
  (\<open>libs/utils/file.py\<close>), and \<open>resolve_strings\<close>, the template scope and the date of a run (\<open>core/contexts/builder/template.py\<close>
  and \<open>utils.py\<close>). Evaluating an expression, \<open>str\<close> of a value, the environment and the current directory are parameters.
\<close>


section \<open>Patterns\<close>

definition is_letter :: "char \<Rightarrow> bool" where
  "is_letter c = (let n = (of_char c :: nat) in 65 \<le> n \<and> n \<le> 90 \<or> 97 \<le> n \<and> n \<le> 122)"

definition name_start :: "char \<Rightarrow> bool" where
  "name_start c \<longleftrightarrow> is_letter c \<or> c = CHR ''_''"

definition name_char :: "char \<Rightarrow> bool" where
  "name_char c \<longleftrightarrow> name_start c \<or> is_digit c \<or> c = CHR ''.''"

text \<open>A name in braces at the beginning of a text, and what follows it.\<close>

definition match_name :: "string \<Rightarrow> (string \<times> string) option" where
  "match_name s = (case s of
     c # cs \<Rightarrow>
      (let n = takeWhile name_char cs; rest = dropWhile name_char cs in
       if c = CHR ''{'' \<and> n \<noteq> [] \<and> name_start (hd n) \<and> rest \<noteq> [] \<and> hd rest = CHR ''}'' then Some (n, tl rest) else None)
   | [] \<Rightarrow> None)"

text \<open>
  An environment reference: \<open>braced\<close> after the brace, \<open>[^:-]+\<close> greedy. The run of characters without colon and hyphen
  either meets a default, or is cut back to its last closing brace.
\<close>

definition cut_back :: "string \<Rightarrow> string" where
  "cut_back run = rev (dropWhile (\<lambda>c. c \<noteq> CHR ''}'') (rev run))"

definition not_mark :: "char \<Rightarrow> bool" where
  "not_mark c \<longleftrightarrow> c \<noteq> CHR '':'' \<and> c \<noteq> CHR ''-''"

definition not_close :: "char \<Rightarrow> bool" where
  "not_close c \<longleftrightarrow> c \<noteq> CHR ''}''"

definition match_braced :: "string \<Rightarrow> (string \<times> string option \<times> string) option" where
  "match_braced cs =
    (let run = takeWhile not_mark cs; after = dropWhile not_mark cs;
         close = dropWhile not_close (drop 2 after); cut = cut_back run
     in if run \<noteq> [] \<and> prefix '':-'' after \<and> close \<noteq> [] then Some (run, Some (takeWhile not_close (drop 2 after)), tl close)
        else if 2 \<le> length cut then Some (butlast cut, None, drop (length cut) cs) else None)"

definition match_plain :: "string \<Rightarrow> (string \<times> string option \<times> string) option" where
  "match_plain s = (case s of
     c # d # ds \<Rightarrow>
      if c = CHR ''$'' \<and> name_start d
      then Some (d # takeWhile (\<lambda>x. name_char x \<and> x \<noteq> CHR ''.'') ds, None, dropWhile (\<lambda>x. name_char x \<and> x \<noteq> CHR ''.'') ds)
      else None
   | _ \<Rightarrow> None)"

definition match_env :: "string \<Rightarrow> (string \<times> string option \<times> string) option" where
  "match_env s =
    (case (if prefix ''$${'' s then match_braced (drop 3 s) else if prefix ''${'' s then match_braced (drop 2 s) else None) of
       Some m \<Rightarrow> Some m
     | None \<Rightarrow> match_plain s)"

lemma match_name_shorter: "match_name s = Some (n, r) \<Longrightarrow> length r < length s"
proof -
  assume a: "match_name s = Some (n, r)"
  then obtain c cs where s: "s = c # cs" by (cases s) (auto simp: match_name_def)
  have "length (dropWhile name_char cs) \<le> length cs" by (simp add: length_dropWhile_le)
  then show ?thesis using a s by (auto simp: match_name_def Let_def split: if_splits)
qed

lemma match_env_shorter: "match_env s = Some (n, d, r) \<Longrightarrow> length r < length s"
proof -
  have drop: "length (dropWhile P xs) \<le> length xs" for P :: "char \<Rightarrow> bool" and xs by (rule length_dropWhile_le)
  have b: "length r < length cs" if m: "match_braced cs = Some (n, d, r)" for cs
  proof -
    have close: "length (dropWhile not_close (drop 2 (dropWhile not_mark cs))) \<le> length cs"
      using drop [of not_close "drop 2 (dropWhile not_mark cs)"] drop [of not_mark cs] by simp
    have cut: "length (cut_back (takeWhile not_mark cs)) \<le> length cs"
      using drop [of "\<lambda>c. c \<noteq> CHR ''}''" "rev (takeWhile not_mark cs)"] length_takeWhile_le [of not_mark cs]
      by (simp add: cut_back_def)
    show ?thesis
    proof (cases "takeWhile not_mark cs \<noteq> [] \<and> prefix '':-'' (dropWhile not_mark cs) \<and> dropWhile not_close (drop 2 (dropWhile not_mark cs)) \<noteq> []")
      case True
      then have "r = tl (dropWhile not_close (drop 2 (dropWhile not_mark cs)))" using m by (simp add: match_braced_def Let_def)
      then show ?thesis using True close by (cases "dropWhile not_close (drop 2 (dropWhile not_mark cs))") auto
    next
      case False
      then have "r = drop (length (cut_back (takeWhile not_mark cs))) cs" "2 \<le> length (cut_back (takeWhile not_mark cs))"
        using m by (auto simp: match_braced_def Let_def split: if_splits)
      then show ?thesis using cut by simp
    qed
  qed
  have p: "length r < length s" if m: "match_plain s = Some (n, d, r)"
    using m drop by (auto simp: match_plain_def less_Suc_eq_le le_SucI split: list.splits if_splits)
  assume "match_env s = Some (n, d, r)"
  then show ?thesis using p b [of "drop 3 s"] b [of "drop 2 s"]
    by (auto simp: match_env_def split: option.splits if_splits)
qed

text \<open>\<open>pattern.sub\<close> for both patterns.\<close>

function sub_names :: "(string \<Rightarrow> string) \<Rightarrow> string \<Rightarrow> string" where
  "sub_names f s = (case match_name s of
     Some (n, r) \<Rightarrow> f n @ sub_names f r
   | None \<Rightarrow> (case s of [] \<Rightarrow> [] | c # cs \<Rightarrow> c # sub_names f cs))"
  by pat_completeness auto
termination by (relation "measure (\<lambda>(_, s). length s)") (auto dest: match_name_shorter)

function sub_env :: "(string \<Rightarrow> string option \<Rightarrow> string) \<Rightarrow> string \<Rightarrow> string" where
  "sub_env f s = (case match_env s of
     Some (n, d, r) \<Rightarrow> f n d @ sub_env f r
   | None \<Rightarrow> (case s of [] \<Rightarrow> [] | c # cs \<Rightarrow> c # sub_env f cs))"
  by pat_completeness auto
termination by (relation "measure (\<lambda>(_, s). length s)") (auto dest: match_env_shorter)

declare sub_names.simps [simp del] sub_env.simps [simp del]

function has_name :: "string \<Rightarrow> bool" where
  "has_name s \<longleftrightarrow> match_name s \<noteq> None \<or> (case s of [] \<Rightarrow> False | c # cs \<Rightarrow> has_name cs)"
  by pat_completeness auto
termination by (relation "measure length") auto

declare has_name.simps [simp del]

text \<open>\<open>s.replace(old, '''')\<close>.\<close>

function remove_all_of :: "string \<Rightarrow> string \<Rightarrow> string" where
  "remove_all_of old s = (if old \<noteq> [] \<and> prefix old s then remove_all_of old (drop (length old) s)
     else (case s of [] \<Rightarrow> [] | c # cs \<Rightarrow> c # remove_all_of old cs))"
  by pat_completeness auto
termination by (relation "measure (\<lambda>(_, s). length s)") (auto simp: prefix_def)

declare remove_all_of.simps [simp del]

text \<open>The inside of an expression, if the text is one.\<close>

definition expression_of :: "string \<Rightarrow> string option" where
  "expression_of value =
    (let s = py_strip value; core = py_strip (drop 3 (take (length s - 2) s)) in
     if prefix ''${{'' s \<and> suffix ''}}'' s \<and> 5 \<le> length s \<and> CHR 0x0A \<notin> set core then Some core else None)"


section \<open>The engine\<close>

record 'p engine =
  eg_context :: "'p pydict"
  eg_env :: "string \<Rightarrow> string option"
  eg_text :: "'p pyval \<Rightarrow> string"
  eg_eval :: "string \<Rightarrow> 'p pydict \<Rightarrow> 'p pyval option"

definition update_context :: "'p pydict \<Rightarrow> 'p engine \<Rightarrow> 'p engine" where
  "update_context new_vars E = E\<lparr>eg_context := fold (\<lambda>(k, v) d. dict_put k v d) new_vars (eg_context E)\<rparr>"

definition safe_context :: "'p pydict \<Rightarrow> 'p pydict" where
  "safe_context ctx = fold (\<lambda>(k, v) d. if dict_get d k = None then dict_put k v d else d) ctx (flatten_dict True (VDict ctx))"

definition lookup_name :: "'p engine \<Rightarrow> string \<Rightarrow> string" where
  "lookup_name E n = (case dict_get (safe_context (eg_context E)) n of
     None \<Rightarrow> ''{'' @ n @ ''}'' | Some VNone \<Rightarrow> [] | Some v \<Rightarrow> eg_text E v)"

definition expand_env :: "(string \<Rightarrow> string option) \<Rightarrow> string \<Rightarrow> string" where
  "expand_env env s = (if CHR ''$'' \<in> set s
     then sub_env (\<lambda>n d. case env n of Some v \<Rightarrow> v | None \<Rightarrow> (case d of None \<Rightarrow> [] | Some x \<Rightarrow> x)) s else s)"

definition expand_names :: "'p engine \<Rightarrow> string \<Rightarrow> string" where
  "expand_names E s = (if has_name s then sub_names (lookup_name E) (remove_all_of ''@format '' s) else s)"

definition render_string :: "'p engine \<Rightarrow> string \<Rightarrow> 'p pyval" where
  "render_string E value =
    (if value = [] then VStr []
     else (case Option.bind (expression_of value) (\<lambda>x. eg_eval E x (eg_context E)) of
         Some v \<Rightarrow> v
       | None \<Rightarrow> VStr (expand_env (eg_env E) (expand_names E value))))"

fun render_value :: "'p engine \<Rightarrow> 'p pyval \<Rightarrow> 'p pyval" where
  "render_value E (VDict d) = VDict (map (\<lambda>(k, v). (k, render_value E v)) d)"
| "render_value E (VList vs) = VList (map (render_value E) vs)"
| "render_value E (VStr s) = render_string E s"
| "render_value E v = v"

text \<open>\<open>interpolate_env_vars\<close>: the environment alone.\<close>

fun interpolate_env_vars :: "(string \<Rightarrow> string option) \<Rightarrow> 'p pyval \<Rightarrow> 'p pyval" where
  "interpolate_env_vars env (VDict d) = VDict (map (\<lambda>(k, v). (k, interpolate_env_vars env v)) d)"
| "interpolate_env_vars env (VList vs) = VList (map (interpolate_env_vars env) vs)"
| "interpolate_env_vars env (VStr s) = VStr (expand_env env s)"
| "interpolate_env_vars env v = v"


section \<open>Paths in texts\<close>

definition REMOTE_PREFIXES :: "string list" where
  "REMOTE_PREFIXES = [''http://'', ''https://'', ''s3://'', ''gcs://'']"

definition PATH_PREFIX_BLACKLIST :: "string list" where
  "PATH_PREFIX_BLACKLIST = [''secret://'', ''http://'', ''https://'', ''s3://'', ''arn:'']"

text \<open>\<open>len(PurePath(value).parts)\<close>: the root counts, empty and dot components do not.\<close>

definition path_parts :: "string \<Rightarrow> nat" where
  "path_parts s = (if prefix ''/'' s then 1 else 0) + length (filter (\<lambda>x. x \<notin> {[], ''.''}) (py_split (CHR ''/'') s))"

definition is_path_like :: "string \<Rightarrow> string list \<Rightarrow> bool" where
  "is_path_like s excluded \<longleftrightarrow> py_strip s \<noteq> [] \<and>
    \<not> list_ex (\<lambda>p. prefix p (str_lower s)) REMOTE_PREFIXES \<and> \<not> list_ex (\<lambda>p. prefix p (str_lower s)) excluded \<and>
    \<not> list_all (\<lambda>c. is_letter c \<or> is_digit c) s \<and>
    (prefix ''/'' s \<or> 1 < path_parts s \<or> prefix ''.'' s)"

text \<open>\<open>bool(v)\<close>.\<close>

fun truthy :: "'p pyval \<Rightarrow> bool" where
  "truthy VNone = False"
| "truthy (VBool b) = b"
| "truthy (VInt n) = (n \<noteq> 0)"
| "truthy (VStr s) = (s \<noteq> [])"
| "truthy (VList vs) = (vs \<noteq> [])"
| "truthy (VDict d) = (d \<noteq> [])"
| "truthy (VObj x) = True"

text \<open>\<open>absolute\<close> is the absolute form of a path text: home directory, current directory and links resolved.\<close>

definition path_entries :: "'p pyval \<Rightarrow> (string \<times> string) list" where
  "path_entries v = (case v of
     VDict d \<Rightarrow> concat (map (\<lambda>(p, w). case w of VStr s \<Rightarrow> if is_path_like s PATH_PREFIX_BLACKLIST then [(p, s)] else [] | _ \<Rightarrow> [])
       (flatten_dict True v))
   | _ \<Rightarrow> [])"

definition absolutize :: "(string \<Rightarrow> string) \<Rightarrow> 'p pyval \<Rightarrow> 'p pyval res" where
  "absolutize absolute v = fold (\<lambda>(p, s) acc. res_bind acc (\<lambda>d. if absolute s = s then Ok d
     else set_nested_key d p None (VStr (absolute s)))) (path_entries v) (Ok v)"

definition resolve_strings :: "(string \<Rightarrow> string) \<Rightarrow> 'p engine \<Rightarrow> 'p pyval \<Rightarrow> 'p pyval res" where
  "resolve_strings absolute E v = (if \<not> truthy v then Ok v else absolutize absolute (render_value E v))"


section \<open>The template scope\<close>

text \<open>\<open>now\<close> gives year, month and day as texts.\<close>

definition template_context ::
  "string \<times> string \<times> string \<Rightarrow> string \<Rightarrow> string option \<Rightarrow> string option \<Rightarrow> string option \<Rightarrow> string option \<Rightarrow> 'p pydict"
where
  "template_context now workspace job dataset run pdate =
    (case now of (y, m, d) \<Rightarrow>
      [(''workspace_dir'', VStr workspace), (''YYYY'', VStr y), (''MM'', VStr m), (''DD'', VStr d)] @
      concat (map (\<lambda>(k, v). case v of None \<Rightarrow> [] | Some x \<Rightarrow> [(k, VStr x)])
        [(''job_id'', job), (''dataset_id'', dataset), (''run_id'', run), (''partition_date'', pdate)]))"

definition register_step :: "string \<Rightarrow> string \<Rightarrow> string \<Rightarrow> 'p pydict \<Rightarrow> 'p pydict" where
  "register_step sid stage output ctx =
    dict_put (sid @ ''.stage'') (VStr stage) (dict_put (sid @ ''.step_id'') (VStr sid)
      (dict_put (sid @ ''.output_data'') (VStr output) ctx))"

definition build_template_scope ::
  "string \<times> string \<times> string \<Rightarrow> string \<Rightarrow> string \<Rightarrow> string \<Rightarrow> string \<Rightarrow> string \<Rightarrow> 'p pydict \<Rightarrow> 'p pydict \<Rightarrow> 'p pydict"
where
  "build_template_scope now workspace job dataset run pdate dataset_cfg job_cfg =
    dict_put ''job'' (VDict (filter (\<lambda>(k, v). k \<noteq> ''calls'') job_cfg))
      (dict_put ''dataset'' (VDict (filter (\<lambda>(k, v). k \<notin> {''steps'', ''calls''}) dataset_cfg))
        (template_context now workspace (Some job) (Some dataset) (Some run) (Some pdate)))"


section \<open>Settings and dates\<close>

text \<open>\<open>get_nested\<close>: the first setting that is there and is no empty mapping, in the order of the search paths.\<close>

definition job_search_paths :: "string \<Rightarrow> string \<Rightarrow> string list" where
  "job_search_paths dataset path =
    (if path = [] then [''datasets.'' @ dataset, ''job''] else [''datasets.'' @ dataset @ ''.'' @ path, ''job.'' @ path])"

definition default_search_paths :: "string option \<Rightarrow> string \<Rightarrow> string list" where
  "default_search_paths stage path =
    (case stage of None \<Rightarrow> [] | Some s \<Rightarrow> if s = [] then []
       else if path = [] then [''calls.'' @ s, s] else [''calls.'' @ s @ ''.'' @ path, s @ ''.'' @ path]) @
    (if path = [] then [] else [path])"

definition first_setting :: "(string \<Rightarrow> 'p pyval) \<Rightarrow> string list \<Rightarrow> 'p pyval option" where
  "first_setting settings paths = map_option settings (find (\<lambda>p. settings p \<noteq> VNone \<and> settings p \<noteq> VDict []) paths)"

definition get_nested ::
  "(string \<Rightarrow> string option) \<Rightarrow> (string \<Rightarrow> 'p pyval) \<Rightarrow> (string \<Rightarrow> 'p pyval) \<Rightarrow> string \<Rightarrow> string \<Rightarrow> string option \<Rightarrow> 'p pyval \<Rightarrow> 'p pyval"
where
  "get_nested env settings defaults dataset path stage fallback =
    (let p = str_lower path in
     case first_setting settings (job_search_paths dataset p) of
       Some v \<Rightarrow> interpolate_env_vars env v
     | None \<Rightarrow> (case first_setting defaults (default_search_paths stage p) of
         Some v \<Rightarrow> interpolate_env_vars env v | None \<Rightarrow> fallback))"

text \<open>
  The clock: parsing a given date, today in a time zone as a formatted date, and today shifted by years, months and days
  and formatted.
\<close>

record clock =
  ck_parse :: "string \<Rightarrow> string res"
  ck_shifted :: "string option \<Rightarrow> int \<Rightarrow> int \<Rightarrow> int \<Rightarrow> string \<Rightarrow> string"

definition get_or :: "'p pyval \<Rightarrow> string \<Rightarrow> 'p pyval \<Rightarrow> 'p pyval res" where
  "get_or v k fallback = (case v of VDict d \<Rightarrow> Ok (case dict_get d k of None \<Rightarrow> fallback | Some w \<Rightarrow> w) | _ \<Rightarrow> Err AttributeError)"

definition amount :: "'p pyval \<Rightarrow> int res" where
  "amount v = (case v of VInt n \<Rightarrow> Ok n | VBool b \<Rightarrow> Ok (of_bool b) | _ \<Rightarrow> Err TypeError)"

definition resolve_partition_date :: "clock \<Rightarrow> 'p pyval \<Rightarrow> string \<Rightarrow> string option \<Rightarrow> string res" where
  "resolve_partition_date ck spec override timezone =
    (if override \<noteq> [] then ck_parse ck override
     else if \<not> truthy spec
     then Ok (ck_shifted ck (Some (case timezone of Some (z # zs) \<Rightarrow> z # zs | _ \<Rightarrow> ''Asia/Singapore'')) 0 0 0 ''%Y-%m-%d'')
     else res_bind (get_or spec ''offset'' (VDict [])) (\<lambda>offset.
       res_bind (res_bind (get_or offset ''years'' (VInt 0)) amount) (\<lambda>y.
       res_bind (res_bind (get_or offset ''months'' (VInt 0)) amount) (\<lambda>m.
       res_bind (get_or spec ''offset_days'' (VInt 0)) (\<lambda>od.
       res_bind (res_bind (get_or offset ''days'' od) amount) (\<lambda>d.
       res_bind (get_or spec ''format'' (VStr ''%Y-%m-%d'')) (\<lambda>f. case f of
         VStr fmt \<Rightarrow> res_bind (get_or spec ''wrap_quotes'' (VBool False)) (\<lambda>q.
           let r = ck_shifted ck timezone y m d fmt in Ok (if truthy q then [CHR 0x27] @ r @ [CHR 0x27] else r))
       | _ \<Rightarrow> Err TypeError)))))))"



section \<open>What the patterns do\<close>

definition plain_name :: "string \<Rightarrow> bool" where
  "plain_name n \<longleftrightarrow> n \<noteq> [] \<and> name_start (hd n) \<and> list_all name_char n"

lemma close_is_no_name_char: "\<not> name_char (CHR ''}'')"
  by (simp add: name_char_def name_start_def is_letter_def is_digit_def)

lemma match_plain_name:
  assumes "plain_name n"
  shows "match_name (CHR ''{'' # n @ CHR ''}'' # r) = Some (n, r)"
proof -
  have "takeWhile name_char (n @ CHR ''}'' # r) = n" "dropWhile name_char (n @ CHR ''}'' # r) = CHR ''}'' # r"
    using assms close_is_no_name_char
    by (simp_all add: plain_name_def list_all_iff takeWhile_append2 dropWhile_append2)
  then show ?thesis using assms close_is_no_name_char by (simp add: match_name_def plain_name_def Let_def)
qed

lemma sub_names_literal:
  "CHR ''{'' \<notin> set l \<Longrightarrow> sub_names f (l @ r) = l @ sub_names f r"
proof (induction l)
  case (Cons c l)
  then have "match_name (c # l @ r) = None" by (auto simp: match_name_def Let_def)
  then show ?case using Cons by (subst sub_names.simps) simp
qed simp


definition demo_engine :: "unit engine" where
  "demo_engine = \<lparr>eg_context = [(''job_id'', VStr ''j1''), (''meta'', VDict [(''env'', VStr ''prod'')])],
     eg_env = (\<lambda>n. if n = ''A'' then Some ''x'' else None), eg_text = (\<lambda>v. case v of VStr s \<Rightarrow> s | _ \<Rightarrow> []), eg_eval = (\<lambda>_ _. None)\<rparr>"



text \<open>
  Two environment references without defaults swallow the text between them. The pattern's name stops only at a
  colon or hyphen, so when neither occurs the greedy match runs to the last closing brace, and everything from
  the first name to the second is looked up as one variable; as no such variable exists, the whole stretch becomes
  empty.
\<close>

theorem env_references_merge:
  assumes "set a \<inter> set '':-'' = {}" "set t \<inter> set '':-'' = {}" "set b \<inter> set '':-}'' = {}" "a \<noteq> []"
  shows "expand_env env (''${'' @ a @ ''}'' @ t @ ''${'' @ b @ ''}'') =
    (case env (a @ ''}'' @ t @ ''${'' @ b) of None \<Rightarrow> [] | Some v \<Rightarrow> v)"
proof -
  define n where "n = a @ ''}'' @ t @ ''${'' @ b"
  have "\<forall>c\<in>set (n @ ''}''). not_mark c" using assms(1-3) by (auto simp: not_mark_def n_def)
  then have tw: "takeWhile not_mark (n @ ''}'') = n @ ''}''" "dropWhile not_mark (n @ ''}'') = []"
    by (simp_all only: takeWhile_eq_all_conv dropWhile_eq_Nil_conv)
  have "cut_back (n @ ''}'') = n @ ''}''" by (simp add: cut_back_def)
  moreover have "n \<noteq> []" by (simp add: n_def)
  ultimately have "match_braced (n @ ''}'') = Some (n, None, [])"
    unfolding match_braced_def tw Let_def by (cases n) simp_all
  then have m: "match_env (''${'' @ n @ ''}'') = Some (n, None, [])" by (simp add: match_env_def)
  have nil: "sub_env f [] = []" for f by (subst sub_env.simps) (simp add: match_env_def match_plain_def)
  have e: "''${'' @ a @ ''}'' @ t @ ''${'' @ b @ ''}'' = ''${'' @ n @ ''}''" by (simp add: n_def)
  have "CHR ''$'' \<in> set (''${'' @ n @ ''}'')" by simp
  then have "expand_env env (''${'' @ n @ ''}'') = (case env n of None \<Rightarrow> [] | Some v \<Rightarrow> v)"
    unfolding expand_env_def using m nil by (subst sub_env.simps) (auto split: option.split)
  then show ?thesis unfolding e unfolding n_def .
qed

theorem env_references_merge_witness:
  "expand_env (eg_env demo_engine) ''${A}'' = ''x'' \<and> expand_env (eg_env demo_engine) ''${A}/in/${A}'' = []"
proof -
  have "expand_env (eg_env demo_engine) ''${A}'' = ''x''" by code_simp
  moreover have "expand_env (eg_env demo_engine) ''${A}/in/${A}'' = []"
    using env_references_merge [of "''A''" "''/in/''" "''A''" "eg_env demo_engine"] by (simp add: demo_engine_def)
  ultimately show ?thesis ..
qed



section \<open>Path-like texts\<close>

definition changed :: "(string \<Rightarrow> string) \<Rightarrow> 'p pyval \<Rightarrow> bool" where
  "changed absolute w \<longleftrightarrow> (case w of VStr s \<Rightarrow> is_path_like s PATH_PREFIX_BLACKLIST \<and> absolute s \<noteq> s | _ \<Rightarrow> False)"

definition made_absolute :: "(string \<Rightarrow> string) \<Rightarrow> 'p pyval \<Rightarrow> 'p pyval" where
  "made_absolute absolute w = (case w of VStr s \<Rightarrow> if is_path_like s PATH_PREFIX_BLACKLIST then VStr (absolute s) else w | _ \<Rightarrow> w)"

lemma path_entries_leaves:
  assumes "flatten_dict True (VDict d) = map (\<lambda>(p, w). (render [] p, w)) ls"
  shows "path_entries (VDict d) = concat (map (\<lambda>(p, w). case w of VStr s \<Rightarrow>
    if is_path_like s PATH_PREFIX_BLACKLIST then [(render [] p, s)] else [] | _ \<Rightarrow> []) ls)"
  by (auto simp: path_entries_def assms intro!: arg_cong [where f = concat] map_cong split: pyval.split)

lemma absolutize_fold:
  assumes "\<forall>(p, w)\<in>set ls. parse_path (render [] p) = Ok p"
  shows "fold (\<lambda>(p, s) acc. res_bind acc (\<lambda>d. if absolute s = s then Ok d else set_nested_key d p None (VStr (absolute s))))
      (concat (map (\<lambda>(p, w). case w of VStr s \<Rightarrow> if is_path_like s PATH_PREFIX_BLACKLIST then [(render [] p, s)] else [] | _ \<Rightarrow> []) ls)) a =
    fold (\<lambda>(p, w) acc. res_bind acc (update_at (replace_key (last p) None (made_absolute absolute w)) (butlast p)))
      (filter (\<lambda>(p, w). changed absolute w) ls) a"
  using assms
proof (induction ls arbitrary: a)
  case (Cons e ls)
  obtain p w where e: "e = (p, w)" by fastforce
  show ?case
  proof (cases w)
    case (VStr s)
    then show ?thesis using Cons by (auto simp: e changed_def made_absolute_def set_nested_key_def res_bind_Ok_id)
  qed (use Cons in \<open>simp_all add: e changed_def\<close>)
qed simp



end
