(* ===== verification/Builder.thy ===== *)
theory Builder
  imports Templates Pipeline
begin

text \<open>
  The configuration of a run: the command line overrides and the task context builder
  (\<open>core/contexts/builder/builder.py\<close>), the hooks (\<open>builder/hooks.py\<close>) and the parsers of the stage configurations
  (\<open>core/stages/*/config.py\<close>). The settings files as Dynaconf merges them, conversion into typed structures, the clock
  and generated run ids are parameters. Documents are values: steps kept in the defaults file, which the code would share
  between datasets, are not followed.
\<close>


section \<open>Command line overrides\<close>

definition split_at :: "char \<Rightarrow> string \<Rightarrow> string \<times> string" where
  "split_at c s = (takeWhile (\<lambda>x. x \<noteq> c) s, tl (dropWhile (\<lambda>x. x \<noteq> c) s))"

definition cli_value :: "string \<Rightarrow> 'p pyval" where
  "cli_value v =
    (if str_lower v = ''true'' then VBool True else if str_lower v = ''false'' then VBool False
     else if str_lower v = ''none'' then VNone
     else (case read_nat v of Some n \<Rightarrow> VInt (int n) | None \<Rightarrow> VStr v))"

definition cli_item :: "string \<Rightarrow> (string, 'p pydict) dict \<Rightarrow> (string, 'p pydict) dict" where
  "cli_item item result =
    (if CHR ''='' \<notin> set item then result
     else (case split_at (CHR ''='') item of (k, raw) \<Rightarrow>
       (let key = py_strip k; v = cli_value (py_strip raw);
            (scope, actual) = (if CHR '':'' \<in> set key
              then (case split_at (CHR '':'') key of (s, a) \<Rightarrow> (py_strip s, py_strip a)) else (''_global'', key));
            old = (case dict_get result scope of None \<Rightarrow> [] | Some d \<Rightarrow> d)
        in dict_put scope (dict_put actual v old) result)))"

definition parse_cli_overrides :: "string list \<Rightarrow> (string, 'p pydict) dict" where
  "parse_cli_overrides settings = fold cli_item settings [(''_global'', [])]"

text \<open>\<open>ChainMap\<close> of the dataset's overrides over the global ones.\<close>

definition context_overrides :: "(string, 'p pydict) dict \<Rightarrow> string \<Rightarrow> 'p pydict" where
  "context_overrides overrides dataset =
    (let get = (\<lambda>k. case dict_get overrides k of None \<Rightarrow> [] | Some d \<Rightarrow> d)
     in if overrides = [] then [] else fold (\<lambda>(k, v) d. dict_put k v d) (get dataset) (get ''_global''))"


section \<open>Settings\<close>

definition load_dynaconf_settings :: "(string \<Rightarrow> bool) \<Rightarrow> (string list \<Rightarrow> 's) \<Rightarrow> string list \<Rightarrow> 's res" where
  "load_dynaconf_settings exists load files = (if list_all exists files then Ok (load files) else Err FileNotFoundError)"

definition resolve_config_val ::
  "(string \<Rightarrow> string) \<Rightarrow> 'p engine \<Rightarrow> string \<Rightarrow> (string \<Rightarrow> 'p pyval) \<Rightarrow> 'p pydict \<Rightarrow> 'p pyval res"
where
  "resolve_config_val absolute E key settings step =
    (let own = (case dict_get step key of None \<Rightarrow> VNone | Some v \<Rightarrow> v);
         v = (if truthy own then own else settings key)
     in if v = VNone then Ok VNone else resolve_strings absolute E v)"

definition has_ref :: "string \<Rightarrow> bool" where
  "has_ref k = list_ex (prefix ''service_ref'') (suffixes k)"

text \<open>\<open>services\<close> is looked up by the name in upper case and gives \<open>None\<close> for an unknown service.\<close>

definition resolve_service_refs :: "(string \<Rightarrow> 'p pyval) \<Rightarrow> 'p pyval \<Rightarrow> 'p pyval res" where
  "resolve_service_refs services cfg =
    fold (\<lambda>(path, r) acc. case r of
        VStr s \<Rightarrow> res_bind acc (\<lambda>d. set_nested_key d path (Some ''connection'')
          (if truthy (services (str_upper s)) then services (str_upper s) else VNone))
      | _ \<Rightarrow> acc) (find_keys has_ref [] cfg) (Ok cfg)"

text \<open>Stage defaults merged below the parameters of a step that names the stage.\<close>

definition merge_step :: "'p pydict \<Rightarrow> 'p pyval \<Rightarrow> 'p pyval res" where
  "merge_step calls step = (case step of
     VDict s \<Rightarrow>
      (case dict_get s ''call'' of
         Some (VStr c) \<Rightarrow>
          if c = [] then Ok step
          else (case dict_get calls c of
             None \<Rightarrow> Ok step
           | Some stage_defaults \<Rightarrow>
              (case (stage_defaults, case dict_get s ''with'' of None \<Rightarrow> VDict [] | Some w \<Rightarrow> w) of
                 (VDict b, VDict u) \<Rightarrow> Ok (VDict (dict_put ''with'' (VDict (deep_merge b u)) s))
               | _ \<Rightarrow> Err AttributeError))
       | _ \<Rightarrow> Ok step)
   | _ \<Rightarrow> Err AttributeError)"

definition resolve_merged_config :: "'p pydict \<Rightarrow> 'p pydict \<Rightarrow> 'p pydict \<Rightarrow> 'p pydict res" where
  "resolve_merged_config defaults raw_job raw_ds =
    (let d = fold (\<lambda>(k, v) m. dict_put (str_lower k) v m) defaults [];
         whole = deep_merge (deep_merge d raw_job) raw_ds;
         calls = (case dict_get whole ''calls'' of None \<Rightarrow> VDict [] | Some c \<Rightarrow> c);
         merged = dict_del ''calls'' whole
     in case (calls, dict_get merged ''steps'') of
          (_, None) \<Rightarrow> Ok merged
        | (c, Some raw_steps) \<Rightarrow>
           if \<not> truthy c \<or> \<not> truthy raw_steps then Ok merged
           else (case (c, raw_steps) of
               (VDict cs, VList ss) \<Rightarrow> res_bind (res_map (merge_step cs) ss) (\<lambda>rs. Ok (dict_put ''steps'' (VList rs) merged))
             | _ \<Rightarrow> Err TypeError))"


section \<open>Hooks\<close>

definition lift_prefix :: "string \<Rightarrow> 'p pydict \<Rightarrow> 'p pydict res" where
  "lift_prefix p m = (case dict_get m p of
     None \<Rightarrow> Ok m
   | Some (VDict d) \<Rightarrow> Ok (fold (\<lambda>(k, v) acc. dict_put (p @ ''_'' @ k) v acc) d (dict_del p m))
   | Some _ \<Rightarrow> Err AttributeError)"

definition hook_fields :: "'p pydict \<Rightarrow> 'p pydict res" where
  "hook_fields resolved =
    res_bind (lift_prefix ''to'' resolved) (\<lambda>m. res_bind (lift_prefix ''from'' m) (\<lambda>m.
      (let m1 = (case dict_get m ''if'' of None \<Rightarrow> m | Some v \<Rightarrow> dict_put ''condition'' v (dict_del ''if'' m))
       in Ok (filter (\<lambda>(k, v). v \<noteq> VNone) m1))))"

definition parse_hook_action ::
  "(string \<Rightarrow> string) \<Rightarrow> 'p engine \<Rightarrow> ('p pydict \<Rightarrow> 'h res) \<Rightarrow> 'p pyval \<Rightarrow> 'h res"
where
  "parse_hook_action absolute E convert action = (case action of
     VDict a \<Rightarrow> res_bind (resolve_strings absolute E (VDict a)) (\<lambda>r.
       case r of VDict d \<Rightarrow> res_bind (hook_fields d) convert | _ \<Rightarrow> Err TypeError)
   | _ \<Rightarrow> Err TypeError)"

definition hook_phase ::
  "(string \<Rightarrow> string) \<Rightarrow> 'p engine \<Rightarrow> ('p pydict \<Rightarrow> 'h res) \<Rightarrow> 'p pydict \<Rightarrow> string \<Rightarrow> 'h list res"
where
  "hook_phase absolute E convert cfg phase = (case dict_get cfg phase of
     None \<Rightarrow> Ok []
   | Some v \<Rightarrow> if \<not> truthy v then Ok []
       else (case v of VList as \<Rightarrow> res_map (parse_hook_action absolute E convert) as | _ \<Rightarrow> Err TypeError))"

text \<open>The actions before and after the stage.\<close>

definition parse_hooks ::
  "(string \<Rightarrow> string) \<Rightarrow> 'p engine \<Rightarrow> ('p pydict \<Rightarrow> 'h res) \<Rightarrow> 'p pyval \<Rightarrow> ('h list \<times> 'h list) res"
where
  "parse_hooks absolute E convert cfg =
    (if \<not> truthy cfg then Ok ([], [])
     else (case cfg of
         VDict d \<Rightarrow> res_bind (hook_phase absolute E convert d ''pre'') (\<lambda>a.
           res_bind (hook_phase absolute E convert d ''post'') (\<lambda>b. Ok (a, b)))
       | _ \<Rightarrow> Err AttributeError))"


section \<open>Stage configurations\<close>

text \<open>Each parser gives the payload it hands to the conversion, entries without a value left out.\<close>

definition item :: "string \<Rightarrow> 'p pyval \<Rightarrow> 'p pyval res" where
  "item k v = (case v of VDict d \<Rightarrow> (case dict_get d k of None \<Rightarrow> Err KeyError | Some w \<Rightarrow> Ok w) | VNone \<Rightarrow> Err TypeError | _ \<Rightarrow> Err TypeError)"

definition opt :: "'p pydict \<Rightarrow> string \<Rightarrow> 'p pyval" where
  "opt d k = (case dict_get d k of None \<Rightarrow> VNone | Some v \<Rightarrow> v)"

definition param_dict :: "'p pydict \<Rightarrow> 'p pydict res" where
  "param_dict step = res_bind (item ''with'' (VDict step)) (\<lambda>w. case w of VDict d \<Rightarrow> Ok d | _ \<Rightarrow> Err TypeError)"

definition without_none :: "'p pydict \<Rightarrow> 'p pydict" where
  "without_none = filter (\<lambda>(k, v). v \<noteq> VNone)"

definition connection_of :: "string \<Rightarrow> 'p pydict \<Rightarrow> 'p pyval res" where
  "connection_of side context =
    (let c = (case dict_get context side of Some (VDict d) \<Rightarrow> opt d ''connection'' | _ \<Rightarrow> VNone)
     in if truthy c then Ok c else Err ValueError)"

definition needed :: "'p pydict \<Rightarrow> string \<Rightarrow> 'p pyval res" where
  "needed ps k = res_bind (item k (VDict ps)) (\<lambda>v. if truthy v then Ok v else Err KeyError)"

definition extract_payload :: "('p pyval \<Rightarrow> string) \<Rightarrow> 'p pydict \<Rightarrow> 'p pydict \<Rightarrow> 'p pydict res" where
  "extract_payload text step context =
    res_bind (param_dict step) (\<lambda>ps.
    res_bind (needed ps ''object'') (\<lambda>obj.
    res_bind (connection_of ''source'' context) (\<lambda>conn.
    res_bind (item ''mode'' (VDict context)) (\<lambda>mode.
      Ok (without_none [
        (''resource'', VStr (text obj)), (''connection'', conn), (''glob'', opt ps ''glob''), (''num_workers'', opt ps ''num_workers''),
        (''sql_context'', VDict [(''main'', VDict [(''from'', VStr (text obj)), (''select'', opt ps ''select''), (''where'', opt ps ''where''),
           (''limit'', opt ps ''limit''), (''sql'', opt ps ''sql'')])]),
        (''columns'', opt ps ''columns''), (''null_if'', opt ps ''null_if''), (''flatten'', opt ps ''flatten''), (''mode'', mode),
        (''primary_keys'', case dict_get context ''primary_keys'' of None \<Rightarrow> VList [] | Some v \<Rightarrow> v),
        (''update_key'', opt context ''update_key'')])))))"

definition write_fields :: "string list" where
  "write_fields = [''add_new_columns'', ''create_table_ddl'', ''write_strategy'', ''working_table'', ''column_case_type'',
     ''column_case_style'', ''column_types'']"

definition write_field :: "'p pydict \<Rightarrow> string \<Rightarrow> 'p pyval" where
  "write_field ps f = (case opt ps f of
     VStr s \<Rightarrow> if f \<in> {''write_strategy'', ''column_case_type'', ''column_case_style''} then VStr (str_lower s) else VStr s
   | v \<Rightarrow> v)"

definition write_payload :: "('p pyval \<Rightarrow> string) \<Rightarrow> 'p pydict \<Rightarrow> 'p pydict \<Rightarrow> 'p pydict res" where
  "write_payload text step context =
    res_bind (param_dict step) (\<lambda>ps.
    if \<not> truthy (opt ps ''target'') then Err KeyError
    else res_bind (connection_of ''target'' context) (\<lambda>conn.
    res_bind (item ''object'' (VDict ps)) (\<lambda>obj.
    res_bind (item ''expected_count'' (VDict ps)) (\<lambda>cnt.
      Ok (without_none ([
        (''target'', VStr (text (opt ps ''target''))), (''connection'', conn), (''data_dir_ref'', VStr (text obj)),
        (''expected_count_ref'', VStr (text cnt)), (''soft_delete_missing'', opt context ''soft_delete_missing''),
        (''meta_columns'', opt context ''meta_columns''), (''update_key'', opt context ''update_key'')]
        @ map (\<lambda>f. (f, write_field ps f)) write_fields))))))"

definition known_value :: "string list \<Rightarrow> bool \<Rightarrow> 'p pyval \<Rightarrow> 'p pyval res" where
  "known_value values fold_case v = (case v of
     VStr s \<Rightarrow> (let t = (if fold_case then str_lower s else s) in if t \<in> set values then Ok (VStr t) else Err ValueError)
   | _ \<Rightarrow> Ok v)"

definition publish_payload :: "('p pyval \<Rightarrow> string) \<Rightarrow> 'p pydict \<Rightarrow> 'p pydict \<Rightarrow> 'p pydict res" where
  "publish_payload text step context =
    res_bind (param_dict step) (\<lambda>ps.
    res_bind (needed ps ''target'') (\<lambda>target.
    res_bind (connection_of ''target'' context) (\<lambda>conn.
    res_bind (needed ps ''staging_location'') (\<lambda>staging.
    res_bind (item ''expected_count'' (VDict ps)) (\<lambda>cnt.
    res_bind (if truthy (opt context ''mode'') then Ok (opt context ''mode'') else Err KeyError) (\<lambda>mode0.
    res_bind (known_value [''delta'', ''snapshot'', ''full_refresh'', ''cdc''] False mode0) (\<lambda>mode.
    res_bind (known_value [''delete_insert'', ''update_insert'', ''update''] True (opt ps ''delta_merge_type'')) (\<lambda>merge.
      let named = (case target of VDict d \<Rightarrow> (case dict_get d ''name'' of None \<Rightarrow> target | Some n \<Rightarrow> n) | _ \<Rightarrow> target)
      in Ok ([(''target'', VStr (text named)), (''connection'', conn), (''mode'', mode), (''staging_artifact_ref'', VStr (text staging)),
          (''expected_count_ref'', VStr (if truthy cnt then text cnt else [])),
          (''primary_keys'', case dict_get context ''primary_keys'' of None \<Rightarrow> VList [] | Some v \<Rightarrow> v),
          (''update_key'', opt context ''update_key'')]
        @ without_none [(''delta_merge_type'', merge), (''soft_delete_missing'', opt context ''soft_delete_missing'')])))))))))"

definition normalize_join :: "'p pyval \<Rightarrow> 'p pyval res" where
  "normalize_join j = (case j of
     VDict d \<Rightarrow> res_bind (item ''on'' j) (\<lambda>cond.
       Ok (VDict [(''to_table'', if truthy (opt d ''to_table'') then opt d ''to_table'' else opt d ''table''), (''on'', cond),
         (''type'', case dict_get d ''type'' of None \<Rightarrow> VStr ''inner'' | Some t \<Rightarrow> t)]))
   | _ \<Rightarrow> Err AttributeError)"

definition listed :: "string \<Rightarrow> 'p pydict \<Rightarrow> 'p pydict" where
  "listed f d = (case dict_get d f of Some (VStr s) \<Rightarrow> dict_put f (VList [VStr s]) d | _ \<Rightarrow> d)"

definition normalize_cte :: "'p pydict \<Rightarrow> 'p pydict res" where
  "normalize_cte raw =
    (let c1 = (case dict_get raw ''from'' of
           Some v \<Rightarrow> if dict_get raw ''from_table'' = None then dict_put ''from_table'' v (dict_del ''from'' raw) else raw
         | None \<Rightarrow> raw);
         j = opt c1 ''join''; c2 = dict_del ''join'' c1; js = (if truthy j then j else opt c2 ''joins'')
     in res_bind (if \<not> truthy js then Ok c2
          else (case js of
              VDict _ \<Rightarrow> res_bind (normalize_join js) (\<lambda>x. Ok (dict_put ''joins'' (VList [x]) c2))
            | VList xs \<Rightarrow> res_bind (res_map normalize_join xs) (\<lambda>ys. Ok (dict_put ''joins'' (VList ys) c2))
            | _ \<Rightarrow> Err AttributeError))
        (\<lambda>c3. Ok (listed ''order_by'' (listed ''group_by'' (listed ''select'' c3)))))"

definition named_cte :: "'p pyval \<Rightarrow> 'p pyval res" where
  "named_cte v = (case v of
     VDict d \<Rightarrow> if dict_get d ''name'' = None then Err KeyError else res_bind (normalize_cte d) (\<lambda>c. Ok (VDict c))
   | _ \<Rightarrow> Err TypeError)"

definition transform_step :: "('p pyval \<Rightarrow> string) \<Rightarrow> 'p pyval \<Rightarrow> 'p pyval res" where
  "transform_step text raw =
    res_bind (item ''type'' raw) (\<lambda>t.
      let d = (case raw of VDict d \<Rightarrow> d | _ \<Rightarrow> []); low = str_lower (text t); ty = (if low = ''custom'' then ''python'' else low)
      in if ty = ''sql''
         then (case (case dict_get d ''cte'' of None \<Rightarrow> VList [] | Some c \<Rightarrow> c) of
             VList cs \<Rightarrow> res_bind (res_map named_cte cs) (\<lambda>ctes.
               Ok (VDict [(''id'', opt d ''id''), (''type'', VStr ty), (''sources'', case dict_get d ''sources'' of None \<Rightarrow> VDict [] | Some s \<Rightarrow> s),
                 (''sql_context'', VDict [(''ctes'', VList ctes)])]))
           | _ \<Rightarrow> Err TypeError)
         else if ty = ''python''
         then Ok (VDict [(''id'', opt d ''id''), (''type'', VStr ty), (''module_path'', opt d ''module_path''),
             (''params'', case dict_get d ''params'' of None \<Rightarrow> VDict [] | Some s \<Rightarrow> s)])
         else Err ValueError)"

definition transform_payload :: "('p pyval \<Rightarrow> string) \<Rightarrow> 'p pydict \<Rightarrow> 'p pydict \<Rightarrow> 'p pydict res" where
  "transform_payload text step context =
    res_bind (param_dict step) (\<lambda>ps. case opt ps ''steps'' of
        VList rs \<Rightarrow> res_bind (res_map (transform_step text) rs) (\<lambda>ss. Ok (without_none [(''steps'', VList ss), (''inputs'', opt step ''inputs'')]))
      | _ \<Rightarrow> Err TypeError)"

text \<open>\<open>parse_stage_config\<close>: \<open>None\<close> for a stage without a parser; \<open>convert\<close> is the conversion of a payload.\<close>

definition parse_stage_config ::
  "('p pyval \<Rightarrow> string) \<Rightarrow> (string \<Rightarrow> 'p pydict \<Rightarrow> 'c res) \<Rightarrow> string \<Rightarrow> 'p pydict \<Rightarrow> 'p pydict \<Rightarrow> 'c option res"
where
  "parse_stage_config text convert stage step context =
    (let s = str_lower stage; go = (\<lambda>r. res_bind r (\<lambda>p. res_bind (convert s p) (\<lambda>c. Ok (Some c)))) in
     if s = ''extract'' then go (extract_payload text step context)
     else if s = ''transform'' then go (transform_payload text step context)
     else if s = ''write'' then go (write_payload text step context)
     else if s = ''publish'' then go (publish_payload text step context)
     else Ok None)"



section \<open>Building the context of a dataset\<close>

text \<open>
  The surroundings of the builder. A step id, a boundary or a stage that is no text is outside the model and
  ends it with \<open>TypeError\<close>.
\<close>

record ('p, 'c, 'h) builder =
  bd_absolute :: "string \<Rightarrow> string"
  bd_env :: "string \<Rightarrow> string option"
  bd_text :: "'p pyval \<Rightarrow> string"
  bd_eval :: "string \<Rightarrow> 'p pydict \<Rightarrow> 'p pyval option"
  bd_services :: "string \<Rightarrow> 'p pyval"
  bd_convert :: "string \<Rightarrow> 'p pydict \<Rightarrow> 'c res"
  bd_hook :: "'p pydict \<Rightarrow> 'h res"
  bd_clock :: clock
  bd_now :: "string \<times> string \<times> string"
  bd_timezone :: "string option"
  bd_workspace :: string
  bd_run_id :: string

definition engine_with :: "('p, 'c, 'h) builder \<Rightarrow> 'p pydict \<Rightarrow> 'p engine" where
  "engine_with B ctx = \<lparr>eg_context = ctx, eg_env = bd_env B, eg_text = bd_text B, eg_eval = bd_eval B\<rparr>"

definition resolve_in :: "('p, 'c, 'h) builder \<Rightarrow> 'p pydict \<Rightarrow> 'p pyval \<Rightarrow> 'p pyval res" where
  "resolve_in B ctx = resolve_strings (bd_absolute B) (engine_with B ctx)"

record ('c, 'h) built_step =
  bs_id :: string
  bs_stage :: string
  bs_config :: "'c option"
  bs_hooks :: "'h list \<times> 'h list"

definition generated_id :: "string \<Rightarrow> string \<Rightarrow> nat \<Rightarrow> string" where
  "generated_id stage dataset n =
    (if n = 1 then stage @ ''_'' @ dataset @ ''_data'' else stage @ ''_'' @ show_nat n)"

definition stage_name :: "'p pydict \<Rightarrow> string res" where
  "stage_name raw = (case (case dict_get raw ''stage'' of Some v \<Rightarrow> v
      | None \<Rightarrow> if truthy (opt raw ''call'') then opt raw ''call'' else VStr []) of
     VStr s \<Rightarrow> Ok (str_lower s) | _ \<Rightarrow> Err AttributeError)"

text \<open>The counts include the steps that have an id of their own.\<close>

definition step_id_of :: "'p pydict \<Rightarrow> string \<Rightarrow> string \<Rightarrow> nat \<Rightarrow> string res" where
  "step_id_of resolved stage dataset n =
    (let v = opt resolved ''id'' in
     if \<not> truthy v then Ok (generated_id stage dataset n)
     else (case v of VStr s \<Rightarrow> Ok s | _ \<Rightarrow> Err TypeError))"

definition step_hooks :: "'p pydict \<Rightarrow> 'p pyval res" where
  "step_hooks resolved = (case dict_get resolved ''with'' of
     None \<Rightarrow> Ok VNone | Some (VDict w) \<Rightarrow> Ok (opt w ''hooks'') | Some _ \<Rightarrow> Err AttributeError)"

fun build_steps ::
  "('p, 'c, 'h) builder \<Rightarrow> string \<Rightarrow> 'p pydict \<Rightarrow> (string, nat) dict \<Rightarrow> 'p pydict \<Rightarrow> 'p pyval list \<Rightarrow> ('c, 'h) built_step list res"
where
  "build_steps B dataset final counts ctx [] = Ok []"
| "build_steps B dataset final counts ctx (VDict raw # rest) =
    res_bind (stage_name raw) (\<lambda>stage.
    res_bind (resolve_in B ctx (VDict raw)) (\<lambda>r. case r of
      VDict resolved \<Rightarrow>
       (let n = Suc (case dict_get counts stage of None \<Rightarrow> 0 | Some m \<Rightarrow> m) in
        res_bind (step_id_of resolved stage dataset n) (\<lambda>sid.
        res_bind (step_hooks resolved) (\<lambda>hooks.
        let ctx1 = dict_put ''step'' (VDict (fold (\<lambda>(k, v) d. dict_put k v d) resolved
              [(''id'', VStr sid), (''stage'', VStr stage)])) ctx in
        res_bind (parse_stage_config (bd_text B) (bd_convert B) stage resolved final) (\<lambda>cfg.
        res_bind (parse_hooks (bd_absolute B) (engine_with B ctx1) (bd_hook B) hooks) (\<lambda>hs.
        res_bind (build_steps B dataset final (dict_put stage n counts) ctx1 rest) (\<lambda>more.
          Ok (\<lparr>bs_id = sid, bs_stage = stage, bs_config = cfg, bs_hooks = hs\<rparr> # more)))))))
    | _ \<Rightarrow> Err TypeError))"
| "build_steps B dataset final counts ctx (_ # rest) = Err AttributeError"

record ('p, 'c, 'h) built =
  bt_steps :: "('c, 'h) built_step list"
  bt_task :: task_context
  bt_mode :: "'p pyval"
  bt_update_key :: "'p pyval"
  bt_primary_keys :: "'p pyval"
  bt_expires_at :: "'p pyval"
  bt_overrides :: "'p pydict"
  bt_extras :: "'p pyval"
  bt_flags :: "'p pyval option"

definition text_setting :: "'p pydict \<Rightarrow> string \<Rightarrow> string \<Rightarrow> string res" where
  "text_setting d k fallback = (case dict_get d k of None \<Rightarrow> Ok fallback | Some VNone \<Rightarrow> Ok [] | Some (VStr s) \<Rightarrow> Ok s | _ \<Rightarrow> Err TypeError)"

definition step_of :: "('c, 'h) built_step \<Rightarrow> step_context" where
  "step_of b = \<lparr>step_id = bs_id b, step_stage = bs_stage b, step_config = None\<rparr>"

definition as_dict :: "'p pyval \<Rightarrow> 'p pydict res" where
  "as_dict v = (case v of VDict d \<Rightarrow> Ok d | _ \<Rightarrow> Err AttributeError)"

text \<open>The three phases of interpolation and service resolution, then the steps, then \<open>TaskContext\<close> with its checks.\<close>

definition build_dataset_context ::
  "('p, 'c, 'h) builder \<Rightarrow> string \<Rightarrow> string \<Rightarrow> string \<Rightarrow> 'p pydict \<Rightarrow> 'p pydict \<Rightarrow> string option \<Rightarrow>
   (string, 'p pydict) dict \<Rightarrow> ('p, 'c, 'h) built res"
where
  "build_dataset_context B job dataset pdate merged raw_job run overrides =
    (let rid = (case run of Some (c # cs) \<Rightarrow> c # cs | _ \<Rightarrow> bd_run_id B) in
     res_bind (resolve_partition_date (bd_clock B)
       (case dict_get merged ''partition_date'' of None \<Rightarrow> VDict [] | Some v \<Rightarrow> v) pdate (bd_timezone B)) (\<lambda>date.
     let ctx = build_template_scope (bd_now B) (bd_workspace B) job dataset rid date merged raw_job in
     res_bind (resolve_in B ctx (VDict merged)) (\<lambda>v1.
     res_bind (resolve_service_refs (bd_services B) v1) (\<lambda>v2.
     res_bind (resolve_in B ctx v2) (\<lambda>v3.
     res_bind (as_dict v3) (\<lambda>final.
     res_bind (case dict_get final ''steps'' of None \<Rightarrow> Ok [] | Some (VList ss) \<Rightarrow> Ok ss | Some _ \<Rightarrow> Err TypeError) (\<lambda>raws.
     res_bind (build_steps B dataset final [] ctx raws) (\<lambda>bs.
     res_bind (text_setting final ''from_step'' ''start'') (\<lambda>f.
     res_bind (text_setting final ''to_step'' []) (\<lambda>t.
     res_bind (post_init \<lparr>steps = map step_of bs, ctx_identity = mk_identity job dataset date rid, from_step = f, to_step = t\<rparr>) (\<lambda>task.
       Ok \<lparr>bt_steps = bs, bt_task = task, bt_mode = opt final ''mode'', bt_update_key = opt final ''update_key'',
         bt_primary_keys = (case dict_get final ''primary_keys'' of None \<Rightarrow> VList [] | Some v \<Rightarrow> v),
         bt_expires_at = opt final ''expires_at'', bt_overrides = context_overrides overrides dataset,
         bt_extras = (case dict_get final ''extras'' of None \<Rightarrow> VDict [] | Some v \<Rightarrow> v),
         bt_flags = dict_get final ''feature_flags''\<rparr>)))))))))))"

text \<open>
  A job: its defaults (absent when it has none), its datasets in the order the set of target ids is walked, and the
  settings of each.
\<close>

record 'p job =
  jb_exists :: bool
  jb_job :: "'p pydict option"
  jb_datasets :: "string list"
  jb_dataset :: "string \<Rightarrow> 'p pydict option"

definition build_contexts ::
  "('p, 'c, 'h) builder \<Rightarrow> 'p pydict \<Rightarrow> 'p job \<Rightarrow> string \<Rightarrow> string set \<Rightarrow> string \<Rightarrow> (string, 'p pydict) dict \<Rightarrow> string option \<Rightarrow>
   ('p, 'c, 'h) built list res"
where
  "build_contexts B defaults J job wanted pdate overrides run =
    (if \<not> jb_exists J then Err FileNotFoundError
     else res_map (\<lambda>ds. case (jb_job J, jb_dataset J ds) of
         (Some raw_job, Some raw_ds) \<Rightarrow>
           res_bind (resolve_merged_config defaults raw_job raw_ds) (\<lambda>merged.
             build_dataset_context B job ds pdate merged raw_job run overrides)
       | _ \<Rightarrow> Err AttributeError)
       (filter (\<lambda>ds. wanted = {} \<or> ds \<in> wanted) (jb_datasets J)))"


section \<open>The application's settings\<close>

definition infra_keys :: "string list" where
  "infra_keys = [''secret_provider'', ''task_queue'', ''cache'', ''meta_db'', ''workspace_dir'']"

definition resolve_infra ::
  "('p, 'c, 'h) builder \<Rightarrow> 'p pydict \<Rightarrow> string \<Rightarrow> 'p pydict \<Rightarrow> 'p pydict res"
where
  "resolve_infra B ctx key settings = (case opt settings key of
     VDict d \<Rightarrow> if d = [] then Ok settings
       else res_bind (resolve_in B ctx (VDict d)) (\<lambda>v. Ok (dict_put key v settings))
   | _ \<Rightarrow> Ok settings)"

definition text_or :: "('p pyval \<Rightarrow> string) \<Rightarrow> 'p pyval option \<Rightarrow> string" where
  "text_or text v = (case v of None \<Rightarrow> [] | Some w \<Rightarrow> text w)"

definition build_app_context :: "('p, 'c, 'h) builder \<Rightarrow> bool \<Rightarrow> 'p pydict \<Rightarrow> 'p pyval res" where
  "build_app_context B exists settings =
    (if \<not> exists then Err FileNotFoundError
     else (let ctx = template_context (bd_now B) (text_or (bd_text B) (dict_get settings ''workspace_dir'')) None None None None in
       res_bind (fold (\<lambda>k acc. res_bind acc (resolve_infra B ctx k)) infra_keys (Ok settings))
         (\<lambda>s. resolve_service_refs (bd_services B) (VDict s))))"

definition execution_settings :: "('p, 'c, 'h) builder \<Rightarrow> (string \<Rightarrow> 'p pyval option) \<Rightarrow> 'p pydict" where
  "execution_settings B app =
    (let get = (\<lambda>k. case app k of None \<Rightarrow> VNone | Some v \<Rightarrow> v); block = (\<lambda>k. case app k of None \<Rightarrow> VDict [] | Some v \<Rightarrow> v) in
     [(''workspace_dir'', get ''workspace_dir''), (''code_pex_path'', get ''code_pex_path''), (''deps_pex_path'', get ''deps_pex_path''),
      (''cache_config'', block ''cache''), (''task_queue_config'', block ''task_queue''), (''provider_config'', block ''secret_provider''),
      (''metadata_db_config'', block ''meta_db.connection'')])"

definition build_execution_settings :: "('p, 'c, 'h) builder \<Rightarrow> (string \<Rightarrow> 'p pyval option) \<Rightarrow> 'p pyval res" where
  "build_execution_settings B app = resolve_in B
    (template_context (bd_now B) (text_or (bd_text B) (app ''workspace_dir'')) None None None None)
    (VDict (execution_settings B app))"



section \<open>Service references\<close>

definition reference :: "node list \<times> 'p pyval \<Rightarrow> bool" where
  "reference e = (case e of (p, w) \<Rightarrow> is_text w \<and> hit_last has_ref p)"

definition service_of :: "(string \<Rightarrow> 'p pyval) \<Rightarrow> 'p pyval \<Rightarrow> 'p pyval" where
  "service_of services w = (case w of VStr s \<Rightarrow>
     if truthy (services (str_upper s)) then services (str_upper s) else VNone | _ \<Rightarrow> VNone)"

definition connection_leaves :: "(string \<Rightarrow> 'p pyval) \<Rightarrow> node list \<times> 'p pyval \<Rightarrow> (node list \<times> 'p pyval) multiset" where
  "connection_leaves services e = (case e of (p, w) \<Rightarrow>
     under (butlast p @ [Key ''connection'']) (leaves (if service_of services w = VNone then w else service_of services w)))"

definition resolve_at :: "(string \<Rightarrow> 'p pyval) \<Rightarrow> node list \<times> 'p pyval \<Rightarrow> 'p pyval \<Rightarrow> 'p pyval res" where
  "resolve_at services e = (case e of (p, w) \<Rightarrow> update_at (replace_key (last p) (Some ''connection'') (service_of services w)) (butlast p))"

lemma until_key: "Key m \<notin> set q \<Longrightarrow> takeWhile (\<lambda>n. n \<noteq> Key m) (q @ Key m # r) = q"
  by (induction q) auto

lemma first_connection:
  assumes "q @ Key m # r = q' @ Key m # r'" "Key m \<notin> set q" "Key m \<notin> set q'"
  shows "q = q'"
  using assms until_key by metis

lemma in_under: "e \<in># under q xs \<Longrightarrow> \<exists>r. fst e = q @ r"
  by (auto simp: under_def)

lemma resolve_all:
  assumes "val_ok v" "distinct (map fst rs)" "set rs \<subseteq> set (leaves v)" "\<And>n. val_ok (services n)" "m \<noteq> ''connection''"
    and "\<forall>e\<in>set rs. fst e \<noteq> [] \<and> last (fst e) = Key m \<and> Key ''connection'' \<notin> set (fst e) \<and>
      (\<forall>r u. (butlast (fst e) @ Key ''connection'' # r, u) \<notin> set (leaves v))"
  shows "\<exists>v'. fold (\<lambda>e acc. res_bind acc (resolve_at services e)) rs (Ok v) = Ok v' \<and> val_ok v' \<and>
    mset (leaves v') + mset rs = mset (leaves v) + (\<Sum>e\<in>#mset rs. connection_leaves services e)"
  using assms
proof (induction rs arbitrary: v)
  case (Cons e rs)
  obtain p w where e: "e = (p, w)" by fastforce
  have p: "p = butlast p @ [Key m]" using Cons.prems(6) by (metis append_butlast_last_id e fst_conv list.set_intros(1))
  have pn: "Key ''connection'' \<notin> set (butlast p)" using Cons.prems(6) by (auto simp: e dest: in_set_butlastD)
  have leaf: "(butlast p @ [Key m], w) \<in> set (leaves v)" using Cons.prems(3) p by (simp add: e)
  have ok: "val_ok (service_of services w)" using Cons.prems(4) by (simp add: service_of_def split: pyval.split)
  have free: "(butlast p @ Key ''connection'' # r, u) \<notin> set (leaves v)" for r u using Cons.prems(6) by (simp add: e del: leaves.simps)
  obtain v1 where v1: "resolve_at services e v = Ok v1" "val_ok v1"
    "mset (leaves v1) + {#e#} = mset (leaves v) + connection_leaves services e"
    using rename_leaf [OF Cons.prems(1) leaf ok, of "''connection''"] free Cons.prems(5) p
    unfolding e resolve_at_def connection_leaves_def prod.case by (metis last_snoc list.distinct(1))
  have sub: "set rs \<subseteq> set (leaves v1)"
  proof
    fix x assume x: "x \<in> set rs"
    then have "x \<noteq> e" using Cons.prems(2) by force
    moreover have "x \<in># mset (leaves v)" using x Cons.prems(3) by auto
    then have "x \<in># mset (leaves v1) + {#e#}" unfolding v1(3) by simp
    ultimately show "x \<in> set (leaves v1)" by simp
  qed
  have rest: "\<forall>x\<in>set rs. fst x \<noteq> [] \<and> last (fst x) = Key m \<and> Key ''connection'' \<notin> set (fst x) \<and>
      (\<forall>r u. (butlast (fst x) @ Key ''connection'' # r, u) \<notin> set (leaves v1))"
  proof (intro ballI conjI allI)
    fix x assume x: "x \<in> set rs"
    then show "fst x \<noteq> []" "last (fst x) = Key m" "Key ''connection'' \<notin> set (fst x)" using Cons.prems(6) by auto
    then have xp: "fst x = butlast (fst x) @ [Key m]" and xn: "Key ''connection'' \<notin> set (butlast (fst x))"
      by (metis append_butlast_last_id, meson in_set_butlastD)
    fix r u
    show "(butlast (fst x) @ Key ''connection'' # r, u) \<notin> set (leaves v1)"
    proof
      assume "(butlast (fst x) @ Key ''connection'' # r, u) \<in> set (leaves v1)"
      then have "(butlast (fst x) @ Key ''connection'' # r, u) \<in># mset (leaves v1) + {#e#}" by simp
      then have "(butlast (fst x) @ Key ''connection'' # r, u) \<in># mset (leaves v) + connection_leaves services e" unfolding v1(3) .
      moreover have "(butlast (fst x) @ Key ''connection'' # r, u) \<notin># mset (leaves v)"
        using Cons.prems(6) x by (simp del: leaves.simps)
      ultimately have "(butlast (fst x) @ Key ''connection'' # r, u) \<in># connection_leaves services e" by simp
      then obtain r' where "butlast (fst x) @ Key ''connection'' # r = (butlast p @ [Key ''connection'']) @ r'"
        unfolding e connection_leaves_def prod.case by (metis in_under fst_conv)
      then have "butlast (fst x) = butlast p" using first_connection [OF _ xn pn, of r r'] by simp
      then have "fst x = p" using xp p by metis
      then show False using Cons.prems(2) x by (force simp: e)
    qed
  qed
  obtain v' where v': "fold (\<lambda>e acc. res_bind acc (resolve_at services e)) rs (Ok v1) = Ok v'" "val_ok v'"
    "mset (leaves v') + mset rs = mset (leaves v1) + (\<Sum>e\<in>#mset rs. connection_leaves services e)"
    using Cons.IH [OF v1(2) _ sub Cons.prems(4,5) rest] Cons.prems(2) by auto
  have "mset (leaves v') + mset (e # rs) = (mset (leaves v1) + {#e#}) + (\<Sum>e\<in>#mset rs. connection_leaves services e)"
    using v'(3) by simp
  also have "\<dots> = mset (leaves v) + (\<Sum>e\<in>#mset (e # rs). connection_leaves services e)" unfolding v1(3) by simp
  finally show ?case using v'(1,2) v1(1) by (intro exI [of _ v']) simp
qed simp


lemma resolve_refs_fold:
  assumes "\<forall>(p, w)\<in>set ks. is_text w \<longrightarrow> parse_path (render [] p) = Ok p"
  shows "fold (\<lambda>(path, r) acc. case r of
        VStr s \<Rightarrow> res_bind acc (\<lambda>d. set_nested_key d path (Some ''connection'')
          (if truthy (services (str_upper s)) then services (str_upper s) else VNone))
      | _ \<Rightarrow> acc) (map (\<lambda>(p, w). (render [] p, w)) ks) a =
    fold (\<lambda>e acc. res_bind acc (resolve_at services e)) (filter (\<lambda>(p, w). is_text w) ks) a"
  using assms
proof (induction ks arbitrary: a)
  case (Cons e ks)
  obtain p w where e: "e = (p, w)" by fastforce
  show ?case
  proof (cases w)
    case (VStr s)
    have "(\<lambda>d. set_nested_key d (render [] p) (Some ''connection'') (if truthy (services (str_upper s)) then services (str_upper s) else VNone))
        = resolve_at services e"
      using Cons.prems by (auto simp: set_nested_key_def e VStr resolve_at_def service_of_def intro!: ext)
    then show ?thesis using Cons by (simp add: e VStr)
  qed (use Cons in \<open>simp_all add: e\<close>)
qed simp

definition connected :: "(string \<Rightarrow> 'p pyval) \<Rightarrow> node list \<times> 'p pyval \<Rightarrow> (node list \<times> 'p pyval) multiset" where
  "connected services e = (if reference e then connection_leaves services e else {#e#})"

text \<open>
  C17. Service references are resolved everywhere. In a document with distinct and clean keys that uses the key
  \<open>service_ref\<close> for its references and has no key \<open>connection\<close> yet, the resolution succeeds, each reference that is a text
  gives way to a key \<open>connection\<close> beside it with the configuration of the named service, at any depth and in any list,
  and nothing else changes; the name of a service that does not exist is kept as the connection itself.
\<close>

theorem service_references_resolved:
  assumes "doc_ok d" "clean (VDict d)" "d \<noteq> []" "\<And>n. val_ok (services n)"
    and "list_all (\<lambda>(p, w). Key ''connection'' \<notin> set p) (leaves (VDict d))"
    and "list_all (\<lambda>(p, w). reference (p, w) \<longrightarrow> last p = Key ''service_ref'') (leaves (VDict d))"
  shows "\<exists>v'. resolve_service_refs services (VDict d) = Ok v' \<and> val_ok v' \<and>
    mset (leaves v') = (\<Sum>e\<in>#mset (leaves (VDict d)). connected services e) \<and>
    (truthy (services (str_upper s)) \<or> connection_leaves services (q @ [Key ''service_ref''], VStr s) = {#(q @ [Key ''connection''], VStr s)#})"
proof -
  let ?ls = "leaves (VDict d)"
  let ?rs = "filter reference ?ls"
  have texts: "filter (\<lambda>(p, w). is_text w) (key_steps has_ref (VDict d)) = ?rs"
    unfolding text_keys_are_leaves by (rule filter_cong) (auto simp: reference_def)
  have "\<forall>(p, w)\<in>set (key_steps has_ref (VDict d)). is_text w \<longrightarrow> parse_path (render [] p) = Ok p"
  proof (intro ballI, clarify)
    fix p w assume "(p, w) \<in> set (key_steps has_ref (VDict d))" "is_text w"
    then have "(p, w) \<in> set (filter (\<lambda>(p, w). is_text w) (key_steps has_ref (VDict d)))" by simp
    then have "(p, w) \<in> set ?ls" unfolding texts by simp
    then show "parse_path (render [] p) = Ok p" by (rule parse_leaf [OF assms(2,3)])
  qed
  then have fold: "resolve_service_refs services (VDict d) = fold (\<lambda>e acc. res_bind acc (resolve_at services e)) ?rs (Ok (VDict d))"
    unfolding resolve_service_refs_def find_keys_steps by (subst resolve_refs_fold) (simp_all only: texts)
  have dist: "distinct (map fst ?rs)" using distinct_leaves [OF assms(1)] by (rule distinct_map_filter)
  have sub: "set ?rs \<subseteq> set ?ls" by (rule filter_is_subset)
  have no_conn: "Key ''connection'' \<notin> set (fst e)" if "e \<in> set ?ls" for e
    using assms(5) that by (auto simp: list_all_iff simp del: leaves.simps)
  have shape: "\<forall>e\<in>set ?rs. fst e \<noteq> [] \<and> last (fst e) = Key ''service_ref'' \<and> Key ''connection'' \<notin> set (fst e) \<and>
      (\<forall>r u. (butlast (fst e) @ Key ''connection'' # r, u) \<notin> set ?ls)"
  proof (intro ballI conjI allI notI)
    fix e assume e: "e \<in> set ?rs"
    then show "fst e = [] \<Longrightarrow> False" by (auto simp: reference_def hit_last_def simp del: leaves.simps)
    show "last (fst e) = Key ''service_ref''" using e assms(6) by (auto simp: list_all_iff simp del: leaves.simps)
    show "Key ''connection'' \<in> set (fst e) \<Longrightarrow> False" using no_conn e by (auto simp del: leaves.simps)
    show "(butlast (fst e) @ Key ''connection'' # r, u) \<in> set ?ls \<Longrightarrow> False" for r u using no_conn by force
  qed
  have ne: "''service_ref'' \<noteq> ''connection''" by simp
  obtain v' where v': "resolve_service_refs services (VDict d) = Ok v'" "val_ok v'"
    "mset (leaves v') + mset ?rs = mset ?ls + (\<Sum>e\<in>#mset ?rs. connection_leaves services e)"
    using resolve_all [where services = services, OF assms(1) dist sub assms(4) ne shape] unfolding fold by blast
  have split: "mset ?ls = mset ?rs + filter_mset (\<lambda>e. \<not> reference e) (mset ?ls)"
    by (simp only: mset_filter multiset_partition [symmetric])
  have "(\<Sum>e\<in>#mset ?ls. connected services e) = (\<Sum>e\<in>#mset ?rs. connected services e) +
      (\<Sum>e\<in>#filter_mset (\<lambda>e. \<not> reference e) (mset ?ls). connected services e)"
    by (subst split) (simp only: image_mset_union sum_mset.union)
  also have "(\<Sum>e\<in>#mset ?rs. connected services e) = (\<Sum>e\<in>#mset ?rs. connection_leaves services e)"
    by (intro arg_cong [where f = sum_mset] image_mset_cong) (simp add: connected_def del: leaves.simps)
  also have "(\<Sum>e\<in>#filter_mset (\<lambda>e. \<not> reference e) (mset ?ls). connected services e) =
      (\<Sum>e\<in>#filter_mset (\<lambda>e. \<not> reference e) (mset ?ls). {#e#})"
    by (intro arg_cong [where f = sum_mset] image_mset_cong) (simp add: connected_def del: leaves.simps)
  also have "(\<Sum>e\<in>#filter_mset (\<lambda>e. \<not> reference e) (mset ?ls). {#e#}) = filter_mset (\<lambda>e. \<not> reference e) (mset ?ls)"
    by (simp only: sum_mset_singleton_mset image_mset.identity id_apply)
  finally have f: "(\<Sum>e\<in>#mset ?ls. connected services e) =
      (\<Sum>e\<in>#mset ?rs. connection_leaves services e) + filter_mset (\<lambda>e. \<not> reference e) (mset ?ls)" .
  have "(\<Sum>e\<in>#mset ?ls. connected services e) + mset ?rs =
      (mset ?rs + filter_mset (\<lambda>e. \<not> reference e) (mset ?ls)) + (\<Sum>e\<in>#mset ?rs. connection_leaves services e)"
    unfolding f by (simp only: ac_simps)
  also have "\<dots> = mset (leaves v') + mset ?rs" unfolding v'(3) split [symmetric] ..
  finally have "mset (leaves v') = (\<Sum>e\<in>#mset ?ls. connected services e)" by simp
  moreover have "truthy (services (str_upper s)) \<or>
      connection_leaves services (q @ [Key ''service_ref''], VStr s) = {#(q @ [Key ''connection''], VStr s)#}"
    by (simp add: connection_leaves_def service_of_def under_def)
  ultimately show ?thesis using v' by blast
qed

theorem service_references_resolved_witness:
  "\<exists>v' :: unit pyval. resolve_service_refs (\<lambda>n. if n = ''DB'' then VDict [(''type'', VStr ''database'')] else VNone)
      (VDict [(''source'', VDict [(''service_ref'', VStr ''db'')]), (''hooks'', VList [VDict [(''service_ref'', VStr ''s3'')]])]) = Ok v' \<and>
    mset (leaves v') = {#([Key ''source'', Key ''connection'', Key ''type''], VStr ''database''),
      ([Key ''hooks'', Idx 0, Key ''connection''], VStr ''s3'')#}"
proof -
  let ?d = "[(''source'', VDict [(''service_ref'', VStr ''db'')]), (''hooks'', VList [VDict [(''service_ref'', VStr ''s3'')]])] :: unit pydict"
  let ?svc = "\<lambda>n. if n = ''DB'' then VDict [(''type'', VStr ''database'')] else VNone :: unit pyval"
  have 1: "doc_ok ?d" "clean (VDict ?d)" "?d \<noteq> []" by (simp_all add: clean_key_def)
  have 2: "val_ok (?svc n)" for n by simp
  have l: "leaves (VDict ?d) = [([Key ''source'', Key ''service_ref''], VStr ''db''), ([Key ''hooks'', Idx 0, Key ''service_ref''], VStr ''s3'')]"
    by simp
  have u: "char_upper (CHR ''d'') = CHR ''D''" "char_upper (CHR ''b'') = CHR ''B''" "char_upper (CHR ''s'') = CHR ''S''" by code_simp+
  have r: "has_ref ''service_ref''" by code_simp
  have 3: "list_all (\<lambda>(p, w). Key ''connection'' \<notin> set p) (leaves (VDict ?d))" unfolding l by simp
  have 4: "list_all (\<lambda>(p, w). reference (p, w) \<longrightarrow> last p = Key ''service_ref'') (leaves (VDict ?d))" unfolding l by simp
  have c: "connected ?svc ([Key ''source'', Key ''service_ref''], VStr ''db'') = {#([Key ''source'', Key ''connection'', Key ''type''], VStr ''database'')#}"
    "connected ?svc ([Key ''hooks'', Idx 0, Key ''service_ref''], VStr ''s3'') = {#([Key ''hooks'', Idx 0, Key ''connection''], VStr ''s3'')#}"
    by (simp_all add: connected_def reference_def hit_last_def r connection_leaves_def service_of_def u under_def)
  from service_references_resolved [where services = ?svc and s = "[]" and q = "[]", OF 1 2 3 4]
  show ?thesis unfolding l by (elim exE conjE) (rule exI, rule conjI, assumption, simp add: c)
qed



section \<open>Precedence\<close>

definition lowered :: "'p pydict \<Rightarrow> 'p pydict" where
  "lowered defaults = fold (\<lambda>(k, v) m. dict_put (str_lower k) v m) defaults []"




section \<open>Step ids\<close>

lemma generated_id_inj:
  assumes "generated_id s ds m = generated_id s' ds m'" "CHR ''_'' \<notin> set s" "CHR ''_'' \<notin> set s'" "0 < m" "0 < m'"
  shows "s = s' \<and> m = m'"
proof -
  have stop: "takeWhile (\<lambda>c. c \<noteq> CHR ''_'') (generated_id s ds m) = s" if "CHR ''_'' \<notin> set s" for s m
    using that by (induction s) (auto simp: generated_id_def)
  have s: "s = s'" using stop [OF assms(2), of m] stop [OF assms(3), of m'] assms(1) by simp
  have no: "CHR ''_'' \<notin> set (show_nat n)" for n by (rule not_digit_in_show) (simp add: is_digit_def)
  have "ds @ ''_data'' \<noteq> show_nat n" for n using no [of n] by (metis append_is_Nil_conv in_set_conv_decomp append.assoc append_Cons)
  then have "m = m'" using assms(1) unfolding s generated_id_def by (auto simp: show_nat_inj split: if_splits dest: sym)
  then show ?thesis using s by simp
qed


lemma update_keeps_keys:
  assumes "update_at (replace_key n None x) ns (VDict d) = Ok v"
  shows "\<exists>d'. v = VDict d' \<and> fst ` set d' = fst ` set d"
proof (cases ns)
  case Nil
  then show ?thesis using assms
    by (auto simp: replace_key_def dict_keys_put dict_keys_del split: node.splits option.splits dest!: map_of_SomeD; force)
next
  case (Cons m ms)
  then obtain w u where "item_at (VDict d) m = Ok w" "put_item (VDict d) m u = Ok v"
    using assms by (auto simp: res_bind_Ok_iff)
  then show ?thesis by (cases m) (force simp: dict_keys_put split: option.splits dest: map_of_SomeD)+
qed

lemma resolve_keeps_keys:
  assumes "resolve_strings absolute E (VDict d) = Ok v"
  shows "\<exists>d'. v = VDict d' \<and> fst ` set d' = fst ` set d"
proof (cases "d = []")
  case True
  then show ?thesis using assms by (simp add: resolve_strings_def)
next
  case False
  have keep: "\<exists>d'. v = VDict d' \<and> fst ` set d' = fst ` set e"
    if "fold (\<lambda>(p, s) acc. res_bind acc (\<lambda>d. if absolute s = s then Ok d else set_nested_key d p None (VStr (absolute s)))) es (Ok (VDict e)) = Ok v"
    for es and e :: "'a pydict"
    using that
  proof (induction es arbitrary: e)
    case (Cons x es)
    obtain p s where x: "x = (p, s)" by fastforce
    have err: "fold (\<lambda>(p, s) acc. res_bind acc (\<lambda>d. if absolute s = s then Ok d else set_nested_key d p None (VStr (absolute s)))) es (Err z :: 'a pyval res) = Err z" for z
      by (induction es) auto
    show ?case
    proof (cases "absolute s = s")
      case True
      then show ?thesis using Cons x by simp
    next
      case False
      then obtain u where u: "set_nested_key (VDict e) p None (VStr (absolute s)) = Ok u"
        using Cons.prems err by (cases "set_nested_key (VDict e) p None (VStr (absolute s))") (auto simp: x)
      then obtain ns where "update_at (replace_key (last ns) None (VStr (absolute s))) (butlast ns) (VDict e) = Ok u"
        by (auto simp: set_nested_key_def res_bind_Ok_iff)
      then obtain e' where "u = VDict e'" "fst ` set e' = fst ` set e" using update_keeps_keys by blast
      then show ?thesis using Cons.IH [of e'] Cons.prems u False by (simp add: x)
    qed
  qed auto
  have "fold (\<lambda>(p, s) acc. res_bind acc (\<lambda>d. if absolute s = s then Ok d else set_nested_key d p None (VStr (absolute s))))
      (path_entries (render_value E (VDict d))) (Ok (VDict (map (\<lambda>(k, v). (k, render_value E v)) d))) = Ok v"
    using assms False by (simp add: resolve_strings_def absolutize_def)
  from keep [OF this] show ?thesis by (simp add: image_image case_prod_beta')
qed

lemma generated_ids:
  assumes "build_steps B dataset final counts ctx raws = Ok bs"
    and "list_all (\<lambda>r. case r of VDict d \<Rightarrow> dict_get d ''id'' = None | _ \<Rightarrow> False) raws"
  shows "\<exists>ns. length ns = length bs \<and> map bs_id bs = map (\<lambda>(b, n). generated_id (bs_stage b) dataset n) (zip bs ns) \<and>
    distinct (zip (map bs_stage bs) ns) \<and>
    (\<forall>(b, n)\<in>set (zip bs ns). (case dict_get counts (bs_stage b) of None \<Rightarrow> 0 | Some m \<Rightarrow> m) < n)"
  using assms
proof (induction raws arbitrary: counts ctx bs)
  case (Cons r raws)
  obtain d where r: "r = VDict d" "dict_get d ''id'' = None" using Cons.prems(2) by (cases r) auto
  let ?at = "\<lambda>c s. case dict_get c s of None \<Rightarrow> 0 | Some m \<Rightarrow> (m::nat)"
  obtain stage v where v: "stage_name d = Ok stage" "resolve_in B ctx (VDict d) = Ok v"
    using Cons.prems(1) by (auto simp: r res_bind_Ok_iff)
  obtain d' where d': "v = VDict d'" "fst ` set d' = fst ` set d"
    using resolve_keeps_keys v(2) unfolding resolve_in_def by blast
  then have "dict_get d' ''id'' = None" using r(2) by (simp add: map_of_eq_None_iff)
  then have sid: "step_id_of d' stage dataset n = Ok (generated_id stage dataset n)" for n
    by (simp add: step_id_of_def opt_def)
  let ?n = "Suc (?at counts stage)"
  obtain b more ctx1 where b: "bs = b # more" "bs_stage b = stage" "bs_id b = generated_id stage dataset ?n"
    "build_steps B dataset final (dict_put stage ?n counts) ctx1 raws = Ok more"
    using Cons.prems(1) v d'(1) sid by (auto simp: r res_bind_Ok_iff Let_def)
  obtain ns where ns: "length ns = length more" "map bs_id more = map (\<lambda>(b, n). generated_id (bs_stage b) dataset n) (zip more ns)"
    "distinct (zip (map bs_stage more) ns)" "\<forall>(b, n)\<in>set (zip more ns). ?at (dict_put stage ?n counts) (bs_stage b) < n"
    using Cons.IH [OF b(4)] Cons.prems(2) by auto
  have "(stage, ?n) \<notin> set (zip (map bs_stage more) ns)"
  proof
    assume "(stage, ?n) \<in> set (zip (map bs_stage more) ns)"
    then obtain b' where "(b', ?n) \<in> set (zip more ns)" "bs_stage b' = stage" by (auto simp: zip_map1)
    then show False using ns(4) by (force simp: dict_simps)
  qed
  moreover have "\<forall>(b, n)\<in>set (zip more ns). ?at counts (bs_stage b) < n"
    using ns(4) by (auto simp: dict_simps split: if_splits)
  ultimately show ?case using ns b(1-3) by (intro exI [of _ "?n # ns"]) auto
qed simp

text \<open>
  C19. Generated step ids are unambiguous. When no step has an id of its own and no stage name contains an underscore, the ids
  the builder generates are distinct and none is \<open>start\<close>, so the plan of the run is well formed whatever the dataset is
  called.
\<close>

theorem generated_ids_distinct:
  assumes "build_steps B dataset final [] ctx raws = Ok bs"
    and "list_all (\<lambda>r. case r of VDict d \<Rightarrow> dict_get d ''id'' = None | _ \<Rightarrow> False) raws"
    and "list_all (\<lambda>b. CHR ''_'' \<notin> set (bs_stage b)) bs"
  shows "distinct (map bs_id bs) \<and> ''start'' \<notin> set (map bs_id bs)"
proof -
  obtain ns where ns: "length ns = length bs" "map bs_id bs = map (\<lambda>(b, n). generated_id (bs_stage b) dataset n) (zip bs ns)"
    "distinct (zip (map bs_stage bs) ns)" "\<forall>(b, n)\<in>set (zip bs ns). 0 < n"
    using generated_ids [OF assms(1,2)] by auto
  let ?z = "zip (map bs_stage bs) ns"
  have ids: "map bs_id bs = map (\<lambda>(s, n). generated_id s dataset n) ?z"
    unfolding ns(2) by (simp add: zip_map1 o_def case_prod_beta')
  have z: "CHR ''_'' \<notin> set s \<and> 0 < n" if "(s, n) \<in> set ?z" for s n
    using that assms(3) ns(4) by (auto simp: zip_map1 list_all_iff dest: set_zip_leftD)
  have "inj_on (\<lambda>(s, n). generated_id s dataset n) (set ?z)"
    using z generated_id_inj by (fastforce intro!: inj_onI)
  then have "distinct (map bs_id bs)" unfolding ids using ns(3) by (simp add: distinct_map)
  moreover have "generated_id s dataset n \<noteq> ''start''" for s n
  proof -
    have "CHR ''_'' \<in> set (generated_id s dataset n)" by (simp add: generated_id_def)
    then show ?thesis by (auto simp: split: if_splits)
  qed
  then have "''start'' \<notin> set (map bs_id bs)" unfolding ids by force
  ultimately show ?thesis by blast
qed


definition demo_builder :: "(unit, unit, unit) builder" where
  "demo_builder = \<lparr>bd_absolute = (\<lambda>s. s), bd_env = (\<lambda>_. None), bd_text = (\<lambda>v. case v of VStr s \<Rightarrow> s | _ \<Rightarrow> []), bd_eval = (\<lambda>_ _. None),
     bd_services = (\<lambda>_. VNone), bd_convert = (\<lambda>_ _. Ok ()), bd_hook = (\<lambda>_. Ok ()),
     bd_clock = \<lparr>ck_parse = (\<lambda>s. Ok s), ck_shifted = (\<lambda>_ _ _ _ _. ''2024-01-01'')\<rparr>,
     bd_now = (''2024'', ''01'', ''02''), bd_timezone = None, bd_workspace = ''ws'', bd_run_id = ''r1''\<rparr>"

definition archive_steps :: "unit pyval list" where
  "archive_steps = [VDict [(''call'', VStr ''Archive'')], VDict [(''stage'', VStr ''notify'')], VDict [(''call'', VStr ''archive'')]]"

lemma archive_build: "(case build_steps demo_builder ''2'' [] [] [] archive_steps of Inl e \<Rightarrow> [] | Inr bs \<Rightarrow> map (\<lambda>b. (bs_id b, bs_stage b)) bs) =
    [(''archive_2_data'', ''archive''), (''notify_2_data'', ''notify''), (''archive_2'', ''archive'')]"
  by (simp only: archive_steps_def) code_simp

theorem generated_ids_distinct_witness:
  "distinct [''archive_2_data'', ''notify_2_data'', ''archive_2'']"
proof -
  obtain bs where b: "build_steps demo_builder ''2'' [] [] [] archive_steps = Ok bs"
    "map (\<lambda>b. (bs_id b, bs_stage b)) bs = [(''archive_2_data'', ''archive''), (''notify_2_data'', ''notify''), (''archive_2'', ''archive'')]"
    using archive_build by (cases "build_steps demo_builder ''2'' [] [] [] archive_steps") auto
  have ids: "map bs_id bs = [''archive_2_data'', ''notify_2_data'', ''archive_2'']"
    using arg_cong [OF b(2), of "map fst"] by (simp add: o_def)
  have stages: "map bs_stage bs = [''archive'', ''notify'', ''archive'']"
    using arg_cong [OF b(2), of "map snd"] by (simp add: o_def)
  have 1: "list_all (\<lambda>r. case r of VDict d \<Rightarrow> dict_get d ''id'' = None | _ \<Rightarrow> False) archive_steps"
    by (simp add: archive_steps_def)
  have "list_all (\<lambda>s. CHR ''_'' \<notin> set s) (map bs_stage bs)" unfolding stages by simp
  then have 2: "list_all (\<lambda>b. CHR ''_'' \<notin> set (bs_stage b)) bs" by (simp add: list_all_iff)
  show ?thesis using generated_ids_distinct [OF b(1) 1 2] unfolding ids by blast
qed


section \<open>Overrides\<close>

lemma context_overrides_get:
  assumes "overrides \<noteq> []" "dict_ok (case dict_get overrides ds of None \<Rightarrow> [] | Some d \<Rightarrow> d)"
  shows "dict_get (context_overrides overrides ds) k =
    (case Option.bind (dict_get overrides ds) (\<lambda>d. dict_get d k) of Some v \<Rightarrow> Some v
     | None \<Rightarrow> Option.bind (dict_get overrides ''_global'') (\<lambda>d. dict_get d k))"
proof -
  have f: "dict_get (fold (\<lambda>(k, v) d. dict_put k v d) xs d) k = (case dict_get xs k of Some v \<Rightarrow> Some v | None \<Rightarrow> dict_get d k)"
    if "dict_ok xs" for xs and d :: "'a pydict"
    using that
  proof (induction xs arbitrary: d)
    case (Cons x xs)
    obtain a b where x: "x = (a, b)" by fastforce
    then have "dict_get xs a = None" using Cons.prems by (simp add: map_of_eq_None_iff)
    then show ?case using Cons by (auto simp: x dict_simps split: option.split)
  qed simp
  show ?thesis using assms
    by (auto simp: context_overrides_def Let_def f split: option.splits)
qed

text \<open>
  C20. Command line overrides are only recorded. Whatever overrides are given, the context that is built has the same
  steps, configurations, hooks, boundaries and settings; the overrides appear in its record of overrides alone,
  where a dataset's own entry wins over a global one.
\<close>

theorem overrides_only_recorded:
  assumes "build_dataset_context B job ds pdate merged raw_job run overrides = Ok b"
  shows "build_dataset_context B job ds pdate merged raw_job run overrides' = Ok (b\<lparr>bt_overrides := context_overrides overrides' ds\<rparr>) \<and>
    (overrides \<noteq> [] \<and> dict_ok (case dict_get overrides ds of None \<Rightarrow> [] | Some d \<Rightarrow> d) \<longrightarrow>
      dict_get (bt_overrides b) k = (case Option.bind (dict_get overrides ds) (\<lambda>d. dict_get d k) of Some v \<Rightarrow> Some v
        | None \<Rightarrow> Option.bind (dict_get overrides ''_global'') (\<lambda>d. dict_get d k)))"
proof -
  have "bt_overrides b = context_overrides overrides ds"
    using assms by (auto simp: build_dataset_context_def Let_def res_bind_Ok_iff)
  moreover have "build_dataset_context B job ds pdate merged raw_job run overrides' = Ok (b\<lparr>bt_overrides := context_overrides overrides' ds\<rparr>)"
    using assms by (auto simp: build_dataset_context_def Let_def res_bind_Ok_iff)
  ultimately show ?thesis using context_overrides_get [of overrides ds k] by simp
qed


lemma demo_context:
  "\<exists>b. build_dataset_context demo_builder ''j'' ''ds'' [] [] [] None [] = Ok b"
proof -
  have "(case build_dataset_context demo_builder ''j'' ''ds'' [] [] [] None [] of Inl e \<Rightarrow> False | Inr b \<Rightarrow> True) = True" by code_simp
  then show ?thesis by (auto split: sum.splits)
qed

theorem overrides_only_recorded_witness:
  "\<exists>b b'. build_dataset_context demo_builder ''j'' ''ds'' [] [] [] None [] = Ok b \<and>
    build_dataset_context demo_builder ''j'' ''ds'' [] [] [] None (parse_cli_overrides [''mode=delta'', ''ds:mode = cdc'', ''junk'']) = Ok b' \<and>
    bt_overrides b' = [(''mode'', VStr ''cdc'')] \<and> bt_mode b' = bt_mode b"
proof -
  obtain b where b: "build_dataset_context demo_builder ''j'' ''ds'' [] [] [] None [] = Ok b" using demo_context by blast
  let ?o = "parse_cli_overrides [''mode=delta'', ''ds:mode = cdc'', ''junk''] :: (string, unit pydict) dict"
  have o: "context_overrides ?o ''ds'' = [(''mode'', VStr ''cdc'')]" by code_simp
  from overrides_only_recorded [OF b, of ?o] b show ?thesis by (auto simp: o)
qed

end
